(* ===== verification/Prelude.thy ===== *)
theory Prelude
  imports Main "HOL-Library.Word"
begin

unbundle bit_operations_syntax

text \<open>
  The vocabulary every component shares: the machine integers of the 32-bit kernel as words,
  the error numbers of \<open>errno.h\<close>, the error pointers of \<open>err.h\<close>, the outcomes of code that
  can fault, and generic lemmas on lists, words and maps with the collections the component
  theories add their facts to.
\<close>

section \<open>Machine integers and pointers\<close>

type_synonym u8 = "8 word"
type_synonym u16 = "16 word"
type_synonym u32 = "32 word"

text \<open>
  A pointer is its 32-bit address; \<open>0\<close> is \<open>NULL\<close>.  A C function that returns a status
  (\<open>int32_t\<close>, zero or a positive count on success, a negated error number on failure) returns
  an \<open>int\<close> here.
\<close>

type_synonym ptr = u32

definition s32 :: "u32 \<Rightarrow> int" where
  "s32 w = sint w"

definition of_s32 :: "int \<Rightarrow> u32" where
  "of_s32 i = word_of_int i"

text \<open>A value stored in an \<open>int16_t\<close>.\<close>

definition wrap16 :: "int \<Rightarrow> int" where
  "wrap16 x = (x + 32768) mod 65536 - 32768"

section \<open>Error numbers\<close>

abbreviation (input) EPERM :: int where "EPERM \<equiv> 1"
abbreviation (input) ENOENT :: int where "ENOENT \<equiv> 2"
abbreviation (input) ESRCH :: int where "ESRCH \<equiv> 3"
abbreviation (input) EINTR :: int where "EINTR \<equiv> 4"
abbreviation (input) EIO :: int where "EIO \<equiv> 5"
abbreviation (input) ENXIO :: int where "ENXIO \<equiv> 6"
abbreviation (input) EBADF :: int where "EBADF \<equiv> 9"
abbreviation (input) ECHILD :: int where "ECHILD \<equiv> 10"
abbreviation (input) ENOMEM :: int where "ENOMEM \<equiv> 12"
abbreviation (input) EFAULT :: int where "EFAULT \<equiv> 14"
abbreviation (input) EBUSY :: int where "EBUSY \<equiv> 16"
abbreviation (input) EEXIST :: int where "EEXIST \<equiv> 17"
abbreviation (input) ENOTDIR :: int where "ENOTDIR \<equiv> 20"
abbreviation (input) EISDIR :: int where "EISDIR \<equiv> 21"
abbreviation (input) EINVAL :: int where "EINVAL \<equiv> 22"
abbreviation (input) ENFILE :: int where "ENFILE \<equiv> 23"
abbreviation (input) ENOTTY :: int where "ENOTTY \<equiv> 25"
abbreviation (input) ESPIPE :: int where "ESPIPE \<equiv> 29"
abbreviation (input) EROFS :: int where "EROFS \<equiv> 30"
abbreviation (input) ENOSYS :: int where "ENOSYS \<equiv> 38"
abbreviation (input) ENOTSOCK :: int where "ENOTSOCK \<equiv> 88"
abbreviation (input) ELOOP :: int where "ELOOP \<equiv> 40"

definition MAX_ERRNO :: int where
  "MAX_ERRNO = 133"

section \<open>Error pointers\<close>

text \<open>
  \<open>err.h\<close> encodes a failure in a pointer: the last \<open>MAX_ERRNO\<close> addresses are error numbers.
\<close>

definition ERR_PTR :: "int \<Rightarrow> ptr" where
  "ERR_PTR err = of_s32 err"

definition PTR_ERR :: "ptr \<Rightarrow> int" where
  "PTR_ERR p = s32 p"

definition IS_ERR :: "ptr \<Rightarrow> bool" where
  "IS_ERR p \<longleftrightarrow> of_s32 (- MAX_ERRNO) \<le> p"

definition IS_ERR_OR_NULL :: "ptr \<Rightarrow> bool" where
  "IS_ERR_OR_NULL p \<longleftrightarrow> p = 0 \<or> of_s32 (- MAX_ERRNO) \<le> p"

section \<open>Outcomes\<close>

text \<open>
  Some code does not return: \<open>panic\<close> and \<open>BUG\<close> halt the machine, a wild access faults, and a
  loop may run for ever.  Where a model has such a branch its result is an outcome.
\<close>

datatype 'a outcome =
    Done 'a
  | Panic \<comment> \<open>\<open>panic\<close> or \<open>BUG\<close>\<close>
  | Wild  \<comment> \<open>undefined behaviour: an access outside the object or through \<open>NULL\<close>, an oversized shift\<close>
  | Hang  \<comment> \<open>a loop that makes no progress\<close>

fun and_then :: "'a outcome \<Rightarrow> ('a \<Rightarrow> 'b outcome) \<Rightarrow> 'b outcome" where
  "and_then (Done x) f = f x"
| "and_then Panic f = Panic"
| "and_then Wild f = Wild"
| "and_then Hang f = Hang"

fun map_outcome_fst :: "('a \<Rightarrow> 'b) \<Rightarrow> 'a outcome \<Rightarrow> 'b outcome" where
  "map_outcome_fst f (Done x) = Done (f x)"
| "map_outcome_fst f Panic = Panic"
| "map_outcome_fst f Wild = Wild"
| "map_outcome_fst f Hang = Hang"

fun returns :: "'a outcome \<Rightarrow> bool" where
  "returns (Done x) = True"
| "returns Panic = False"
| "returns Wild = False"
| "returns Hang = False"

lemma and_then_Done_iff: "and_then m f = Done y \<longleftrightarrow> (\<exists>x. m = Done x \<and> f x = Done y)"
  by (cases m) auto

lemma returns_iff: "returns m \<longleftrightarrow> (\<exists>x. m = Done x)"
  by (cases m) auto

section \<open>Allocation\<close>

text \<open>
  Where a function allocates, the model is given the answers of \<open>kmalloc\<close>: a list with one entry
  per call, \<open>False\<close> for out of memory.  Past its end every call succeeds, so \<open>[]\<close> is a run in which
  memory does not run out.
\<close>

type_synonym answers = "bool list"

fun kmalloc :: "answers \<Rightarrow> bool \<times> answers" where
  "kmalloc [] = (True, [])"
| "kmalloc (b # bs) = (b, bs)"

section \<open>Poll events\<close>

definition POLLIN :: u16 where "POLLIN = 1"
definition POLLOUT :: u16 where "POLLOUT = 4"
definition POLLNVAL :: u16 where "POLLNVAL = 32"

section \<open>Collections\<close>

named_theorems frame_simps \<open>what an operation leaves unchanged\<close>
named_theorems inv_intros \<open>an operation keeps the component's invariant\<close>

section \<open>Words\<close>

lemma unat_lt_size32: "unat (x :: u32) < 4294967296"
  using unsigned_less [of x] by simp

lemma unat_lt_size16: "unat (x :: u16) < 65536"
  using unsigned_less [of x] by simp

lemma unat_lt_size8: "unat (x :: u8) < 256"
  using unsigned_less [of x] by simp

lemma unat_add_small:
  fixes x y :: "'a::len word"
  assumes "unat x + unat y < 2 ^ LENGTH('a)"
  shows "unat (x + y) = unat x + unat y"
  using assms by (simp add: unat_word_ariths)

lemma unat_sub_le:
  fixes x y :: "'a::len word"
  assumes "y \<le> x"
  shows "unat (x - y) = unat x - unat y"
  using assms by (simp add: unat_sub)

lemma unat_suc_small:
  fixes x :: "'a::len word"
  assumes "Suc (unat x) < 2 ^ LENGTH('a)"
  shows "unat (x + 1) = Suc (unat x)"
proof -
  have "(1::nat) < 2 ^ LENGTH('a)" using assms by simp
  then have "unat (1 :: 'a word) = 1" by simp
  with assms show ?thesis by (simp add: unat_word_ariths)
qed

lemma unat_exp:
  assumes "k < LENGTH('a::len)"
  shows "unat (2 ^ k :: 'a word) = 2 ^ k"
proof -
  have "(2 ^ k :: 'a word) = of_nat (2 ^ k)" by simp
  moreover have "(2::nat) ^ k < 2 ^ LENGTH('a)" using assms by (rule power_strict_increasing) simp
  ultimately show ?thesis by (simp only: unat_of_nat mod_less)
qed

text \<open>The measure of a loop that counts an unsigned index up to a bound.\<close>

lemma word_up_measure:
  fixes i n :: "'a::len word"
  shows "i < n \<Longrightarrow> unat (n - (i + 1)) < unat (n - i)"
  by (metis (no_types, lifting) add_diff_eq diff_add_cancel diff_diff_eq measure_unat
      right_minus_eq less_irrefl)

lemma word_up_count:
  fixes i n :: "'a::len word"
  assumes "i < n"
  shows "unat (n - i) = Suc (unat (n - (i + 1)))"
proof -
  have nz: "n - i \<noteq> 0" using assms by auto
  then have "unat (n - i - 1) = unat (n - i) - 1" by (rule unat_minus_one)
  moreover from nz have "0 < unat (n - i)" by (simp only: unat_gt_0 not_False_eq_True)
  ultimately show ?thesis by (simp only: diff_diff_eq)
qed

lemma s32_of_nat:
  assumes "n < 2147483648"
  shows "s32 (word_of_nat n) = int n"
proof -
  have "s32 (word_of_nat n) = signed_take_bit (LENGTH(32) - 1) (int n)" by (simp add: s32_def signed_of_nat)
  also have "\<dots> = int n" using assms by (intro signed_take_bit_int_eq_self) simp_all
  finally show ?thesis .
qed

lemma unat_word_small: "n < 4294967296 \<Longrightarrow> unat (word_of_nat n :: u32) = n"
  by (simp add: unat_of_nat)

lemma u32_div: "unat (word_of_nat a div word_of_nat b :: u32) = a div b" if "a < 2 ^ 32" "b < 2 ^ 32"
  using that by (simp add: unat_div unat_of_nat)

lemma u32_div_word: "(word_of_nat a div word_of_nat b :: u32) = word_of_nat (a div b)" if "a < 2 ^ 32" "b < 2 ^ 32"
proof -
  have "a div b < 2 ^ 32" using that(1) by (meson div_le_dividend le_less_trans)
  with u32_div [OF that] show ?thesis by (intro word_unat_eq_iff [THEN iffD2]) (simp add: unat_of_nat)
qed

lemma and_low_mask: "unat (w AND 0x0F :: u8) = unat w mod 16"
proof -
  have "w AND 0x0F = take_bit 4 w" by (simp add: take_bit_eq_mask mask_eq_exp_minus_1)
  then show ?thesis by (simp add: take_bit_eq_mod unat_mod)
qed

section \<open>Lists\<close>

lemma filter_neq_notin: "v \<notin> set xs \<Longrightarrow> filter (\<lambda>x. x \<noteq> v) xs = xs"
  by (induction xs) auto

lemma map_cong_except:
  assumes "a \<notin> set xs" and "\<And>x. x \<noteq> a \<Longrightarrow> f x = g x"
  shows "map f xs = map g xs"
proof (rule map_cong [OF refl])
  fix x
  assume "x \<in> set xs"
  with assms(1) have "x \<noteq> a" by blast
  then show "f x = g x" by (rule assms(2))
qed

lemma mid_in_set:
  "x \<in> set (xs @ x # ys)" "y \<in> set (xs @ x # y # ys)" "z \<in> set (xs @ x # y # z # ys)"
  by simp_all

lemma set_upd_subset: "set (xs[i := v]) \<subseteq> insert v (set xs)"
  by (rule set_update_subset_insert)

end
