(* ===== verification/Strings.thy ===== *)
theory Strings
  imports Prelude
begin

text \<open>
  \<open>lib/string.c\<close> and \<open>lib/stdlib.c\<close> on a flat memory of bytes.  The inline assembly of the block
  operations is modelled loop by loop (the unaligned head, the \<open>rep\<close> instruction on double words,
  the tail), and each operation is proved to be one \<open>store\<close> of a list of bytes.  A function that
  looks for the terminating zero is \<open>None\<close> where it would search for ever.
\<close>

section \<open>Memory\<close>

type_synonym mem = "u32 \<Rightarrow> u8"

text \<open>The bytes from an address on, and writing a list of bytes there; addresses wrap.\<close>

definition bytes :: "mem \<Rightarrow> u32 \<Rightarrow> nat \<Rightarrow> u8 list" where
  "bytes m p n = map (\<lambda>i. m (p + word_of_nat i)) [0..<n]"

fun store :: "mem \<Rightarrow> u32 \<Rightarrow> u8 list \<Rightarrow> mem" where
  "store m p [] = m"
| "store m p (b # bs) = store (m(p := b)) (p + 1) bs"

lemma length_bytes [simp]: "length (bytes m p n) = n"
  by (simp add: bytes_def)

lemma nth_bytes [simp]: "i < n \<Longrightarrow> bytes m p n ! i = m (p + word_of_nat i)"
  by (simp add: bytes_def)

lemma bytes_0 [simp]: "bytes m p 0 = []"
  by (simp add: bytes_def)

lemma bytes_add: "bytes m p (a + b) = bytes m p a @ bytes m (p + word_of_nat a) b"
  by (rule nth_equalityI) (auto simp: nth_append not_less of_nat_diff)

lemma bytes_Suc: "bytes m p (Suc n) = bytes m p n @ [m (p + word_of_nat n)]"
  by (simp add: bytes_def)

lemma store_append:
  "store m p (xs @ ys) = store (store m p xs) (p + word_of_nat (length xs)) ys"
  by (induction xs arbitrary: m p) (simp_all add: algebra_simps)

lemma offset_eq_iff:
  fixes p :: u32
  assumes "i < 2 ^ 32" and "j < 2 ^ 32"
  shows "p + word_of_nat i = p + word_of_nat j \<longleftrightarrow> i = j"
  using assms by (simp add: word_of_nat_eq_iff take_bit_nat_eq_self)

lemma word_of_nat_neq: "k < n \<Longrightarrow> n < 2 ^ 32 \<Longrightarrow> word_of_nat n \<noteq> (word_of_nat k :: u32)"
  by (simp add: word_of_nat_eq_iff take_bit_nat_eq_self)

lemma word_of_nat_inj32:
  "k < 2 ^ 32 \<Longrightarrow> n < 2 ^ 32 \<Longrightarrow> (word_of_nat k :: u32) = word_of_nat n \<longleftrightarrow> k = n"
  using word_of_nat_neq [of k n] word_of_nat_neq [of n k] by (metis linorder_neqE_nat)

lemma store_outside:
  "(\<And>i. i < length bs \<Longrightarrow> q \<noteq> p + word_of_nat i) \<Longrightarrow> store m p bs q = m q"
proof (induction bs arbitrary: m p)
  case (Cons b bs)
  have "q \<noteq> p" using Cons.prems [of 0] by simp
  moreover have "q \<noteq> p + 1 + word_of_nat i" if "i < length bs" for i
    using Cons.prems [of "Suc i"] that by (simp add: algebra_simps)
  ultimately show ?case using Cons.IH [of "p + 1"] by simp
qed simp

lemma store_inside:
  assumes "i < length bs" and "length bs \<le> 2 ^ 32"
  shows "store m p bs (p + word_of_nat i) = bs ! i"
  using assms
proof (induction bs arbitrary: m p i)
  case (Cons b bs)
  show ?case
  proof (cases i)
    case 0
    have "p \<noteq> p + 1 + word_of_nat j" if "j < length bs" for j
    proof -
      have "p + word_of_nat 0 \<noteq> p + word_of_nat (Suc j)"
        using that Cons.prems by (subst offset_eq_iff) auto
      then show ?thesis by (simp add: algebra_simps)
    qed
    then show ?thesis using 0 store_outside [of bs p "p + 1"] by simp
  next
    case (Suc k)
    then have "store (m(p := b)) (p + 1) bs (p + 1 + word_of_nat k) = bs ! k"
      using Cons.prems by (intro Cons.IH) simp_all
    then show ?thesis using Suc by (simp add: add.assoc)
  qed
qed simp

section \<open>Block operations\<close>

text \<open>
  \<open>memset\<close>: bytes until the address is aligned, then \<open>rep stosl\<close> of the byte four times in
  \<open>eax\<close>, then the remaining bytes.  Each loop returns memory, \<open>edi\<close> and the count left.
\<close>

function memset_top :: "u8 \<Rightarrow> mem \<Rightarrow> u32 \<Rightarrow> u32 \<Rightarrow> mem \<times> u32 \<times> u32" where
  "memset_top al m edi ecx =
     (if ecx = 0 \<or> edi AND 3 = 0 then (m, edi, ecx)
      else memset_top al (m(edi := al)) (edi + 1) (ecx - 1))"
  by pat_completeness auto
termination
  by (relation "measure (\<lambda>(al, m, edi, ecx). unat ecx)")
    (auto simp: measure_unat)

declare memset_top.simps [simp del]

definition stosl :: "u32 \<Rightarrow> mem \<Rightarrow> u32 \<Rightarrow> mem" where
  "stosl eax m edi =
     store m edi [ucast eax, ucast (drop_bit 8 eax), ucast (drop_bit 16 eax), ucast (drop_bit 24 eax)]"

fun rep_stosl :: "nat \<Rightarrow> u32 \<Rightarrow> mem \<Rightarrow> u32 \<Rightarrow> mem \<times> u32" where
  "rep_stosl 0 eax m edi = (m, edi)"
| "rep_stosl (Suc ecx) eax m edi = rep_stosl ecx eax (stosl eax m edi) (edi + 4)"

function memset_bottom :: "u8 \<Rightarrow> mem \<Rightarrow> u32 \<Rightarrow> u32 \<Rightarrow> mem" where
  "memset_bottom al m edi edx =
     (if edx = 0 then m else memset_bottom al (m(edi := al)) (edi + 1) (edx - 1))"
  by pat_completeness auto
termination
  by (relation "measure (\<lambda>(al, m, edi, edx). unat edx)")
    (auto simp: measure_unat)

declare memset_bottom.simps [simp del]

definition dup_eax :: "u32 \<Rightarrow> u32" where
  "dup_eax c = (let c = c AND 0xFF in push_bit 24 c OR push_bit 16 c OR push_bit 8 c OR c)"

definition memset :: "mem \<Rightarrow> u32 \<Rightarrow> u32 \<Rightarrow> u32 \<Rightarrow> mem" where
  "memset m s c n = (let
     eax = dup_eax c;
     (m, edi, ecx) = memset_top (ucast eax) m s n
   in if ecx = 0 then m
      else let edx = ecx AND 3;
               (m, edi) = rep_stosl (unat (drop_bit 2 ecx)) eax m edi
           in memset_bottom (ucast eax) m edi edx)"

fun rep_stosw :: "nat \<Rightarrow> u32 \<Rightarrow> mem \<Rightarrow> u32 \<Rightarrow> mem" where
  "rep_stosw 0 eax m edi = m"
| "rep_stosw (Suc ecx) eax m edi =
     rep_stosw ecx eax (store m edi [ucast eax, ucast (drop_bit 8 eax)]) (edi + 2)"

definition memset_word :: "mem \<Rightarrow> u32 \<Rightarrow> u32 \<Rightarrow> u32 \<Rightarrow> mem" where
  "memset_word m s c n = rep_stosw (unat n) c m s"

definition memset_dword :: "mem \<Rightarrow> u32 \<Rightarrow> u32 \<Rightarrow> u32 \<Rightarrow> mem" where
  "memset_dword m s c n = fst (rep_stosl (unat n) c m s)"

text \<open>\<open>memcpy\<close> has the same three loops, reading at \<open>esi\<close>.\<close>

function memcpy_top :: "mem \<Rightarrow> u32 \<Rightarrow> u32 \<Rightarrow> u32 \<Rightarrow> mem \<times> u32 \<times> u32 \<times> u32" where
  "memcpy_top m edi esi ecx =
     (if ecx = 0 \<or> edi AND 3 = 0 then (m, edi, esi, ecx)
      else memcpy_top (m(edi := m esi)) (edi + 1) (esi + 1) (ecx - 1))"
  by pat_completeness auto
termination
  by (relation "measure (\<lambda>(m, edi, esi, ecx). unat ecx)")
    (auto simp: measure_unat)

declare memcpy_top.simps [simp del]

fun rep_movsl :: "nat \<Rightarrow> mem \<Rightarrow> u32 \<Rightarrow> u32 \<Rightarrow> mem \<times> u32 \<times> u32" where
  "rep_movsl 0 m edi esi = (m, edi, esi)"
| "rep_movsl (Suc ecx) m edi esi = rep_movsl ecx (store m edi (bytes m esi 4)) (edi + 4) (esi + 4)"

function memcpy_bottom :: "mem \<Rightarrow> u32 \<Rightarrow> u32 \<Rightarrow> u32 \<Rightarrow> mem" where
  "memcpy_bottom m edi esi edx =
     (if edx = 0 then m else memcpy_bottom (m(edi := m esi)) (edi + 1) (esi + 1) (edx - 1))"
  by pat_completeness auto
termination
  by (relation "measure (\<lambda>(m, edi, esi, edx). unat edx)")
    (auto simp: measure_unat)

declare memcpy_bottom.simps [simp del]

definition memcpy :: "mem \<Rightarrow> u32 \<Rightarrow> u32 \<Rightarrow> u32 \<Rightarrow> mem" where
  "memcpy m dest src n = (let
     (m, edi, esi, ecx) = memcpy_top m dest src n
   in if ecx = 0 then m
      else let edx = ecx AND 3;
               (m, edi, esi) = rep_movsl (unat (drop_bit 2 ecx)) m edi esi
           in memcpy_bottom m edi esi edx)"

text \<open>
  \<open>memmove\<close> is one \<open>rep movsb\<close>, upwards or downwards by the direction flag, which it leaves as it
  set it; the flag is the second result.
\<close>

fun rep_movsb :: "nat \<Rightarrow> u32 \<Rightarrow> mem \<Rightarrow> u32 \<Rightarrow> u32 \<Rightarrow> mem" where
  "rep_movsb 0 delta m edi esi = m"
| "rep_movsb (Suc ecx) delta m edi esi =
     rep_movsb ecx delta (m(edi := m esi)) (edi + delta) (esi + delta)"

definition memmove :: "mem \<Rightarrow> u32 \<Rightarrow> u32 \<Rightarrow> u32 \<Rightarrow> mem \<times> bool" where
  "memmove m dest src n =
     (if dest \<le> src then (rep_movsb (unat n) 1 m dest src, False)
      else (rep_movsb (unat n) (- 1) m (dest + n - 1) (src + n - 1), True))"

section \<open>What the block operations store\<close>

lemma memset_bottom_store:
  "memset_bottom al m edi edx = store m edi (replicate (unat edx) al)"
proof (induction al m edi edx rule: memset_bottom.induct)
  case (1 al m edi edx)
  show ?case
  proof (cases "edx = 0")
    case False
    then have "unat edx = Suc (unat (edx - 1))" by (simp add: unat_minus_one unat_gt_0)
    with 1 False show ?thesis by (subst memset_bottom.simps) (simp add: fun_upd_def)
  qed (simp add: memset_bottom.simps)
qed

lemma memset_top_store:
  "\<exists>k. k \<le> unat ecx \<and> memset_top al m edi ecx =
     (store m edi (replicate k al), edi + word_of_nat k, ecx - word_of_nat k)"
proof (induction al m edi ecx rule: memset_top.induct)
  case (1 al m edi ecx)
  show ?case
  proof (cases "ecx = 0 \<or> edi AND 3 = 0")
    case True
    then show ?thesis by (intro exI [of _ 0]) (simp add: memset_top.simps)
  next
    case False
    then have pos: "unat ecx = Suc (unat (ecx - 1))" by (simp add: unat_minus_one unat_gt_0)
    from 1 False obtain k where k: "k \<le> unat (ecx - 1)"
      "memset_top al (m(edi := al)) (edi + 1) (ecx - 1) =
         (store (m(edi := al)) (edi + 1) (replicate k al), edi + 1 + word_of_nat k,
          ecx - 1 - word_of_nat k)" by (auto simp: fun_upd_def)
    show ?thesis
      using False k pos by (intro exI [of _ "Suc k"]) (simp add: memset_top.simps algebra_simps)
  qed
qed

lemma rep_stosl_store:
  assumes "stosl eax = (\<lambda>m p. store m p [b, b, b, b])"
  shows "rep_stosl k eax m edi = (store m edi (replicate (4 * k) b), edi + 4 * word_of_nat k)"
proof (induction k arbitrary: m edi)
  case (Suc k)
  have split: "replicate (4 * Suc k) b = [b, b, b, b] @ replicate (4 * k) b"
    by (simp add: numeral_eq_Suc)
  have "rep_stosl (Suc k) eax m edi =
      (store (store m edi [b, b, b, b]) (edi + 4) (replicate (4 * k) b), edi + 4 + 4 * word_of_nat k)"
    using Suc assms by (simp del: store.simps)
  then show ?case unfolding split store_append by (simp del: store.simps add: algebra_simps)
qed simp

text \<open>The dword in \<open>eax\<close> is the byte repeated, whatever the upper bits of \<open>c\<close> were.\<close>

lemma dup_byte:
  "(ucast (dup_eax c) :: u8) = ucast c" "(ucast (drop_bit 8 (dup_eax c)) :: u8) = ucast c"
  "(ucast (drop_bit 16 (dup_eax c)) :: u8) = ucast c"
  "(ucast (drop_bit 24 (dup_eax c)) :: u8) = ucast c"
proof -
  define d where "d = c AND 0xFF"
  have "(0xFF :: u32) = mask 8" by (simp add: mask_eq_exp_minus_1)
  then have "d = take_bit 8 c" by (simp only: d_def take_bit_eq_mask)
  then have b: "bit d i \<longleftrightarrow> i < 8 \<and> bit c i" for i by (simp add: bit_take_bit_iff)
  have e: "dup_eax c = push_bit 24 d OR push_bit 16 d OR push_bit 8 d OR d"
    by (simp only: dup_eax_def Let_def d_def)
  show "(ucast (dup_eax c) :: u8) = ucast c" "(ucast (drop_bit 8 (dup_eax c)) :: u8) = ucast c"
    "(ucast (drop_bit 16 (dup_eax c)) :: u8) = ucast c"
    "(ucast (drop_bit 24 (dup_eax c)) :: u8) = ucast c"
    unfolding e by (rule bit_word_eqI; auto simp: bit_simps b)+
qed

lemma and_3_unat: "unat (x AND 3) = unat (x :: u32) mod 4"
proof -
  have "(3 :: u32) = mask 2" by (simp add: mask_eq_exp_minus_1)
  then have "x AND 3 = take_bit 2 x" by (simp only: take_bit_eq_mask)
  then show ?thesis by (simp add: take_bit_eq_mod unat_mod_distrib)
qed

lemma drop_2_unat: "unat (drop_bit 2 x) = unat (x :: u32) div 4"
  by (simp add: drop_bit_eq_div unat_div_distrib)

lemma memset_store: "memset m s c n = store m s (replicate (unat n) (ucast c))"
proof -
  from memset_top_store [of n "ucast c" m s] obtain k where
    k: "k \<le> unat n" "memset_top (ucast c) m s n =
      (store m s (replicate k (ucast c)), s + word_of_nat k, n - word_of_nat k)" by blast
  let ?r = "n - word_of_nat k"
  have r: "unat ?r = unat n - k"
    using k(1) unat_lt_size32 [of n] by (simp add: unat_sub word_le_nat_alt unat_of_nat take_bit_nat_eq_self)
  have st: "stosl (dup_eax c) = (\<lambda>m p. store m p [ucast c, ucast c, ucast c, ucast c])"
    by (intro ext) (simp only: stosl_def dup_byte)
  show ?thesis
  proof (cases "?r = 0")
    case True
    then have "k = unat n" using r k(1) by simp
    with True k(2) show ?thesis by (simp add: memset_def dup_byte(1))
  next
    case False
    have "unat n = k + (4 * (unat ?r div 4) + unat ?r mod 4)" using r k(1) by simp
    then have "replicate (unat n) (ucast c :: u8) = replicate k (ucast c)
        @ replicate (4 * (unat ?r div 4)) (ucast c) @ replicate (unat ?r mod 4) (ucast c)"
      by (metis replicate_add)
    moreover have "memset m s c n = store (store (store m s (replicate k (ucast c)))
        (s + word_of_nat k) (replicate (4 * (unat ?r div 4)) (ucast c)))
        (s + word_of_nat k + 4 * word_of_nat (unat ?r div 4)) (replicate (unat ?r mod 4) (ucast c))"
      using False k(2)
      by (simp add: memset_def Let_def dup_byte(1) rep_stosl_store [OF st] memset_bottom_store
          and_3_unat drop_2_unat)
    ultimately show ?thesis by (simp add: store_append)
  qed
qed


text \<open>
  A copy upwards is the store of the source bytes as long as no byte is read after it has been
  written; that covers disjoint blocks and a destination below its source.
\<close>

definition fwd_safe :: "u32 \<Rightarrow> u32 \<Rightarrow> nat \<Rightarrow> bool" where
  "fwd_safe dest src n \<longleftrightarrow>
     (\<forall>i j. i < j \<longrightarrow> j < n \<longrightarrow> dest + word_of_nat i \<noteq> src + word_of_nat j)"

definition copied :: "mem \<Rightarrow> u32 \<Rightarrow> u32 \<Rightarrow> nat \<Rightarrow> mem" where
  "copied m dest src k = store m dest (bytes m src k)"

lemma copied_read:
  assumes "fwd_safe dest src n" and "k \<le> j" and "j < n"
  shows "copied m dest src k (src + word_of_nat j) = m (src + word_of_nat j)"
  unfolding copied_def
proof (rule store_outside)
  fix i
  assume "i < length (bytes m src k)"
  with assms show "src + word_of_nat j \<noteq> dest + word_of_nat i"
    unfolding fwd_safe_def by (metis length_bytes order_less_le_trans)
qed

lemma copied_step:
  assumes "fwd_safe dest src n" and "k + c \<le> n"
  shows "store (copied m dest src k) (dest + word_of_nat k)
    (bytes (copied m dest src k) (src + word_of_nat k) c) = copied m dest src (k + c)"
proof -
  have "bytes (copied m dest src k) (src + word_of_nat k) c = bytes m (src + word_of_nat k) c"
  proof (rule nth_equalityI)
    fix i
    assume "i < length (bytes (copied m dest src k) (src + word_of_nat k) c)"
    then show "bytes (copied m dest src k) (src + word_of_nat k) c ! i
        = bytes m (src + word_of_nat k) c ! i"
      using copied_read [OF assms(1), of k "k + i" m] assms(2) by (simp add: add.assoc)
  qed simp
  then show ?thesis by (simp add: copied_def bytes_add store_append)
qed

lemma copied_step1:
  assumes "fwd_safe dest src n" and "k < n"
  shows "(copied m dest src k)(dest + word_of_nat k := copied m dest src k (src + word_of_nat k))
    = copied m dest src (Suc k)"
  using copied_step [OF assms(1), of k 1 m] assms(2) by (simp add: bytes_def)

lemma fwd_safe_le: "fwd_safe dest src n \<Longrightarrow> k \<le> n \<Longrightarrow> fwd_safe dest src k"
  by (auto simp: fwd_safe_def)

lemma memcpy_top_copied:
  assumes "fwd_safe dest src n" and "n < 2 ^ 32"
  shows "k \<le> n \<Longrightarrow> \<exists>k'. k \<le> k' \<and> k' \<le> n \<and>
    memcpy_top (copied m dest src k) (dest + word_of_nat k) (src + word_of_nat k) (word_of_nat (n - k))
      = (copied m dest src k', dest + word_of_nat k', src + word_of_nat k', word_of_nat (n - k'))"
proof (induction "n - k" arbitrary: k)
  case 0
  then show ?case by (intro exI [of _ k]) (simp add: memcpy_top.simps)
next
  case (Suc d)
  show ?case
  proof (cases "(dest + word_of_nat k) AND 3 = 0")
    case True
    then show ?thesis using Suc.prems by (intro exI [of _ k]) (simp add: memcpy_top.simps)
  next
    case False
    have lt: "k < n" using Suc by simp
    have "word_of_nat (n - k) \<noteq> (0 :: u32)"
      using lt assms(2) by (simp add: word_of_nat_neq)
    moreover have "word_of_nat (n - k) - 1 = (word_of_nat (n - Suc k) :: u32)"
      using lt by (simp add: Suc_diff_Suc of_nat_diff)
    ultimately have "memcpy_top (copied m dest src k) (dest + word_of_nat k)
        (src + word_of_nat k) (word_of_nat (n - k))
      = memcpy_top (copied m dest src (Suc k)) (dest + word_of_nat (Suc k))
          (src + word_of_nat (Suc k)) (word_of_nat (n - Suc k))"
      using False copied_step1 [OF assms(1) lt, of m]
      by (subst memcpy_top.simps) (simp add: algebra_simps)
    moreover have "d = n - Suc k" "Suc k \<le> n" using Suc(2) lt by simp_all
    from Suc(1) [OF this] obtain k' where "Suc k \<le> k'" "k' \<le> n"
      "memcpy_top (copied m dest src (Suc k)) (dest + word_of_nat (Suc k))
          (src + word_of_nat (Suc k)) (word_of_nat (n - Suc k))
        = (copied m dest src k', dest + word_of_nat k', src + word_of_nat k', word_of_nat (n - k'))"
      by blast
    ultimately show ?thesis by (intro exI [of _ k']) simp
  qed
qed

lemma rep_movsl_copied:
  assumes "fwd_safe dest src n"
  shows "k + 4 * c \<le> n \<Longrightarrow>
    rep_movsl c (copied m dest src k) (dest + word_of_nat k) (src + word_of_nat k)
      = (copied m dest src (k + 4 * c), dest + word_of_nat (k + 4 * c), src + word_of_nat (k + 4 * c))"
proof (induction c arbitrary: k)
  case (Suc c)
  then show ?case
    using Suc.IH [of "k + 4"] copied_step [OF assms, of k 4 m] by (simp add: algebra_simps)
qed simp

lemma memcpy_bottom_copied:
  assumes "fwd_safe dest src n" and "n < 2 ^ 32"
  shows "k \<le> n \<Longrightarrow>
    memcpy_bottom (copied m dest src k) (dest + word_of_nat k) (src + word_of_nat k)
      (word_of_nat (n - k)) = copied m dest src n"
proof (induction "n - k" arbitrary: k)
  case 0
  then show ?case by (simp add: memcpy_bottom.simps)
next
  case (Suc d)
  then have lt: "k < n" by simp
  have "word_of_nat (n - k) \<noteq> (0 :: u32)"
    using lt assms(2) by (simp add: word_of_nat_neq)
  moreover have "word_of_nat (n - k) - 1 = (word_of_nat (n - Suc k) :: u32)"
    using lt by (simp add: Suc_diff_Suc of_nat_diff)
  ultimately have "memcpy_bottom (copied m dest src k) (dest + word_of_nat k)
      (src + word_of_nat k) (word_of_nat (n - k))
    = memcpy_bottom (copied m dest src (Suc k)) (dest + word_of_nat (Suc k))
        (src + word_of_nat (Suc k)) (word_of_nat (n - Suc k))"
    using copied_step1 [OF assms(1) lt, of m]
    by (subst memcpy_bottom.simps) (simp add: algebra_simps)
  with Suc(1) [of "Suc k"] Suc(2) lt show ?case by simp
qed

lemma memcpy_copied:
  assumes safe: "fwd_safe dest src (unat n)"
  shows "memcpy m dest src n = copied m dest src (unat n)"
proof -
  have small: "unat n < 2 ^ 32" using unat_lt_size32 [of n] by simp
  from memcpy_top_copied [OF safe small, of 0 m] obtain k where
    k: "k \<le> unat n" "memcpy_top m dest src n =
      (copied m dest src k, dest + word_of_nat k, src + word_of_nat k, word_of_nat (unat n - k))"
    by (auto simp: copied_def)
  let ?r = "word_of_nat (unat n - k) :: u32"
  have r: "unat ?r = unat n - k" using small by (simp add: unat_of_nat take_bit_nat_eq_self)
  show ?thesis
  proof (cases "?r = 0")
    case True
    then have "k = unat n" using r k(1) by simp
    with True k(2) show ?thesis by (simp add: memcpy_def)
  next
    case False
    define c where "c = unat ?r div 4"
    have c: "k + 4 * c \<le> unat n" "unat ?r mod 4 = unat n - (k + 4 * c)"
      using k(1) r unfolding c_def by (simp_all add: modulo_nat_def)
    have edx: "?r AND 3 = word_of_nat (unat n - (k + 4 * c))"
      by (rule word_unat_eq_iff [THEN iffD2])
        (use c(2) small in \<open>simp add: and_3_unat unat_of_nat take_bit_nat_eq_self\<close>)
    show ?thesis
      using False k(2) memcpy_bottom_copied [OF safe small c(1)]
      by (simp add: memcpy_def Let_def drop_2_unat c_def [symmetric] rep_movsl_copied [OF safe c(1)]
          edx)
  qed
qed

text \<open>Both directions of \<open>memmove\<close>, for blocks that do not wrap around the address space.\<close>

lemma unat_offset:
  fixes p :: u32
  assumes "unat p + i < 2 ^ 32"
  shows "unat (p + word_of_nat i) = unat p + i"
proof -
  have "unat (word_of_nat i :: u32) = i"
    using assms by (simp add: unat_of_nat take_bit_nat_eq_self)
  then show ?thesis using assms by (subst unat_add_small) simp_all
qed

lemma fwd_safe_below:
  assumes "dest \<le> src" and "unat src + n \<le> 2 ^ 32"
  shows "fwd_safe dest src n"
  unfolding fwd_safe_def
proof (intro allI impI notI)
  fix i j
  assume ij: "i < j" "j < n" and eq: "dest + word_of_nat i = src + word_of_nat j"
  have "unat dest \<le> unat src" using assms(1) by (simp add: word_le_nat_alt)
  then show False
    using arg_cong [OF eq, of unat] ij assms(2) unat_offset [of dest i] unat_offset [of src j] by simp
qed

lemma rep_movsb_up:
  assumes "fwd_safe dest src n"
  shows "k + c \<le> n \<Longrightarrow>
    rep_movsb c 1 (copied m dest src k) (dest + word_of_nat k) (src + word_of_nat k)
      = copied m dest src (k + c)"
proof (induction c arbitrary: k)
  case (Suc c)
  then show ?case
    using Suc.IH [of "Suc k"] copied_step1 [OF assms, of k m] by (simp add: algebra_simps)
qed simp

lemma store_upd:
  "(\<And>i. i < length bs \<Longrightarrow> p \<noteq> q + word_of_nat i) \<Longrightarrow>
    store (m(p := b)) q bs = (store m q bs)(p := b)"
proof (induction bs arbitrary: m q)
  case (Cons a bs)
  have "p \<noteq> q" using Cons.prems [of 0] by simp
  then have "store (m(p := b)) q (a # bs) = store ((m(q := a))(p := b)) (q + 1) bs"
    by (metis store.simps(2) fun_upd_twist)
  also have "\<dots> = (store (m(q := a)) (q + 1) bs)(p := b)"
  proof (rule Cons.IH)
    fix i
    assume "i < length bs"
    then show "p \<noteq> q + 1 + word_of_nat i"
      using Cons.prems [of "Suc i"] by (simp add: algebra_simps)
  qed
  finally show ?case by (simp only: store.simps)
qed simp

lemma rep_movsb_down:
  assumes "src < dest" and "unat dest + n \<le> 2 ^ 32"
  shows "c \<le> n \<Longrightarrow>
    rep_movsb c (- 1) (store m (dest + word_of_nat c) (bytes m (src + word_of_nat c) (n - c)))
      (dest + word_of_nat c - 1) (src + word_of_nat c - 1) = store m dest (bytes m src n)"
proof (induction c)
  case (Suc c)
  let ?m = "store m (dest + word_of_nat (Suc c)) (bytes m (src + word_of_nat (Suc c)) (n - Suc c))"
  have lt: "unat src < unat dest" using assms(1) by (simp add: word_less_nat_alt)
  have "?m (src + word_of_nat c) = m (src + word_of_nat c)"
  proof (rule store_outside)
    fix i
    assume "i < length (bytes m (src + word_of_nat (Suc c)) (n - Suc c))"
    then have i: "Suc c + i < n" by simp
    have "dest + word_of_nat (Suc c) + word_of_nat i = dest + word_of_nat (Suc c + i)"
      by (simp only: of_nat_add add.assoc)
    moreover have "unat (dest + word_of_nat (Suc c + i)) = unat dest + (Suc c + i)"
      using i assms(2) by (intro unat_offset) simp
    moreover have "unat (src + word_of_nat c) = unat src + c"
      using i lt assms(2) by (intro unat_offset) simp
    ultimately show "src + word_of_nat c \<noteq> dest + word_of_nat (Suc c) + word_of_nat i"
      using lt by (metis add_less_mono less_irrefl less_add_Suc1 add_Suc)
  qed
  moreover have down: "x + word_of_nat (Suc c) - 1 = x + word_of_nat c" for x :: u32
    by simp
  moreover have "?m(dest + word_of_nat c := m (src + word_of_nat c))
      = store m (dest + word_of_nat c) (bytes m (src + word_of_nat c) (n - c))"
  proof -
    have "bytes m (src + word_of_nat c) (n - c)
        = m (src + word_of_nat c) # bytes m (src + word_of_nat (Suc c)) (n - Suc c)"
      using Suc.prems bytes_add [of m "src + word_of_nat c" 1 "n - Suc c"]
      by (simp add: bytes_def algebra_simps Suc_diff_Suc)
    moreover have "dest + word_of_nat c \<noteq> dest + word_of_nat (Suc c) + word_of_nat i"
      if "i < n - Suc c" for i
    proof -
      have sum: "dest + word_of_nat (Suc c) + word_of_nat i = dest + word_of_nat (Suc c + i)"
        by (simp only: of_nat_add add.assoc)
      show ?thesis unfolding sum using that assms(2) by (subst offset_eq_iff) simp_all
    qed
    moreover have "dest + word_of_nat (Suc c) = dest + word_of_nat c + 1" by simp
    ultimately show ?thesis
      using store_upd [of "bytes m (src + word_of_nat (Suc c)) (n - Suc c)" "dest + word_of_nat c"
          "dest + word_of_nat (Suc c)" m "m (src + word_of_nat c)"]
      by (metis length_bytes store.simps(2))
  qed
  ultimately show ?case using Suc.IH Suc.prems
    by (simp only: rep_movsb.simps) (simp add: algebra_simps)
qed simp

lemma memmove_store:
  assumes "unat dest + unat n \<le> 2 ^ 32" and "unat src + unat n \<le> 2 ^ 32"
  shows "memmove m dest src n = (store m dest (bytes m src (unat n)), src < dest)"
proof (cases "dest \<le> src")
  case True
  then show ?thesis
    using rep_movsb_up [OF fwd_safe_below [OF True assms(2)], of 0 "unat n" m]
    by (simp add: memmove_def copied_def not_less)
next
  case False
  then show ?thesis
    using rep_movsb_down [of src dest "unat n" "unat n" m] assms(1)
    by (simp add: memmove_def not_le)
qed

section \<open>Zero-terminated strings\<close>

text \<open>
  \<open>cstr m p s\<close>: the string \<open>s\<close>, which has no zero byte, stands at \<open>p\<close> with its terminator.  The
  length bound is that of the \<open>int32_t\<close> indexes of the library.
\<close>

definition cstr :: "mem \<Rightarrow> ptr \<Rightarrow> u8 list \<Rightarrow> bool" where
  "cstr m p s \<longleftrightarrow> 0 \<notin> set s \<and> bytes m p (length s) = s \<and> m (p + word_of_nat (length s)) = 0
     \<and> length s < 2 ^ 31"

partial_function (option) strlen_from :: "mem \<Rightarrow> ptr \<Rightarrow> u32 \<Rightarrow> u32 option" where
  "strlen_from m s len = (if m (s + len) = 0 then Some len else strlen_from m s (len + 1))"

definition strlen :: "mem \<Rightarrow> ptr \<Rightarrow> u32 option" where
  "strlen m s = strlen_from m s 0"

function strrev_loop :: "ptr \<Rightarrow> mem \<Rightarrow> int \<Rightarrow> int \<Rightarrow> mem" where
  "strrev_loop s m b e =
     (if b < e then
        let tmp = m (s + of_s32 e);
            m1 = m(s + of_s32 e := m (s + of_s32 b));
            m2 = m1(s + of_s32 b := tmp)
        in strrev_loop s m2 (b + 1) (e - 1)
      else m)"
  by pat_completeness auto
termination by (relation "measure (\<lambda>(s, m, b, e). nat (e - b))") auto

declare strrev_loop.simps [simp del]

definition strrev :: "mem \<Rightarrow> ptr \<Rightarrow> mem option" where
  "strrev m s = map_option (\<lambda>n. strrev_loop s m 0 (s32 (n - 1))) (strlen m s)"

text \<open>Characters are signed; the index is compared with \<open>n\<close> as an unsigned number.\<close>

function strncmp_from :: "mem \<Rightarrow> ptr \<Rightarrow> ptr \<Rightarrow> u32 \<Rightarrow> u32 \<Rightarrow> int" where
  "strncmp_from m s1 s2 n i =
     (if i < n then
        if m (s1 + i) \<noteq> m (s2 + i) \<or> m (s1 + i) = 0
        then sint (m (s1 + i)) - sint (m (s2 + i))
        else strncmp_from m s1 s2 n (i + 1)
      else 0)"
  by pat_completeness auto
termination
  by (relation "measure (\<lambda>(m, s1, s2, n, i). unat (n - i))")
    (auto simp: word_up_measure)

declare strncmp_from.simps [simp del]

definition strncmp :: "mem \<Rightarrow> ptr \<Rightarrow> ptr \<Rightarrow> u32 \<Rightarrow> int" where
  "strncmp m s1 s2 n = strncmp_from m s1 s2 n 0"

definition strcmp :: "mem \<Rightarrow> ptr \<Rightarrow> ptr \<Rightarrow> int" where
  "strcmp m s1 s2 = strncmp m s1 s2 0xFFFFFFFF"

function memcmp_from :: "mem \<Rightarrow> ptr \<Rightarrow> ptr \<Rightarrow> u32 \<Rightarrow> u32 \<Rightarrow> int" where
  "memcmp_from m s1 s2 n i =
     (if i < n then
        if m (s1 + i) \<noteq> m (s2 + i)
        then sint (m (s1 + i)) - sint (m (s2 + i))
        else memcmp_from m s1 s2 n (i + 1)
      else 0)"
  by pat_completeness auto
termination
  by (relation "measure (\<lambda>(m, s1, s2, n, i). unat (n - i))")
    (auto simp: word_up_measure)

declare memcmp_from.simps [simp del]

definition memcmp :: "mem \<Rightarrow> ptr \<Rightarrow> ptr \<Rightarrow> u32 \<Rightarrow> int" where
  "memcmp m s1 s2 n = memcmp_from m s1 s2 n 0"

partial_function (option) strcpy_from :: "ptr \<Rightarrow> ptr \<Rightarrow> mem \<Rightarrow> u32 \<Rightarrow> mem option" where
  "strcpy_from dest src m i =
     (if m (src + i) \<noteq> 0 then strcpy_from dest src (m(dest + i := m (src + i))) (i + 1)
      else Some (m(dest + i := 0)))"

definition strcpy :: "mem \<Rightarrow> ptr \<Rightarrow> ptr \<Rightarrow> mem option" where
  "strcpy m dest src = strcpy_from dest src m 0"

function strncpy_copy :: "ptr \<Rightarrow> ptr \<Rightarrow> u32 \<Rightarrow> mem \<Rightarrow> u32 \<Rightarrow> mem \<times> u32" where
  "strncpy_copy dest src n m i =
     (if m (src + i) \<noteq> 0 \<and> i < n
      then strncpy_copy dest src n (m(dest + i := m (src + i))) (i + 1)
      else (m, i))"
  by pat_completeness auto
termination
  by (relation "measure (\<lambda>(dest, src, n, m, i). unat (n - i))")
    (auto simp: word_up_measure)

declare strncpy_copy.simps [simp del]

function strncpy_pad :: "ptr \<Rightarrow> u32 \<Rightarrow> mem \<Rightarrow> u32 \<Rightarrow> mem" where
  "strncpy_pad dest n m i =
     (if i < n then strncpy_pad dest n (m(dest + i := 0)) (i + 1) else m)"
  by pat_completeness auto
termination
  by (relation "measure (\<lambda>(dest, n, m, i). unat (n - i))")
    (auto simp: word_up_measure)

declare strncpy_pad.simps [simp del]

definition strncpy :: "mem \<Rightarrow> ptr \<Rightarrow> ptr \<Rightarrow> u32 \<Rightarrow> mem" where
  "strncpy m dest src n = (let (m, i) = strncpy_copy dest src n m 0 in strncpy_pad dest n m i)"

partial_function (option) strchr :: "mem \<Rightarrow> ptr \<Rightarrow> u8 \<Rightarrow> ptr option" where
  "strchr m s c =
     (if m s = 0 then Some 0 else if m s = c then Some s else strchr m (s + 1) c)"

text \<open>\<open>ret\<close> is what \<open>kmalloc(len + 1)\<close> returned, \<open>0\<close> when out of memory.\<close>

definition strndup :: "ptr \<Rightarrow> mem \<Rightarrow> ptr \<Rightarrow> u32 \<Rightarrow> (ptr \<times> mem) option" where
  "strndup ret m s n = map_option (\<lambda>len.
     let len = (if len > n then n else len) in
     if ret = 0 then (0, m)
     else (ret, (strncpy m ret s len)(ret + len := 0))) (strlen m s)"

definition strdup :: "ptr \<Rightarrow> mem \<Rightarrow> ptr \<Rightarrow> (ptr \<times> mem) option" where
  "strdup ret m s = Option.bind (strlen m s) (strndup ret m s)"

section \<open>Numbers\<close>

text \<open>
  \<open>itoa\<close>; a radix of \<open>0\<close> faults, one above 36 reads past the table of digits and one of \<open>1\<close> never
  ends, all of them \<open>None\<close>.
\<close>

definition lookup_digit :: "u32 \<Rightarrow> u8 option" where
  "lookup_digit i =
     (if i < 10 then Some (48 + ucast i)
      else if i < 36 then Some (65 + ucast (i - 10))
      else if i = 36 then Some 0
      else None)"

partial_function (option) itoa_loop :: "u32 \<Rightarrow> mem \<Rightarrow> u32 \<Rightarrow> ptr \<Rightarrow> (mem \<times> ptr) option" where
  "itoa_loop radix m newval newbuf =
     (if newval = 0 then Some (m, newbuf)
      else if radix = 0 then None
      else case lookup_digit (newval mod radix) of
             None \<Rightarrow> None
           | Some d \<Rightarrow> itoa_loop radix (m(newbuf := d)) (newval div radix) (newbuf + 1))"

definition itoa :: "mem \<Rightarrow> u32 \<Rightarrow> ptr \<Rightarrow> u32 \<Rightarrow> mem option" where
  "itoa m v buf radix =
     (if v = 0 then Some (m(buf := 48, buf + 1 := 0))
      else case itoa_loop radix m v buf of
             None \<Rightarrow> None
           | Some (m', newbuf) \<Rightarrow> strrev (m'(newbuf := 0)) buf)"

partial_function (option) atoi_loop :: "mem \<Rightarrow> ptr \<Rightarrow> u32 \<Rightarrow> (u32 \<times> ptr) option" where
  "atoi_loop m endptr ret =
     (if m endptr = 0 then Some (ret, endptr)
      else if sint (m endptr) < 48 \<or> sint (m endptr) > 57 then Some (ret, endptr)
      else atoi_loop m (endptr + 1) (ret * 10 + of_s32 (sint (m endptr) - 48)))"

definition atoi :: "mem \<Rightarrow> ptr \<Rightarrow> (u32 \<times> ptr) option" where
  "atoi m nptr = atoi_loop m nptr 0"

section \<open>What the string operations compute\<close>

lemma cstr_nth:
  assumes "cstr m p s" and "i < length s"
  shows "m (p + word_of_nat i) = s ! i" "s ! i \<noteq> 0"
proof -
  have "bytes m p (length s) ! i = s ! i" using assms by (simp only: cstr_def)
  then show "m (p + word_of_nat i) = s ! i" using assms(2) by simp
  show "s ! i \<noteq> 0" using assms by (auto simp: cstr_def in_set_conv_nth)
qed

lemma cstr_end:
  "cstr m p s \<Longrightarrow> m (p + word_of_nat (length s)) = 0" "cstr m p s \<Longrightarrow> length s < 2 ^ 31"
  by (simp_all add: cstr_def)

lemma cstrI:
  assumes "0 \<notin> set s" and "length s < 2 ^ 31" and "m (p + word_of_nat (length s)) = 0"
    and "\<And>i. i < length s \<Longrightarrow> m (p + word_of_nat i) = s ! i"
  shows "cstr m p s"
  using assms by (auto simp: cstr_def intro!: nth_equalityI)

lemma cstr_Cons_iff:
  "cstr m p (b # s) \<longleftrightarrow> b \<noteq> 0 \<and> m p = b \<and> cstr m (p + 1) s \<and> length s < 2 ^ 31 - 1"
  using bytes_add [of m p 1 "length s"]
  by (auto simp: cstr_def bytes_def add.assoc)

lemma cstr_Nil_iff: "cstr m p [] \<longleftrightarrow> m p = 0"
  by (simp add: cstr_def)

lemma strlen_from_cstr:
  assumes "cstr m p s"
  shows "i \<le> length s \<Longrightarrow> strlen_from m p (word_of_nat i) = Some (word_of_nat (length s))"
proof (induction "length s - i" arbitrary: i)
  case 0
  then show ?case using cstr_end(1) [OF assms] by (subst strlen_from.simps) simp
next
  case (Suc d)
  then have "i < length s" by simp
  moreover have "strlen_from m p (word_of_nat (Suc i)) = Some (word_of_nat (length s))"
    using Suc(2,3) by (intro Suc(1)) simp_all
  ultimately show ?case
    using cstr_nth [OF assms, of i] by (subst strlen_from.simps) (simp add: add.commute)
qed

lemma strlen_cstr: "cstr m p s \<Longrightarrow> strlen m p = Some (word_of_nat (length s))"
  using strlen_from_cstr [of m p s 0] by (simp add: strlen_def)

text \<open>The signed comparison of two strings up to a bound, with the terminators in the lists.\<close>

fun cmp_chars :: "nat \<Rightarrow> u8 list \<Rightarrow> u8 list \<Rightarrow> int" where
  "cmp_chars 0 xs ys = 0"
| "cmp_chars (Suc n) (x # xs) (y # ys) =
     (if x \<noteq> y then sint x - sint y else cmp_chars n xs ys)"
| "cmp_chars (Suc n) (x # xs) [] = sint x"
| "cmp_chars (Suc n) [] (y # ys) = - sint y"
| "cmp_chars (Suc n) [] [] = 0"

lemma strncmp_from_cmp:
  assumes "cstr m (p + i) xs" and "cstr m (q + i) ys" and "i \<le> n"
  shows "strncmp_from m p q n i = cmp_chars (unat (n - i)) xs ys"
  using assms
proof (induction "unat (n - i)" arbitrary: i xs ys)
  case 0
  then have "\<not> i < n" by (metis less_irrefl right_minus_eq unat_eq_zero)
  then show ?case using 0 by (simp add: strncmp_from.simps)
next
  case (Suc d)
  then have lt: "i < n" by (metis diff_self le_less nat.simps(3) unsigned_0)
  have d: "unat (n - (i + 1)) = d" using word_up_count [OF lt] Suc.hyps(2) by simp
  have n: "unat (n - i) = Suc d" using Suc by simp
  have IH: "cstr m (p + i + 1) xs' \<Longrightarrow> cstr m (q + i + 1) ys' \<Longrightarrow>
      strncmp_from m p q n (i + 1) = cmp_chars d xs' ys'" for xs' ys'
    using Suc.hyps(1) [of "i + 1" xs' ys'] d inc_le [OF lt] by (simp add: add.assoc)
  show ?case
    using Suc.prems lt n IH
    by (cases xs; cases ys) (subst strncmp_from.simps; auto simp: cstr_Cons_iff cstr_Nil_iff)+
qed

lemma strncmp_cmp:
  "cstr m p xs \<Longrightarrow> cstr m q ys \<Longrightarrow> strncmp m p q n = cmp_chars (unat n) xs ys"
  using strncmp_from_cmp [of m p 0 xs q ys n] by (simp add: strncmp_def)

lemma cmp_chars_eq_0:
  "0 \<notin> set xs \<Longrightarrow> 0 \<notin> set ys \<Longrightarrow> cmp_chars n xs ys = 0 \<longleftrightarrow> take n xs = take n ys"
  by (induction n xs ys rule: cmp_chars.induct)
    (auto dest: signed_word_eqI simp: signed_eq_0_iff)

lemma strncmp_eq:
  assumes "cstr m p xs" and "cstr m q ys"
  shows "strncmp m p q n = 0 \<longleftrightarrow> take (unat n) xs = take (unat n) ys"
  using strncmp_cmp [OF assms] cmp_chars_eq_0 [of xs ys] assms by (simp add: cstr_def)

lemma strcmp_eq:
  assumes "cstr m p xs" and "cstr m q ys"
  shows "strcmp m p q = 0 \<longleftrightarrow> xs = ys"
proof -
  have "length xs \<le> 0xFFFFFFFF" "length ys \<le> 0xFFFFFFFF"
    using cstr_end(2) [OF assms(1)] cstr_end(2) [OF assms(2)] by simp_all
  moreover have "unat (0xFFFFFFFF :: u32) = 0xFFFFFFFF" by simp
  ultimately show ?thesis
    unfolding strcmp_def strncmp_eq [OF assms] by (simp del: unat_numeral unsigned_numeral)
qed

lemma strchr_first:
  assumes "cstr m p s"
  shows "strchr m p c = Some (if c \<in> set s
    then p + word_of_nat (length (takeWhile (\<lambda>x. x \<noteq> c) s)) else 0)"
  using assms
proof (induction s arbitrary: p)
  case Nil
  then show ?case by (subst strchr.simps) (simp add: cstr_Nil_iff)
next
  case (Cons b s)
  then have "strchr m (p + 1) c = Some (if c \<in> set s
    then p + 1 + word_of_nat (length (takeWhile (\<lambda>x. x \<noteq> c) s)) else 0)"
    by (simp add: cstr_Cons_iff)
  then show ?case
    using Cons.prems by (subst strchr.simps) (auto simp: cstr_Cons_iff add.assoc)
qed

lemma store_at:
  "i < length bs \<Longrightarrow> length bs \<le> 2 ^ 32 \<Longrightarrow> store m p bs (p + word_of_nat i) = bs ! i"
  "length bs \<le> i \<Longrightarrow> i < 2 ^ 32 \<Longrightarrow> store m p bs (p + word_of_nat i) = m (p + word_of_nat i)"
proof -
  show "i < length bs \<Longrightarrow> length bs \<le> 2 ^ 32 \<Longrightarrow> store m p bs (p + word_of_nat i) = bs ! i"
    by (rule store_inside)
  assume "length bs \<le> i" and "i < 2 ^ 32"
  then show "store m p bs (p + word_of_nat i) = m (p + word_of_nat i)"
    by (intro store_outside) (use offset_eq_iff in \<open>simp add: add.commute\<close>)
qed

text \<open>\<open>strncpy\<close> is the store of the string cut or padded to \<open>n\<close> bytes.\<close>

lemma strncpy_pad_store:
  "i \<le> n \<Longrightarrow> strncpy_pad dest n m i = store m (dest + i) (replicate (unat (n - i)) 0)"
proof (induction "unat (n - i)" arbitrary: i m)
  case 0
  then have "i = n" by (metis right_minus_eq unat_eq_zero)
  then show ?case by (simp add: strncpy_pad.simps)
next
  case (Suc d)
  then have lt: "i < n" by (metis diff_self le_less nat.simps(3) unsigned_0)
  have d: "unat (n - (i + 1)) = d" using word_up_count [OF lt] Suc.hyps(2) by simp
  have "strncpy_pad dest n (m(dest + i := 0)) (i + 1)
      = store (m(dest + i := 0)) (dest + (i + 1)) (replicate d 0)"
    using Suc.hyps(1) [of "i + 1"] d inc_le [OF lt] by simp
  then show ?case
    using lt Suc.hyps(2) [symmetric] by (subst strncpy_pad.simps) (simp add: add.assoc)
qed

definition apart :: "ptr \<Rightarrow> nat \<Rightarrow> ptr \<Rightarrow> nat \<Rightarrow> bool" where
  "apart p a q b \<longleftrightarrow> (\<forall>i < a. \<forall>j < b. p + word_of_nat i \<noteq> q + word_of_nat j)"

lemma apart_Suc:
  assumes "apart p (Suc a) q (Suc b)"
  shows "apart (p + 1) a (q + 1) b"
  unfolding apart_def
proof (intro allI impI)
  fix i j
  assume "i < a" "j < b"
  with assms have "p + word_of_nat (Suc i) \<noteq> q + word_of_nat (Suc j)"
    unfolding apart_def by (metis Suc_less_eq)
  then show "p + 1 + word_of_nat i \<noteq> q + 1 + word_of_nat j" by (simp add: algebra_simps)
qed

lemma cstr_upd:
  assumes "cstr m q s" and "\<And>j. j \<le> length s \<Longrightarrow> p \<noteq> q + word_of_nat j"
  shows "cstr (m(p := b)) q s"
proof (rule cstrI)
  show "0 \<notin> set s" "length s < 2 ^ 31" using assms(1) by (simp_all add: cstr_def)
  show "(m(p := b)) (q + word_of_nat (length s)) = 0"
    using cstr_end(1) [OF assms(1)] assms(2) [of "length s"] by simp
  show "(m(p := b)) (q + word_of_nat i) = s ! i" if "i < length s" for i
    using cstr_nth(1) [OF assms(1) that] assms(2) [of i] that by simp
qed

lemma strncpy_copy_store:
  assumes "cstr m (src + i) s" and "apart (dest + i) (min (length s) (unat (n - i))) (src + i) (Suc (length s))"
    and "i \<le> n"
  shows "strncpy_copy dest src n m i =
    (store m (dest + i) (take (unat (n - i)) s), i + word_of_nat (min (length s) (unat (n - i))))"
  using assms
proof (induction s arbitrary: i m)
  case Nil
  then show ?case by (subst strncpy_copy.simps) (simp add: cstr_Nil_iff)
next
  case (Cons b s)
  show ?case
  proof (cases "i < n")
    case False
    with Cons.prems(3) have "i = n" by simp
    then show ?thesis by (subst strncpy_copy.simps) simp
  next
    case True
    have d: "unat (n - i) = Suc (unat (n - (i + 1)))" by (rule word_up_count [OF True])
    have c: "b \<noteq> 0" "m (src + i) = b" "cstr m (src + (i + 1)) s"
      using Cons.prems(1) by (simp_all add: cstr_Cons_iff add.assoc)
    have ap: "apart (dest + (i + 1)) (min (length s) (unat (n - (i + 1)))) (src + (i + 1)) (Suc (length s))"
      using apart_Suc [of "dest + i" _ "src + i"] Cons.prems(2) d by (simp add: add.assoc)
    have "dest + i \<noteq> src + (i + 1) + word_of_nat j" if "j \<le> length s" for j
    proof -
      have "dest + i + word_of_nat 0 \<noteq> src + i + word_of_nat (Suc j)"
        using Cons.prems(2) d that unfolding apart_def
        by (metis length_Cons less_Suc_eq_le min_Suc_Suc not_less_eq zero_less_Suc)
      then show ?thesis by (simp add: algebra_simps)
    qed
    then have "cstr (m(dest + i := b)) (src + (i + 1)) s" by (intro cstr_upd [OF c(3)])
    from Cons.IH [OF this ap inc_le [OF True]]
    show ?thesis using True c(1,2) d
      by (subst strncpy_copy.simps) (simp add: add.assoc fun_upd_def)
  qed
qed

lemma strncpy_store:
  assumes s: "cstr m src s" and ap: "apart dest (min (length s) (unat n)) src (Suc (length s))"
  shows "strncpy m dest src n =
    store m dest (take (unat n) s @ replicate (unat n - length s) 0)"
proof -
  let ?k = "min (length s) (unat n)"
  have k: "word_of_nat ?k \<le> n" "unat (n - word_of_nat ?k) = unat n - length s"
  proof -
    have "unat (word_of_nat ?k :: u32) = ?k"
      using unat_lt_size32 [of n] by (simp add: unat_of_nat take_bit_nat_eq_self)
    then show "word_of_nat ?k \<le> n" by (simp add: word_le_nat_alt)
    with \<open>unat (word_of_nat ?k :: u32) = ?k\<close> show "unat (n - word_of_nat ?k) = unat n - length s"
      by (simp add: unat_sub)
  qed
  from strncpy_copy_store [of m src 0 s dest n] s ap
  have "strncpy_copy dest src n m 0 = (store m dest (take (unat n) s), word_of_nat ?k)" by simp
  then show ?thesis
    using strncpy_pad_store [OF k(1)] k(2) by (simp add: strncpy_def store_append min_def)
qed

text \<open>\<open>strndup\<close> into a block apart from the string makes a string of its first \<open>n\<close> bytes.\<close>

lemma cstr_store:
  assumes "0 \<notin> set s" and "length s < 2 ^ 31"
  shows "cstr ((store m p s)(p + word_of_nat (length s) := 0)) p s"
proof (rule cstrI)
  fix i
  assume i: "i < length s"
  then have "p + word_of_nat i \<noteq> p + word_of_nat (length s)"
    using assms(2) by (subst offset_eq_iff) simp_all
  then show "((store m p s)(p + word_of_nat (length s) := 0)) (p + word_of_nat i) = s ! i"
    using i assms(2) by (simp add: store_at)
qed (use assms in simp_all)

lemma strndup_cstr:
  assumes s: "cstr m src s" and ret: "ret \<noteq> 0"
    and ap: "apart ret (min (length s) (unat n)) src (Suc (length s))"
  shows "\<exists>m'. strndup ret m src n = Some (ret, m') \<and> cstr m' ret (take (unat n) s)
    \<and> (\<forall>q. (\<forall>i \<le> min (length s) (unat n). q \<noteq> ret + word_of_nat i) \<longrightarrow> m' q = m q)"
proof -
  let ?len = "word_of_nat (length s) :: u32"
  let ?k = "min (length s) (unat n)"
  have l: "unat ?len = length s"
    using cstr_end(2) [OF s] by (simp add: unat_of_nat take_bit_nat_eq_self)
  define len where "len = (if ?len > n then n else ?len)"
  have k: "unat len = ?k" "len = word_of_nat ?k"
    using l by (auto simp: len_def word_less_nat_alt min_def)
  let ?m = "(store m ret (take ?k s))(ret + word_of_nat ?k := 0)"
  have "strncpy m ret src len = store m ret (take ?k s)"
    using strncpy_store [OF s, of ret len] ap k(1) by (simp add: min.commute)
  then have "strndup ret m src n = Some (ret, ?m)"
    using ret by (simp only: strndup_def strlen_cstr [OF s] option.map Let_def len_def [symmetric]
        if_False k(2))
  moreover have "cstr ?m ret (take (unat n) s)"
  proof -
    have "0 \<notin> set (take (unat n) s)" "length (take (unat n) s) < 2 ^ 31"
      using s by (auto simp: cstr_def dest: in_set_takeD)
    moreover have "take ?k s = take (unat n) s" by (simp add: min_def)
    ultimately show ?thesis using cstr_store [of "take (unat n) s" m ret] by simp
  qed
  moreover have "?m q = m q" if "\<forall>i \<le> ?k. q \<noteq> ret + word_of_nat i" for q
    using that store_outside [of "take ?k s" q ret m] by simp
  ultimately show ?thesis by blast
qed

text \<open>\<open>strrev\<close> reverses in place.\<close>

lemma strrev_loop_at:
  assumes "0 \<le> b" and "e < 2 ^ 31" and "0 \<le> i" and "i < 2 ^ 32"
  shows "strrev_loop s m b e (s + of_s32 i) =
    (if b \<le> i \<and> i \<le> e then m (s + of_s32 (b + e - i)) else m (s + of_s32 i))"
  using assms(1,2)
proof (induction s m b e rule: strrev_loop.induct)
  case (1 s m b e)
  have inj: "of_s32 x = of_s32 y \<longleftrightarrow> x = y"
    if "0 \<le> x" "x < 2 ^ 32" "0 \<le> y" "y < 2 ^ 32" for x y
    using that by (simp add: of_s32_def word_of_int_eq_iff take_bit_int_eq_self)
  show ?case
  proof (cases "b < e")
    case False
    have "s + of_s32 (b + e - i) = s + of_s32 i" if "b \<le> i" "i \<le> e"
    proof -
      have "b + e - i = i" using that False by linarith
      then show ?thesis by (simp only:)
    qed
    with False show ?thesis by (simp add: strrev_loop.simps)
  next
    case True
    let ?m = "m(s + of_s32 e := m (s + of_s32 b), s + of_s32 b := m (s + of_s32 e))"
    have "strrev_loop s m b e = strrev_loop s ?m (b + 1) (e - 1)"
      using True by (subst strrev_loop.simps) (simp add: Let_def)
    moreover have "strrev_loop s ?m (b + 1) (e - 1) (s + of_s32 i) =
        (if b + 1 \<le> i \<and> i \<le> e - 1 then ?m (s + of_s32 (b + 1 + (e - 1) - i)) else ?m (s + of_s32 i))"
      using "1.IH" [OF True refl refl refl] "1.prems" by (simp add: fun_upd_def)
    ultimately show ?thesis
      using "1.prems" True assms(3,4) by (auto simp: inj)
  qed
qed

lemma strrev_store:
  assumes "cstr m s xs"
  shows "strrev m s = Some (store m s (rev xs))"
proof -
  let ?n = "length xs"
  have n: "?n < 2 ^ 31" using cstr_end(2) [OF assms] .
  have e: "s32 (word_of_nat ?n - 1) = int ?n - 1"
  proof -
    have "(word_of_nat ?n - 1 :: u32) = word_of_int (int ?n - 1)" by simp
    moreover have "sint (word_of_int (int ?n - 1) :: u32) = int ?n - 1"
      unfolding sint_sbintrunc' using n by (intro signed_take_bit_int_eq_self) simp_all
    ultimately show ?thesis by (simp only: s32_def)
  qed
  have "strrev_loop s m 0 (int ?n - 1) q = store m s (rev xs) q" for q
  proof -
    define i where "i = unat (q - s)"
    have q: "q = s + word_of_nat i" "i < 2 ^ 32" "q = s + of_s32 (int i)"
      using unat_lt_size32 [of "q - s"] by (simp_all add: i_def of_s32_def)
    have "strrev_loop s m 0 (int ?n - 1) (s + of_s32 (int i)) =
        (if i < ?n then m (s + of_s32 (int (?n - Suc i))) else m (s + of_s32 (int i)))"
      using q(2) n strrev_loop_at [of 0 "int ?n - 1" "int i" s m]
      by (auto simp: of_nat_diff algebra_simps)
    then have "strrev_loop s m 0 (int ?n - 1) q =
        (if i < ?n then m (s + word_of_nat (?n - Suc i)) else m (s + word_of_nat i))"
      using q(3) by (simp add: of_s32_def)
    then show ?thesis
      using cstr_nth(1) [OF assms, of "?n - Suc i"] n q(1,2)
      by (cases "i < ?n") (simp_all add: store_at rev_nth)
  qed
  then show ?thesis by (simp add: strrev_def strlen_cstr [OF assms] e fun_eq_iff)
qed

text \<open>The digits of a number, the least significant one first, and their characters.\<close>

function digits_rev :: "nat \<Rightarrow> nat \<Rightarrow> nat list" where
  "digits_rev b n = (if n = 0 \<or> b < 2 then [] else (n mod b) # digits_rev b (n div b))"
  by pat_completeness auto
termination by (relation "measure snd") auto

declare digits_rev.simps [simp del]

definition digit_char :: "nat \<Rightarrow> u8" where
  "digit_char d = (if d < 10 then word_of_nat (48 + d) else word_of_nat (55 + d))"

lemma digits_rev_less: "2 \<le> b \<Longrightarrow> \<forall>d \<in> set (digits_rev b n). d < b"
  by (induction b n rule: digits_rev.induct) (subst digits_rev.simps, auto)

lemma digits_rev_length: "2 \<le> b \<Longrightarrow> n < 2 ^ k \<Longrightarrow> length (digits_rev b n) \<le> k"
proof (induction b n arbitrary: k rule: digits_rev.induct)
  case (1 b n)
  show ?case
  proof (cases "n = 0")
    case True
    then show ?thesis by (simp add: digits_rev.simps)
  next
    case False
    then have "k \<noteq> 0" using 1 by (auto intro: Nat.gr0I)
    then obtain j where k: "k = Suc j" by (cases k) auto
    have "n div b \<le> n div 2" using 1 by (intro div_le_mono2) simp_all
    also have "\<dots> < 2 ^ j" using 1 k by simp
    finally have "length (digits_rev b (n div b)) \<le> j" using 1 False by simp
    then show ?thesis using False 1 k by (subst digits_rev.simps) simp
  qed
qed

lemma digits_rev_value: "2 \<le> b \<Longrightarrow> foldr (\<lambda>d a. a * b + d) (digits_rev b n) 0 = n"
proof (induction b n rule: digits_rev.induct)
  case (1 b n)
  show ?case
  proof (cases "n = 0")
    case False
    then have "digits_rev b n = (n mod b) # digits_rev b (n div b)"
      using 1 by (subst digits_rev.simps) simp
    then show ?thesis using 1 False by simp
  qed (simp add: digits_rev.simps)
qed

lemma lookup_digit_char:
  assumes "unat i < 36"
  shows "lookup_digit i = Some (digit_char (unat i))"
proof -
  have cast: "(ucast w :: u8) = word_of_nat (unat w)" for w :: u32 by simp
  show ?thesis
  proof (cases "i < 10")
    case True
    then show ?thesis by (simp add: lookup_digit_def digit_char_def word_less_nat_alt)
  next
    case False
    then obtain k where k: "unat i = 10 + k"
      by (auto simp: not_less word_le_nat_alt dest: le_Suc_ex)
    have "unat (i - 10) = unat i - 10" using False by (simp add: unat_sub not_less)
    then show ?thesis
      using False assms k unfolding lookup_digit_def digit_char_def cast
      by (simp add: word_less_nat_alt)
  qed
qed

lemma itoa_loop_store:
  assumes "2 \<le> unat radix" and "unat radix \<le> 36"
  shows "itoa_loop radix m v p =
    Some (store m p (map digit_char (digits_rev (unat radix) (unat v))),
      p + word_of_nat (length (digits_rev (unat radix) (unat v))))"
proof (induction "unat v" arbitrary: v m p rule: less_induct)
  case less
  show ?case
  proof (cases "v = 0")
    case True
    then show ?thesis by (subst itoa_loop.simps) (simp add: digits_rev.simps)
  next
    case False
    have nz: "radix \<noteq> 0" "unat v \<noteq> 0" using assms(1) False by (auto simp: unat_eq_zero)
    have d: "unat (v div radix) = unat v div unat radix" "unat (v mod radix) = unat v mod unat radix"
      by (simp_all add: unat_div_distrib unat_mod_distrib)
    have "unat (v div radix) < unat v"
      unfolding d using False assms(1) by (intro div_less_dividend) (simp_all add: unat_gt_0)
    note IH = less [OF this]
    have "unat (v mod radix) < 36"
      unfolding d using assms by (meson dual_order.strict_trans2 mod_less_divisor order_less_le_trans zero_less_numeral)
    then show ?thesis
      using False nz IH lookup_digit_char assms(1)
      by (subst itoa_loop.simps, subst (1 2) digits_rev.simps) (simp add: d add.assoc)
  qed
qed

definition numeral_chars :: "nat \<Rightarrow> nat \<Rightarrow> u8 list" where
  "numeral_chars b n = (if n = 0 then [48] else map digit_char (rev (digits_rev b n)))"

lemma digit_char_nz: "d < 36 \<Longrightarrow> digit_char d \<noteq> 0"
proof -
  assume "d < 36"
  moreover have "word_of_nat k \<noteq> (0 :: u8)" if "0 < k" "k < 256" for k
    using that by (simp add: word_of_nat_eq_0_iff nat_dvd_not_less)
  ultimately show ?thesis by (simp only: digit_char_def split: if_split) simp
qed

lemma itoa_cstr:
  assumes radix: "2 \<le> unat radix" "unat radix \<le> 36"
  shows "\<exists>m'. itoa m v buf radix = Some m' \<and> cstr m' buf (numeral_chars (unat radix) (unat v))
    \<and> (\<forall>i. 33 \<le> i \<and> i < 2 ^ 32 \<longrightarrow> m' (buf + word_of_nat i) = m (buf + word_of_nat i))"
proof (cases "v = 0")
  case True
  have "buf + word_of_nat i \<noteq> buf" "buf + word_of_nat i \<noteq> buf + 1" if "33 \<le> i" "i < 2 ^ 32" for i
    using that offset_eq_iff [of i 0 buf] offset_eq_iff [of i 1 buf] by simp_all
  then show ?thesis
    using True by (auto simp: itoa_def numeral_chars_def cstr_Cons_iff cstr_Nil_iff)
next
  case False
  define ds where "ds = map digit_char (digits_rev (unat radix) (unat v))"
  have len: "length ds \<le> 32"
    using digits_rev_length [OF radix(1), of "unat v" 32] unat_lt_size32 [of v] by (simp add: ds_def)
  have nz: "0 \<notin> set ds"
    using digits_rev_less [OF radix(1), of "unat v"] digit_char_nz radix(2)
    by (force simp: ds_def)
  let ?m = "(store m buf ds)(buf + word_of_nat (length ds) := 0)"
  have c: "cstr ?m buf ds" using nz len by (intro cstr_store) simp_all
  let ?r = "store ?m buf (rev ds)"
  have "itoa m v buf radix = Some ?r"
    using False itoa_loop_store [OF radix, of m v buf] strrev_store [OF c]
    by (simp add: itoa_def ds_def)
  moreover have "cstr ?r buf (rev ds)"
  proof (rule cstrI)
    show "?r (buf + word_of_nat (length (rev ds))) = 0"
      using len by (subst store_at(2)) simp_all
    show "?r (buf + word_of_nat i) = rev ds ! i" if "i < length (rev ds)" for i
      using len that by (subst store_at(1)) simp_all
  qed (use nz len in simp_all)
  moreover have "rev ds = numeral_chars (unat radix) (unat v)"
    using False by (simp add: numeral_chars_def ds_def unat_eq_zero rev_map)
  moreover have "?r (buf + word_of_nat i) = m (buf + word_of_nat i)" if "33 \<le> i" "i < 2 ^ 32" for i
  proof -
    have "buf + word_of_nat i \<noteq> buf + word_of_nat (length ds)"
      using that len by (subst offset_eq_iff) simp_all
    then show ?thesis using that len by (simp add: store_at(2))
  qed
  ultimately show ?thesis by (metis (no_types, lifting))
qed

lemma digit_char_sint:
  assumes "d < 10"
  shows "sint (digit_char d) = 48 + int d"
proof -
  have "digit_char d = word_of_int (48 + int d)" using assms by (simp add: digit_char_def)
  moreover have "sint (word_of_int (48 + int d) :: u8) = 48 + int d"
    unfolding sint_sbintrunc' using assms by (intro signed_take_bit_int_eq_self) simp_all
  ultimately show ?thesis by simp
qed

lemma atoi_loop_digits:
  assumes "cstr m p (map digit_char ds)" and "\<forall>d \<in> set ds. d < 10"
  shows "atoi_loop m p (word_of_nat r) =
    Some (word_of_nat (foldl (\<lambda>a d. a * 10 + d) r ds), p + word_of_nat (length ds))"
  using assms
proof (induction ds arbitrary: p r)
  case Nil
  then show ?case by (subst atoi_loop.simps) (simp add: cstr_Nil_iff)
next
  case (Cons d ds)
  have c: "digit_char d \<noteq> 0" "m p = digit_char d" "cstr m (p + 1) (map digit_char ds)"
    using Cons.prems(1) by (simp_all add: cstr_Cons_iff)
  have s: "sint (m p) = 48 + int d" using digit_char_sint [of d] Cons.prems(2) c(2) by simp
  have "atoi_loop m p (word_of_nat r) = atoi_loop m (p + 1) (word_of_nat (r * 10 + d))"
    using c s Cons.prems(2) by (subst atoi_loop.simps) (simp add: of_s32_def)
  then show ?case using Cons.IH [OF c(3), of "r * 10 + d"] Cons.prems(2) by (simp add: add.assoc)
qed

lemma atoi_numeral:
  assumes "cstr m p (numeral_chars 10 (unat v))"
  shows "atoi m p = Some (v, p + word_of_nat (length (numeral_chars 10 (unat v))))"
proof (cases "unat v = 0")
  case True
  then have "cstr m p (map digit_char [0])" "v = 0"
    using assms by (simp_all add: numeral_chars_def digit_char_def unat_eq_zero)
  from atoi_loop_digits [OF this(1), of 0] this(2) show ?thesis
    by (simp add: atoi_def numeral_chars_def)
next
  case False
  let ?ds = "rev (digits_rev 10 (unat v))"
  have "cstr m p (map digit_char ?ds)" using assms False by (simp add: numeral_chars_def)
  moreover have "\<forall>d \<in> set ?ds. d < 10" using digits_rev_less [of 10 "unat v"] by simp
  ultimately have "atoi_loop m p (word_of_nat 0) =
      Some (word_of_nat (foldl (\<lambda>a d. a * 10 + d) 0 ?ds), p + word_of_nat (length ?ds))"
    by (rule atoi_loop_digits)
  moreover have "foldl (\<lambda>a d. a * 10 + d) 0 ?ds = unat v"
    using digits_rev_value [of 10 "unat v"] by (simp add: foldl_conv_foldr)
  ultimately show ?thesis using False by (simp add: atoi_def numeral_chars_def)
qed

section \<open>Properties\<close>

text \<open>C3: \<open>memset\<close> with its aligned fast path writes the low byte of \<open>c\<close> to the \<open>n\<close> addresses from
  \<open>s\<close> on and to no other.\<close>

theorem memset_fills:
  "memset m s c n (s + word_of_nat i) = (if i mod 2 ^ 32 < unat n then ucast c else m (s + word_of_nat i))"
proof -
  let ?i = "i mod 2 ^ 32"
  have "(word_of_nat i :: u32) = word_of_nat ?i"
    by (simp add: word_of_nat_eq_iff take_bit_eq_mod)
  moreover have "store m s (replicate (unat n) (ucast c)) (s + word_of_nat ?i)
      = (if ?i < unat n then ucast c else m (s + word_of_nat ?i))"
    using unat_lt_size32 [of n] by (simp add: store_at)
  ultimately show ?thesis by (simp only: memset_store)
qed

text \<open>\<open>memmove\<close> copies as if through a temporary buffer, however the two blocks overlap: the
  destination ends up with the bytes the source had before, and nothing else changes.  A downwards
  move leaves the direction flag set (the second result), which no later instruction clears.\<close>

theorem memmove_overlap:
  assumes "unat dest + unat n \<le> 2 ^ 32" and "unat src + unat n \<le> 2 ^ 32"
  shows "memmove m dest src n = (store m dest (bytes m src (unat n)), src < dest)"
  by (rule memmove_store [OF assms])

theorem memmove_overlap_witness:
  "memmove ucast 101 100 3 = (store ucast 101 [100, 101, 102], True)"
proof -
  have "bytes ucast 100 3 = ([100, 101, 102] :: u8 list)"
    by (simp add: bytes_def upt_conv_Cons)
  then show ?thesis using memmove_overlap [of 101 3 100 ucast] by (simp del: store.simps)
qed

text \<open>C4: \<open>itoa\<close> and \<open>atoi\<close> are inverse on decimal numbers.  \<open>itoa\<close> with radix 10 writes a string that
  \<open>atoi\<close> reads back as the same 32-bit value, stopping at its terminator.\<close>

theorem itoa_atoi_roundtrip:
  "\<exists>m' s. itoa m v buf 10 = Some m' \<and> cstr m' buf s \<and> atoi m' buf = Some (v, buf + word_of_nat (length s))"
proof -
  obtain m' where "itoa m v buf 10 = Some m'" "cstr m' buf (numeral_chars 10 (unat v))"
    using itoa_cstr [of 10 m v buf] by auto
  with atoi_numeral show ?thesis by blast
qed

end
