(* ===== verification/Paths.thy ===== *)
theory Paths
  imports Strings "HOL-Library.Monad_Syntax" "HOL-Library.Sublist"
begin

text \<open>
  \<open>vfs/path.c\<close> and \<open>vfs/mount.c\<close>: paths as lists of components below a mount, the mount table and
  the reference counts of mounts.  Names are lists of bytes without the terminator; \<open>strcmp\<close> and
  \<open>strncmp\<close> against them are the equations of \<open>strcmp_eq\<close> and \<open>strncmp_eq\<close>.  A result of \<open>None\<close> is an
  access through a dangling or null pointer, or a loop that does not end.
\<close>

section \<open>The data\<close>

type_synonym name = "u8 list"

text \<open>\<open>p_mnt\<close> is the address of a \<open>struct mount\<close>, \<open>0\<close> for none.\<close>

record kpath =
  p_absolute :: bool
  p_mnt :: ptr
  p_components :: "name list"

record mount =
  m_refcount :: int
  m_root :: ptr
  m_path :: kpath
  m_sb :: ptr

text \<open>What releasing a mount does outside of the path code, in order.\<close>

datatype vfs_event = PutInode ptr | PutSuper ptr

record vfs =
  v_answers :: answers
  v_mounts :: "ptr \<Rightarrow> mount option"
  v_table :: "ptr list" \<comment> \<open>\<open>mounttable\<close>, front first\<close>
  v_events :: "vfs_event list"

definition vfs_kmalloc :: "vfs \<Rightarrow> bool \<times> vfs" where
  "vfs_kmalloc st = (let (ok, as) = kmalloc (v_answers st) in (ok, st\<lparr>v_answers := as\<rparr>))"

abbreviation set_mount :: "ptr \<Rightarrow> mount option \<Rightarrow> vfs \<Rightarrow> vfs" where
  "set_mount m x st \<equiv> st\<lparr>v_mounts := (v_mounts st)(m := x)\<rparr>"

section \<open>Reference counts\<close>

definition get_mount :: "ptr \<Rightarrow> vfs \<Rightarrow> vfs option" where
  "get_mount m st = do {
     mt \<leftarrow> v_mounts st m;
     Some (set_mount m (Some (mt\<lparr>m_refcount := m_refcount mt + 1\<rparr>)) st) }"

text \<open>
  \<open>put_mount\<close>; the call of \<open>path_destroy\<close> on the path of a released mount puts the mount that path
  is below, if any.
\<close>

partial_function (option) put_mount :: "ptr \<Rightarrow> vfs \<Rightarrow> vfs option" where
  "put_mount m st = do {
     mt \<leftarrow> v_mounts st m;
     let n = m_refcount mt - 1;
     let st1 = set_mount m (Some (mt\<lparr>m_refcount := n\<rparr>)) st;
     if n \<noteq> 0 then Some st1
     else do {
       let st2 = st1\<lparr>v_events := v_events st1 @ [PutInode (m_root mt)]\<rparr>;
       st3 \<leftarrow> (if p_mnt (m_path mt) = 0 then Some st2 else put_mount (p_mnt (m_path mt)) st2);
       let st4 = set_mount m None st3;
       Some (st4\<lparr>v_events := v_events st4 @ [PutSuper (m_sb mt)]\<rparr>) } }"

definition path_destroy :: "kpath \<Rightarrow> vfs \<Rightarrow> vfs option" where
  "path_destroy path st = (if p_mnt path = 0 then Some st else put_mount (p_mnt path) st)"

section \<open>Building paths\<close>

text \<open>
  \<open>component\<close> is the string from the component on, \<open>n\<close> the length of the component.  The result of
  \<open>list_insert_back\<close>, which allocates a node, is not looked at.
\<close>

definition path_add_component :: "kpath \<Rightarrow> name \<Rightarrow> nat \<Rightarrow> vfs \<Rightarrow> int \<times> kpath \<times> vfs" where
  "path_add_component path component n st =
     (if n = 0 \<or> take n component = take n [46] then (0, path, st)
      else if take n component = take n [46, 46] \<and> p_components path \<noteq> []
      then (0, path\<lparr>p_components := butlast (p_components path)\<rparr>, st)
      else if take n component = take n [46, 46] \<and> (p_absolute path \<or> p_mnt path \<noteq> 0)
      then (0, path, st)
      else let (ok, st1) = vfs_kmalloc st in
        if \<not> ok then (- ENOMEM, path, st1)
        else let (node, st2) = vfs_kmalloc st1 in
          (0, if node then path\<lparr>p_components := p_components path @ [take n component]\<rparr> else path,
           st2))"

text \<open>The loop over the separators, then what is left after the last one.\<close>

function path_split :: "kpath \<Rightarrow> name \<Rightarrow> vfs \<Rightarrow> int \<times> kpath \<times> vfs" where
  "path_split path s st =
     (if s = [] then (0, path, st)
      else if 47 \<in> set s then
        let n = length (takeWhile (\<lambda>c. c \<noteq> 47) s);
            (res, path1, st1) = path_add_component path s n st
        in if res \<noteq> 0 then (res, path1, st1) else path_split path1 (drop (n + 1) s) st1
      else path_add_component path s (length s) st)"
  by pat_completeness auto
termination by (relation "measure (\<lambda>(path, s, st). length s)") auto

declare path_split.simps [simp del]

definition path_fromstr :: "name \<Rightarrow> vfs \<Rightarrow> ((int + kpath) \<times> vfs) option" where
  "path_fromstr s st =
     (if s = [] then Some (Inl (- ENOENT), st)
      else let (ok, st1) = vfs_kmalloc st in
        if \<not> ok then Some (Inl (- ENOMEM), st1)
        else let path = \<lparr>p_absolute = hd s = 47, p_mnt = 0, p_components = []\<rparr>;
                 (res, path1, st2) = path_split path (if hd s = 47 then tl s else s) st1
             in if res \<noteq> 0 then do { st3 \<leftarrow> path_destroy path1 st2; Some (Inl res, st3) }
                else Some (Inr path1, st2))"

fun path_add_all :: "kpath \<Rightarrow> name list \<Rightarrow> vfs \<Rightarrow> int \<times> kpath \<times> vfs" where
  "path_add_all path [] st = (0, path, st)"
| "path_add_all path (c # cs) st =
     (let (res, path1, st1) = path_add_component path c (length c) st
      in if res \<noteq> 0 then (res, path1, st1) else path_add_all path1 cs st1)"

text \<open>The body of \<open>path_join\<close> after its checks of \<open>y\<close>; its two loops share the error exit.\<close>

definition path_join_rel :: "kpath \<Rightarrow> kpath \<Rightarrow> vfs \<Rightarrow> ((int + kpath) \<times> vfs) option" where
  "path_join_rel x y st =
     (let (ok, st1) = vfs_kmalloc st in
      if \<not> ok then Some (Inl (- ENOMEM), st1)
      else do {
        st2 \<leftarrow> (if p_mnt x = 0 then Some st1 else get_mount (p_mnt x) st1);
        let path = \<lparr>p_absolute = p_absolute x, p_mnt = p_mnt x, p_components = []\<rparr>;
        let (res, path1, st3) = path_add_all path (p_components x) st2;
        let (res, path2, st4) =
          (if res \<noteq> 0 then (res, path1, st3) else path_add_all path1 (p_components y) st3);
        if res \<noteq> 0 then do { st5 \<leftarrow> path_destroy path2 st4; Some (Inl res, st5) }
        else Some (Inr path2, st4) })"

text \<open>\<open>path_clone\<close> joins with an empty relative path, which takes neither check of \<open>path_join\<close>.\<close>

definition path_clone :: "kpath \<Rightarrow> vfs \<Rightarrow> ((int + kpath) \<times> vfs) option" where
  "path_clone old st =
     (let (ok, st1) = vfs_kmalloc st in
      if \<not> ok then Some (Inl (- ENOMEM), st1)
      else do {
        let empty = \<lparr>p_absolute = False, p_mnt = 0, p_components = []\<rparr>;
        (r, st2) \<leftarrow> path_join_rel old empty st1;
        st3 \<leftarrow> path_destroy empty st2;
        Some (r, st3) })"

definition path_join :: "kpath \<Rightarrow> kpath \<Rightarrow> vfs \<Rightarrow> ((int + kpath) \<times> vfs) option" where
  "path_join x y st =
     (if p_mnt y \<noteq> 0 then Some (Inl (- EINVAL), st)
      else if p_absolute y then path_clone y st
      else path_join_rel x y st)"

section \<open>Comparing paths\<close>

definition path_size :: "kpath \<Rightarrow> u32" where
  "path_size path = word_of_nat (length (p_components path))"

text \<open>The two lists are walked together; both ends have a \<open>NULL\<close> value, which compares equal.\<close>

fun subsumes_from :: "int \<Rightarrow> name list \<Rightarrow> name list \<Rightarrow> int" where
  "subsumes_from matchsize [] [] = matchsize"
| "subsumes_from matchsize (p # ps) (c # cs) =
     (if p = c then subsumes_from (matchsize + 1) ps cs else -1)"
| "subsumes_from matchsize [] (c # cs) = matchsize"
| "subsumes_from matchsize (p # ps) [] = -1"

definition path_subsumes :: "kpath \<Rightarrow> kpath \<Rightarrow> int" where
  "path_subsumes parent child =
     (if p_mnt parent \<noteq> p_mnt child \<or> p_absolute parent \<noteq> p_absolute child then -1
      else subsumes_from 0 (p_components parent) (p_components child))"

text \<open>These two compare an \<open>int32_t\<close> with a \<open>uint32_t\<close>, so as unsigned numbers.\<close>

definition path_is_same :: "kpath \<Rightarrow> kpath \<Rightarrow> bool" where
  "path_is_same x y \<longleftrightarrow> of_s32 (path_subsumes x y) = path_size y"

definition path_is_direct_decendent :: "kpath \<Rightarrow> kpath \<Rightarrow> bool" where
  "path_is_direct_decendent parent child \<longleftrightarrow>
     of_s32 (path_subsumes parent child) = path_size child - 1"

section \<open>Mount points\<close>

text \<open>The scan of \<open>mounttable\<close>: a later entry with as many matching components wins.\<close>

fun best_match :: "vfs \<Rightarrow> kpath \<Rightarrow> ptr list \<Rightarrow> ptr \<Rightarrow> int \<Rightarrow> ptr option" where
  "best_match st path [] best bestsize = Some best"
| "best_match st path (e # es) best bestsize = do {
     mt \<leftarrow> v_mounts st e;
     let matchsize = path_subsumes (m_path mt) path;
     if matchsize \<ge> bestsize then best_match st path es e matchsize
     else best_match st path es best bestsize }"

partial_function (option) checkmnt_loop :: "kpath \<Rightarrow> vfs \<Rightarrow> (kpath \<times> vfs) option" where
  "checkmnt_loop path st = do {
     best \<leftarrow> best_match st path (v_table st) 0 0;
     if best = 0 then Some (path, st)
     else do {
       st1 \<leftarrow> (if p_mnt path = 0 then Some st else put_mount (p_mnt path) st);
       st2 \<leftarrow> get_mount best st1;
       mt \<leftarrow> v_mounts st2 best;
       checkmnt_loop \<lparr>p_absolute = False, p_mnt = best,
           p_components = drop (length (p_components (m_path mt))) (p_components path)\<rparr> st2 } }"

definition path_checkmnt :: "kpath \<Rightarrow> vfs \<Rightarrow> ((int + kpath) \<times> vfs) option" where
  "path_checkmnt old st = do {
     (r, st1) \<leftarrow> path_clone old st;
     case r of
       Inl e \<Rightarrow> Some (Inl e, st1)
     | Inr path \<Rightarrow> do { (path', st2) \<leftarrow> checkmnt_loop path st1; Some (Inr path', st2) } }"

text \<open>
  The loop of \<open>path_resolvemnt\<close> clears \<open>path->mnt\<close> before \<open>path_destroy(path)\<close>: the reference the
  path held on its mount is not given back.
\<close>

partial_function (option) resolvemnt_loop :: "kpath \<Rightarrow> vfs \<Rightarrow> ((int + kpath) \<times> vfs) option" where
  "resolvemnt_loop path st =
     (if p_mnt path = 0 then Some (Inr path, st)
      else do {
        mt \<leftarrow> v_mounts st (p_mnt path);
        let path' = path\<lparr>p_mnt := 0\<rparr>;
        (r, st1) \<leftarrow> path_join (m_path mt) path' st;
        st2 \<leftarrow> path_destroy path' st1;
        (case r of Inl e \<Rightarrow> Some (Inl e, st2) | Inr newpath \<Rightarrow> resolvemnt_loop newpath st2) })"

definition path_resolvemnt :: "kpath \<Rightarrow> vfs \<Rightarrow> ((int + kpath) \<times> vfs) option" where
  "path_resolvemnt old st = do {
     (r, st1) \<leftarrow> path_clone old st;
     case r of
       Inl e \<Rightarrow> Some (Inl e, st1)
     | Inr path \<Rightarrow> resolvemnt_loop path st1 }"

section \<open>Printing paths\<close>

text \<open>The bytes written to the buffer, in order; \<open>nbytes\<close> counts the room left.\<close>

fun tostring_loop :: "name list \<Rightarrow> nat \<Rightarrow> u8 list" where
  "tostring_loop [] nbytes = (if nbytes = 0 then [] else [0])"
| "tostring_loop (c # cs) nbytes =
     (if nbytes = 0 then []
      else let len = min (length c) (nbytes - 1)
           in 47 # take len c @ tostring_loop cs (nbytes - 1 - len))"

definition path_bytes :: "name list \<Rightarrow> nat \<Rightarrow> u8 list" where
  "path_bytes cs nbytes =
     (if cs = [] then (if nbytes = 1 then [47] else [47, 0]) else tostring_loop cs nbytes)"

text \<open>The early return for \<open>nbytes == 0\<close> does not destroy the resolved path.\<close>

definition path_tostring :: "kpath \<Rightarrow> u32 \<Rightarrow> vfs \<Rightarrow> ((int \<times> u8 list) \<times> vfs) option" where
  "path_tostring path nbytes st = do {
     (r, st1) \<leftarrow> path_resolvemnt path st;
     case r of
       Inl e \<Rightarrow> Some ((e, []), st1)
     | Inr path' \<Rightarrow>
         if nbytes = 0 then Some ((0, []), st1)
         else do {
           let out = path_bytes (p_components path') (unat nbytes);
           st2 \<leftarrow> path_destroy path' st1;
           Some ((int (length out), out), st2) } }"

section \<open>Mounting\<close>

text \<open>
  \<open>do_mount\<close>: the file system's \<open>init\<close> and \<open>read_inode\<close> are called through pointers, their results
  are arguments; \<open>sb\<close>, \<open>root\<close> and \<open>entry\<close> are the addresses of the three objects it allocates.
\<close>

definition do_mount ::
    "int \<Rightarrow> int \<Rightarrow> ptr \<Rightarrow> ptr \<Rightarrow> ptr \<Rightarrow> kpath \<Rightarrow> vfs \<Rightarrow> (int \<times> vfs) option" where
  "do_mount init read_inode sb root entry path st =
     (let put_super = (\<lambda>st. st\<lparr>v_events := v_events st @ [PutSuper sb]\<rparr>);
          (ok1, st1) = vfs_kmalloc st in
      if \<not> ok1 then Some (- ENOMEM, st1)
      else if init < 0 then Some (init, st1)
      else let (ok2, st2) = vfs_kmalloc st1 in
        if \<not> ok2 then Some (- ENOMEM, put_super st2)
        else if read_inode < 0 then Some (read_inode, put_super st2)
        else do {
          (r, st3) \<leftarrow> path_clone path st2;
          case r of
            Inl e \<Rightarrow> Some (e, put_super st3)
          | Inr path' \<Rightarrow>
              let (ok3, st4) = vfs_kmalloc st3 in
              if \<not> ok3 then do { st5 \<leftarrow> path_destroy path' st4; Some (- ENOMEM, put_super st5) }
              else let mt = \<lparr>m_refcount = 1, m_root = root, m_path = path', m_sb = sb\<rparr>;
                       (node, st5) = vfs_kmalloc st4 in
                if node then Some (0, set_mount entry (Some mt) (st5\<lparr>v_table := v_table st5 @ [entry]\<rparr>))
                else do { st6 \<leftarrow> path_destroy path' st5; Some (- ENOMEM, put_super st6) } })"

definition do_umount :: "kpath \<Rightarrow> vfs \<Rightarrow> (int \<times> vfs) option" where
  "do_umount path st = do {
     (r, st1) \<leftarrow> path_checkmnt path st;
     case r of
       Inl e \<Rightarrow> Some (e, st1)
     | Inr path' \<Rightarrow>
         if p_components path' \<noteq> [] then do {
           st2 \<leftarrow> path_destroy path' st1; Some (- EINVAL, st2) }
         else do {
           let entry = p_mnt path';
           let st2 = st1\<lparr>v_table := filter (\<lambda>e. e \<noteq> entry) (v_table st1)\<rparr>;
           st3 \<leftarrow> put_mount entry st2;
           st4 \<leftarrow> path_destroy path' st3;
           Some (0, st4) } }"

section \<open>Errors are negative\<close>

lemma path_add_component_res:
  "path_add_component path c n st = (res, path', st') \<Longrightarrow> res = 0 \<or> res = - ENOMEM"
  by (auto simp: path_add_component_def Let_def split: if_splits prod.splits)

lemma path_split_res:
  "path_split path s st = (res, path', st') \<Longrightarrow> res = 0 \<or> res = - ENOMEM"
proof (induction path s st rule: path_split.induct)
  case (1 path s st)
  show ?case
  proof (cases "s \<noteq> [] \<and> 47 \<in> set s")
    case False
    with 1(2) path_add_component_res show ?thesis
      by (auto simp: path_split.simps split: if_splits)
  next
    case True
    define n where "n = length (takeWhile (\<lambda>c. c \<noteq> 47) s)"
    obtain r p1 st1 where add: "path_add_component path s n st = (r, p1, st1)"
      by (cases "path_add_component path s n st")
    have "path_split path s st = (if r \<noteq> 0 then (r, p1, st1) else path_split p1 (drop (Suc n) s) st1)"
      using True add by (subst path_split.simps) (simp add: Let_def n_def [symmetric])
    moreover have "path_split p1 (drop (Suc n) s) st1 = (res, path', st') \<Longrightarrow> res = 0 \<or> res = - ENOMEM"
      if "r = 0"
      using 1(1) [OF _ _ n_def add [symmetric]] True that by simp
    ultimately show ?thesis using path_add_component_res [OF add] 1(2) by (auto split: if_splits)
  qed
qed

lemma path_add_all_res:
  "path_add_all path cs st = (res, path', st') \<Longrightarrow> res = 0 \<or> res = - ENOMEM"
  by (induction cs arbitrary: path st)
    (auto split: prod.splits if_splits dest: path_add_component_res)

lemma path_fromstr_err: "path_fromstr s st = Some (Inl e, st') \<Longrightarrow> e < 0"
  using path_split_res
  by (fastforce simp: path_fromstr_def Let_def bind_eq_Some_conv split: if_splits prod.splits)

lemma path_join_rel_err:
  assumes "path_join_rel x y st = Some (Inl e, st')"
  shows "e < 0"
proof -
  obtain ok st1 where k: "vfs_kmalloc st = (ok, st1)" by (cases "vfs_kmalloc st")
  show ?thesis
  proof (cases ok)
    case False
    with assms k show ?thesis by (simp add: path_join_rel_def)
  next
    case True
    let ?path = "\<lparr>p_absolute = p_absolute x, p_mnt = p_mnt x, p_components = []\<rparr>"
    from assms k True obtain st2 where
      g: "(if p_mnt x = 0 then Some st1 else get_mount (p_mnt x) st1) = Some st2"
      by (auto simp: path_join_rel_def bind_eq_Some_conv)
    obtain r1 p1 st3 where a1: "path_add_all ?path (p_components x) st2 = (r1, p1, st3)"
      by (cases "path_add_all ?path (p_components x) st2")
    obtain r2 p2 st4 where
      a2: "(if r1 \<noteq> 0 then (r1, p1, st3) else path_add_all p1 (p_components y) st3) = (r2, p2, st4)"
      by (cases "if r1 \<noteq> 0 then (r1, p1, st3) else path_add_all p1 (p_components y) st3")
    have "r2 = 0 \<or> r2 = - ENOMEM"
      using path_add_all_res [OF a1] path_add_all_res [of p1 _ st3 r2 p2 st4] a2
      by (auto split: if_splits)
    with assms k True g a1 a2 show ?thesis
      by (auto simp: path_join_rel_def Let_def bind_eq_Some_conv split: if_splits)
  qed
qed

lemma path_clone_err: "path_clone p st = Some (Inl e, st') \<Longrightarrow> e < 0"
  using path_join_rel_err
  by (fastforce simp: path_clone_def Let_def bind_eq_Some_conv split: if_splits prod.splits)

lemma path_join_err: "path_join x y st = Some (Inl e, st') \<Longrightarrow> e < 0"
  using path_clone_err path_join_rel_err by (auto simp: path_join_def split: if_splits)

section \<open>What the operations compute when memory does not run out\<close>

text \<open>Adding one name to the components; \<open>rooted\<close> paths cannot go above their start.\<close>

definition add_name :: "bool \<Rightarrow> name list \<Rightarrow> name \<Rightarrow> name list" where
  "add_name rooted cs c =
     (if c = [] \<or> c = [46] then cs
      else if c = [46, 46] \<and> cs \<noteq> [] then butlast cs
      else if c = [46, 46] \<and> rooted then cs
      else cs @ [c])"

fun split_slash :: "name \<Rightarrow> name list" where
  "split_slash [] = [[]]"
| "split_slash (c # s) =
     (if c = 47 then [] # split_slash s
      else (c # hd (split_slash s)) # tl (split_slash s))"

definition plain_name :: "name \<Rightarrow> bool" where
  "plain_name c \<longleftrightarrow> c \<noteq> [] \<and> c \<noteq> [46] \<and> c \<noteq> [46, 46] \<and> 47 \<notin> set c"

abbreviation rooted :: "kpath \<Rightarrow> bool" where
  "rooted path \<equiv> p_absolute path \<or> p_mnt path \<noteq> 0"

lemma vfs_kmalloc_ok [simp]: "v_answers st = [] \<Longrightarrow> vfs_kmalloc st = (True, st)"
  by (simp add: vfs_kmalloc_def)

lemma path_add_component_ok:
  assumes "v_answers st = []" and n: "n \<le> length c"
  shows "path_add_component path c n st =
    (0, path\<lparr>p_components := add_name (rooted path) (p_components path) (take n c)\<rparr>, st)"
proof -
  consider "n = 0" | "n = 1" | "2 \<le> n" by linarith
  then show ?thesis
  proof cases
    case 2
    have "take 1 c \<noteq> [46, 46]" "take 1 c = [] \<Longrightarrow> c = []" by (cases c; simp)+
    with 2 assms show ?thesis
      by (cases c) (auto simp: path_add_component_def add_name_def)
  next
    case 3
    then have "take n [46] = ([46] :: name)" "take n [46, 46] = ([46, 46] :: name)" by simp_all
    moreover have "take n c \<noteq> []" using n 3 by auto
    ultimately show ?thesis using 3 assms
      by (auto simp: path_add_component_def add_name_def)
  qed (simp add: path_add_component_def add_name_def)
qed

lemma split_slash_nonempty: "split_slash s \<noteq> []"
  by (cases s) simp_all

lemma split_slash_none: "47 \<notin> set s \<Longrightarrow> split_slash s = [s]"
  by (induction s) auto

lemma split_slash_some:
  assumes "47 \<in> set s"
  shows "split_slash s = takeWhile (\<lambda>c. c \<noteq> 47) s
    # split_slash (drop (length (takeWhile (\<lambda>c. c \<noteq> 47) s) + 1) s)"
  using assms by (induction s) auto

lemma add_name_nil [simp]: "add_name r cs [] = cs"
  by (simp add: add_name_def)

lemma path_split_ok:
  assumes "v_answers st = []"
  shows "path_split path s st =
    (0, path\<lparr>p_components := foldl (add_name (rooted path)) (p_components path) (split_slash s)\<rparr>, st)"
  using assms
proof (induction path s st rule: path_split.induct)
  case (1 path s st)
  show ?case
  proof (cases "s = [] \<or> 47 \<notin> set s")
    case True
    then show ?thesis
      using 1 by (subst path_split.simps) (auto simp: path_add_component_ok split_slash_none)
  next
    case False
    define n where "n = length (takeWhile (\<lambda>c. c \<noteq> 47) s)"
    have w: "take n s = takeWhile (\<lambda>c. c \<noteq> 47) s"
      by (simp add: n_def takeWhile_eq_take [symmetric])
    have nle: "n \<le> length s" by (simp add: n_def length_takeWhile_le)
    from False have "path_split path s st = path_split
        (path\<lparr>p_components := add_name (rooted path) (p_components path) (take n s)\<rparr>) (drop (n + 1) s) st"
      using 1(2) by (subst path_split.simps) (simp add: Let_def n_def [symmetric] path_add_component_ok nle)
    with False 1 show ?thesis
      by (simp add: path_add_component_ok nle Let_def n_def [symmetric] split_slash_some w)
  qed
qed

lemma path_fromstr_ok:
  assumes "v_answers st = []" and "s \<noteq> []"
  shows "path_fromstr s st = Some (Inr \<lparr>p_absolute = hd s = 47, p_mnt = 0,
    p_components = foldl (add_name (hd s = 47)) [] (split_slash s)\<rparr>, st)"
proof (cases s)
  case (Cons c s')
  then show ?thesis using assms(1) by (simp add: path_fromstr_def path_split_ok)
qed (use assms in simp)

text \<open>Components of a rooted path are plain names.\<close>

lemma split_slash_no_slash: "w \<in> set (split_slash s) \<Longrightarrow> 47 \<notin> set w"
proof (induction s arbitrary: w)
  case (Cons c s)
  then show ?case
    using split_slash_nonempty [of s] by (cases "split_slash s") (auto split: if_splits)
qed simp

lemma add_name_plain:
  assumes "\<forall>d \<in> set cs. plain_name d" and "47 \<notin> set c"
  shows "\<forall>d \<in> set (add_name True cs c). plain_name d"
  using assms by (auto simp: add_name_def plain_name_def dest: in_set_butlastD)

lemma foldl_add_name_plain:
  "\<forall>d \<in> set cs. plain_name d \<Longrightarrow> \<forall>w \<in> set ws. 47 \<notin> set w \<Longrightarrow>
    \<forall>d \<in> set (foldl (add_name True) cs ws). plain_name d"
proof (induction ws arbitrary: cs)
  case (Cons w ws)
  then have "\<forall>d \<in> set (add_name True cs w). plain_name d" by (intro add_name_plain) auto
  with Cons show ?case by simp
qed simp

lemma foldl_add_name_id:
  "\<forall>w \<in> set ws. plain_name w \<Longrightarrow> foldl (add_name r) cs ws = cs @ ws"
  by (induction ws arbitrary: cs) (auto simp: add_name_def plain_name_def)

lemma path_add_all_ok:
  assumes "v_answers st = []"
  shows "path_add_all path cs st =
    (0, path\<lparr>p_components := foldl (add_name (rooted path)) (p_components path) cs\<rparr>, st)"
  using assms by (induction cs arbitrary: path) (simp_all add: path_add_component_ok)

text \<open>Taking a reference on the mount of a path, if it has one.\<close>

definition hold :: "ptr \<Rightarrow> vfs \<Rightarrow> vfs" where
  "hold m st = (case v_mounts st m of
     None \<Rightarrow> st
   | Some mt \<Rightarrow> if m = 0 then st else set_mount m (Some (mt\<lparr>m_refcount := m_refcount mt + 1\<rparr>)) st)"

lemma hold_simps [simp]:
  "v_answers (hold m st) = v_answers st" "v_table (hold m st) = v_table st"
  "v_events (hold m st) = v_events st" "hold 0 st = st"
  by (simp_all add: hold_def split: option.splits)

definition live_mnt :: "vfs \<Rightarrow> ptr \<Rightarrow> bool" where
  "live_mnt st m \<longleftrightarrow> m = 0 \<or> v_mounts st m \<noteq> None"

lemma get_mount_hold:
  "m \<noteq> 0 \<Longrightarrow> live_mnt st m \<Longrightarrow> get_mount m st = Some (hold m st)"
  by (auto simp: get_mount_def hold_def live_mnt_def)

lemma path_join_rel_ok:
  assumes "v_answers st = []" and "live_mnt st (p_mnt x)"
  shows "path_join_rel x y st = Some (Inr (x\<lparr>p_components :=
    foldl (add_name (rooted x)) [] (p_components x @ p_components y)\<rparr>), hold (p_mnt x) st)"
  using assms by (simp add: path_join_rel_def get_mount_hold path_add_all_ok Let_def)

definition plain_path :: "kpath \<Rightarrow> bool" where
  "plain_path p \<longleftrightarrow> (\<forall>c \<in> set (p_components p). plain_name c)"

lemma path_clone_ok:
  assumes "v_answers st = []" and "live_mnt st (p_mnt p)" and "plain_path p"
  shows "path_clone p st = Some (Inr p, hold (p_mnt p) st)"
  using assms by (simp add: path_clone_def path_join_rel_ok path_destroy_def plain_path_def
      foldl_add_name_id)

lemma path_join_ok:
  assumes "v_answers st = []" and "live_mnt st (p_mnt x)" and "plain_path x" and "plain_path y"
    and "p_mnt y = 0"
  shows "path_join x y st = Some (Inr (if p_absolute y then y
      else x\<lparr>p_components := p_components x @ p_components y\<rparr>),
    if p_absolute y then st else hold (p_mnt x) st)"
  using assms path_clone_ok [of st y]
  by (simp add: path_join_def path_join_rel_ok plain_path_def foldl_add_name_id live_mnt_def)

text \<open>\<open>path_subsumes\<close> is the prefix order below the same start.\<close>

lemma subsumes_from_prefix:
  "subsumes_from n ps cs = (if prefix ps cs then n + int (length ps) else -1)"
  by (induction n ps cs rule: subsumes_from.induct) auto

lemma path_subsumes_prefix:
  "path_subsumes p c = (if p_mnt p = p_mnt c \<and> p_absolute p = p_absolute c
      \<and> prefix (p_components p) (p_components c)
    then int (length (p_components p)) else -1)"
  by (simp add: path_subsumes_def subsumes_from_prefix)

lemma of_s32_nat: "of_s32 (int n) = word_of_nat n"
  by (simp add: of_s32_def)

lemma path_is_same_iff:
  assumes "length (p_components x) < 2 ^ 31" and "length (p_components y) < 2 ^ 31"
  shows "path_is_same x y \<longleftrightarrow> p_mnt x = p_mnt y \<and> p_absolute x = p_absolute y
    \<and> p_components x = p_components y"
proof (cases "path_subsumes x y = -1")
  case True
  have "(- 1 :: u32) \<noteq> word_of_nat (length (p_components y))"
  proof
    assume "(- 1 :: u32) = word_of_nat (length (p_components y))"
    then have "unat (- 1 :: u32) = length (p_components y)"
      using assms(2) by (simp add: unat_of_nat take_bit_nat_eq_self)
    then show False using assms(2) by (simp add: unsigned_minus_1_eq_mask mask_eq_exp_minus_1)
  qed
  then show ?thesis using True
    by (auto simp: path_is_same_def path_size_def of_s32_def path_subsumes_prefix split: if_splits)
next
  case False
  then have sub: "p_mnt x = p_mnt y" "p_absolute x = p_absolute y"
    "prefix (p_components x) (p_components y)"
    by (simp_all add: path_subsumes_prefix split: if_splits)
  then have "path_subsumes x y = int (length (p_components x))"
    by (simp add: path_subsumes_prefix)
  then have "path_is_same x y \<longleftrightarrow>
      (word_of_nat (length (p_components x)) :: u32) = word_of_nat (length (p_components y))"
    by (simp only: path_is_same_def path_size_def of_s32_nat)
  also have "\<dots> \<longleftrightarrow> length (p_components x) = length (p_components y)"
    using assms by (intro word_of_nat_inj32) simp_all
  finally have same: "path_is_same x y \<longleftrightarrow> length (p_components x) = length (p_components y)" .
  obtain zs where zs: "p_components y = p_components x @ zs" using sub(3) by (elim prefixE)
  show ?thesis unfolding same by (simp add: sub(1,2) zs)
qed

text \<open>The scan of the mount table finds a maximum.\<close>

lemma best_match_spec:
  assumes "\<forall>e \<in> set es. v_mounts st e = Some (mt e)"
  shows "\<exists>b. best_match st p es best n = Some b \<and>
    (b = best \<and> (\<forall>e \<in> set es. path_subsumes (m_path (mt e)) p < n) \<or>
     b \<in> set es \<and> n \<le> path_subsumes (m_path (mt b)) p \<and>
       (\<forall>e \<in> set es. path_subsumes (m_path (mt e)) p \<le> path_subsumes (m_path (mt b)) p))"
  using assms
proof (induction es arbitrary: best n)
  case Nil
  then show ?case by simp
next
  case (Cons e es)
  let ?s = "\<lambda>e. path_subsumes (m_path (mt e)) p"
  show ?case
  proof (cases "n \<le> ?s e")
    case True
    with Cons.IH [of e "?s e"] Cons.prems show ?thesis by fastforce
  next
    case False
    with Cons.IH [of best n] Cons.prems show ?thesis by fastforce
  qed
qed

text \<open>
  A flat mount table: every entry is alive and mounted on a plain absolute path, which is what
  \<open>do_mount\<close> leaves when it is given such a path.
\<close>

definition flat_entry :: "vfs \<Rightarrow> ptr \<Rightarrow> bool" where
  "flat_entry st e \<longleftrightarrow> e \<noteq> 0 \<and> (case v_mounts st e of
     None \<Rightarrow> False
   | Some mt \<Rightarrow> p_mnt (m_path mt) = 0 \<and> p_absolute (m_path mt) \<and> plain_path (m_path mt))"

definition flat_table :: "vfs \<Rightarrow> bool" where
  "flat_table st \<longleftrightarrow> (\<forall>e \<in> set (v_table st). flat_entry st e)"

definition mount_path :: "vfs \<Rightarrow> ptr \<Rightarrow> kpath" where
  "mount_path st e = m_path (the (v_mounts st e))"

lemma flat_tableD:
  assumes "flat_table st" and "e \<in> set (v_table st)"
  shows "e \<noteq> 0" "\<exists>mt. v_mounts st e = Some mt" "p_mnt (mount_path st e) = 0"
    "p_absolute (mount_path st e)" "plain_path (mount_path st e)"
  using assms by (auto simp: flat_table_def flat_entry_def mount_path_def split: option.splits)

lemma mount_path_hold [simp]: "mount_path (hold m st) e = mount_path st e"
  by (simp add: mount_path_def hold_def split: option.splits)

lemma flat_table_hold [simp]: "flat_table (hold m st) = flat_table st"
proof -
  have "flat_entry (hold m st) e = flat_entry st e" for e
    by (cases "v_mounts st m"; cases "e = m") (simp_all add: flat_entry_def hold_def)
  then show ?thesis by (simp add: flat_table_def)
qed

lemma best_match_flat:
  assumes "flat_table st"
  shows "\<exists>b. best_match st p (v_table st) 0 0 = Some b \<and>
    (b = 0 \<and> (\<forall>e \<in> set (v_table st). path_subsumes (mount_path st e) p < 0) \<or>
     b \<in> set (v_table st) \<and> 0 \<le> path_subsumes (mount_path st b) p \<and>
       (\<forall>e \<in> set (v_table st).
          path_subsumes (mount_path st e) p \<le> path_subsumes (mount_path st b) p))"
proof -
  have "\<forall>e \<in> set (v_table st). v_mounts st e = Some (the (v_mounts st e))"
    using flat_tableD(2) [OF assms] by fastforce
  from best_match_spec [OF this] show ?thesis by (simp add: mount_path_def)
qed

text \<open>A path below a mount matches no entry of a flat table, so the search stops there.\<close>

lemma checkmnt_loop_stop:
  assumes "flat_table st" and "p_mnt p \<noteq> 0"
  shows "checkmnt_loop p st = Some (p, st)"
proof -
  have "\<forall>e \<in> set (v_table st). path_subsumes (mount_path st e) p < 0"
    using assms(2) flat_tableD(3) [OF assms(1)] by (auto simp: path_subsumes_prefix)
  with best_match_flat [OF assms(1), of p] have "best_match st p (v_table st) 0 0 = Some 0"
    by force
  then show ?thesis by (subst checkmnt_loop.simps) simp
qed

lemma path_checkmnt_flat:
  assumes flat: "flat_table st" and as: "v_answers st = []"
    and p: "p_absolute p" "p_mnt p = 0" "plain_path p"
  obtains (none) "path_checkmnt p st = Some (Inr p, st)"
      "\<forall>e \<in> set (v_table st). \<not> prefix (p_components (mount_path st e)) (p_components p)"
  | (some) b cs where "b \<in> set (v_table st)"
      "p_components p = p_components (mount_path st b) @ cs"
      "path_checkmnt p st = Some (Inr \<lparr>p_absolute = False, p_mnt = b, p_components = cs\<rparr>, hold b st)"
      "\<forall>e \<in> set (v_table st). prefix (p_components (mount_path st e)) (p_components p) \<longrightarrow>
         length (p_components (mount_path st e)) \<le> length (p_components (mount_path st b))"
proof -
  have clone: "path_clone p st = Some (Inr p, st)"
    using path_clone_ok [OF as, of p] p by (simp add: live_mnt_def)
  have sub: "path_subsumes (mount_path st e) p =
      (if prefix (p_components (mount_path st e)) (p_components p)
       then int (length (p_components (mount_path st e))) else -1)"
    if "e \<in> set (v_table st)" for e
    using flat_tableD [OF flat that] p by (simp add: path_subsumes_prefix)
  from best_match_flat [OF flat, of p] obtain b where
    b: "best_match st p (v_table st) 0 0 = Some b" and
    cases: "b = 0 \<and> (\<forall>e \<in> set (v_table st). path_subsumes (mount_path st e) p < 0) \<or>
     b \<in> set (v_table st) \<and> 0 \<le> path_subsumes (mount_path st b) p \<and>
       (\<forall>e \<in> set (v_table st).
          path_subsumes (mount_path st e) p \<le> path_subsumes (mount_path st b) p)" by blast
  from cases show thesis
  proof (elim disjE conjE)
    assume "b = 0" and no: "\<forall>e \<in> set (v_table st). path_subsumes (mount_path st e) p < 0"
    then have "checkmnt_loop p st = Some (p, st)" using b by (subst checkmnt_loop.simps) simp
    moreover have "\<forall>e \<in> set (v_table st). \<not> prefix (p_components (mount_path st e)) (p_components p)"
      using no sub by force
    ultimately show thesis using none clone by (simp add: path_checkmnt_def)
  next
    assume mem: "b \<in> set (v_table st)" and pos: "0 \<le> path_subsumes (mount_path st b) p"
      and best: "\<forall>e \<in> set (v_table st).
        path_subsumes (mount_path st e) p \<le> path_subsumes (mount_path st b) p"
    have nz: "b \<noteq> 0" using flat_tableD(1) [OF flat mem] .
    from flat_tableD(2) [OF flat mem] obtain mt where mt: "v_mounts st b = Some mt" by blast
    then have live: "live_mnt st b" by (simp add: live_mnt_def)
    have pre: "prefix (p_components (mount_path st b)) (p_components p)"
      using pos sub [OF mem] by (simp split: if_splits)
    then obtain cs where cs: "p_components p = p_components (mount_path st b) @ cs"
      by (auto simp: prefix_def)
    let ?q = "\<lparr>p_absolute = False, p_mnt = b, p_components = cs\<rparr>"
    have "v_mounts (hold b st) b = Some (mt\<lparr>m_refcount := m_refcount mt + 1\<rparr>)"
      using mt nz by (simp add: hold_def)
    moreover have "p_components (m_path mt) = p_components (mount_path st b)"
      using mt by (simp add: mount_path_def)
    ultimately have "checkmnt_loop p st = checkmnt_loop ?q (hold b st)"
      using b nz p(2) live cs by (subst checkmnt_loop.simps) (simp add: get_mount_hold)
    also have "\<dots> = Some (?q, hold b st)"
      using flat nz by (intro checkmnt_loop_stop) simp_all
    finally have "path_checkmnt p st = Some (Inr ?q, hold b st)"
      using clone by (simp add: path_checkmnt_def)
    moreover have "\<forall>e \<in> set (v_table st). prefix (p_components (mount_path st e)) (p_components p) \<longrightarrow>
         length (p_components (mount_path st e)) \<le> length (p_components (mount_path st b))"
      using best sub mem pre by force
    ultimately show thesis using some mem cs by blast
  qed
qed

text \<open>Resolving a path below a mount gives the full path, and does not give the reference back.\<close>

lemma path_resolvemnt_below:
  assumes as: "v_answers st = []" and m: "p_mnt p \<noteq> 0" "v_mounts st (p_mnt p) = Some mt"
    and p: "plain_path p" "\<not> p_absolute p"
    and mp: "p_mnt (m_path mt) = 0" "plain_path (m_path mt)"
  shows "path_resolvemnt p st = Some (Inr ((m_path mt)\<lparr>p_components :=
    p_components (m_path mt) @ p_components p\<rparr>), hold (p_mnt p) st)"
proof -
  let ?st = "hold (p_mnt p) st"
  let ?mt = "mt\<lparr>m_refcount := m_refcount mt + 1\<rparr>"
  have clone: "path_clone p st = Some (Inr p, ?st)"
    using path_clone_ok [OF as _ p(1)] m by (simp add: live_mnt_def)
  have "path_join (m_path mt) (p\<lparr>p_mnt := 0\<rparr>) ?st = Some (Inr ((m_path mt)\<lparr>p_components :=
      p_components (m_path mt) @ p_components p\<rparr>), ?st)"
    using as p mp by (subst path_join_ok) (simp_all add: live_mnt_def plain_path_def)
  moreover have "v_mounts ?st (p_mnt p) = Some ?mt" using m by (simp add: hold_def)
  ultimately have "resolvemnt_loop p ?st = resolvemnt_loop ((m_path mt)\<lparr>p_components :=
      p_components (m_path mt) @ p_components p\<rparr>) ?st"
    using m(1) by (subst resolvemnt_loop.simps) (simp add: path_destroy_def)
  also have "\<dots> = Some (Inr ((m_path mt)\<lparr>p_components :=
      p_components (m_path mt) @ p_components p\<rparr>), ?st)"
    using mp(1) by (subst resolvemnt_loop.simps) simp
  finally show ?thesis using clone by (simp add: path_resolvemnt_def)
qed

text \<open>Printing stays inside the buffer, and prints the whole path when it fits.\<close>

lemma tostring_loop_length: "length (tostring_loop cs n) \<le> n"
proof (induction cs n rule: tostring_loop.induct)
  case (2 c cs n)
  show ?case
  proof (cases "n = 0")
    case False
    then have "length (tostring_loop cs (n - 1 - min (length c) (n - 1))) \<le> n - 1 - min (length c) (n - 1)"
      using 2 by (simp add: Let_def)
    then show ?thesis using False by (cases "length c \<le> n - 1") (auto simp: Let_def)
  qed simp
qed simp

lemma path_bytes_length: "0 < n \<Longrightarrow> length (path_bytes cs n) \<le> n"
  using tostring_loop_length [of cs n] by (simp add: path_bytes_def)

definition path_text :: "name list \<Rightarrow> name" where
  "path_text cs = (if cs = [] then [47] else concat (map (\<lambda>c. 47 # c) cs))"

lemma tostring_loop_fits:
  "length (concat (map (\<lambda>c. 47 # c) cs)) < n \<Longrightarrow>
    tostring_loop cs n = concat (map (\<lambda>c. 47 # c) cs) @ [0]"
proof (induction cs arbitrary: n)
  case (Cons c cs)
  then have "min (length c) (n - 1) = length c" "n \<noteq> 0"
    "length (concat (map (\<lambda>c. 47 # c) cs)) < n - 1 - length c" by simp_all
  with Cons.IH [of "n - 1 - length c"] show ?case by (simp add: Let_def)
qed simp

lemma path_bytes_fits:
  "length (path_text cs) < n \<Longrightarrow> path_bytes cs n = path_text cs @ [0]"
  using tostring_loop_fits [of cs n] by (cases "cs = []") (auto simp: path_bytes_def path_text_def)

lemma split_slash_append:
  "47 \<notin> set c \<Longrightarrow> split_slash (c @ 47 # s) = c # split_slash s"
  by (induction c) auto

lemma split_slash_text:
  "\<forall>c \<in> set cs. 47 \<notin> set c \<Longrightarrow> split_slash (concat (map (\<lambda>c. 47 # c) cs)) = [] # cs"
proof (induction cs)
  case (Cons c cs)
  show ?case
  proof (cases cs)
    case Nil
    then show ?thesis using Cons.prems by (simp add: split_slash_none)
  next
    case (Cons d ds)
    then show ?thesis using Cons.IH Cons.prems by (simp add: split_slash_append)
  qed
qed simp

lemma path_resolvemnt_plain:
  assumes "v_answers st = []" and "p_mnt p = 0" and "plain_path p"
  shows "path_resolvemnt p st = Some (Inr p, st)"
  using path_clone_ok [OF assms(1) _ assms(3)] assms(2)
  by (simp add: path_resolvemnt_def live_mnt_def resolvemnt_loop.simps)

lemma path_fromstr_text:
  assumes "v_answers st = []" and "\<forall>c \<in> set cs. plain_name c"
  shows "path_fromstr (path_text cs) st =
    Some (Inr \<lparr>p_absolute = True, p_mnt = 0, p_components = cs\<rparr>, st)"
proof (cases "cs = []")
  case True
  then show ?thesis using assms(1) by (simp add: path_text_def path_fromstr_ok)
next
  case False
  then have ne: "path_text cs \<noteq> []" "hd (path_text cs) = 47"
    by (cases cs; simp add: path_text_def)+
  have "split_slash (path_text cs) = [] # cs"
    using False split_slash_text [of cs] assms(2) by (simp add: path_text_def plain_name_def)
  with path_fromstr_ok [OF assms(1) ne(1)] ne(2) foldl_add_name_id [of cs True "[]"] assms(2)
  show ?thesis by simp
qed

lemma do_mount_ok:
  assumes "v_answers st = []" and "0 \<le> init" and "0 \<le> read_inode" and "p_mnt p = 0" and "plain_path p"
  shows "do_mount init read_inode sb root entry p st = Some (0, set_mount entry
    (Some \<lparr>m_refcount = 1, m_root = root, m_path = p, m_sb = sb\<rparr>) (st\<lparr>v_table := v_table st @ [entry]\<rparr>))"
  using assms path_clone_ok [OF assms(1) _ assms(5)]
  by (simp add: do_mount_def live_mnt_def Let_def)

text \<open>Unmounting a mount nobody else holds releases its root inode and then its superblock.\<close>

lemma put_mount_shared:
  assumes "v_mounts st m = Some mt" and "m_refcount mt \<noteq> 1"
  shows "put_mount m st = Some (set_mount m (Some (mt\<lparr>m_refcount := m_refcount mt - 1\<rparr>)) st)"
  using assms by (subst put_mount.simps) (simp add: Let_def)

lemma put_mount_last:
  assumes "v_mounts st m = Some mt" and "m_refcount mt = 1" and "p_mnt (m_path mt) = 0"
  shows "put_mount m st = Some (set_mount m None
    (st\<lparr>v_events := v_events st @ [PutInode (m_root mt), PutSuper (m_sb mt)]\<rparr>))"
  using assms by (subst put_mount.simps) (simp add: Let_def)

section \<open>Properties\<close>

text \<open>C5: parsing a path is splitting it at the slashes and applying the names one after the other,
  where an empty name and a dot change nothing and two dots remove the last component.  An absolute
  path ends up with ordinary names only, so no later step meets a dot entry.\<close>

theorem path_fromstr_normalises:
  assumes "v_answers st = []" and "s \<noteq> []"
  shows "\<exists>p. path_fromstr s st = Some (Inr p, st) \<and> p_absolute p = (hd s = 47) \<and> p_mnt p = 0
    \<and> p_components p = foldl (add_name (hd s = 47)) [] (split_slash s)
    \<and> (hd s = 47 \<longrightarrow> plain_path p)"
proof -
  have "\<forall>w \<in> set (split_slash s). 47 \<notin> set w" using split_slash_no_slash by blast
  with foldl_add_name_plain [of "[]" "split_slash s"] path_fromstr_ok [OF assms] show ?thesis
    by (simp add: plain_path_def)
qed

definition empty_vfs :: vfs where
  "empty_vfs = \<lparr>v_answers = [], v_mounts = Map.empty, v_table = [], v_events = []\<rparr>"

theorem path_fromstr_normalises_witness:
  "\<exists>p. path_fromstr [47, 97, 47, 46, 46, 47, 98] empty_vfs = Some (Inr p, empty_vfs)
    \<and> p_components p = [[98]] \<and> plain_path p"
  using path_fromstr_normalises [of empty_vfs "[47, 97, 47, 46, 46, 47, 98]"]
  by (auto simp: empty_vfs_def add_name_def)

text \<open>A relative path that goes up twice goes nowhere.  The second pair of dots removes the first
  one from the component list, so joining \<open>../..\<close> to a directory gives that directory itself and not
  its grandparent.\<close>

theorem path_grandparent_lost:
  assumes "v_answers st = []" and "live_mnt st (p_mnt x)" and "plain_path x"
  shows "\<exists>y. path_fromstr [46, 46, 47, 46, 46] st = Some (Inr y, st)
    \<and> path_join x y st = Some (Inr x, hold (p_mnt x) st)"
proof -
  let ?y = "\<lparr>p_absolute = False, p_mnt = 0, p_components = []\<rparr>"
  have "path_fromstr [46, 46, 47, 46, 46] st = Some (Inr ?y, st)"
    using assms(1) by (simp add: path_fromstr_ok add_name_def)
  moreover have "path_join x ?y st = Some (Inr x, hold (p_mnt x) st)"
    using assms by (subst path_join_ok) (simp_all add: plain_path_def)
  ultimately show ?thesis by blast
qed

theorem path_grandparent_lost_witness:
  "\<exists>y. path_fromstr [46, 46, 47, 46, 46] empty_vfs = Some (Inr y, empty_vfs)
    \<and> path_join \<lparr>p_absolute = True, p_mnt = 0, p_components = [[97], [98]]\<rparr> y empty_vfs
      = Some (Inr \<lparr>p_absolute = True, p_mnt = 0, p_components = [[97], [98]]\<rparr>, hold 0 empty_vfs)"
  using path_grandparent_lost [of empty_vfs "\<lparr>p_absolute = True, p_mnt = 0, p_components = [[97], [98]]\<rparr>"]
  by (simp add: empty_vfs_def live_mnt_def plain_path_def plain_name_def)

text \<open>C6: mount resolution picks the deepest mount.  Over a table of absolute mount points,
  \<open>path_checkmnt\<close> returns a path whose mount point and remaining components concatenate to the
  original, no other mount point on the way is deeper, and the mount gains one reference; without a
  matching entry the path comes back unchanged.\<close>

theorem path_checkmnt_deepest:
  assumes "flat_table st" and "v_answers st = []"
    and "p_absolute p" and "p_mnt p = 0" and "plain_path p"
  shows "\<exists>r. path_checkmnt p st = Some (Inr r, hold (p_mnt r) st)
    \<and> (if p_mnt r = 0
       then r = p \<and> (\<forall>e \<in> set (v_table st). \<not> prefix (p_components (mount_path st e)) (p_components p))
       else p_mnt r \<in> set (v_table st)
         \<and> p_components p = p_components (mount_path st (p_mnt r)) @ p_components r
         \<and> (\<forall>e \<in> set (v_table st). prefix (p_components (mount_path st e)) (p_components p) \<longrightarrow>
             length (p_components (mount_path st e)) \<le> length (p_components (mount_path st (p_mnt r)))))"
  using assms
proof (rule path_checkmnt_flat)
  assume "path_checkmnt p st = Some (Inr p, st)"
    and "\<forall>e \<in> set (v_table st). \<not> prefix (p_components (mount_path st e)) (p_components p)"
  then show ?thesis using assms(4) by (intro exI [of _ p]) simp
next
  fix b cs
  assume "b \<in> set (v_table st)" "p_components p = p_components (mount_path st b) @ cs"
    "path_checkmnt p st = Some (Inr \<lparr>p_absolute = False, p_mnt = b, p_components = cs\<rparr>, hold b st)"
    "\<forall>e \<in> set (v_table st). prefix (p_components (mount_path st e)) (p_components p) \<longrightarrow>
       length (p_components (mount_path st e)) \<le> length (p_components (mount_path st b))"
  with flat_tableD(1) [OF assms(1)] show ?thesis
    by (intro exI [of _ "\<lparr>p_absolute = False, p_mnt = b, p_components = cs\<rparr>"]) auto
qed

definition two_mounts :: vfs where
  "two_mounts = \<lparr>v_answers = [],
     v_mounts = [16 \<mapsto> \<lparr>m_refcount = 1, m_root = 32, m_path = \<lparr>p_absolute = True, p_mnt = 0, p_components = []\<rparr>, m_sb = 48\<rparr>,
       64 \<mapsto> \<lparr>m_refcount = 1, m_root = 96, m_path = \<lparr>p_absolute = True, p_mnt = 0, p_components = [[100]]\<rparr>, m_sb = 112\<rparr>],
     v_table = [16, 64], v_events = []\<rparr>"

lemma flat_two_mounts: "flat_table two_mounts"
  by (simp add: flat_table_def flat_entry_def two_mounts_def plain_path_def plain_name_def)

theorem path_checkmnt_deepest_witness:
  "\<exists>r. path_checkmnt \<lparr>p_absolute = True, p_mnt = 0, p_components = [[100], [97]]\<rparr> two_mounts
      = Some (Inr r, hold (p_mnt r) two_mounts) \<and> p_mnt r = 64 \<and> p_components r = [[97]]"
  using path_checkmnt_deepest [OF flat_two_mounts,
      of "\<lparr>p_absolute = True, p_mnt = 0, p_components = [[100], [97]]\<rparr>"]
  by (auto simp: two_mounts_def plain_path_def plain_name_def mount_path_def split: if_splits)

text \<open>Printing a path below a mount leaks a reference to the mount.  \<open>path_resolvemnt\<close> forgets the
  reference its copy of the path held, so after \<open>path_tostring\<close> (the \<open>getcwd\<close> call) has destroyed
  everything it made, the mount's count is one higher than before.\<close>

theorem path_tostring_leaks:
  assumes "v_answers st = []" and "p_mnt p \<noteq> 0" and "v_mounts st (p_mnt p) = Some mt"
    and "plain_path p" and "\<not> p_absolute p"
    and "p_mnt (m_path mt) = 0" and "plain_path (m_path mt)"
  shows "\<exists>k out st'. path_tostring p n st = Some ((k, out), st')
    \<and> v_mounts st' (p_mnt p) = Some (mt\<lparr>m_refcount := m_refcount mt + 1\<rparr>)"
  using path_resolvemnt_below [OF assms] assms(2,3,6)
  by (auto simp: path_tostring_def path_destroy_def hold_def Let_def)

theorem path_tostring_leaks_witness:
  "\<exists>k out st' mt'. path_tostring \<lparr>p_absolute = False, p_mnt = 64, p_components = [[97]]\<rparr> 80 two_mounts
      = Some ((k, out), st') \<and> v_mounts st' 64 = Some mt' \<and> m_refcount mt' = 2"
  using path_tostring_leaks [of two_mounts "\<lparr>p_absolute = False, p_mnt = 64, p_components = [[97]]\<rparr>"]
  by (fastforce simp: two_mounts_def plain_path_def plain_name_def)

text \<open>C7: printing and parsing are inverse.  An absolute path of ordinary names that fits the buffer is
  written as a terminated string, and parsing that string gives the same path back.\<close>

theorem path_print_parse:
  assumes "v_answers st = []" and "p_absolute p" and "p_mnt p = 0" and "plain_path p"
    and "length (path_text (p_components p)) < unat n"
  shows "\<exists>s. path_tostring p n st = Some ((int (length s) + 1, s @ [0]), st)
    \<and> path_fromstr s st = Some (Inr p, st)"
proof (intro exI conjI)
  show "path_tostring p n st = Some ((int (length (path_text (p_components p))) + 1,
      path_text (p_components p) @ [0]), st)"
    using path_resolvemnt_plain [OF assms(1,3,4)] path_bytes_fits [OF assms(5)] assms(3,5)
    by (auto simp: path_tostring_def path_destroy_def)
  have "\<lparr>p_absolute = True, p_mnt = 0, p_components = p_components p\<rparr> = p"
    using assms(2,3) by (cases p) simp
  with path_fromstr_text [OF assms(1), of "p_components p"] assms(4)
  show "path_fromstr (path_text (p_components p)) st = Some (Inr p, st)"
    by (simp add: plain_path_def)
qed

theorem path_print_parse_witness:
  "\<exists>s. path_tostring \<lparr>p_absolute = True, p_mnt = 0, p_components = [[97], [98]]\<rparr> 16 empty_vfs
      = Some ((int (length s) + 1, s @ [0]), empty_vfs)
    \<and> path_fromstr s empty_vfs = Some (Inr \<lparr>p_absolute = True, p_mnt = 0, p_components = [[97], [98]]\<rparr>, empty_vfs)"
  by (rule path_print_parse)
    (simp_all add: empty_vfs_def plain_path_def plain_name_def path_text_def)

text \<open>Printing never writes more than \<open>nbytes\<close> bytes, whatever the path, the mounts and the
  answers of the allocator; on success the result is the number of bytes written.\<close>

theorem path_tostring_bounded:
  assumes "path_tostring p n st = Some ((k, out), st')"
  shows "length out \<le> unat n \<and> (out \<noteq> [] \<longrightarrow> k = int (length out))"
proof -
  have "0 < unat n" if "n \<noteq> 0" using that by (simp add: unat_gt_0)
  moreover obtain r st1 where "path_resolvemnt p st = Some (r, st1)"
    using assms by (auto simp: path_tostring_def bind_eq_Some_conv)
  ultimately show ?thesis
    using assms path_bytes_length [of "unat n"]
    by (cases r) (auto simp: path_tostring_def bind_eq_Some_conv Let_def split: if_split_asm)
qed

theorem path_tostring_bounded_witness:
  "\<exists>k out st'. path_tostring \<lparr>p_absolute = True, p_mnt = 0, p_components = [[97], [98]]\<rparr> 2 empty_vfs
      = Some ((k, out), st') \<and> length out \<le> 2"
proof -
  have "path_tostring \<lparr>p_absolute = True, p_mnt = 0, p_components = [[97], [98]]\<rparr> 2 empty_vfs
      = Some ((2, [47, 97]), empty_vfs)"
    using path_resolvemnt_plain [of empty_vfs "\<lparr>p_absolute = True, p_mnt = 0, p_components = [[97], [98]]\<rparr>"]
    by (simp add: path_tostring_def path_bytes_def path_destroy_def empty_vfs_def plain_path_def
        plain_name_def)
  from path_tostring_bounded [OF this] this show ?thesis by auto
qed

text \<open>C8: unmounting undoes mounting.  Mounting a file system on a plain absolute path that is not a
  mount point yet, and unmounting that path, leaves table and mounts as they were, and gives back
  the root inode and then the superblock, each exactly once.\<close>

theorem mount_umount_roundtrip:
  assumes flat: "flat_table st" and as: "v_answers st = []"
    and p: "p_absolute p" "p_mnt p = 0" "plain_path p"
    and entry: "entry \<noteq> 0" "v_mounts st entry = None" "entry \<notin> set (v_table st)"
    and ok: "0 \<le> init" "0 \<le> read_inode"
    and free: "\<forall>e \<in> set (v_table st). p_components (mount_path st e) \<noteq> p_components p"
  shows "\<exists>st1 st2. do_mount init read_inode sb root entry p st = Some (0, st1)
    \<and> do_umount p st1 = Some (0, st2) \<and> v_table st2 = v_table st \<and> v_mounts st2 = v_mounts st
    \<and> v_events st2 = v_events st @ [PutInode root, PutSuper sb]"
proof -
  let ?mt = "\<lparr>m_refcount = 1, m_root = root, m_path = p, m_sb = sb\<rparr>"
  let ?st1 = "set_mount entry (Some ?mt) (st\<lparr>v_table := v_table st @ [entry]\<rparr>)"
  have mount: "do_mount init read_inode sb root entry p st = Some (0, ?st1)"
    by (rule do_mount_ok [OF as ok p(2,3)])
  have same: "mount_path ?st1 e = mount_path st e" if "e \<in> set (v_table st)" for e
    using that entry(3) by (auto simp: mount_path_def)
  have new: "mount_path ?st1 entry = p" by (simp add: mount_path_def)
  have flat1: "flat_table ?st1"
    using flat entry p by (auto simp: flat_table_def flat_entry_def)
  have as1: "v_answers ?st1 = []" using as by simp
  have "path_checkmnt p ?st1 = Some (Inr \<lparr>p_absolute = False, p_mnt = entry, p_components = []\<rparr>, hold entry ?st1)"
    using flat1 as1 p
  proof (rule path_checkmnt_flat)
    assume "\<forall>e \<in> set (v_table ?st1). \<not> prefix (p_components (mount_path ?st1 e)) (p_components p)"
    then show ?thesis using new by auto
  next
    fix b cs
    assume b: "b \<in> set (v_table ?st1)" "p_components p = p_components (mount_path ?st1 b) @ cs"
      and check: "path_checkmnt p ?st1 = Some (Inr \<lparr>p_absolute = False, p_mnt = b, p_components = cs\<rparr>, hold b ?st1)"
      and deepest: "\<forall>e \<in> set (v_table ?st1). prefix (p_components (mount_path ?st1 e)) (p_components p) \<longrightarrow>
       length (p_components (mount_path ?st1 e)) \<le> length (p_components (mount_path ?st1 b))"
    have "length (p_components p) \<le> length (p_components (mount_path ?st1 b))"
      using deepest new by auto
    then have cs: "cs = []" "p_components (mount_path ?st1 b) = p_components p"
      using b(2) by simp_all
    then have "b = entry" using b(1) same free by auto
    with cs check show ?thesis by simp
  qed
  moreover define st2 where "st2 = hold entry ?st1"
  ultimately have check: "path_checkmnt p ?st1 =
      Some (Inr \<lparr>p_absolute = False, p_mnt = entry, p_components = []\<rparr>, st2)" by simp
  have st2: "v_mounts st2 = (v_mounts st)(entry \<mapsto> ?mt\<lparr>m_refcount := 2\<rparr>)"
    "v_table st2 = v_table st @ [entry]" "v_events st2 = v_events st"
    using entry(1) by (simp_all add: st2_def hold_def)
  have tab: "filter (\<lambda>e. e \<noteq> entry) (v_table st) = v_table st"
    by (rule filter_neq_notin [OF entry(3)])
  define st3 where "st3 = set_mount entry (Some ?mt) (st2\<lparr>v_table := v_table st\<rparr>)"
  have put1: "put_mount entry (st2\<lparr>v_table := v_table st\<rparr>) = Some st3"
    by (subst put_mount_shared [where mt = "?mt\<lparr>m_refcount := 2\<rparr>"]) (simp_all add: st2 st3_def)
  define st4 where "st4 = set_mount entry None
      (st3\<lparr>v_events := v_events st3 @ [PutInode root, PutSuper sb]\<rparr>)"
  have "put_mount entry st3 = Some st4"
    by (subst put_mount_last [where mt = ?mt]) (simp_all add: st3_def st4_def p(2))
  with check put1 have "do_umount p ?st1 = Some (0, st4)"
    using entry(1) by (simp add: do_umount_def path_destroy_def st2(2) tab)
  moreover have "v_mounts st4 = v_mounts st" "v_table st4 = v_table st"
    "v_events st4 = v_events st @ [PutInode root, PutSuper sb]"
    using entry(2) by (simp_all add: st4_def st3_def st2 fun_upd_idem)
  ultimately show ?thesis using mount by blast
qed

theorem mount_umount_roundtrip_witness:
  "\<exists>st1 st2. do_mount 0 0 128 144 160 \<lparr>p_absolute = True, p_mnt = 0, p_components = [[101]]\<rparr> two_mounts
      = Some (0, st1)
    \<and> do_umount \<lparr>p_absolute = True, p_mnt = 0, p_components = [[101]]\<rparr> st1 = Some (0, st2)
    \<and> v_table st2 = v_table two_mounts \<and> v_mounts st2 = v_mounts two_mounts
    \<and> v_events st2 = v_events two_mounts @ [PutInode 144, PutSuper 128]"
  by (rule mount_umount_roundtrip [OF flat_two_mounts])
    (simp_all add: two_mounts_def plain_path_def plain_name_def mount_path_def)

end
