(* ===== verification/Files.thy ===== *)
theory Files
  imports Paths
begin

text \<open>
  \<open>vfs/file.c\<close>, \<open>vfs/device.c\<close> and \<open>vfs/superblock.c\<close>: inodes and open files with their reference
  counts, opening by path through mounts and symbolic links, and the checks every file operation
  makes before it calls the operation of the file.  The operations of a file system or a driver are
  function pointers in the code and arguments here; the locale \<open>file_system\<close> says what opening relies
  on.  A result of \<open>None\<close> is an access through a dangling pointer or a loop that does not end.
\<close>

section \<open>The data\<close>

record inode =
  i_refcount :: int
  i_ino :: u32
  i_nlink :: u32
  i_uid :: u32
  i_gid :: u32
  i_rdev :: u32
  i_size :: u32
  i_time :: u32 \<comment> \<open>the seconds of \<open>atime\<close>, \<open>mtime\<close> and \<open>ctime\<close>\<close>
  i_mode :: u16
  i_vendor :: ptr
  i_sb :: ptr

record kfile =
  f_refcount :: int
  f_op :: ptr
  f_path :: kpath
  f_flags :: u32
  f_pos :: u32
  f_inode :: ptr

text \<open>Calls through the operation tables that release objects, in order.\<close>

datatype fs_call = WriteInodeOp ptr | PutInodeOp ptr | ReleaseOp ptr

text \<open>What the \<open>vendor\<close> pointer of a USTAR inode points to: \<open>struct ustar_inode_info\<close>.\<close>

record ustar_inode_info =
  ui_sector_num :: u32
  ui_path :: kpath
  ui_metadata :: "u8 list"

record fsys =
  fs_vfs :: vfs
  fs_vendor :: "ptr \<Rightarrow> ustar_inode_info option"
  fs_inodes :: "ptr \<Rightarrow> inode option"
  fs_files :: "ptr \<Rightarrow> kfile option"
  fs_calls :: "fs_call list"

abbreviation set_inode :: "ptr \<Rightarrow> inode option \<Rightarrow> fsys \<Rightarrow> fsys" where
  "set_inode i x st \<equiv> st\<lparr>fs_inodes := (fs_inodes st)(i := x)\<rparr>"

abbreviation set_file :: "ptr \<Rightarrow> kfile option \<Rightarrow> fsys \<Rightarrow> fsys" where
  "set_file f x st \<equiv> st\<lparr>fs_files := (fs_files st)(f := x)\<rparr>"

abbreviation (input) O_WRONLY :: u32 where "O_WRONLY \<equiv> 0x1"
abbreviation (input) O_RDWR :: u32 where "O_RDWR \<equiv> 0x2"
abbreviation (input) O_CREAT :: u32 where "O_CREAT \<equiv> 0x40"
abbreviation (input) O_EXCL :: u32 where "O_EXCL \<equiv> 0x80"
abbreviation (input) O_APPEND :: u32 where "O_APPEND \<equiv> 0x400"
abbreviation (input) O_DIRECTORY :: u32 where "O_DIRECTORY \<equiv> 0x10000"
abbreviation (input) O_NOFOLLOW :: u32 where "O_NOFOLLOW \<equiv> 0x20000"
abbreviation (input) O_CLOEXEC :: u32 where "O_CLOEXEC \<equiv> 0x80000"

abbreviation (input) S_IFMT :: u16 where "S_IFMT \<equiv> 0xF000"
abbreviation (input) S_IFLNK :: u16 where "S_IFLNK \<equiv> 0xA000"
abbreviation (input) S_IFREG :: u16 where "S_IFREG \<equiv> 0x8000"
abbreviation (input) S_IFBLK :: u16 where "S_IFBLK \<equiv> 0x6000"
abbreviation (input) S_IFDIR :: u16 where "S_IFDIR \<equiv> 0x4000"
abbreviation (input) S_IFCHR :: u16 where "S_IFCHR \<equiv> 0x2000"

definition file_type :: "inode \<Rightarrow> u16" where
  "file_type ino = i_mode ino AND S_IFMT"

text \<open>Running a path operation inside the larger state.\<close>

definition on_vfs :: "(vfs \<Rightarrow> ('a \<times> vfs) option) \<Rightarrow> fsys \<Rightarrow> ('a \<times> fsys) option" where
  "on_vfs f st = do { (x, v) \<leftarrow> f (fs_vfs st); Some (x, st\<lparr>fs_vfs := v\<rparr>) }"

definition destroy :: "kpath \<Rightarrow> fsys \<Rightarrow> fsys option" where
  "destroy p st = do { v \<leftarrow> path_destroy p (fs_vfs st); Some (st\<lparr>fs_vfs := v\<rparr>) }"

definition fs_kmalloc :: "fsys \<Rightarrow> bool \<times> fsys" where
  "fs_kmalloc st = (let (ok, v) = vfs_kmalloc (fs_vfs st) in (ok, st\<lparr>fs_vfs := v\<rparr>))"

section \<open>Inodes\<close>

definition get_inode :: "ptr \<Rightarrow> fsys \<Rightarrow> fsys option" where
  "get_inode i st = do {
     ino \<leftarrow> fs_inodes st i;
     Some (set_inode i (Some (ino\<lparr>i_refcount := i_refcount ino + 1\<rparr>)) st) }"

definition put_inode :: "ptr \<Rightarrow> fsys \<Rightarrow> fsys option" where
  "put_inode i st = do {
     ino \<leftarrow> fs_inodes st i;
     let n = i_refcount ino - 1;
     if n \<noteq> 0 then Some (set_inode i (Some (ino\<lparr>i_refcount := n\<rparr>)) st)
     else Some ((set_inode i None st)\<lparr>fs_calls := fs_calls st @ [WriteInodeOp i, PutInodeOp i]\<rparr>) }"

section \<open>Opening by path\<close>

text \<open>
  The inode operations of a file system: \<open>lookup\<close> and \<open>create\<close> return a status and the next inode,
  \<open>readlink\<close> a status and the bytes it wrote.
\<close>

type_synonym lookup_op = "ptr \<Rightarrow> name \<Rightarrow> u32 \<Rightarrow> fsys \<Rightarrow> (int \<times> ptr \<times> fsys) option"
type_synonym create_op = "ptr \<Rightarrow> name \<Rightarrow> u32 \<Rightarrow> u16 \<Rightarrow> fsys \<Rightarrow> (int \<times> ptr \<times> fsys) option"
type_synonym readlink_op = "ptr \<Rightarrow> nat \<Rightarrow> fsys \<Rightarrow> (int \<times> name) option"

text \<open>
  The walk over the components; a failure returns the inode it was at, which the caller puts.
  \<open>node->value == list_peek_back(...)\<close> holds at the last component.
\<close>

fun walk :: "lookup_op \<Rightarrow> create_op \<Rightarrow> u32 \<Rightarrow> u16 \<Rightarrow> name list \<Rightarrow> ptr \<Rightarrow> bool \<Rightarrow> fsys
    \<Rightarrow> (int \<times> ptr \<times> bool \<times> fsys) option" where
  "walk lookup create flags mode [] inode created st = Some (0, inode, created, st)"
| "walk lookup create flags mode (c # cs) inode created st =
     (if c = [] then walk lookup create flags mode cs inode created st
      else do {
        (res, nxt, st1) \<leftarrow> lookup inode c flags st;
        let again = (res = - ENOENT \<and> flags AND O_CREAT \<noteq> 0 \<and> cs = []);
        (res, nxt, st2) \<leftarrow> (if again then create inode c flags mode st1 else Some (res, nxt, st1));
        if res < 0 then Some (res, inode, created \<or> again, st2)
        else do {
          st3 \<leftarrow> put_inode inode st2;
          walk lookup create flags mode cs nxt (created \<or> again) st3 } })"

text \<open>
  One pass from the label \<open>resolve_mount\<close> on ends with an error, with the inode and its path, or with
  the path a symbolic link points to, for which the code jumps back to the label.
\<close>

datatype open_step = Failed int | Opened ptr kpath | Link kpath

text \<open>The exit \<open>out_put_inode\<close> with an error.\<close>

definition open_fail :: "int \<Rightarrow> ptr \<Rightarrow> kpath \<Rightarrow> fsys \<Rightarrow> (open_step \<times> fsys) option" where
  "open_fail e inode dest st = do {
     st1 \<leftarrow> put_inode inode st;
     st2 \<leftarrow> destroy dest st1;
     Some (Failed e, st2) }"

text \<open>Following a symbolic link at \<open>inode\<close>; \<open>260\<close> is \<open>MAX_PATH\<close>.\<close>

definition follow_link :: "readlink_op \<Rightarrow> ptr \<Rightarrow> kpath \<Rightarrow> fsys \<Rightarrow> (open_step \<times> fsys) option" where
  "follow_link readlink inode dest st =
     (let (ok, st1) = fs_kmalloc st in
      if \<not> ok then open_fail (- ENOMEM) inode dest st1
      else do {
        (n, target) \<leftarrow> readlink inode 260 st1;
        if n < 0 then open_fail n inode dest st1
        else if n = 0 then open_fail (- EINVAL) inode dest st1
        else do {
          let dest1 = dest\<lparr>p_components := butlast (p_components dest)\<rparr>;
          (rel, st2) \<leftarrow> on_vfs (path_fromstr (takeWhile (\<lambda>c. c \<noteq> 0) (take (nat n) target))) st1;
          (case rel of
            Inl e \<Rightarrow> open_fail e inode dest1 st2
          | Inr trel \<Rightarrow> do {
              (tgt, st3) \<leftarrow> on_vfs (path_join dest1 trel) st2;
              st4 \<leftarrow> destroy trel st3;
              (case tgt of
                Inl e \<Rightarrow> open_fail e inode dest1 st4
              | Inr tpath \<Rightarrow> do {
                  st5 \<leftarrow> destroy dest1 st4;
                  st6 \<leftarrow> put_inode inode st5;
                  Some (Link tpath, st6) }) }) } })"

text \<open>What is done with the result of the walk.\<close>

definition open_found ::
    "readlink_op \<Rightarrow> u32 \<Rightarrow> kpath \<Rightarrow> int \<times> ptr \<times> bool \<times> fsys \<Rightarrow> (open_step \<times> fsys) option" where
  "open_found readlink flags dest w =
     (let (res, inode, created, st) = w in
      if res < 0 then open_fail res inode dest st
      else if flags AND O_EXCL \<noteq> 0 \<and> \<not> created then open_fail (- EEXIST) inode dest st
      else do {
        ino \<leftarrow> fs_inodes st inode;
        if file_type ino = S_IFLNK \<and> flags AND O_NOFOLLOW = 0
        then follow_link readlink inode dest st
        else Some (Opened inode dest, st) })"

definition open_once ::
    "lookup_op \<Rightarrow> create_op \<Rightarrow> readlink_op \<Rightarrow> u32 \<Rightarrow> u16 \<Rightarrow> kpath \<Rightarrow> fsys \<Rightarrow> (open_step \<times> fsys) option" where
  "open_once lookup create readlink flags mode premount st = do {
     (r, st1) \<leftarrow> on_vfs (path_checkmnt premount) st;
     st2 \<leftarrow> destroy premount st1;
     (case r of
       Inl e \<Rightarrow> Some (Failed e, st2)
     | Inr dest \<Rightarrow>
         if p_mnt dest = 0 then do { st3 \<leftarrow> destroy dest st2; Some (Failed (- EINVAL), st3) }
         else do {
           mt \<leftarrow> v_mounts (fs_vfs st2) (p_mnt dest);
           st3 \<leftarrow> get_inode (m_root mt) st2;
           w \<leftarrow> walk lookup create flags mode (p_components dest) (m_root mt) False st3;
           open_found readlink flags dest w }) }"

partial_function (option) open_resolve ::
    "lookup_op \<Rightarrow> create_op \<Rightarrow> readlink_op \<Rightarrow> u32 \<Rightarrow> u16 \<Rightarrow> kpath \<Rightarrow> fsys
       \<Rightarrow> ((int + ptr \<times> kpath) \<times> fsys) option" where
  "open_resolve lookup create readlink flags mode premount st = do {
     (r, st1) \<leftarrow> open_once lookup create readlink flags mode premount st;
     (case r of
       Failed e \<Rightarrow> Some (Inl e, st1)
     | Opened inode dest \<Rightarrow> Some (Inr (inode, dest), st1)
     | Link p \<Rightarrow> open_resolve lookup create readlink flags mode p st1) }"

text \<open>
  \<open>base\<close> is the path of the directory a relative path starts from, \<open>None\<close> for a bad descriptor;
  \<open>want_path\<close> says whether the caller passed \<open>path_out\<close>.
\<close>

definition inode_open ::
    "lookup_op \<Rightarrow> create_op \<Rightarrow> readlink_op \<Rightarrow> kpath option \<Rightarrow> name \<Rightarrow> u32 \<Rightarrow> u16 \<Rightarrow> bool \<Rightarrow> fsys
       \<Rightarrow> ((int + ptr \<times> kpath) \<times> fsys) option" where
  "inode_open lookup create readlink base path flags mode want_path st = do {
     (r, st1) \<leftarrow> on_vfs (path_fromstr path) st;
     (case r of
       Inl e \<Rightarrow> Some (Inl e, st1)
     | Inr rel \<Rightarrow> do {
         (res, st2) \<leftarrow>
           (if p_absolute rel then on_vfs (path_clone rel) st1
            else case base of
              None \<Rightarrow> Some (Inl (- EBADF), st1)
            | Some b \<Rightarrow> on_vfs (path_join b rel) st1);
         (res, st3) \<leftarrow>
           (case res of
              Inl e \<Rightarrow> Some (Inl e, st2)
            | Inr premount \<Rightarrow> open_resolve lookup create readlink flags mode premount st2);
         (res, st4) \<leftarrow>
           (case res of
              Inl e \<Rightarrow> Some (Inl e, st3)
            | Inr (inode, dest) \<Rightarrow>
                if want_path then Some (Inr (inode, dest), st3)
                else do { st4 \<leftarrow> destroy dest st3; Some (Inr (inode, dest), st4) });
         st5 \<leftarrow> destroy rel st4;
         Some (res, st5) }) }"

section \<open>The registries\<close>

record dev_registry_entry =
  de_type :: u16
  de_dev :: u32
  de_file_op :: ptr

text \<open>The first entry that matches wins; minor \<open>0xFF\<close> stands for all devices of the major.\<close>

fun get_dev_file_op :: "dev_registry_entry list \<Rightarrow> u16 \<Rightarrow> u32 \<Rightarrow> ptr" where
  "get_dev_file_op [] typ dev = 0"
| "get_dev_file_op (e # es) typ dev =
     (if de_type e = typ AND S_IFMT
         \<and> (de_dev e = dev \<or> de_dev e AND 0xFF = 0xFF \<and> drop_bit 8 (de_dev e) = drop_bit 8 dev)
      then de_file_op e
      else get_dev_file_op es typ dev)"

definition register_dev ::
    "u16 \<Rightarrow> u32 \<Rightarrow> ptr \<Rightarrow> dev_registry_entry list \<Rightarrow> answers \<Rightarrow> int \<times> dev_registry_entry list \<times> answers" where
  "register_dev typ dev file_op reg as =
     (let (ok, as1) = kmalloc as in
      if \<not> ok then (- ENOMEM, reg, as1)
      else let (node, as2) = kmalloc as1 in
        if node then
          (0, reg @ [\<lparr>de_type = typ AND S_IFMT, de_dev = dev, de_file_op = file_op\<rparr>], as2)
        else (- ENOMEM, reg, as2))"

text \<open>Function pointers of an operation table: \<open>NULL\<close>, the default of that slot, or the owner's.\<close>

datatype fn_ptr = Null | Default | Own ptr

definition fill_default :: "fn_ptr \<Rightarrow> fn_ptr" where
  "fill_default f = (if f = Null then Default else f)"

record file_operations =
  fo_seek :: fn_ptr
  fo_read :: fn_ptr
  fo_readdir :: fn_ptr
  fo_write :: fn_ptr
  fo_ioctl :: fn_ptr
  fo_open :: fn_ptr
  fo_release :: fn_ptr
  fo_poll :: fn_ptr

definition fill_default_file_op :: "file_operations \<Rightarrow> file_operations" where
  "fill_default_file_op op = op\<lparr>
     fo_seek := fill_default (fo_seek op), fo_read := fill_default (fo_read op),
     fo_readdir := fill_default (fo_readdir op), fo_write := fill_default (fo_write op),
     fo_ioctl := fill_default (fo_ioctl op), fo_open := fill_default (fo_open op),
     fo_release := fill_default (fo_release op)\<rparr>"

record inode_operations =
  io_create :: fn_ptr
  io_lookup :: fn_ptr
  io_readlink :: fn_ptr
  io_truncate :: fn_ptr

definition fill_default_ino_op :: "inode_operations \<Rightarrow> inode_operations" where
  "fill_default_ino_op op = op\<lparr>
     io_create := fill_default (io_create op), io_lookup := fill_default (io_lookup op),
     io_readlink := fill_default (io_readlink op), io_truncate := fill_default (io_truncate op)\<rparr>"

record super_block_operations =
  so_name :: name
  so_init :: fn_ptr
  so_read_inode :: fn_ptr
  so_write_inode :: fn_ptr
  so_put_inode :: fn_ptr
  so_put_super :: fn_ptr
  so_write_super :: fn_ptr

text \<open>An empty \<open>so_name\<close> stands for \<open>NULL\<close>, which becomes \<open>"unnamed"\<close>.\<close>

definition register_sb_op ::
    "super_block_operations \<Rightarrow> super_block_operations list \<Rightarrow> answers
       \<Rightarrow> int \<times> super_block_operations list \<times> answers" where
  "register_sb_op op reg as =
     (let op' = op\<lparr>
        so_name := (if so_name op = [] then [117, 110, 110, 97, 109, 101, 100] else so_name op),
        so_init := fill_default (so_init op), so_read_inode := fill_default (so_read_inode op),
        so_write_inode := fill_default (so_write_inode op),
        so_put_inode := fill_default (so_put_inode op),
        so_put_super := fill_default (so_put_super op),
        so_write_super := fill_default (so_write_super op)\<rparr>;
          (node, as1) = kmalloc as in
      if node then (0, reg @ [op'], as1) else (- ENOMEM, reg, as1))"

fun get_sb_op_by_name :: "super_block_operations list \<Rightarrow> name \<Rightarrow> super_block_operations option" where
  "get_sb_op_by_name [] nm = None"
| "get_sb_op_by_name (op # ops) nm = (if so_name op = nm then Some op else get_sb_op_by_name ops nm)"

section \<open>Open files\<close>

text \<open>
  \<open>filp_openat\<close> after \<open>inode_open\<close>: the registry gives the operations of device nodes, the inode those
  of the rest (\<open>default_ops\<close>); \<open>open_op\<close> is the result of \<open>(*ret->op->open)\<close>, \<open>f\<close> the address of the
  new \<open>struct file\<close> (one that is in use, which \<open>kmalloc\<close> never returns, counts as out of memory), \<open>linux\<close>
  whether the task runs in the Linux subsystem.  The exit \<open>out\<close> with an error
  puts the inode; it does not destroy \<open>path_stru\<close>.
\<close>

definition filp_open_inode ::
    "dev_registry_entry list \<Rightarrow> ptr \<Rightarrow> (ptr \<Rightarrow> int) \<Rightarrow> bool \<Rightarrow> u32 \<Rightarrow> ptr \<Rightarrow> ptr \<times> kpath \<Rightarrow> fsys
       \<Rightarrow> ((int + ptr) \<times> fsys) option" where
  "filp_open_inode reg default_ops open_op linux flags f r st =
     (let (inode, path) = r;
          fail = (\<lambda>e st. do { st' \<leftarrow> put_inode inode st; Some (Inl e, st') }) in
      do {
        ino \<leftarrow> fs_inodes st inode;
        let dev = (file_type ino = S_IFCHR \<or> file_type ino = S_IFBLK);
        let op = (if dev then get_dev_file_op reg (i_mode ino) (i_rdev ino) else default_ops);
        if file_type ino = S_IFLNK then fail (- ELOOP) st
        else if dev \<and> op = 0 then fail (- ENXIO) st
        else if linux \<and> file_type ino = S_IFDIR
          \<and> (flags AND O_WRONLY \<noteq> 0 \<or> flags AND O_RDWR \<noteq> 0) then fail (- EISDIR) st
        else
          let (ok, st1) = fs_kmalloc st in
          if \<not> ok \<or> f = 0 \<or> fs_files st f \<noteq> None then fail (- ENOMEM) st1
          else if open_op op < 0 then fail (open_op op) st1
          else Some (Inr f, set_file f (Some \<lparr>f_refcount = 1, f_op = op, f_path = path,
                 f_flags = flags, f_pos = 0, f_inode = inode\<rparr>) st1) })"

definition filp_openat ::
    "lookup_op \<Rightarrow> create_op \<Rightarrow> readlink_op \<Rightarrow> dev_registry_entry list \<Rightarrow> ptr \<Rightarrow> (ptr \<Rightarrow> int) \<Rightarrow> bool
       \<Rightarrow> kpath option \<Rightarrow> name \<Rightarrow> u32 \<Rightarrow> u16 \<Rightarrow> ptr \<Rightarrow> fsys \<Rightarrow> ((int + ptr) \<times> fsys) option" where
  "filp_openat lookup create readlink reg default_ops open_op linux base path flags mode f st = do {
     (r, st1) \<leftarrow> inode_open lookup create readlink base path flags mode True st;
     (case r of
       Inl e \<Rightarrow> Some (Inl e, st1)
     | Inr ip \<Rightarrow> filp_open_inode reg default_ops open_op linux flags f ip st1) }"

text \<open>
  \<open>filp_open_dummy\<close> opens a file without a name: the root path is cloned, \<open>mk_dummyinode\<close> makes an
  inode at \<open>i\<close>, \<open>prep\<close> is the result of \<open>prep_inode\<close> and \<open>rdev\<close> what it stored.
\<close>

definition root_path :: kpath where
  "root_path = \<lparr>p_absolute = True, p_mnt = 0, p_components = []\<rparr>"

definition dummy_inode :: "u16 \<Rightarrow> u32 \<Rightarrow> inode" where
  "dummy_inode mode rdev = \<lparr>i_refcount = 1, i_ino = 0, i_nlink = 0, i_uid = 0, i_gid = 0,
     i_rdev = rdev, i_size = 0, i_time = 0, i_mode = mode, i_vendor = 0, i_sb = 0\<rparr>"

definition filp_open_dummy ::
    "ptr \<Rightarrow> int \<Rightarrow> u32 \<Rightarrow> int \<Rightarrow> u32 \<Rightarrow> u16 \<Rightarrow> ptr \<Rightarrow> ptr \<Rightarrow> fsys \<Rightarrow> ((int + ptr) \<times> fsys) option" where
  "filp_open_dummy op prep rdev open_res flags mode i f st = do {
     (r, st1) \<leftarrow> on_vfs (path_clone root_path) st;
     (case r of
       Inl e \<Rightarrow> Some (Inl e, st1)
     | Inr path \<Rightarrow>
         let (ok, st2) = fs_kmalloc st1;
             fail = (\<lambda>e st. do {
               st' \<leftarrow> put_inode i st; st'' \<leftarrow> destroy path st'; Some (Inl e, st'') }) in
         if \<not> ok then do { st3 \<leftarrow> destroy path st2; Some (Inl (- ENOMEM), st3) }
         else
           let st3 = set_inode i (Some (dummy_inode mode rdev)) st2 in
           if prep < 0 then fail prep st3
           else
             let (ok2, st4) = fs_kmalloc st3 in
             if \<not> ok2 then fail (- ENOMEM) st4
             else do {
               st5 \<leftarrow> get_inode i st4;
               if open_res < 0 then fail open_res st5
               else do {
                 let st6 = set_file f (Some \<lparr>f_refcount = 1, f_op = op, f_path = path,
                   f_flags = flags, f_pos = 0, f_inode = i\<rparr>) st5;
                 st7 \<leftarrow> put_inode i st6;
                 Some (Inr f, st7) } }) }"

definition filp_open_anondevice ::
    "dev_registry_entry list \<Rightarrow> (ptr \<Rightarrow> int) \<Rightarrow> u32 \<Rightarrow> u32 \<Rightarrow> u16 \<Rightarrow> ptr \<Rightarrow> ptr \<Rightarrow> fsys
       \<Rightarrow> ((int + ptr) \<times> fsys) option" where
  "filp_open_anondevice reg open_op dev flags mode i f st =
     (let op = get_dev_file_op reg mode dev in
      if op = 0 then Some (Inl (- ENXIO), st)
      else filp_open_dummy op 0 dev (open_op op) flags mode i f st)"

definition get_file :: "ptr \<Rightarrow> fsys \<Rightarrow> fsys option" where
  "get_file f st = do {
     fl \<leftarrow> fs_files st f;
     Some (set_file f (Some (fl\<lparr>f_refcount := f_refcount fl + 1\<rparr>)) st) }"

definition filp_close :: "ptr \<Rightarrow> fsys \<Rightarrow> (int \<times> fsys) option" where
  "filp_close f st = do {
     fl \<leftarrow> fs_files st f;
     let n = f_refcount fl - 1;
     if n \<noteq> 0 then Some (0, set_file f (Some (fl\<lparr>f_refcount := n\<rparr>)) st)
     else do {
       let st1 = st\<lparr>fs_calls := fs_calls st @ [ReleaseOp f]\<rparr>;
       st2 \<leftarrow> destroy (f_path fl) st1;
       st3 \<leftarrow> put_inode (f_inode fl) st2;
       Some (0, set_file f None st3) } }"

section \<open>Positions and transfers\<close>

text \<open>
  The new position is an \<open>int32_t\<close>; it is compared with the size as an unsigned number.  The result is
  the status and the new position of the file.
\<close>

definition default_file_seek :: "inode \<Rightarrow> u32 \<Rightarrow> u32 \<Rightarrow> int \<Rightarrow> int \<times> u32" where
  "default_file_seek ino pos offset whence =
     (if file_type ino \<noteq> S_IFREG then (- ESPIPE, pos)
      else if whence \<notin> {0, 1, 2} then (- EINVAL, pos)
      else
        let new_pos = (if whence = 0 then offset
                       else if whence = 1 then pos + offset
                       else i_size ino + offset)
        in if i_size ino \<le> new_pos \<or> s32 new_pos < 0 then (- EINVAL, pos)
           else (s32 new_pos, new_pos))"

text \<open>The other defaults only fail or do nothing.\<close>

definition default_file_read :: int where "default_file_read = - EINVAL"
definition default_file_readdir :: int where "default_file_readdir = - ENOTDIR"
definition default_file_write :: int where "default_file_write = - EINVAL"
definition default_file_ioctl :: int where "default_file_ioctl = - ENOTTY"
definition default_file_open :: int where "default_file_open = 0"
definition default_ino_create :: create_op where
  "default_ino_create i c flags mode st = Some (- EROFS, 0, st)"
definition default_ino_lookup :: lookup_op where
  "default_ino_lookup i c flags st = Some (- ENOENT, 0, st)"
definition default_ino_readlink :: readlink_op where
  "default_ino_readlink i n st = Some (- EINVAL, [])"

text \<open>
  The checks in front of the operations of a file.  An operation takes the file and gives its status
  and the file with its new position.
\<close>

definition filp_seek ::
    "(kfile \<Rightarrow> u32 \<Rightarrow> int \<Rightarrow> int \<times> kfile) \<Rightarrow> inode \<Rightarrow> kfile \<Rightarrow> u32 \<Rightarrow> int \<Rightarrow> int \<times> kfile" where
  "filp_seek seek ino fl offset whence =
     (if file_type ino = S_IFDIR then (- EISDIR, fl) else seek fl offset whence)"

definition filp_read ::
    "(kfile \<Rightarrow> u32 \<Rightarrow> int \<times> kfile) \<Rightarrow> (kfile \<Rightarrow> u32 \<Rightarrow> int \<times> kfile) \<Rightarrow> bool \<Rightarrow> inode \<Rightarrow> kfile \<Rightarrow> u32
       \<Rightarrow> int \<times> kfile" where
  "filp_read read dir_read linux ino fl nbytes =
     (if f_flags fl AND O_WRONLY \<noteq> 0 then (- EINVAL, fl)
      else if file_type ino = S_IFDIR then (if linux then (- EISDIR, fl) else dir_read fl nbytes)
      else read fl nbytes)"

definition filp_readdir :: "(kfile \<Rightarrow> int \<times> kfile) \<Rightarrow> inode \<Rightarrow> kfile \<Rightarrow> int \<times> kfile" where
  "filp_readdir readdir ino fl =
     (if file_type ino \<noteq> S_IFDIR then (- ENOTDIR, fl) else readdir fl)"

text \<open>\<open>SEEK_END\<close> is \<open>2\<close>; the result of that seek is not looked at.\<close>

definition filp_write ::
    "(kfile \<Rightarrow> u32 \<Rightarrow> int \<Rightarrow> int \<times> kfile) \<Rightarrow> (kfile \<Rightarrow> u32 \<Rightarrow> int \<times> kfile) \<Rightarrow> inode \<Rightarrow> kfile \<Rightarrow> u32
       \<Rightarrow> int \<times> kfile" where
  "filp_write seek write ino fl nbytes =
     (if f_flags fl AND O_WRONLY = 0 \<and> f_flags fl AND O_RDWR = 0 then (- EINVAL, fl)
      else if file_type ino = S_IFDIR then (- EISDIR, fl)
      else
        let fl1 = (if f_flags fl AND O_APPEND \<noteq> 0 then snd (filp_seek seek ino fl 0 2) else fl)
        in write fl1 nbytes)"

definition seek_default :: "inode \<Rightarrow> kfile \<Rightarrow> u32 \<Rightarrow> int \<Rightarrow> int \<times> kfile" where
  "seek_default ino fl offset whence =
     (let (res, pos) = default_file_seek ino (f_pos fl) offset whence in (res, fl\<lparr>f_pos := pos\<rparr>))"

section \<open>Reference counts of inodes\<close>

definition inode_refs :: "fsys \<Rightarrow> ptr \<Rightarrow> int" where
  "inode_refs st i = (case fs_inodes st i of None \<Rightarrow> 0 | Some ino \<Rightarrow> i_refcount ino)"

lemma inode_refs_frame [frame_simps]:
  "inode_refs (st\<lparr>fs_vfs := v\<rparr>) = inode_refs st" "inode_refs (st\<lparr>fs_files := fls\<rparr>) = inode_refs st"
  "inode_refs (st\<lparr>fs_calls := cs\<rparr>) = inode_refs st" "inode_refs (st\<lparr>fs_vendor := vs\<rparr>) = inode_refs st"
  by (simp_all add: inode_refs_def fun_eq_iff)

lemma destroy_refs: "destroy p st = Some st' \<Longrightarrow> inode_refs st' = inode_refs st"
  by (auto simp: destroy_def bind_eq_Some_conv frame_simps)

lemma on_vfs_refs: "on_vfs f st = Some (x, st') \<Longrightarrow> inode_refs st' = inode_refs st"
  by (auto simp: on_vfs_def bind_eq_Some_conv frame_simps)

lemma fs_kmalloc_refs: "inode_refs (snd (fs_kmalloc st)) = inode_refs st"
  by (simp add: fs_kmalloc_def frame_simps split: prod.splits)

lemma get_inode_refs:
  "get_inode i st = Some st' \<Longrightarrow> inode_refs st' = (inode_refs st)(i := inode_refs st i + 1)"
  by (auto simp: get_inode_def bind_eq_Some_conv inode_refs_def fun_eq_iff)

lemma put_inode_refs:
  "put_inode i st = Some st' \<Longrightarrow> inode_refs st' = (inode_refs st)(i := inode_refs st i - 1)"
  by (auto simp: put_inode_def bind_eq_Some_conv inode_refs_def fun_eq_iff Let_def split: if_splits)

text \<open>One pass, and the whole opening, change the counts by the reference they hand out.\<close>

definition step_refs :: "open_step \<Rightarrow> fsys \<Rightarrow> fsys \<Rightarrow> bool" where
  "step_refs r st st' \<longleftrightarrow> inode_refs st' = (case r of
     Opened i d \<Rightarrow> (inode_refs st)(i := inode_refs st i + 1) | _ \<Rightarrow> inode_refs st)"

definition open_refs :: "(int + ptr \<times> kpath) \<Rightarrow> fsys \<Rightarrow> fsys \<Rightarrow> bool" where
  "open_refs r st st' \<longleftrightarrow> inode_refs st' = (case r of
     Inl e \<Rightarrow> inode_refs st | Inr ip \<Rightarrow> (inode_refs st)(fst ip := inode_refs st (fst ip) + 1))"

text \<open>The table of open files is not touched while a path is opened.\<close>

lemma destroy_files: "destroy p st = Some st' \<Longrightarrow> fs_files st' = fs_files st"
  by (auto simp: destroy_def bind_eq_Some_conv)

lemma on_vfs_files: "on_vfs f st = Some (x, st') \<Longrightarrow> fs_files st' = fs_files st"
  by (auto simp: on_vfs_def bind_eq_Some_conv)

lemma fs_kmalloc_files: "fs_kmalloc st = (ok, st') \<Longrightarrow> fs_files st' = fs_files st"
  by (auto simp: fs_kmalloc_def split: prod.splits)

lemma get_inode_files: "get_inode i st = Some st' \<Longrightarrow> fs_files st' = fs_files st"
  by (auto simp: get_inode_def bind_eq_Some_conv)

lemma put_inode_files: "put_inode i st = Some st' \<Longrightarrow> fs_files st' = fs_files st"
  by (auto simp: put_inode_def bind_eq_Some_conv Let_def split: if_splits)

lemmas files_frame = destroy_files on_vfs_files fs_kmalloc_files get_inode_files put_inode_files

lemma open_fail_files: "open_fail e i dest st = Some (r, st') \<Longrightarrow> fs_files st' = fs_files st"
  by (auto simp: open_fail_def bind_eq_Some_conv dest!: files_frame)

lemma follow_link_files:
  assumes "follow_link readlink inode dest st = Some (r, st')"
  shows "fs_files st' = fs_files st"
proof -
  obtain ok st1 where k: "fs_kmalloc st = (ok, st1)" by (cases "fs_kmalloc st")
  show ?thesis
  proof (cases "ok \<and> (\<exists>n target. readlink inode 260 st1 = Some (n, target) \<and> 0 < n)")
    case False
    then show ?thesis
      using assms k fs_kmalloc_files [OF k] open_fail_files
      by (fastforce simp: follow_link_def bind_eq_Some_conv split: if_splits)
  next
    case ok: True
    then obtain n target where rl: "readlink inode 260 st1 = Some (n, target)" "0 < n" by blast
    with ok assms k obtain rel st2 where
      p: "on_vfs (path_fromstr (takeWhile (\<lambda>c. c \<noteq> 0) (take (nat n) target))) st1 = Some (rel, st2)"
      by (auto simp: follow_link_def Let_def bind_eq_Some_conv)
    then have f2: "fs_files st2 = fs_files st" using files_frame(2,3) k by metis
    show ?thesis
    proof (cases rel)
      case (Inl e)
      then show ?thesis
        using assms k rl ok p f2 open_fail_files by (fastforce simp: follow_link_def Let_def)
    next
      case (Inr trel)
      let ?dest1 = "dest\<lparr>p_components := butlast (p_components dest)\<rparr>"
      from Inr obtain tgt st3 st4 where
        j: "on_vfs (path_join ?dest1 trel) st2 = Some (tgt, st3)" "destroy trel st3 = Some st4"
        using assms k rl ok p by (auto simp: follow_link_def Let_def bind_eq_Some_conv)
      then have "fs_files st4 = fs_files st" using files_frame(1,2) f2 by metis
      with assms k rl ok p j Inr show ?thesis
        by (cases tgt) (auto simp: follow_link_def Let_def bind_eq_Some_conv
            dest!: files_frame open_fail_files)
    qed
  qed
qed

section \<open>What a file system promises\<close>

text \<open>
  A successful \<open>lookup\<close> or \<open>create\<close> hands out one reference to the inode it returns, a failing one
  none; both leave the other inodes and the open files alone.
\<close>

locale file_system =
  fixes lookup :: lookup_op and create :: create_op
  assumes lookup_law: "lookup i c flags st = Some (res, nxt, st') \<Longrightarrow>
      inode_refs st' = (if res < 0 then inode_refs st
        else (inode_refs st)(nxt := inode_refs st nxt + 1))"
    and create_law: "create i c flags mode st = Some (res, nxt, st') \<Longrightarrow>
      inode_refs st' = (if res < 0 then inode_refs st
        else (inode_refs st)(nxt := inode_refs st nxt + 1))"
    and lookup_files: "lookup i c flags st = Some (res, nxt, st') \<Longrightarrow> fs_files st' = fs_files st"
    and create_files: "create i c flags mode st = Some (res, nxt, st') \<Longrightarrow> fs_files st' = fs_files st"
begin

lemma walk_files:
  "walk lookup create flags mode cs inode created st = Some (res, inode', created', st') \<Longrightarrow>
    fs_files st' = fs_files st"
proof (induction cs arbitrary: inode created st)
  case Nil
  then show ?case by simp
next
  case (Cons c cs)
  then show ?case
    by (auto simp: bind_eq_Some_conv Let_def dest!: lookup_files create_files put_inode_files
        split: if_splits)
qed

lemma open_once_files:
  assumes "open_once lookup create readlink flags mode p st = Some (r, st')"
  shows "fs_files st' = fs_files st"
proof -
  from assms obtain c st1 st2 where
    c: "on_vfs (path_checkmnt p) st = Some (c, st1)" "destroy p st1 = Some st2"
    by (auto simp: open_once_def bind_eq_Some_conv)
  then have "fs_files st2 = fs_files st" using files_frame(1,2) by metis
  with assms c show ?thesis
    by (cases c) (auto simp: open_once_def open_found_def bind_eq_Some_conv
        dest!: files_frame open_fail_files follow_link_files walk_files split: if_splits)
qed

text \<open>The walk moves the one reference it holds along the path.\<close>

lemma walk_refs:
  "walk lookup create flags mode cs inode created st = Some (res, inode', created', st') \<Longrightarrow>
    (\<lambda>i. inode_refs st' i - (if i = inode' then 1 else 0))
      = (\<lambda>i. inode_refs st i - (if i = inode then 1 else 0))"
proof (induction cs arbitrary: inode created st)
  case Nil
  then show ?case by simp
next
  case (Cons c cs)
  show ?case
  proof (cases "c = []")
    case True
    with Cons show ?thesis by simp
  next
    case False
    from Cons.prems False obtain r1 n1 st1 where l: "lookup inode c flags st = Some (r1, n1, st1)"
      by (auto simp: bind_eq_Some_conv)
    define again where "again = (r1 = - ENOENT \<and> flags AND O_CREAT \<noteq> 0 \<and> cs = [])"
    from Cons.prems False l obtain r2 n2 st2 where
      c2: "(if again then create inode c flags mode st1 else Some (r1, n1, st1)) = Some (r2, n2, st2)"
      by (auto simp: bind_eq_Some_conv Let_def again_def)
    have refs: "inode_refs st2 = (if r2 < 0 then inode_refs st
        else (inode_refs st)(n2 := inode_refs st n2 + 1))"
    proof (cases again)
      case True
      then have "r1 < 0" by (simp add: again_def)
      with lookup_law [OF l] have "inode_refs st1 = inode_refs st" by simp
      with True c2 create_law [of inode c flags mode st1 r2 n2 st2] show ?thesis by simp
    next
      case False
      with c2 lookup_law [OF l] show ?thesis by simp
    qed
    have step: "walk lookup create flags mode (c # cs) inode created st =
      (if r2 < 0 then Some (r2, inode, created \<or> again, st2)
       else do { st3 \<leftarrow> put_inode inode st2; walk lookup create flags mode cs n2 (created \<or> again) st3 })"
      using False l c2 by (simp add: Let_def again_def [symmetric])
    show ?thesis
    proof (cases "r2 < 0")
      case True
      with step Cons.prems refs show ?thesis by simp
    next
      case False
      with step Cons.prems obtain st3 where
        st3: "put_inode inode st2 = Some st3"
          "walk lookup create flags mode cs n2 (created \<or> again) st3 = Some (res, inode', created', st')"
        by (auto simp: bind_eq_Some_conv)
      from Cons.IH [OF st3(2)] put_inode_refs [OF st3(1)] refs False show ?thesis
        by (auto simp: fun_eq_iff split: if_splits)
    qed
  qed
qed

lemma open_fail_refs:
  "open_fail e inode dest st = Some (r, st') \<Longrightarrow>
    r = Failed e \<and> inode_refs st' = (inode_refs st)(inode := inode_refs st inode - 1)"
  by (auto simp: open_fail_def bind_eq_Some_conv put_inode_refs destroy_refs)

lemma follow_link_refs:
  assumes "follow_link readlink inode dest st = Some (r, st')"
  shows "(\<forall>i d. r \<noteq> Opened i d) \<and> inode_refs st' = (inode_refs st)(inode := inode_refs st inode - 1)"
proof -
  obtain ok st1 where k: "fs_kmalloc st = (ok, st1)" by (cases "fs_kmalloc st")
  then have r1: "inode_refs st1 = inode_refs st" using fs_kmalloc_refs [of st] by simp
  show ?thesis
  proof (cases "ok \<and> (\<exists>n target. readlink inode 260 st1 = Some (n, target) \<and> 0 < n)")
    case False
    then show ?thesis
      using assms k r1 open_fail_refs
      by (fastforce simp: follow_link_def bind_eq_Some_conv split: if_splits)
  next
    case ok: True
    then obtain n target where rl: "readlink inode 260 st1 = Some (n, target)" "0 < n" by blast
    with ok have True: "ok \<and> 0 < n" by blast
    then obtain rel st2 where
      p: "on_vfs (path_fromstr (takeWhile (\<lambda>c. c \<noteq> 0) (take (nat n) target))) st1 = Some (rel, st2)"
      using assms k rl by (auto simp: follow_link_def Let_def bind_eq_Some_conv)
    then have r2: "inode_refs st2 = inode_refs st" using on_vfs_refs r1 by metis
    show ?thesis
    proof (cases rel)
      case (Inl e)
      then show ?thesis
        using assms k rl True p r2 open_fail_refs by (fastforce simp: follow_link_def Let_def)
    next
      case (Inr trel)
      let ?dest1 = "dest\<lparr>p_components := butlast (p_components dest)\<rparr>"
      from Inr obtain tgt st3 st4 where
        j: "on_vfs (path_join ?dest1 trel) st2 = Some (tgt, st3)" "destroy trel st3 = Some st4"
        using assms k rl True p by (auto simp: follow_link_def Let_def bind_eq_Some_conv)
      then have r4: "inode_refs st4 = inode_refs st" using on_vfs_refs destroy_refs r2 by metis
      show ?thesis
      proof (cases tgt)
        case tgt: (Inl e)
        then show ?thesis
          using assms k rl True p j r4 Inr open_fail_refs by (fastforce simp: follow_link_def Let_def)
      next
        case tgt: (Inr tpath)
        with assms k rl True p j Inr obtain st5 where
          "destroy ?dest1 st4 = Some st5" "put_inode inode st5 = Some st'" "r = Link tpath"
          by (auto simp: follow_link_def Let_def bind_eq_Some_conv)
        then show ?thesis using put_inode_refs destroy_refs r4 by (metis open_step.distinct(5))
      qed
    qed
  qed
qed

lemma open_once_refs:
  assumes "open_once lookup create readlink flags mode p st = Some (r, st')"
  shows "step_refs r st st'"
proof -
  from assms obtain c st1 st2 where
    c: "on_vfs (path_checkmnt p) st = Some (c, st1)" "destroy p st1 = Some st2"
    by (auto simp: open_once_def bind_eq_Some_conv)
  then have r2: "inode_refs st2 = inode_refs st" using on_vfs_refs destroy_refs by metis
  show ?thesis
  proof (cases c)
    case (Inl e)
    with assms c r2 show ?thesis by (auto simp: open_once_def step_refs_def)
  next
    case (Inr dest)
    show ?thesis
    proof (cases "p_mnt dest = 0")
      case True
      with assms c Inr r2 show ?thesis
        by (auto simp: open_once_def bind_eq_Some_conv step_refs_def dest: destroy_refs)
    next
      case False
      with assms c Inr obtain mt :: mount and st3 res i cr st4 where
        w: "get_inode (m_root mt) st2 = Some st3"
          "walk lookup create flags mode (p_components dest) (m_root mt) False st3 = Some (res, i, cr, st4)"
        and rest: "open_found readlink flags dest (res, i, cr, st4) = Some (r, st')"
        by (auto simp: open_once_def bind_eq_Some_conv)
      have r4: "inode_refs st4 = (inode_refs st)(i := inode_refs st i + 1)"
        using walk_refs [OF w(2)] get_inode_refs [OF w(1)] r2
        by (auto simp: fun_eq_iff split: if_splits)
      from rest consider e where "open_fail e i dest st4 = Some (r, st')"
        | "follow_link readlink i dest st4 = Some (r, st')" | "r = Opened i dest" "st' = st4"
        by (auto simp: open_found_def bind_eq_Some_conv split: if_splits)
      then show ?thesis
      proof cases
        case 1
        from open_fail_refs [OF this] r4 show ?thesis by (simp add: step_refs_def)
      next
        case 2
        from follow_link_refs [OF this] r4 show ?thesis
          by (cases r) (simp_all add: step_refs_def)
      next
        case 3
        with r4 show ?thesis by (simp add: step_refs_def)
      qed
    qed
  qed
qed

end

lemma open_resolve_refs:
  assumes "open_resolve lookup create readlink flags mode p st = Some x" and "file_system lookup create"
  shows "open_refs (fst x) st (snd x)"
proof -
  have "file_system lookup create \<longrightarrow> open_refs (fst x) st (snd x)"
  proof (rule open_resolve.raw_induct [where
      P = "\<lambda>lookup create readlink flags mode p st x. file_system lookup create \<longrightarrow>
        open_refs (fst x) st (snd x)", OF _ assms(1)])
    fix rec lookup create readlink flags mode p st x
    assume IH: "\<And>lookup create readlink flags mode p st x.
        rec lookup create readlink flags mode p st = Some x \<Longrightarrow>
          file_system lookup create \<longrightarrow> open_refs (fst x) st (snd x)"
      and body: "do { (r, st1) \<leftarrow> open_once lookup create readlink flags mode p st;
        (case r of Failed e \<Rightarrow> Some (Inl e, st1)
         | Opened inode dest \<Rightarrow> Some (Inr (inode, dest), st1)
         | Link p \<Rightarrow> rec lookup create readlink flags mode p st1) } = Some x"
    show "file_system lookup create \<longrightarrow> open_refs (fst x) st (snd x)"
    proof
      assume fs: "file_system lookup create"
      from body obtain r st1 where
        once: "open_once lookup create readlink flags mode p st = Some (r, st1)"
        and rest: "(case r of Failed e \<Rightarrow> Some (Inl e, st1)
           | Opened inode dest \<Rightarrow> Some (Inr (inode, dest), st1)
           | Link p \<Rightarrow> rec lookup create readlink flags mode p st1) = Some x"
        by (auto simp: bind_eq_Some_conv)
      have refs: "step_refs r st st1" by (rule file_system.open_once_refs [OF fs once])
      show "open_refs (fst x) st (snd x)"
      proof (cases r)
        case (Link q)
        then have "open_refs (fst x) st1 (snd x)" using IH [of lookup create] rest fs by auto
        with refs Link show ?thesis
          by (cases "fst x") (simp_all add: step_refs_def open_refs_def)
      qed (use refs rest in \<open>auto simp: step_refs_def open_refs_def\<close>)
    qed
  qed
  with assms(2) show ?thesis by blast
qed

lemma open_resolve_files:
  assumes "open_resolve lookup create readlink flags mode p st = Some x" and "file_system lookup create"
  shows "fs_files (snd x) = fs_files st"
proof -
  have "file_system lookup create \<longrightarrow> fs_files (snd x) = fs_files st"
  proof (rule open_resolve.raw_induct [where
      P = "\<lambda>lookup create readlink flags mode p st x. file_system lookup create \<longrightarrow>
        fs_files (snd x) = fs_files st", OF _ assms(1)])
    fix rec lookup create readlink flags mode p st x
    assume IH: "\<And>lookup create readlink flags mode p st x.
        rec lookup create readlink flags mode p st = Some x \<Longrightarrow>
          file_system lookup create \<longrightarrow> fs_files (snd x) = fs_files st"
      and body: "do { (r, st1) \<leftarrow> open_once lookup create readlink flags mode p st;
        (case r of Failed e \<Rightarrow> Some (Inl e, st1)
         | Opened inode dest \<Rightarrow> Some (Inr (inode, dest), st1)
         | Link p \<Rightarrow> rec lookup create readlink flags mode p st1) } = Some x"
    then obtain r st1 where
      once: "open_once lookup create readlink flags mode p st = Some (r, st1)"
      and rest: "(case r of Failed e \<Rightarrow> Some (Inl e, st1)
         | Opened inode dest \<Rightarrow> Some (Inr (inode, dest), st1)
         | Link p \<Rightarrow> rec lookup create readlink flags mode p st1) = Some x"
      by (auto simp: bind_eq_Some_conv)
    show "file_system lookup create \<longrightarrow> fs_files (snd x) = fs_files st"
    proof
      assume fs: "file_system lookup create"
      then have st1: "fs_files st1 = fs_files st" by (rule file_system.open_once_files [OF _ once])
      show "fs_files (snd x) = fs_files st"
      proof (cases r)
        case (Link q)
        then have "fs_files (snd x) = fs_files st1" using IH [of lookup create] rest fs by auto
        with st1 show ?thesis by simp
      qed (use rest st1 in auto)
    qed
  qed
  with assms(2) show ?thesis by blast
qed

context file_system
begin

lemma inode_open_files:
  assumes "inode_open lookup create readlink base path flags mode want st = Some (r, st')"
  shows "fs_files st' = fs_files st"
proof -
  from assms obtain c st1 where c: "on_vfs (path_fromstr path) st = Some (c, st1)"
    by (auto simp: inode_open_def bind_eq_Some_conv)
  show ?thesis
  proof (cases c)
    case (Inl e)
    with assms c show ?thesis by (auto simp: inode_open_def dest: on_vfs_files)
  next
    case (Inr rel)
    define start where "start = (if p_absolute rel then on_vfs (path_clone rel) st1
       else case base of None \<Rightarrow> Some (Inl (- EBADF), st1) | Some b \<Rightarrow> on_vfs (path_join b rel) st1)"
    from assms c Inr obtain s st2 where s: "start = Some (s, st2)"
      by (auto simp: inode_open_def bind_eq_Some_conv start_def)
    have f2: "fs_files st2 = fs_files st"
      using s on_vfs_files [OF c]
      by (auto simp: start_def dest!: on_vfs_files split: if_splits option.splits)
    define mid where "mid = (case s of Inl e \<Rightarrow> Some (Inl e, st2)
      | Inr premount \<Rightarrow> open_resolve lookup create readlink flags mode premount st2)"
    from assms c Inr s obtain m st3 where m: "mid = Some (m, st3)"
      by (auto simp: inode_open_def bind_eq_Some_conv start_def [symmetric] mid_def)
    have f3: "fs_files st3 = fs_files st"
      using m f2 open_resolve_files [OF _ file_system_axioms]
      by (cases s) (force simp: mid_def)+
    from assms c Inr s m have "\<exists>st4. (case m of Inl e \<Rightarrow> Some (Inl e, st3)
            | Inr (inode, dest) \<Rightarrow>
                if want then Some (Inr (inode, dest), st3)
                else do { st4 \<leftarrow> destroy dest st3; Some (Inr (inode, dest), st4) }) = Some (r, st4)
        \<and> destroy rel st4 = Some st'"
      by (auto simp: inode_open_def bind_eq_Some_conv start_def [symmetric] mid_def [symmetric])
    then show ?thesis
      using f3 by (auto simp: bind_eq_Some_conv dest!: destroy_files split: sum.splits if_splits)
  qed
qed

lemma inode_open_refs:
  assumes "inode_open lookup create readlink base path flags mode want st = Some (r, st')"
  shows "open_refs r st st'"
proof -
  from assms obtain c st1 where c: "on_vfs (path_fromstr path) st = Some (c, st1)"
    by (auto simp: inode_open_def bind_eq_Some_conv)
  then have r1: "inode_refs st1 = inode_refs st" by (rule on_vfs_refs)
  show ?thesis
  proof (cases c)
    case (Inl e)
    with assms c r1 show ?thesis by (auto simp: inode_open_def open_refs_def)
  next
    case (Inr rel)
    define start where "start = (if p_absolute rel then on_vfs (path_clone rel) st1
       else case base of None \<Rightarrow> Some (Inl (- EBADF), st1) | Some b \<Rightarrow> on_vfs (path_join b rel) st1)"
    from assms c Inr obtain s st2 where s: "start = Some (s, st2)"
      by (auto simp: inode_open_def bind_eq_Some_conv start_def)
    have r2: "inode_refs st2 = inode_refs st"
      using s r1 by (auto simp: start_def dest!: on_vfs_refs split: if_splits option.splits)
    define mid where "mid = (case s of Inl e \<Rightarrow> Some (Inl e, st2)
      | Inr premount \<Rightarrow> open_resolve lookup create readlink flags mode premount st2)"
    from assms c Inr s obtain m st3 where m: "mid = Some (m, st3)"
      by (auto simp: inode_open_def bind_eq_Some_conv start_def [symmetric] mid_def)
    have r3: "open_refs m st st3"
    proof (cases s)
      case (Inl e)
      with m r2 show ?thesis by (auto simp: mid_def open_refs_def)
    next
      case (Inr premount)
      then have "open_resolve lookup create readlink flags mode premount st2 = Some (m, st3)"
        using m by (simp add: mid_def)
      from open_resolve_refs [OF this file_system_axioms] r2 show ?thesis
        by (cases m) (simp_all add: open_refs_def)
    qed
    from assms c Inr s m have "\<exists>st4. (case m of Inl e \<Rightarrow> Some (Inl e, st3)
            | Inr (inode, dest) \<Rightarrow>
                if want then Some (Inr (inode, dest), st3)
                else do { st4 \<leftarrow> destroy dest st3; Some (Inr (inode, dest), st4) }) = Some (r, st4)
        \<and> destroy rel st4 = Some st'"
      by (auto simp: inode_open_def bind_eq_Some_conv start_def [symmetric] mid_def [symmetric])
    then have "r = m" "inode_refs st' = inode_refs st3"
      by (auto simp: bind_eq_Some_conv dest!: destroy_refs split: sum.splits if_splits)
    with r3 show ?thesis by (simp add: open_refs_def)
  qed
qed

end

text \<open>Opening a file adds one open file with one reference, at an address that was free.\<close>

definition opens_fresh :: "(fsys \<Rightarrow> ((int + ptr) \<times> fsys) option) \<Rightarrow> bool" where
  "opens_fresh openat \<longleftrightarrow> (\<forall>s r s'. openat s = Some (r, s') \<longrightarrow> (case r of
     Inl e \<Rightarrow> fs_files s' = fs_files s
   | Inr f \<Rightarrow> f \<noteq> 0 \<and> fs_files s f = None \<and>
       (\<exists>fl. f_refcount fl = 1 \<and> fs_files s' = (fs_files s)(f := Some fl))))"

lemma file_upd_exI: "f_refcount x = 1 \<Longrightarrow> \<exists>fl. f_refcount fl = 1 \<and> m(f \<mapsto> x) = m(f \<mapsto> fl)"
  by blast

lemma filp_open_inode_files:
  assumes "filp_open_inode reg dops open_op linux flags f ip st = Some (r, st')"
  shows "case r of Inl e \<Rightarrow> fs_files st' = fs_files st
    | Inr g \<Rightarrow> g \<noteq> 0 \<and> fs_files st g = None \<and>
       (\<exists>fl. f_refcount fl = 1 \<and> fs_files st' = (fs_files st)(g := Some fl))"
proof -
  obtain i p where ip: "ip = (i, p)" by (cases ip)
  with assms obtain ino where ino: "fs_inodes st i = Some ino"
    by (auto simp: filp_open_inode_def bind_eq_Some_conv)
  obtain ok st1 where k: "fs_kmalloc st = (ok, st1)" by (cases "fs_kmalloc st")
  show ?thesis
    using assms ip ino k fs_kmalloc_files [OF k]
    by (auto simp: filp_open_inode_def Let_def bind_eq_Some_conv intro!: file_upd_exI
        dest!: put_inode_files split: if_splits)
qed

context file_system
begin

lemma filp_openat_fresh:
  "opens_fresh (filp_openat lookup create readlink reg dops open_op linux base path flags mode f)"
  unfolding opens_fresh_def
proof (intro allI impI)
  fix s r s'
  assume "filp_openat lookup create readlink reg dops open_op linux base path flags mode f s = Some (r, s')"
  then obtain q s1 where q: "inode_open lookup create readlink base path flags mode True s = Some (q, s1)"
    and rest: "(case q of Inl e \<Rightarrow> Some (Inl e, s1)
      | Inr ip \<Rightarrow> filp_open_inode reg dops open_op linux flags f ip s1) = Some (r, s')"
    by (auto simp: filp_openat_def bind_eq_Some_conv)
  have f1: "fs_files s1 = fs_files s" by (rule inode_open_files [OF q])
  show "case r of Inl e \<Rightarrow> fs_files s' = fs_files s
    | Inr f \<Rightarrow> f \<noteq> 0 \<and> fs_files s f = None \<and>
       (\<exists>fl. f_refcount fl = 1 \<and> fs_files s' = (fs_files s)(f := Some fl))"
  proof (cases q)
    case (Inl e)
    with rest f1 show ?thesis by auto
  next
    case (Inr ip)
    then have "filp_open_inode reg dops open_op linux flags f ip s1 = Some (r, s')" using rest by simp
    from filp_open_inode_files [OF this] show ?thesis unfolding f1 .
  qed
qed

end

section \<open>Properties\<close>

text \<open>Seeking stays inside a regular file.  A successful default seek returns the new position, which
  is below the size of the file, and a failing one leaves the position alone.\<close>

theorem default_file_seek_inside:
  "case default_file_seek ino pos offset whence of (res, pos') \<Rightarrow>
    (if res < 0 then pos' = pos else file_type ino = S_IFREG \<and> res = s32 pos' \<and> pos' < i_size ino)"
  by (auto simp: default_file_seek_def Let_def)

text \<open>Appending does not append.  The seek to the end that \<open>filp_write\<close> makes for \<open>O_APPEND\<close> always
  fails in the default seek, because the end is not below the size, and its result is not looked at:
  the write happens at the old position.\<close>

theorem filp_write_append_ignored:
  assumes "f_flags fl AND O_WRONLY \<noteq> 0 \<or> f_flags fl AND O_RDWR \<noteq> 0"
    and "file_type ino \<noteq> S_IFDIR"
  shows "filp_write (seek_default ino) write ino fl nbytes = write fl nbytes"
  using assms by (auto simp: filp_write_def filp_seek_def seek_default_def default_file_seek_def Let_def)

definition sample_inode :: inode where
  "sample_inode = \<lparr>i_refcount = 1, i_ino = 7, i_nlink = 1, i_uid = 0, i_gid = 0, i_rdev = 0,
     i_size = 100, i_time = 0, i_mode = 0x81A4, i_vendor = 0, i_sb = 0\<rparr>"

definition sample_file :: kfile where
  "sample_file = \<lparr>f_refcount = 1, f_op = 16, f_path = root_path, f_flags = 0x401, f_pos = 3, f_inode = 32\<rparr>"

theorem filp_write_append_ignored_witness:
  "filp_write (seek_default sample_inode) (\<lambda>fl n. (s32 (f_pos fl), fl)) sample_inode sample_file 5
    = (s32 3, sample_file)"
  using filp_write_append_ignored [of sample_file sample_inode "\<lambda>fl n. (s32 (f_pos fl), fl)" 5]
  by (simp add: sample_file_def sample_inode_def file_type_def)

text \<open>A failed open leaks the path.  Opening a directory for writing in the Linux subsystem fails after
  the inode was found; the reference to the inode is given back, but the resolved path, and with it
  its reference to the mount, is kept by nobody.\<close>

theorem filp_open_error_leaks_path:
  assumes "fs_inodes st i = Some ino" and "file_type ino = S_IFDIR"
    and "flags AND O_WRONLY \<noteq> 0 \<or> flags AND O_RDWR \<noteq> 0"
  shows "\<exists>st'. filp_open_inode reg dops open_op True flags f (i, p) st = Some (Inl (- EISDIR), st')
    \<and> inode_refs st' = (inode_refs st)(i := inode_refs st i - 1)
    \<and> v_mounts (fs_vfs st') = v_mounts (fs_vfs st) \<and> fs_files st' = fs_files st"
proof -
  obtain st' where p: "put_inode i st = Some st'"
    using assms(1) by (cases "i_refcount ino = 1") (simp_all add: put_inode_def Let_def)
  then have "fs_vfs st' = fs_vfs st" "fs_files st' = fs_files st"
    by (auto simp: put_inode_def bind_eq_Some_conv Let_def split: if_splits)
  then show ?thesis
    using assms p put_inode_refs [OF p] by (auto simp: filp_open_inode_def)
qed

definition dir_state :: fsys where
  "dir_state = \<lparr>fs_vfs = two_mounts, fs_vendor = Map.empty,
     fs_inodes = [32 \<mapsto> sample_inode\<lparr>i_refcount := 2, i_mode := 0x41ED\<rparr>], fs_files = Map.empty, fs_calls = []\<rparr>"

theorem filp_open_error_leaks_path_witness:
  "\<exists>st'. filp_open_inode [] 16 (\<lambda>_. 0) True 2 64 (32, root_path\<lparr>p_mnt := 16, p_absolute := False\<rparr>) dir_state
      = Some (Inl (- EISDIR), st') \<and> inode_refs st' 32 = 1 \<and> v_mounts (fs_vfs st') = v_mounts two_mounts"
proof -
  have d: "fs_inodes dir_state 32 = Some (sample_inode\<lparr>i_refcount := 2, i_mode := 0x41ED\<rparr>)"
    "fs_vfs dir_state = two_mounts" by (simp_all add: dir_state_def)
  then have "inode_refs dir_state 32 = 2" by (simp add: inode_refs_def)
  with d filp_open_error_leaks_path [of dir_state 32 "sample_inode\<lparr>i_refcount := 2, i_mode := 0x41ED\<rparr>" 2
      "[]" 16 "\<lambda>_. 0" 64 "root_path\<lparr>p_mnt := 16, p_absolute := False\<rparr>"]
  show ?thesis by (auto simp: file_type_def)
qed

end
