(* ===== verification/Ustar.thy ===== *)
theory Ustar
  imports Files
begin

text \<open>
  \<open>fs/ustar.c\<close>: the read-only file system in a tar archive.  The device is an argument: \<open>dev\<close> gives for
  a byte offset the result of the \<open>filp_seek\<close> and \<open>filp_read\<close> of one header, and the bytes.
  \<open>addr\<close> gives the addresses \<open>kmalloc\<close> returns for a new inode and its information; an address that is
  in use, which \<open>kmalloc\<close> never returns, counts as out of memory.
\<close>

section \<open>Headers\<close>

text \<open>Offsets and lengths of the fields of \<open>struct ustar_metadata\<close>, 500 bytes in all.\<close>

definition header_field :: "nat \<Rightarrow> nat \<Rightarrow> u8 list \<Rightarrow> u8 list" where
  "header_field off len h = take len (drop off h)"

text \<open>A string that starts at an offset: it runs up to the first zero byte, past its field if need be.\<close>

definition header_string :: "nat \<Rightarrow> u8 list \<Rightarrow> name" where
  "header_string off h = takeWhile (\<lambda>c. c \<noteq> 0) (drop off h)"

definition header_type :: "u8 list \<Rightarrow> u8" where
  "header_type h = (if length h \<le> 156 then 0 else h ! 156)"

fun oct2bin_from :: "u32 \<Rightarrow> u8 list \<Rightarrow> u32" where
  "oct2bin_from n [] = n"
| "oct2bin_from n (c # cs) =
     (if sint c < 48 \<or> sint c > 55 then n
      else oct2bin_from (n * 8 + of_s32 (sint c - 48)) cs)"

definition oct2bin :: "u8 list \<Rightarrow> u32" where
  "oct2bin cs = oct2bin_from 0 cs"

text \<open>
  The path of a header.  The callers have checked that the name is not empty.  \<open>path_join\<close> would
  follow the error pointers of its arguments.
\<close>

definition ustar_inode_path :: "u8 list \<Rightarrow> vfs \<Rightarrow> ((int + kpath) \<times> vfs) option" where
  "ustar_inode_path h st = do {
     (r, st1) \<leftarrow> path_fromstr (header_string 0 h) st;
     if header_string 345 h = [] then Some (r, st1)
     else do {
       (pr, st2) \<leftarrow> path_fromstr (header_string 345 h) st1;
       (case (pr, r) of
         (Inr pre, Inr path) \<Rightarrow> do {
           (j, st3) \<leftarrow> path_join pre path st2;
           st4 \<leftarrow> path_destroy path st3;
           st5 \<leftarrow> path_destroy pre st4;
           Some (j, st5) }
       | _ \<Rightarrow> None) } }"

definition size_to_sectors :: "u32 \<Rightarrow> u32" where
  "size_to_sectors sz = (sz + 511) div 512 + 1"

definition header_sectors :: "u8 list \<Rightarrow> u32" where
  "header_sectors h = size_to_sectors (oct2bin (header_field 124 12 h))"

definition INO :: "u32 \<Rightarrow> u32" where
  "INO sector_num = sector_num + 2"

text \<open>The information of the root directory, which the archive does not have.\<close>

definition root_info :: ustar_inode_info where
  "root_info = \<lparr>ui_sector_num = -1,
     ui_path = \<lparr>p_absolute = False, p_mnt = 0, p_components = []\<rparr>,
     ui_metadata = replicate 100 0 @ [48, 48, 49, 55, 55, 55, 0, 0] @ replicate 48 0 @ [53] @ replicate 343 0\<rparr>"

section \<open>Inodes\<close>

text \<open>
  The type bits and size of an inode.  \<open>48 \<dots> 54\<close> are the characters \<open>'0'\<close> to \<open>'6'\<close>; hard links are
  treated as symbolic ones.
\<close>

definition ustar_read_inode :: "ustar_inode_info \<Rightarrow> inode \<Rightarrow> inode" where
  "ustar_read_inode info ino =
     (let h = ui_metadata info;
          ty = header_type h;
          mode = ucast (oct2bin (header_field 100 8 h)) :: u16;
          dev = push_bit 8 (oct2bin (header_field 329 8 h)) OR oct2bin (header_field 337 8 h);
          ino1 = ino\<lparr>i_ino := INO (ui_sector_num info), i_nlink := 1,
            i_uid := oct2bin (header_field 108 8 h), i_gid := oct2bin (header_field 116 8 h),
            i_time := oct2bin (header_field 136 12 h), i_mode := mode\<rparr>
      in if ty = 0 \<or> ty = 48 then ino1\<lparr>i_mode := mode OR S_IFREG, i_size := oct2bin (header_field 124 12 h)\<rparr>
         else if ty = 49 \<or> ty = 50 then ino1\<lparr>i_mode := mode OR S_IFLNK\<rparr>
         else if ty = 51 then ino1\<lparr>i_mode := mode OR S_IFCHR, i_rdev := dev\<rparr>
         else if ty = 52 then ino1\<lparr>i_mode := mode OR S_IFBLK, i_rdev := dev\<rparr>
         else if ty = 53 then ino1\<lparr>i_mode := mode OR S_IFDIR\<rparr>
         else if ty = 54 then ino1\<lparr>i_mode := mode OR 0x1000\<rparr>
         else ino1)"

text \<open>
  The scan of \<open>ustar_ino_lookup\<close>: the number of the matching header and its path.  \<open>list_peek_back\<close>
  of an empty path is \<open>NULL\<close>, which \<open>strcmp\<close> follows.
\<close>

partial_function (option) lookup_scan ::
    "(u32 \<Rightarrow> int \<times> u8 list) \<Rightarrow> kpath \<Rightarrow> name \<Rightarrow> u32 \<Rightarrow> fsys \<Rightarrow> ((int + u32 \<times> kpath \<times> u8 list) \<times> fsys) option" where
  "lookup_scan dev parent nm sector_num st =
     (let (res, h) = dev (sector_num * 512) in
      if res < 0 then Some (Inl res, st)
      else if header_string 0 h = [] then Some (Inl (- ENOENT), st)
      else do {
        (r, st1) \<leftarrow> on_vfs (ustar_inode_path h) st;
        (case r of
          Inl e \<Rightarrow> Some (Inl e, st1)
        | Inr path \<Rightarrow>
            if path_is_direct_decendent parent path \<and> p_components path = [] then None
            else if path_is_direct_decendent parent path \<and> last (p_components path) = nm
            then Some (Inr (sector_num, path, h), st1)
            else do {
              st2 \<leftarrow> destroy path st1;
              lookup_scan dev parent nm (sector_num + header_sectors h) st2 }) })"

definition vendor_info :: "fsys \<Rightarrow> ptr \<Rightarrow> ustar_inode_info option" where
  "vendor_info st i = (case fs_inodes st i of
     None \<Rightarrow> None
   | Some ino \<Rightarrow> if i_vendor ino = 0 then Some root_info else fs_vendor st (i_vendor ino))"

text \<open>\<open>None\<close> from the scan is an operation that does not return.\<close>

definition ustar_ino_lookup ::
    "(u32 \<Rightarrow> int \<times> u8 list) \<Rightarrow> (fsys \<Rightarrow> ptr \<times> ptr) \<Rightarrow> ptr \<Rightarrow> name \<Rightarrow> u32 \<Rightarrow> fsys
       \<Rightarrow> (int \<times> ptr \<times> fsys) option" where
  "ustar_ino_lookup dev addr inode nm flags st = do {
     ino \<leftarrow> fs_inodes st inode;
     parent \<leftarrow> vendor_info st inode;
     let (ok, st1) = fs_kmalloc st;
     if \<not> ok then Some (- ENOMEM, 0, st1)
     else do {
       (r, st2) \<leftarrow> lookup_scan dev (ui_path parent) nm 0 st1;
       (case r of
         Inl e \<Rightarrow> Some (e, 0, st2)
       | Inr (sector_num, path, h) \<Rightarrow>
           let (ok2, st3) = fs_kmalloc st2; (i, v) = addr st3 in
           if \<not> ok2 \<or> fs_inodes st3 i \<noteq> None then do {
             st4 \<leftarrow> destroy path st3;
             Some (- ENOMEM, 0, st4) }
           else
             let info = \<lparr>ui_sector_num = sector_num, ui_path = path, ui_metadata = h\<rparr>;
                 blank = \<lparr>i_refcount = 1, i_ino = 0, i_nlink = 0, i_uid = 0, i_gid = 0, i_rdev = 0,
                   i_size = 0, i_time = 0, i_mode = 0, i_vendor = v, i_sb = i_sb ino\<rparr>
             in Some (0, i, (set_inode i (Some (ustar_read_inode info blank)) st3)
                  \<lparr>fs_vendor := (fs_vendor st3)(v := Some info)\<rparr>)) } }"

definition ustar_ino_readlink :: readlink_op where
  "ustar_ino_readlink inode nbytes st = do {
     ino \<leftarrow> fs_inodes st inode;
     if file_type ino \<noteq> S_IFLNK then Some (- EINVAL, [])
     else if nbytes = 0 then Some (0, [])
     else do {
       info \<leftarrow> vendor_info st inode;
       let target = header_string 157 (ui_metadata info);
       let n = min nbytes (length target);
       Some (int n, take n target) } }"

section \<open>Reading\<close>

text \<open>
  Reading a regular file: the request is cut to what is left after the position, then passed to the
  device (\<open>dev_read\<close> is the result of its seek and read at a byte offset).
\<close>

definition ustar_read ::
    "(u32 \<Rightarrow> u32 \<Rightarrow> int \<times> u8 list) \<Rightarrow> ustar_inode_info \<Rightarrow> inode \<Rightarrow> kfile \<Rightarrow> u32 \<Rightarrow> int \<times> u8 list \<times> kfile" where
  "ustar_read dev_read info ino fl nbytes =
     (let left = i_size ino - f_pos fl;
          n = (if nbytes > left then left else nbytes)
      in if n = 0 then (0, [], fl)
         else
           let (res, bs) = dev_read ((ui_sector_num info + 1) * 512 + f_pos fl) n
           in if res < 0 then (res, bs, fl)
              else (res, bs, fl\<lparr>f_pos := f_pos fl + of_s32 res\<rparr>))"

text \<open>
  A \<open>filldir\<close> callback gets the name, its length, the offset, the inode number and the type; a negative
  result stops before the entry, a positive one after it.
\<close>

type_synonym 'd filldir = "'d \<Rightarrow> name \<Rightarrow> u32 \<Rightarrow> u32 \<Rightarrow> u32 \<Rightarrow> u32 \<Rightarrow> int \<times> 'd"

definition dirent_type :: "u8 \<Rightarrow> u32 \<Rightarrow> u32" where
  "dirent_type ty uninit =
     (if ty = 0 \<or> ty = 48 then 0x8000
      else if ty = 49 \<or> ty = 50 then 0xA000
      else if ty = 51 then 0x2000
      else if ty = 52 then 0x6000
      else if ty = 53 then 0x4000
      else if ty = 54 then 0x1000
      else uninit)"

text \<open>
  The loop of \<open>ustar_readdir\<close>: position, count of entries and the callback's data.  \<open>uninit\<close> is the
  content of the variable \<open>type\<close> where the switch has no case.
\<close>

partial_function (option) readdir_loop ::
    "(u32 \<Rightarrow> int \<times> u8 list) \<Rightarrow> kpath \<Rightarrow> u32 \<Rightarrow> ('d \<Rightarrow> name \<Rightarrow> u32 \<Rightarrow> u32 \<Rightarrow> u32 \<Rightarrow> u32 \<Rightarrow> int \<times> 'd)
       \<Rightarrow> u32 \<Rightarrow> int \<Rightarrow> 'd \<Rightarrow> fsys \<Rightarrow> (int \<times> u32 \<times> 'd \<times> fsys) option" where
  "readdir_loop dev parent uninit filldir pos i d st =
     (let (res, h) = dev (pos * 512) in
         if res < 0 then Some (res, pos, d, st)
         else if header_string 0 h = [] then Some (i, pos, d, st)
         else do {
           (r, st1) \<leftarrow> on_vfs (ustar_inode_path h) st;
           (case r of
             Inl e \<Rightarrow> Some (e, pos, d, st1)
           | Inr path \<Rightarrow>
               let pos' = pos + header_sectors h in
               if path_is_direct_decendent parent path then
                 (if p_components path = [] then None
                  else
                    let nm = last (p_components path);
                        (res, d') = filldir d nm (word_of_nat (length nm)) pos (INO pos)
                          (dirent_type (header_type h) uninit)
                    in do {
                      st2 \<leftarrow> destroy path st1;
                      if res < 0 then Some (i, pos, d', st2)
                      else if res > 0 then Some (i + 1, pos', d', st2)
                      else readdir_loop dev parent uninit filldir pos' (i + 1) d' st2 })
               else do {
                 st2 \<leftarrow> destroy path st1;
                 readdir_loop dev parent uninit filldir pos' i d st2 }) })"

section \<open>The promises of the file system\<close>

lemma on_vfs_err:
  assumes "on_vfs (ustar_inode_path h) st = Some (Inl e, st')"
  shows "e < 0"
proof -
  from assms obtain v where u: "ustar_inode_path h (fs_vfs st) = Some (Inl e, v)"
    by (auto simp: on_vfs_def bind_eq_Some_conv)
  then obtain r st1 where f: "path_fromstr (header_string 0 h) (fs_vfs st) = Some (r, st1)"
    by (auto simp: ustar_inode_path_def bind_eq_Some_conv)
  show ?thesis
  proof (cases "header_string 345 h = []")
    case True
    with u f path_fromstr_err [of "header_string 0 h" "fs_vfs st" e st1] show ?thesis
      by (auto simp: ustar_inode_path_def)
  next
    case False
    with u f obtain pr st2 where p: "path_fromstr (header_string 345 h) st1 = Some (pr, st2)"
      by (auto simp: ustar_inode_path_def bind_eq_Some_conv)
    with u f False show ?thesis
      by (cases pr; cases r)
        (auto simp: ustar_inode_path_def bind_eq_Some_conv dest: path_join_err)
  qed
qed

text \<open>The scan leaves the inodes alone, and fails with a negative number.\<close>

lemma lookup_scan_refs:
  assumes "lookup_scan dev parent nm sector st = Some (r, st')"
  shows "inode_refs st' = inode_refs st \<and> (\<forall>e. r = Inl e \<longrightarrow> e < 0)"
proof -
  have "inode_refs (snd (r, st')) = inode_refs st \<and> (\<forall>e. fst (r, st') = Inl e \<longrightarrow> e < 0)"
  proof (rule lookup_scan.raw_induct [where
      P = "\<lambda>dev parent nm sector st x. inode_refs (snd x) = inode_refs st
        \<and> (\<forall>e. fst x = Inl e \<longrightarrow> e < 0)", OF _ assms])
    fix rec dev parent nm sector st x
    assume IH: "\<And>dev parent nm sector st x. rec dev parent nm sector st = Some x \<Longrightarrow>
        inode_refs (snd x) = inode_refs st \<and> (\<forall>e. fst x = Inl e \<longrightarrow> e < 0)"
      and body: "(let (res, h) = dev (sector * 512) in
          if res < 0 then Some (Inl res, st)
          else if header_string 0 h = [] then Some (Inl (- ENOENT), st)
          else do {
            (r, st1) \<leftarrow> on_vfs (ustar_inode_path h) st;
            (case r of
              Inl e \<Rightarrow> Some (Inl e, st1)
            | Inr path \<Rightarrow>
                if path_is_direct_decendent parent path \<and> p_components path = [] then None
                else if path_is_direct_decendent parent path \<and> last (p_components path) = nm
                then Some (Inr (sector, path, h), st1)
                else do {
                  st2 \<leftarrow> destroy path st1;
                  rec dev parent nm (sector + header_sectors h) st2 }) }) = Some x"
    obtain res h where d: "dev (sector * 512) = (res, h)" by (cases "dev (sector * 512)")
    show "inode_refs (snd x) = inode_refs st \<and> (\<forall>e. fst x = Inl e \<longrightarrow> e < 0)"
    proof (cases "res < 0 \<or> header_string 0 h = []")
      case True
      with body d show ?thesis by (auto split: if_splits)
    next
      case False
      with body d obtain r st1 where p: "on_vfs (ustar_inode_path h) st = Some (r, st1)"
        by (auto simp: bind_eq_Some_conv)
      with body d False on_vfs_refs [OF p] show ?thesis
        by (cases r) (auto simp: bind_eq_Some_conv dest!: destroy_refs IH dest: on_vfs_err
            split: if_splits)
    qed
  qed
  then show ?thesis by simp
qed

lemma ustar_read_inode_refcount [simp]: "i_refcount (ustar_read_inode info n) = i_refcount n"
  by (simp add: ustar_read_inode_def Let_def)

lemma ustar_lookup_refs:
  assumes "ustar_ino_lookup dev addr inode nm flags st = Some (res, nxt, st')"
  shows "inode_refs st' = (if res < 0 then inode_refs st
    else (inode_refs st)(nxt := inode_refs st nxt + 1))"
proof -
  obtain ok st1 where k: "fs_kmalloc st = (ok, st1)" by (cases "fs_kmalloc st")
  then have r1: "inode_refs st1 = inode_refs st" using fs_kmalloc_refs [of st] by simp
  from assms obtain ino where ino: "fs_inodes st inode = Some ino"
    by (auto simp: ustar_ino_lookup_def bind_eq_Some_conv)
  from assms obtain parent where vi: "vendor_info st inode = Some parent"
    by (auto simp: ustar_ino_lookup_def bind_eq_Some_conv)
  show ?thesis
  proof (cases ok)
    case False
    with assms k ino vi r1 show ?thesis by (auto simp: ustar_ino_lookup_def)
  next
    case True
    with assms k ino vi obtain r st2 where s: "lookup_scan dev (ui_path parent) nm 0 st1 = Some (r, st2)"
      by (auto simp: ustar_ino_lookup_def bind_eq_Some_conv)
    have r2: "inode_refs st2 = inode_refs st" using lookup_scan_refs [OF s] r1 by simp
    obtain ok2 st3 where k2: "fs_kmalloc st2 = (ok2, st3)" by (cases "fs_kmalloc st2")
    then have r3: "inode_refs st3 = inode_refs st" using fs_kmalloc_refs [of st2] r2 by simp
    obtain i v where a: "addr st3 = (i, v)" by (cases "addr st3")
    show ?thesis
    proof (cases r)
      case (Inl e)
      then have "e < 0" using lookup_scan_refs [OF s] by blast
      with assms k ino vi True s Inl r2 show ?thesis by (auto simp: ustar_ino_lookup_def)
    next
      case (Inr f)
      obtain sec path h where f: "f = (sec, path, h)" by (cases f)
      let ?info = "\<lparr>ui_sector_num = sec, ui_path = path, ui_metadata = h\<rparr>"
      let ?blank = "\<lparr>i_refcount = 1, i_ino = 0, i_nlink = 0, i_uid = 0, i_gid = 0, i_rdev = 0,
        i_size = 0, i_time = 0, i_mode = 0, i_vendor = v, i_sb = i_sb ino\<rparr>"
      from f assms k ino vi True s Inr k2 a have "if \<not> ok2 \<or> fs_inodes st3 i \<noteq> None
          then \<exists>st4. destroy path st3 = Some st4 \<and> st' = st4 \<and> res = - ENOMEM
          else res = 0 \<and> nxt = i \<and>
            fs_inodes st' = (fs_inodes st3)(i := Some (ustar_read_inode ?info ?blank))"
        by (auto simp: ustar_ino_lookup_def bind_eq_Some_conv Let_def)
      then show ?thesis
      proof (cases "\<not> ok2 \<or> fs_inodes st3 i \<noteq> None")
        case False
        with \<open>if _ then _ else _\<close> have "res = 0" "nxt = i" "fs_inodes st3 i = None"
          "fs_inodes st' = (fs_inodes st3)(i := Some (ustar_read_inode ?info ?blank))" by auto
        then have "inode_refs st' = (inode_refs st3)(i := inode_refs st3 i + 1)"
          by (simp add: inode_refs_def fun_eq_iff)
        with r3 \<open>res = 0\<close> \<open>nxt = i\<close> show ?thesis by simp
      qed (use r3 destroy_refs in auto)
    qed
  qed
qed

lemma lookup_scan_files:
  assumes "lookup_scan dev parent nm sector st = Some x"
  shows "fs_files (snd x) = fs_files st"
proof (rule lookup_scan.raw_induct [where
    P = "\<lambda>dev parent nm sector st x. fs_files (snd x) = fs_files st", OF _ assms])
  fix rec dev parent nm sector st x
  assume IH: "\<And>dev parent nm sector st x. rec dev parent nm sector st = Some x \<Longrightarrow>
      fs_files (snd x) = fs_files st"
    and body: "(let (res, h) = dev (sector * 512) in
        if res < 0 then Some (Inl res, st)
        else if header_string 0 h = [] then Some (Inl (- ENOENT), st)
        else do {
          (r, st1) \<leftarrow> on_vfs (ustar_inode_path h) st;
          (case r of
            Inl e \<Rightarrow> Some (Inl e, st1)
          | Inr path \<Rightarrow>
              if path_is_direct_decendent parent path \<and> p_components path = [] then None
              else if path_is_direct_decendent parent path \<and> last (p_components path) = nm
              then Some (Inr (sector, path, h), st1)
              else do {
                st2 \<leftarrow> destroy path st1;
                rec dev parent nm (sector + header_sectors h) st2 }) }) = Some x"
  obtain res h where d: "dev (sector * 512) = (res, h)" by (cases "dev (sector * 512)")
  show "fs_files (snd x) = fs_files st"
  proof (cases "res < 0 \<or> header_string 0 h = []")
    case True
    with body d show ?thesis by (auto split: if_splits)
  next
    case False
    with body d obtain r st1 where p: "on_vfs (ustar_inode_path h) st = Some (r, st1)"
      by (auto simp: bind_eq_Some_conv)
    with body d False on_vfs_files [OF p] show ?thesis
      by (cases r) (auto simp: bind_eq_Some_conv dest!: destroy_files IH split: if_splits)
  qed
qed

lemma ustar_lookup_files:
  assumes "ustar_ino_lookup dev addr inode nm flags st = Some (res, nxt, st')"
  shows "fs_files st' = fs_files st"
proof -
  obtain ok st1 where k: "fs_kmalloc st = (ok, st1)" by (cases "fs_kmalloc st")
  show ?thesis
  proof (cases ok)
    case False
    with assms k fs_kmalloc_files [OF k] show ?thesis
      by (auto simp: ustar_ino_lookup_def bind_eq_Some_conv)
  next
    case True
    with assms k obtain ino parent r st2 where
      s: "fs_inodes st inode = Some ino" "vendor_info st inode = Some parent"
        "lookup_scan dev (ui_path parent) nm 0 st1 = Some (r, st2)"
      by (auto simp: ustar_ino_lookup_def bind_eq_Some_conv)
    obtain ok2 st3 where k2: "fs_kmalloc st2 = (ok2, st3)" by (cases "fs_kmalloc st2")
    obtain i v where a: "addr st3 = (i, v)" by (cases "addr st3")
    have f3: "fs_files st2 = fs_files st" "fs_files st3 = fs_files st"
      using lookup_scan_files [OF s(3)] fs_kmalloc_files [OF k] fs_kmalloc_files [OF k2] by simp_all
    show ?thesis
    proof (cases r)
      case (Inl e)
      with assms k True s f3 show ?thesis by (auto simp: ustar_ino_lookup_def)
    next
      case (Inr f)
      obtain sec path h where "f = (sec, path, h)" by (cases f)
      with assms k True s Inr k2 a f3 show ?thesis
        by (auto simp: ustar_ino_lookup_def bind_eq_Some_conv Let_def dest!: destroy_files
            split: if_splits)
    qed
  qed
qed

interpretation ustar: file_system "ustar_ino_lookup dev addr" default_ino_create for dev addr
proof unfold_locales
  fix i c flags st res nxt st'
  assume "ustar_ino_lookup dev addr i c flags st = Some (res, nxt, st')"
  then show "inode_refs st' = (if res < 0 then inode_refs st
      else (inode_refs st)(nxt := inode_refs st nxt + 1))"
    by (rule ustar_lookup_refs)
next
  fix i c flags mode st res nxt st'
  assume "default_ino_create i c flags mode st = Some (res, nxt, st')"
  then show "inode_refs st' = (if res < 0 then inode_refs st
      else (inode_refs st)(nxt := inode_refs st nxt + 1))"
    by (auto simp: default_ino_create_def)
next
  fix i c flags st res nxt st'
  assume "ustar_ino_lookup dev addr i c flags st = Some (res, nxt, st')"
  then show "fs_files st' = fs_files st" by (rule ustar_lookup_files)
next
  fix i c flags mode st res nxt st'
  assume "default_ino_create i c flags mode st = Some (res, nxt, st')"
  then show "fs_files st' = fs_files st" by (auto simp: default_ino_create_def)
qed

section \<open>Properties\<close>

text \<open>C9: opening by path balances the inode references over a tar file system.  Whatever the path, the
  mounts, the symbolic links on the way and the failures, an opening that returns with an error has
  given back every reference it took, and one that succeeds holds exactly one, to the inode it
  returns.\<close>

theorem ustar_open_balances:
  assumes "inode_open (ustar_ino_lookup dev addr) default_ino_create ustar_ino_readlink base path flags
    mode want st = Some (r, st')"
  shows "inode_refs st' = (case r of Inl e \<Rightarrow> inode_refs st
    | Inr (i, p) \<Rightarrow> (inode_refs st)(i := inode_refs st i + 1))"
  using ustar.inode_open_refs [OF assms] by (auto simp: open_refs_def split: sum.splits prod.splits)

text \<open>A file system with its root at inode 32, mounted at the root.\<close>

definition root_fs :: fsys where
  "root_fs = \<lparr>fs_vfs = \<lparr>v_answers = [],
       v_mounts = [16 \<mapsto> \<lparr>m_refcount = 1, m_root = 32, m_path = root_path, m_sb = 48\<rparr>],
       v_table = [16], v_events = []\<rparr>,
     fs_vendor = Map.empty, fs_inodes = [32 \<mapsto> sample_inode\<lparr>i_mode := 0x41ED\<rparr>],
     fs_files = Map.empty, fs_calls = []\<rparr>"

lemma root_fs_open:
  "\<exists>r st'. inode_open (ustar_ino_lookup dev addr) default_ino_create ustar_ino_readlink base [47] 0 0 True
     root_fs = Some (r, st') \<and> r = Inr (32, \<lparr>p_absolute = False, p_mnt = 16, p_components = []\<rparr>)
     \<and> fs_inodes st' 32 = Some (sample_inode\<lparr>i_mode := 0x41ED, i_refcount := 2\<rparr>)
     \<and> v_answers (fs_vfs st') = [] \<and> fs_files st' = Map.empty"
proof -
  let ?v = "fs_vfs root_fs"
  have as: "v_answers ?v = []" by (simp add: root_fs_def)
  have parse: "path_fromstr [47] ?v = Some (Inr root_path, ?v)"
    using path_fromstr_ok [OF as, of "[47]"] by (simp add: root_path_def)
  have clone: "path_clone root_path ?v = Some (Inr root_path, ?v)"
    using path_clone_ok [OF as, of root_path] by (simp add: root_path_def live_mnt_def plain_path_def)
  have check: "path_checkmnt root_path ?v
      = Some (Inr \<lparr>p_absolute = False, p_mnt = 16, p_components = []\<rparr>, hold 16 ?v)"
  proof (rule path_checkmnt_flat [of ?v root_path])
    show "flat_table ?v" by (simp add: root_fs_def flat_table_def flat_entry_def root_path_def plain_path_def)
    show "v_answers ?v = []" by (rule as)
  qed (auto simp: root_path_def plain_path_def root_fs_def mount_path_def)
  define st1 where "st1 = root_fs\<lparr>fs_vfs := hold 16 ?v\<rparr>"
  have "v_mounts (fs_vfs st1) 16 = Some \<lparr>m_refcount = 2, m_root = 32, m_path = root_path, m_sb = 48\<rparr>"
    "fs_inodes st1 32 = Some (sample_inode\<lparr>i_mode := 0x41ED\<rparr>)"
    by (simp_all add: st1_def hold_def root_fs_def)
  then have "\<exists>st'. open_once (ustar_ino_lookup dev addr) default_ino_create ustar_ino_readlink 0 0 root_path root_fs
      = Some (Opened 32 \<lparr>p_absolute = False, p_mnt = 16, p_components = []\<rparr>, st')
      \<and> fs_inodes st' 32 = Some (sample_inode\<lparr>i_mode := 0x41ED, i_refcount := 2\<rparr>)
      \<and> v_answers (fs_vfs st') = [] \<and> fs_files st' = Map.empty"
    using check
    by (simp add: open_once_def on_vfs_def destroy_def path_destroy_def root_path_def st1_def
        get_inode_def open_found_def file_type_def sample_inode_def root_fs_def)
  then obtain st' where st':
    "fs_inodes st' 32 = Some (sample_inode\<lparr>i_mode := 0x41ED, i_refcount := 2\<rparr>)"
    "v_answers (fs_vfs st') = []" "fs_files st' = Map.empty" and
    "open_resolve (ustar_ino_lookup dev addr) default_ino_create ustar_ino_readlink 0 0 root_path root_fs
      = Some (Inr (32, \<lparr>p_absolute = False, p_mnt = 16, p_components = []\<rparr>), st')"
    by (auto simp: open_resolve.simps)
  then show ?thesis
    using parse clone
    by (simp add: inode_open_def on_vfs_def root_path_def destroy_def path_destroy_def)
qed

theorem ustar_open_balances_witness:
  "\<exists>r st'. inode_open (ustar_ino_lookup (\<lambda>off. (-5, [])) (\<lambda>st. (64, 96))) default_ino_create
      ustar_ino_readlink None [47] 0 0 True root_fs = Some (r, st')
    \<and> inode_refs st' = (inode_refs root_fs)(32 := inode_refs root_fs 32 + 1)"
proof -
  obtain r st' where o: "inode_open (ustar_ino_lookup (\<lambda>off. (-5, [])) (\<lambda>st. (64, 96)))
      default_ino_create ustar_ino_readlink None [47] 0 0 True root_fs = Some (r, st')"
    "r = Inr (32, \<lparr>p_absolute = False, p_mnt = 16, p_components = []\<rparr>)"
    using root_fs_open by blast
  from ustar_open_balances [OF o(1)] o show ?thesis by auto
qed

text \<open>An archive that begins with an entry for its own root directory, \<open>./\<close>, crashes every lookup in a
  subdirectory.  The path of that entry is empty, \<open>path_is_direct_decendent\<close> compares \<open>-1\<close> with its
  size minus one as unsigned numbers and says yes, and the last component that is then compared with
  the name is \<open>NULL\<close>.\<close>

theorem ustar_root_entry_faults:
  assumes "v_answers (fs_vfs st) = []" and "dev 0 = (res, h)" and "0 \<le> res"
    and "header_string 0 h = [46, 47]" and "header_string 345 h = []"
    and "p_mnt parent = 0" and "\<not> p_absolute parent" and "p_components parent \<noteq> []"
  shows "lookup_scan dev parent nm 0 st = None"
proof -
  let ?root = "\<lparr>p_absolute = False, p_mnt = 0, p_components = []\<rparr>"
  have "path_fromstr [46, 47] (fs_vfs st) = Some (Inr ?root, fs_vfs st)"
    using path_fromstr_ok [OF assms(1), of "[46, 47]"] by (simp add: add_name_def)
  then have "on_vfs (ustar_inode_path h) st = Some (Inr ?root, st)"
    using assms(4,5) by (simp add: on_vfs_def ustar_inode_path_def)
  moreover have "path_is_direct_decendent parent ?root"
    using assms(6-8) by (simp add: path_is_direct_decendent_def path_size_def path_subsumes_prefix of_s32_def)
  ultimately show ?thesis
    using assms(2-4) by (subst lookup_scan.simps) simp
qed

theorem ustar_root_entry_faults_witness:
  "lookup_scan (\<lambda>off. (512, [46, 47] @ replicate 498 0))
     \<lparr>p_absolute = False, p_mnt = 0, p_components = [[98, 105, 110]]\<rparr> [115, 104] 0 root_fs = None"
proof (rule ustar_root_entry_faults [where res = 512])
  show "header_string 345 ([46, 47] @ replicate 498 0) = []"
    unfolding header_string_def drop_append by (simp add: takeWhile_replicate)
qed (simp_all add: root_fs_def header_string_def takeWhile_replicate)

end
