(* ===== verification/KArray.thy ===== *)
theory KArray
  imports Prelude
begin

text \<open>
  \<open>structure/array.c\<close> with \<open>lib/bsr.h\<close> and \<open>kcalloc\<close>: the growing pointer array behind the file
  descriptor tables and the pending signal records.  The block behind \<open>values\<close> is a list whose
  length is what was really allocated, so an index the bookkeeping allows and the block does not
  hold is visible as \<open>Wild\<close>.
\<close>

section \<open>The most significant bit\<close>

fun top_bit :: "nat \<Rightarrow> nat" where
  "top_bit n = (if n \<le> 1 then 0 else Suc (top_bit (n div 2)))"

declare top_bit.simps [simp del]

definition bsr :: "u32 \<Rightarrow> int" where
  "bsr x = (if x = 0 then -1 else int (top_bit (unat x)))"

lemma top_bit_bounds: "0 < n \<Longrightarrow> 2 ^ top_bit n \<le> n \<and> n < 2 ^ Suc (top_bit n)"
proof (induction n rule: top_bit.induct)
  case (1 n)
  show ?case
  proof (cases "n \<le> 1")
    case True
    with "1.prems" show ?thesis by (subst (1 2) top_bit.simps) simp
  next
    case False
    with "1.IH" have "2 ^ top_bit (n div 2) \<le> n div 2 \<and> n div 2 < 2 ^ Suc (top_bit (n div 2))"
      by simp
    moreover have "top_bit n = Suc (top_bit (n div 2))"
      using False by (subst top_bit.simps) simp
    ultimately show ?thesis by auto
  qed
qed

lemma top_bit_less: "0 < n \<Longrightarrow> n < 2 ^ k \<Longrightarrow> top_bit n < k"
  using top_bit_bounds [of n] by (meson le_less_trans nat_power_less_imp_less zero_less_numeral)

lemma top_bit_ge: "2 ^ k \<le> n \<Longrightarrow> k \<le> top_bit n"
proof -
  assume "2 ^ k \<le> n"
  moreover from this have "0 < n" by (simp add: Suc_le_lessD dual_order.strict_trans1)
  ultimately have "(2::nat) ^ k < 2 ^ Suc (top_bit n)" using top_bit_bounds [of n] by linarith
  then have "k < Suc (top_bit n)" by (rule power_less_imp_less_exp [rotated]) simp
  then show ?thesis by simp
qed

section \<open>The array\<close>

record karray =
  arr_size :: u32
  arr_values :: "ptr list option" \<comment> \<open>\<open>None\<close> is \<open>NULL\<close>\<close>

definition empty_array :: karray where
  "empty_array = \<lparr>arr_size = 0, arr_values = None\<rparr>"

definition read_slot :: "ptr list option \<Rightarrow> u32 \<Rightarrow> ptr outcome" where
  "read_slot values index = (case values of
     None \<Rightarrow> Wild
   | Some vs \<Rightarrow> if unat index < length vs then Done (vs ! unat index) else Wild)"

definition write_slot :: "ptr list option \<Rightarrow> u32 \<Rightarrow> ptr \<Rightarrow> ptr list option outcome" where
  "write_slot values index v = (case values of
     None \<Rightarrow> Wild
   | Some vs \<Rightarrow> if unat index < length vs then Done (Some (vs[unat index := v])) else Wild)"

definition array_get :: "karray \<Rightarrow> u32 \<Rightarrow> ptr outcome" where
  "array_get arr index =
     (if arr_size arr \<le> index then Done 0 else read_slot (arr_values arr) index)"

text \<open>
  \<open>kcalloc\<close> computes the size of the block in 32 bits and clears it without looking at whether
  \<open>kmalloc\<close> (here \<open>ok\<close>) gave a block; \<open>kmalloc(0)\<close> does give one.  The result is in units of
  pointers, for the one call of the array code, \<open>kcalloc(sizeof(*values), newsize)\<close>.
\<close>

definition kcalloc :: "bool \<Rightarrow> u32 \<Rightarrow> u32 \<Rightarrow> ptr list option outcome" where
  "kcalloc ok nobj sz = (let real_size = nobj * sz in
     if ok then Done (Some (replicate (unat real_size div 4) 0))
     else if real_size = 0 then Done None
     else Wild)"

text \<open>
  \<open>1 << (bsr(index) + 1)\<close>: the shift by 32 that the largest indexes ask for is undefined.
\<close>

definition grown_size :: "u32 \<Rightarrow> u32 outcome" where
  "grown_size index = (let k = nat (bsr index + 1) in
     if k < 32 then Done (push_bit k 1) else Wild)"

text \<open>\<open>memcpy(values, arr->values, arr->size * sizeof(*values))\<close>.\<close>

definition copy_slots :: "ptr list \<Rightarrow> ptr list \<Rightarrow> u32 \<Rightarrow> ptr list outcome" where
  "copy_slots new old sz = (let n = unat (sz * 4) div 4 in
     if n \<le> length new \<and> n \<le> length old then Done (take n old @ drop n new) else Wild)"

definition grow :: "bool \<Rightarrow> karray \<Rightarrow> u32 \<Rightarrow> (int \<times> karray) outcome" where
  "grow ok arr index =
     and_then (grown_size index) (\<lambda>newsize.
     and_then (kcalloc ok 4 newsize) (\<lambda>block.
       case block of
         None \<Rightarrow> Done (- ENOMEM, arr)
       | Some values \<Rightarrow>
           and_then (case arr_values arr of
                       None \<Rightarrow> Done values
                     | Some old \<Rightarrow> copy_slots values old (arr_size arr)) (\<lambda>values'.
           Done (0, arr\<lparr>arr_size := newsize, arr_values := Some values'\<rparr>))))"

definition array_set :: "bool \<Rightarrow> karray \<Rightarrow> u32 \<Rightarrow> ptr \<Rightarrow> (int \<times> karray) outcome" where
  "array_set ok arr index v =
     and_then (if v \<noteq> 0 \<and> arr_size arr \<le> index then grow ok arr index else Done (0, arr)) (\<lambda>r.
       if fst r < 0 then Done r
       else if index < arr_size (snd r)
       then and_then (write_slot (arr_values (snd r)) index v)
              (\<lambda>vs. Done (0, (snd r)\<lparr>arr_values := vs\<rparr>))
       else Done (0, snd r))"

section \<open>The invariant and the map it keeps\<close>

text \<open>The block holds exactly \<open>size\<close> pointers, and there is no block before the first growth.\<close>

definition wf_array :: "karray \<Rightarrow> bool" where
  "wf_array arr \<longleftrightarrow> (case arr_values arr of
     None \<Rightarrow> arr_size arr = 0
   | Some vs \<Rightarrow> length vs = unat (arr_size arr) \<and> length vs < 2 ^ 30)"

definition array_abs :: "karray \<Rightarrow> u32 \<Rightarrow> ptr" where
  "array_abs arr index = (case arr_values arr of
     None \<Rightarrow> 0
   | Some vs \<Rightarrow> if unat index < length vs then vs ! unat index else 0)"

lemma wf_empty_array [inv_intros]: "wf_array empty_array"
  by (simp add: wf_array_def empty_array_def)

lemma array_abs_empty [simp]: "array_abs empty_array = (\<lambda>_. 0)"
  by (simp add: array_abs_def empty_array_def fun_eq_iff)

lemma array_get_abs:
  assumes "wf_array arr"
  shows "array_get arr index = Done (array_abs arr index)"
  using assms
  by (auto simp: wf_array_def array_get_def array_abs_def read_slot_def word_le_nat_alt
      split: option.splits)

lemma array_abs_outside:
  "wf_array arr \<Longrightarrow> arr_size arr \<le> index \<Longrightarrow> array_abs arr index = 0"
  by (auto simp: wf_array_def array_abs_def word_le_nat_alt split: option.splits)

text \<open>Below \<open>2^29\<close> the new size is a power of two above the index and its byte size fits.\<close>

lemma grown_size_ok:
  assumes "unat index < 2 ^ 29"
  obtains n where "grown_size index = Done n" and "unat index < unat n" and "unat n \<le> 2 ^ 29"
proof (cases "index = 0")
  case True
  then have "grown_size index = Done 1" by (simp add: grown_size_def bsr_def)
  with that [of 1] True show ?thesis by simp
next
  case False
  then have pos: "0 < unat index" by (simp add: unat_gt_0)
  let ?k = "Suc (top_bit (unat index))"
  have k: "?k \<le> 29" using top_bit_less [OF pos assms] by simp
  have "unat (push_bit ?k 1 :: u32) = 2 ^ ?k"
    unfolding push_bit_eq_mult mult_1 using k by (intro unat_exp) simp
  moreover have "grown_size index = Done (push_bit ?k 1)"
    using False k by (simp add: grown_size_def bsr_def nat_add_distrib)
  moreover have "(2::nat) ^ ?k \<le> 2 ^ 29" using k by (intro power_increasing) simp_all
  ultimately show ?thesis using that top_bit_bounds [OF pos] by simp
qed


lemma kcalloc_ok:
  assumes "unat n \<le> 2 ^ 29"
  shows "kcalloc True 4 n = Done (Some (replicate (unat n) 0))"
proof -
  have "unat (4 * n) = 4 * unat n" using assms by (simp add: unat_word_ariths)
  then show ?thesis by (simp add: kcalloc_def)
qed

lemma copy_slots_ok:
  assumes "length old = unat sz" and "length old \<le> length new" and "length old < 2 ^ 30"
  shows "copy_slots new old sz = Done (old @ drop (length old) new)"
proof -
  have "unat (sz * 4) = unat sz * 4" using assms by (simp add: unat_word_ariths)
  with assms show ?thesis by (simp add: copy_slots_def)
qed

text \<open>Growing keeps every entry and makes room for the index.\<close>

lemma grow_ok:
  assumes wf: "wf_array arr" and out: "arr_size arr \<le> index" and lim: "unat index < 2 ^ 29"
  obtains arr' where "grow True arr index = Done (0, arr')" and "wf_array arr'"
    and "index < arr_size arr'" and "array_abs arr' = array_abs arr"
proof -
  obtain n where n: "grown_size index = Done n" "unat index < unat n" "unat n \<le> 2 ^ 29"
    using grown_size_ok [OF lim] by blast
  have lt: "index < n" using n(2) by (simp add: word_less_nat_alt)
  let ?new = "replicate (unat n) (0 :: ptr)"
  show ?thesis
  proof (cases "arr_values arr")
    case None
    let ?arr = "arr\<lparr>arr_size := n, arr_values := Some ?new\<rparr>"
    have "grow True arr index = Done (0, ?arr)"
      using n(1) None by (simp add: grow_def kcalloc_ok [OF n(3)])
    moreover have "wf_array ?arr" using n(3) by (simp add: wf_array_def)
    moreover have "array_abs ?arr = array_abs arr"
      using None by (simp add: array_abs_def fun_eq_iff)
    ultimately show ?thesis using that [of ?arr] lt by simp
  next
    case (Some old)
    then have old: "length old = unat (arr_size arr)" "length old < 2 ^ 30"
      using wf by (simp_all add: wf_array_def)
    have le: "length old \<le> length ?new"
      using old(1) out n(2) by (simp add: word_le_nat_alt)
    let ?arr = "arr\<lparr>arr_size := n, arr_values := Some (old @ drop (length old) ?new)\<rparr>"
    have "grow True arr index = Done (0, ?arr)"
      using n(1) Some by (simp add: grow_def kcalloc_ok [OF n(3)] copy_slots_ok [OF old(1) le old(2)])
    moreover have "wf_array ?arr" using n(3) le by (simp add: wf_array_def)
    moreover have "array_abs ?arr = array_abs arr"
      using Some le by (auto simp: array_abs_def fun_eq_iff nth_append)
    ultimately show ?thesis using that [of ?arr] lt by simp
  qed
qed

lemma write_slot_abs:
  assumes "wf_array arr" and "index < arr_size arr"
  obtains vs where "write_slot (arr_values arr) index v = Done vs"
    and "wf_array (arr\<lparr>arr_values := vs\<rparr>)"
    and "array_abs (arr\<lparr>arr_values := vs\<rparr>) = (array_abs arr)(index := v)"
proof -
  obtain old where old: "arr_values arr = Some old" "length old = unat (arr_size arr)"
      "length old < 2 ^ 30"
    using assms by (cases "arr_values arr") (auto simp: wf_array_def)
  have lt: "unat index < length old" using assms(2) old(2) by (simp add: word_less_nat_alt)
  let ?vs = "Some (old[unat index := v])"
  have "write_slot (arr_values arr) index v = Done ?vs" using old lt by (simp add: write_slot_def)
  moreover have "wf_array (arr\<lparr>arr_values := ?vs\<rparr>)" using old by (simp add: wf_array_def)
  moreover have "array_abs (arr\<lparr>arr_values := ?vs\<rparr>) = (array_abs arr)(index := v)"
    using old lt by (auto simp: array_abs_def fun_eq_iff nth_list_update word_unat_eq_iff)
  ultimately show ?thesis using that by blast
qed

lemma array_set_abs:
  assumes wf: "wf_array arr" and lim: "unat index < 2 ^ 29"
  obtains arr' where "array_set True arr index v = Done (0, arr')" and "wf_array arr'"
    and "array_abs arr' = (array_abs arr)(index := v)"
proof -
  note result = that
  have step: thesis if r: "(if v \<noteq> 0 \<and> arr_size arr \<le> index then grow True arr index
        else Done (0, arr)) = Done (0, a)" and a: "wf_array a" "array_abs a = array_abs arr"
      and lt: "index < arr_size a" for a
  proof -
    from write_slot_abs [OF a(1) lt, where v = v] obtain vs where
      "write_slot (arr_values a) index v = Done vs" "wf_array (a\<lparr>arr_values := vs\<rparr>)"
      "array_abs (a\<lparr>arr_values := vs\<rparr>) = (array_abs a)(index := v)" by metis
    then show thesis
      using r lt a(2) result [of "a\<lparr>arr_values := vs\<rparr>"] by (simp add: array_set_def)
  qed
  show thesis
  proof (cases "arr_size arr \<le> index")
    case False
    then show thesis using step [of arr] wf by simp
  next
    case True
    show thesis
    proof (cases "v = 0")
      case False
      then show thesis
        using grow_ok [OF wf True lim] step True by (metis (no_types, lifting))
    next
      case v: True
      with True have "array_set True arr index v = Done (0, arr)"
        by (auto simp: array_set_def)
      moreover have "array_abs arr = (array_abs arr)(index := v)"
        using array_abs_outside [OF wf True] v by auto
      ultimately show thesis using that wf by metis
    qed
  qed
qed

text \<open>
  From \<open>2^29\<close> on, growing has undefined behaviour: the byte size \<open>4 * newsize\<close> is \<open>0\<close> in 32 bits
  (or the shift is by 32), so the block that is indexed holds nothing.
\<close>

lemma grow_huge:
  assumes out: "arr_size arr \<le> index" and big: "2 ^ 29 \<le> unat index"
  shows "grow True arr index = Wild \<or>
    (\<exists>n. index < n \<and> grow True arr index = Done (0, arr\<lparr>arr_size := n, arr_values := Some []\<rparr>))"
proof (cases "grown_size index")
  case (Done n)
  let ?k = "Suc (top_bit (unat index))"
  have nz: "index \<noteq> 0" using big by auto
  then have pos: "0 < unat index" by (simp add: unat_gt_0)
  have k: "30 \<le> ?k" using top_bit_ge [OF big] by simp
  have bsr: "nat (bsr index + 1) = ?k" using nz by (simp add: bsr_def nat_add_distrib)
  with Done have n: "n = push_bit ?k 1" "?k < 32" by (simp_all add: grown_size_def split: if_splits)
  then have "4 * n = 2 ^ (?k + 2)"
    by (simp add: push_bit_eq_mult power_add)
  also have "\<dots> = 0" using k by (intro exp_eq_zero_iff [THEN iffD2]) simp
  finally have "kcalloc True 4 n = Done (Some [])" by (simp add: kcalloc_def)
  moreover have copy: "copy_slots [] old (arr_size arr) = Done [] \<or> copy_slots [] old (arr_size arr) = Wild"
    for old by (simp add: copy_slots_def Let_def)
  moreover have "index < n"
  proof -
    have "unat n = 2 ^ ?k"
      unfolding n(1) push_bit_eq_mult mult_1 using n(2) by (intro unat_exp) simp
    then show ?thesis using top_bit_bounds [OF pos] by (simp add: word_less_nat_alt)
  qed
  ultimately show ?thesis
  proof (cases "arr_values arr")
    case None
    with \<open>kcalloc True 4 n = Done (Some [])\<close> \<open>index < n\<close> Done show ?thesis
      by (auto simp: grow_def)
  next
    case (Some old)
    with copy [of old] \<open>kcalloc True 4 n = Done (Some [])\<close> \<open>index < n\<close> Done show ?thesis
      by (auto simp: grow_def)
  qed
qed (simp_all add: grow_def grown_size_def Let_def split: if_splits)

lemma array_set_huge:
  assumes out: "arr_size arr \<le> index" and big: "2 ^ 29 \<le> unat index" and v: "v \<noteq> 0"
  shows "array_set True arr index v = Wild"
  using grow_huge [OF out big] out v by (auto simp: array_set_def write_slot_def)

section \<open>Slot tables\<close>

text \<open>
  What the users of the array rely on (descriptor tables, close-on-exec flags, pending signal
  records): below a limit it is a map from indexes to pointers, with \<open>NULL\<close> everywhere at first.
  A client's search for the first free slot is verified against these laws.
\<close>

partial_function (option) first_free ::
    "('t \<Rightarrow> u32 \<Rightarrow> ptr outcome) \<Rightarrow> ('t \<Rightarrow> u32 \<Rightarrow> ptr \<Rightarrow> (int \<times> 't) outcome) \<Rightarrow> 't \<Rightarrow> ptr \<Rightarrow> u32
       \<Rightarrow> (u32 \<times> 't) outcome option" where
  "first_free getf putf t v i = (case getf t i of
     Done p \<Rightarrow>
       if p = 0 then
         (case putf t i v of
            Done r \<Rightarrow> if fst r = 0 then Some (Done (i, snd r)) else first_free getf putf (snd r) v (i + 1)
          | Panic \<Rightarrow> Some Panic | Wild \<Rightarrow> Some Wild | Hang \<Rightarrow> Some Hang)
       else first_free getf putf t v (i + 1)
   | Panic \<Rightarrow> Some Panic | Wild \<Rightarrow> Some Wild | Hang \<Rightarrow> Some Hang)"

locale slot_table =
  fixes getf :: "'t \<Rightarrow> u32 \<Rightarrow> ptr outcome"
    and putf :: "'t \<Rightarrow> u32 \<Rightarrow> ptr \<Rightarrow> (int \<times> 't) outcome"
    and slots :: "'t \<Rightarrow> u32 \<Rightarrow> ptr"
    and valid :: "'t \<Rightarrow> bool"
    and limit :: nat
  assumes get_law: "valid t \<Longrightarrow> getf t i = Done (slots t i)"
    and set_law: "valid t \<Longrightarrow> unat i < limit \<Longrightarrow>
      \<exists>t'. putf t i v = Done (0, t') \<and> valid t' \<and> slots t' = (slots t)(i := v)"
begin

lemma get_after_set:
  assumes "valid t" and "unat i < limit"
  shows "\<exists>t'. putf t i v = Done (0, t') \<and> valid t'
    \<and> (\<forall>j. getf t' j = Done (if j = i then v else slots t j))"
proof -
  from set_law [OF assms, of v] obtain t' where
    "putf t i v = Done (0, t')" "valid t'" "slots t' = (slots t)(i := v)" by blast
  then show ?thesis by (auto simp: get_law)
qed

text \<open>The search from \<open>i\<close> ends at the least free index at or above \<open>i\<close>, if the table has one.\<close>

lemma first_free_least:
  assumes "valid t" and "slots t (word_of_nat k) = 0" and "k < limit" and "k < 2 ^ 32"
    and "\<And>j. unat i \<le> j \<Longrightarrow> j < k \<Longrightarrow> slots t (word_of_nat j) \<noteq> 0" and "unat i \<le> k"
  shows "\<exists>t'. first_free getf putf t v i = Some (Done (word_of_nat k, t')) \<and> valid t'
    \<and> slots t' = (slots t)(word_of_nat k := v)"
  using assms(5,6)
proof (induction "k - unat i" arbitrary: i)
  case 0
  then have "k = unat i" by simp
  then have i: "i = word_of_nat k" by simp
  have "unat i < limit" using 0 assms(3) by simp
  from set_law [OF assms(1) this, of v] obtain t' where
    "putf t i v = Done (0, t')" "valid t'" "slots t' = (slots t)(i := v)" by blast
  with assms(1,2) i show ?case by (subst first_free.simps) (simp add: get_law)
next
  case (Suc d)
  then have lt: "unat i < k" by simp
  then have suc: "unat (i + 1) = Suc (unat i)"
    using assms(4) by (intro unat_suc_small) simp
  have "slots t (word_of_nat (unat i)) \<noteq> 0" using Suc.prems(1) lt by blast
  then have used: "slots t i \<noteq> 0" by simp
  have "\<exists>t'. first_free getf putf t v (i + 1) = Some (Done (word_of_nat k, t')) \<and> valid t'
      \<and> slots t' = (slots t)(word_of_nat k := v)"
    using Suc suc lt by (intro Suc.hyps(1)) auto
  with used assms(1) show ?case by (subst first_free.simps) (simp add: get_law)
qed

end

interpretation arr: slot_table array_get "array_set True" array_abs wf_array "2 ^ 29"
proof unfold_locales
  fix t i
  assume "wf_array t"
  then show "array_get t i = Done (array_abs t i)" by (rule array_get_abs)
next
  fix t v and i :: u32
  assume "wf_array t" and "unat i < 2 ^ 29"
  then show "\<exists>t'. array_set True t i v = Done (0, t') \<and> wf_array t' \<and>
      array_abs t' = (array_abs t)(i := v)"
    by (metis array_set_abs)
qed

section \<open>Properties\<close>

text \<open>C2: the array is a map.  Below index \<open>2^29\<close>, and with a successful allocation, setting an
  entry succeeds, reading any index afterwards gives the new value at that index and the old one
  elsewhere (\<open>NULL\<close> where nothing was stored), and the bookkeeping invariant is kept.\<close>

theorem array_get_after_set:
  assumes "wf_array arr" and "unat index < 2 ^ 29"
  shows "\<exists>arr'. array_set True arr index v = Done (0, arr') \<and> wf_array arr'
    \<and> (\<forall>j. array_get arr' j = Done (if j = index then v else array_abs arr j))"
  by (rule arr.get_after_set [OF assms])

theorem array_get_after_set_witness:
  "\<exists>arr'. array_set True empty_array 5 77 = Done (0, arr') \<and> wf_array arr'
    \<and> (\<forall>j. array_get arr' j = Done (if j = 5 then 77 else array_abs empty_array j))"
  by (rule array_get_after_set) (simp_all add: wf_empty_array)

text \<open>Growing for an index of \<open>2^29\<close> or more writes outside the block.  The byte size of the
  new block is computed in 32 bits and is \<open>0\<close> (or the shift is oversized), while the size field
  says the index is inside, so storing a pointer there is an access outside the allocation.\<close>

theorem array_set_overflow:
  assumes "arr_size arr \<le> index" and "2 ^ 29 \<le> unat index" and "v \<noteq> 0"
  shows "array_set True arr index v = Wild"
  by (rule array_set_huge [OF assms])

theorem array_set_overflow_witness:
  "array_set True empty_array 0x20000000 77 = Wild"
  by (rule array_set_overflow) (simp_all add: empty_array_def)

end
