(* ===== verification/FdTable.thy ===== *)
theory FdTable
  imports Ustar KArray
begin

text \<open>
  \<open>vfs/filesyscall.c\<close> and \<open>vfs/readdir.c\<close>: the descriptor table of a task and the system calls on it.
  A table is two growing arrays, the files and the close-on-exec flags.  What the user-memory checks
  return is an argument, as is whether the arrays can grow (\<open>ok\<close>).  A result of \<open>None\<close> is a fault, an
  access outside an array or a loop that does not end.
\<close>

section \<open>The state of a task's files\<close>

record fdst =
  fd_fs :: fsys
  fd_files :: karray
  fd_cloexec :: karray
  fd_cwd :: ptr

fun out :: "'a outcome \<Rightarrow> 'a option" where
  "out (Done x) = Some x"
| "out _ = None"

definition fd_get :: "u32 \<Rightarrow> fdst \<Rightarrow> ptr option" where
  "fd_get fd st = out (array_get (fd_files st) fd)"

definition fd_set :: "bool \<Rightarrow> u32 \<Rightarrow> ptr \<Rightarrow> fdst \<Rightarrow> (int \<times> fdst) option" where
  "fd_set ok fd f st = do {
     (res, arr) \<leftarrow> out (array_set ok (fd_files st) fd f);
     Some (res, st\<lparr>fd_files := arr\<rparr>) }"

definition cloexec_set :: "bool \<Rightarrow> u32 \<Rightarrow> ptr \<Rightarrow> fdst \<Rightarrow> fdst option" where
  "cloexec_set ok fd v st = do {
     (res, arr) \<leftarrow> out (array_set ok (fd_cloexec st) fd v);
     Some (st\<lparr>fd_cloexec := arr\<rparr>) }"

definition on_fs :: "(fsys \<Rightarrow> ('a \<times> fsys) option) \<Rightarrow> fdst \<Rightarrow> ('a \<times> fdst) option" where
  "on_fs f st = do { (x, s) \<leftarrow> f (fd_fs st); Some (x, st\<lparr>fd_fs := s\<rparr>) }"

text \<open>The loop that installs a file at the first free descriptor from \<open>fd\<close> on.\<close>

definition fd_install :: "bool \<Rightarrow> u32 \<Rightarrow> ptr \<Rightarrow> fdst \<Rightarrow> (u32 \<times> fdst) option" where
  "fd_install ok fd f st = do {
     r \<leftarrow> first_free array_get (array_set ok) (fd_files st) f fd;
     (n, arr) \<leftarrow> out r;
     Some (n, st\<lparr>fd_files := arr\<rparr>) }"

section \<open>Opening and closing\<close>

text \<open>
  \<open>do_sys_openat\<close>: \<open>len\<close> is the checked length of the user's path, \<open>dup\<close> whether the kernel copy could
  be made.  \<open>filp_openat\<close> gets the user's path, not the copy; \<open>openat\<close> stands for it.  The status is the
  descriptor or an error number.
\<close>

definition do_sys_openat ::
    "bool \<Rightarrow> (fsys \<Rightarrow> ((int + ptr) \<times> fsys) option) \<Rightarrow> u32 \<Rightarrow> bool \<Rightarrow> u32 \<Rightarrow> fdst \<Rightarrow> (int \<times> fdst) option" where
  "do_sys_openat ok openat len dup flags st =
     (if len = 0 then Some (- EFAULT, st)
      else if \<not> dup then Some (- ENOMEM, st)
      else do {
        (r, st1) \<leftarrow> on_fs openat st;
        (case r of
          Inl e \<Rightarrow> Some (e, st1)
        | Inr f \<Rightarrow> do {
            (fd, st2) \<leftarrow> fd_install ok 0 f st1;
            st3 \<leftarrow> cloexec_set ok fd (flags AND O_CLOEXEC) st2;
            Some (s32 fd, st3) }) })"

definition do_sys_close :: "bool \<Rightarrow> u32 \<Rightarrow> fdst \<Rightarrow> (int \<times> fdst) option" where
  "do_sys_close ok fd st = do {
     f \<leftarrow> fd_get fd st;
     if f = 0 then Some (- EBADF, st)
     else do {
       (res, st1) \<leftarrow> on_fs (filp_close f) st;
       if res < 0 then Some (res, st1)
       else do {
         (res, st2) \<leftarrow> fd_set ok fd 0 st1;
         if res < 0 then Some (res, st2)
         else do { st3 \<leftarrow> cloexec_set ok fd 0 st2; Some (0, st3) } } } }"

text \<open>The ECE391 variants: at most eight descriptors, and the first two cannot be closed.\<close>

definition ece391_open ::
    "bool \<Rightarrow> (fsys \<Rightarrow> ((int + ptr) \<times> fsys) option) \<Rightarrow> u32 \<Rightarrow> bool \<Rightarrow> fdst \<Rightarrow> (int \<times> fdst) option" where
  "ece391_open ok openat len dup st = do {
     (fd, st1) \<leftarrow> do_sys_openat ok openat len dup (O_RDWR OR O_CLOEXEC) st;
     if fd < 8 then Some (fd, st1)
     else do { (_, st2) \<leftarrow> do_sys_close ok (of_s32 fd) st1; Some (- ENFILE, st2) } }"

definition ece391_close :: "bool \<Rightarrow> u32 \<Rightarrow> fdst \<Rightarrow> (int \<times> fdst) option" where
  "ece391_close ok fd st = (if fd = 0 \<or> fd = 1 then Some (- EIO, st) else do_sys_close ok fd st)"

section \<open>Duplicating\<close>

definition on_file :: "(fsys \<Rightarrow> fsys option) \<Rightarrow> fdst \<Rightarrow> fdst option" where
  "on_file f st = do { s \<leftarrow> f (fd_fs st); Some (st\<lparr>fd_fs := s\<rparr>) }"

definition sys_dup2 :: "bool \<Rightarrow> u32 \<Rightarrow> u32 \<Rightarrow> fdst \<Rightarrow> (int \<times> fdst) option" where
  "sys_dup2 ok oldfd newfd st = do {
     f \<leftarrow> fd_get oldfd st;
     if f = 0 then Some (- EBADF, st)
     else do {
       g \<leftarrow> fd_get newfd st;
       (_, st1) \<leftarrow> (if g = 0 then Some (0, st) else on_fs (filp_close g) st);
       (_, st2) \<leftarrow> fd_set ok newfd f st1;
       st3 \<leftarrow> on_file (get_file f) st2;
       c \<leftarrow> out (array_get (fd_cloexec st3) oldfd);
       st4 \<leftarrow> cloexec_set ok newfd c st3;
       Some (s32 newfd, st4) } }"

text \<open>\<open>F_DUPFD\<close> is \<open>0\<close>, \<open>F_GETFD\<close> \<open>1\<close>, \<open>F_SETFD\<close> \<open>2\<close> and \<open>F_DUPFD_CLOEXEC\<close> \<open>1030\<close>.\<close>

definition sys_fcntl64 :: "bool \<Rightarrow> u32 \<Rightarrow> u32 \<Rightarrow> u32 \<Rightarrow> fdst \<Rightarrow> (int \<times> fdst) option" where
  "sys_fcntl64 ok fd request arg st = do {
     f \<leftarrow> fd_get fd st;
     if f = 0 then Some (- EBADF, st)
     else if request = 0 \<or> request = 1030 then do {
       (n, st1) \<leftarrow> fd_install ok arg f st;
       st2 \<leftarrow> on_file (get_file f) st1;
       c \<leftarrow> (if request = 0 then out (array_get (fd_cloexec st2) fd) else Some 1);
       st3 \<leftarrow> cloexec_set ok n c st2;
       Some (s32 n, st3) }
     else if request = 1 then do {
       c \<leftarrow> out (array_get (fd_cloexec st) fd);
       Some (if c \<noteq> 0 then 1 else 0, st) }
     else if request = 2 then do {
       st1 \<leftarrow> cloexec_set ok fd (arg AND 1) st;
       Some (0, st1) }
     else Some (- EINVAL, st) }"

section \<open>Transfers\<close>

text \<open>
  \<open>do_sys_read\<close> and \<open>do_sys_write\<close> share their checks: the descriptor, then the buffer, of which \<open>safe\<close>
  bytes are accessible; the request is passed on uncut.  \<open>filp\<close> is \<open>filp_read\<close> or \<open>filp_write\<close>.
\<close>

definition do_sys_transfer ::
    "(ptr \<Rightarrow> u32 \<Rightarrow> fdst \<Rightarrow> (int \<times> fdst) option) \<Rightarrow> u32 \<Rightarrow> u32 \<Rightarrow> u32 \<Rightarrow> fdst \<Rightarrow> (int \<times> fdst) option" where
  "do_sys_transfer filp safe fd nbytes st = do {
     f \<leftarrow> fd_get fd st;
     if f = 0 then Some (- EBADF, st)
     else if safe = 0 \<and> nbytes \<noteq> 0 then Some (- EFAULT, st)
     else filp f nbytes st }"

text \<open>
  The loop of \<open>do_iov\<close> over the vectors (base and length): a failure counts only for the first one.
  \<open>cb\<close> is \<open>do_sys_read\<close> or \<open>do_sys_write\<close> on the descriptor; \<open>first\<close> is \<open>i = 0\<close>.
\<close>

fun iov_loop ::
    "(ptr \<Rightarrow> u32 \<Rightarrow> 's \<Rightarrow> (int \<times> 's) option) \<Rightarrow> bool \<Rightarrow> (ptr \<times> u32) list \<Rightarrow> int \<Rightarrow> 's \<Rightarrow> (int \<times> 's) option" where
  "iov_loop cb first [] ret st = Some (ret, st)"
| "iov_loop cb first ((base, len) # iov) ret st = do {
     (res, st1) \<leftarrow> cb base len st;
     if res < 0 then Some (if first then res else ret, st1)
     else iov_loop cb False iov (ret + res) st1 }"

definition do_iov ::
    "(ptr \<Rightarrow> u32 \<Rightarrow> 's \<Rightarrow> (int \<times> 's) option) \<Rightarrow> u32 \<Rightarrow> (ptr \<times> u32) list \<Rightarrow> 's \<Rightarrow> (int \<times> 's) option" where
  "do_iov cb safe iov st =
     (if safe = 0 \<and> iov \<noteq> [] then Some (- EFAULT, st) else iov_loop cb True iov 0 st)"

text \<open>\<open>_llseek\<close> ignores the high word; the second component is what is stored through \<open>result\<close>.\<close>

definition sys_llseek ::
    "(ptr \<Rightarrow> u32 \<Rightarrow> int \<Rightarrow> fdst \<Rightarrow> (int \<times> fdst) option) \<Rightarrow> u32 \<Rightarrow> u32 \<Rightarrow> u32 \<Rightarrow> u32 \<Rightarrow> int \<Rightarrow> fdst
       \<Rightarrow> (int \<times> u32 option \<times> fdst) option" where
  "sys_llseek seek safe fd offset_high offset_low whence st = do {
     f \<leftarrow> fd_get fd st;
     if f = 0 then Some (- EBADF, None, st)
     else if safe \<noteq> 4 then Some (- EFAULT, None, st)
     else do {
       (res, st1) \<leftarrow> seek f offset_low whence st;
       if res < 0 then Some (res, None, st1) else Some (0, Some (of_s32 res), st1) } }"

definition sys_ioctl ::
    "(ptr \<Rightarrow> u32 \<Rightarrow> u32 \<Rightarrow> fdst \<Rightarrow> (int \<times> fdst) option) \<Rightarrow> u32 \<Rightarrow> u32 \<Rightarrow> u32 \<Rightarrow> fdst \<Rightarrow> (int \<times> fdst) option" where
  "sys_ioctl ioctl fd request arg st = do {
     f \<leftarrow> fd_get fd st;
     if f = 0 then Some (- EBADF, st) else ioctl f request arg st }"

text \<open>\<open>open\<close> stands for \<open>inode_open\<close> with \<open>O_NOFOLLOW\<close> and no \<open>path_out\<close>.\<close>

definition sys_readlink ::
    "(fsys \<Rightarrow> ((int + ptr \<times> kpath) \<times> fsys) option) \<Rightarrow> readlink_op \<Rightarrow> u32 \<Rightarrow> u32 \<Rightarrow> fdst
       \<Rightarrow> (int \<times> name \<times> fdst) option" where
  "sys_readlink opn readlink safe nbytes st =
     (if safe = 0 \<and> nbytes \<noteq> 0 then Some (- EFAULT, [], st)
      else do {
        (r, st1) \<leftarrow> on_fs opn st;
        (case r of
          Inl e \<Rightarrow> Some (e, [], st1)
        | Inr (i, _) \<Rightarrow> do {
            (n, target) \<leftarrow> readlink i (unat safe) (fd_fs st1);
            st2 \<leftarrow> on_file (put_inode i) st1;
            Some (n, target, st2) }) })"

definition sys_getcwd :: "u32 \<Rightarrow> fdst \<Rightarrow> (int \<times> name \<times> fdst) option" where
  "sys_getcwd nbytes st = do {
     fl \<leftarrow> fs_files (fd_fs st) (fd_cwd st);
     ((k, bs), st1) \<leftarrow> on_fs (on_vfs (path_tostring (f_path fl) nbytes)) st;
     Some (k, bs, st1) }"

section \<open>Attributes\<close>

record stat64 =
  st_dev :: u32
  st_ino :: u32
  st_mode :: u32
  st_nlink :: u32
  st_uid :: u32
  st_gid :: u32
  st_rdev :: u32
  st_size :: u32
  st_time :: u32
  st_blksize :: u32
  st_blocks :: u32

text \<open>\<open>dev\<close> is the device number of the superblock's device, \<open>0\<close> if it has none; \<open>96\<close> is the size of the structure.\<close>

definition do_stat :: "u32 \<Rightarrow> inode \<Rightarrow> u32 \<Rightarrow> int \<times> stat64 option" where
  "do_stat dev ino nbytes =
     (if nbytes \<noteq> 96 then (- EFAULT, None)
      else (0, Some \<lparr>st_dev = dev, st_ino = i_ino ino, st_mode = ucast (i_mode ino),
        st_nlink = i_nlink ino, st_uid = i_uid ino, st_gid = i_gid ino, st_rdev = i_rdev ino,
        st_size = i_size ino, st_time = i_time ino, st_blksize = 512,
        st_blocks = (if i_size ino \<noteq> 0 then (i_size ino - 1) div 512 + 1 else 0)\<rparr>))"

text \<open>
  \<open>stat64\<close> and \<open>lstat64\<close>, which differ in the flags of the opening that \<open>opn\<close> stands for.  On an error
  of the opening \<open>path_kern\<close> is not freed.
\<close>

definition sys_stat64 ::
    "(fsys \<Rightarrow> ((int + ptr \<times> kpath) \<times> fsys) option) \<Rightarrow> u32 \<Rightarrow> u32 \<Rightarrow> bool \<Rightarrow> u32 \<Rightarrow> fdst
       \<Rightarrow> (int \<times> stat64 option \<times> fdst) option" where
  "sys_stat64 opn dev len dup nbytes st =
     (if len = 0 then Some (- EFAULT, None, st)
      else if \<not> dup then Some (- ENOMEM, None, st)
      else do {
        (r, st1) \<leftarrow> on_fs opn st;
        (case r of
          Inl e \<Rightarrow> Some (e, None, st1)
        | Inr (i, _) \<Rightarrow> do {
            ino \<leftarrow> fs_inodes (fd_fs st1) i;
            let (res, out) = do_stat dev ino nbytes;
            st2 \<leftarrow> on_file (put_inode i) st1;
            Some (res, out, st2) }) })"

definition sys_fstat64 :: "u32 \<Rightarrow> u32 \<Rightarrow> u32 \<Rightarrow> fdst \<Rightarrow> (int \<times> stat64 option) option" where
  "sys_fstat64 dev fd nbytes st = do {
     f \<leftarrow> fd_get fd st;
     if f = 0 then Some (- EBADF, None)
     else do {
       fl \<leftarrow> fs_files (fd_fs st) f;
       ino \<leftarrow> fs_inodes (fd_fs st) (f_inode fl);
       Some (do_stat dev ino nbytes) } }"

section \<open>Directories\<close>

text \<open>
  The buffer of \<open>getdents64\<close>: entries written so far, room left and the result.  \<open>20\<close> is the size of
  \<open>struct linux_dirent64_head\<close>.
\<close>

record dirent =
  d_ino :: u32
  d_off :: u32
  d_reclen :: u16
  d_type :: u8
  d_name :: name

record getdents64_data =
  gd_out :: "dirent list"
  gd_nbytes :: u32
  gd_res :: int

definition getdents64_cb :: "getdents64_data filldir" where
  "getdents64_cb d nm namelen offset ino ty =
     (let len = 20 + namelen + 1 in
      if len > gd_nbytes d then (- EINVAL, if gd_res d = 0 then d\<lparr>gd_res := - EINVAL\<rparr> else d)
      else (0, d\<lparr>
        gd_out := gd_out d @ [\<lparr>d_ino = ino, d_off = offset, d_reclen = ucast len, d_type = ucast ty,
          d_name = take (unat namelen) nm\<rparr>],
        gd_nbytes := gd_nbytes d - len,
        gd_res := gd_res d + s32 len\<rparr>))"

text \<open>\<open>readdir\<close> is \<open>filp_readdir\<close> with the callback.\<close>

definition sys_getdents64 ::
    "(ptr \<Rightarrow> getdents64_data \<Rightarrow> fdst \<Rightarrow> (int \<times> getdents64_data \<times> fdst) option) \<Rightarrow> u32 \<Rightarrow> u32 \<Rightarrow> u32 \<Rightarrow> fdst
       \<Rightarrow> (int \<times> dirent list \<times> fdst) option" where
  "sys_getdents64 readdir safe fd nbytes st = do {
     f \<leftarrow> fd_get fd st;
     if f = 0 then Some (- EBADF, [], st)
     else if nbytes \<noteq> 0 \<and> safe = 0 then Some (- EFAULT, [], st)
     else do {
       (res, d, st1) \<leftarrow> readdir f \<lparr>gd_out = [], gd_nbytes = safe, gd_res = 0\<rparr> st;
       Some (if res < 0 then res else gd_res d, gd_out d, st1) } }"

record dir_read_data =
  dr_buf :: name
  dr_nbytes :: u32
  dr_res :: int

definition compat_ece391_dir_read_cb :: "dir_read_data filldir" where
  "compat_ece391_dir_read_cb d nm namelen offset ino ty =
     (let n = (if namelen > dr_nbytes d then dr_nbytes d else namelen) in
      (1, d\<lparr>dr_buf := take (unat n) nm, dr_res := s32 n\<rparr>))"

definition compat_ece391_dir_read ::
    "(dir_read_data \<Rightarrow> int \<times> dir_read_data) \<Rightarrow> u32 \<Rightarrow> int \<times> name" where
  "compat_ece391_dir_read readdir nbytes =
     (let (res, d) = readdir \<lparr>dr_buf = [], dr_nbytes = nbytes, dr_res = 0\<rparr> in
      if res < 0 then (res, dr_buf d) else (dr_res d, dr_buf d))"

section \<open>Working directory and access checks\<close>

definition sys_chdir ::
    "(fsys \<Rightarrow> ((int + ptr) \<times> fsys) option) \<Rightarrow> u32 \<Rightarrow> bool \<Rightarrow> fdst \<Rightarrow> (int \<times> fdst) option" where
  "sys_chdir openat len dup st =
     (if len = 0 then Some (- EFAULT, st)
      else if \<not> dup then Some (- ENOMEM, st)
      else do {
        (r, st1) \<leftarrow> on_fs openat st;
        (case r of
          Inl e \<Rightarrow> Some (e, st1)
        | Inr f \<Rightarrow> do {
            (_, st2) \<leftarrow> on_fs (filp_close (fd_cwd st1)) st1;
            Some (0, st2\<lparr>fd_cwd := f\<rparr>) }) })"

definition do_sys_faccessat ::
    "(fsys \<Rightarrow> ((int + ptr) \<times> fsys) option) \<Rightarrow> u32 \<Rightarrow> bool \<Rightarrow> fdst \<Rightarrow> (int \<times> fdst) option" where
  "do_sys_faccessat openat len dup st =
     (if len = 0 then Some (- EFAULT, st)
      else if \<not> dup then Some (- ENOMEM, st)
      else do {
        (r, st1) \<leftarrow> on_fs openat st;
        (case r of
          Inl e \<Rightarrow> Some (e, st1)
        | Inr f \<Rightarrow> do { (_, st2) \<leftarrow> on_fs (filp_close f) st1; Some (0, st2) }) })"

section \<open>Descriptors and reference counts\<close>

text \<open>
  The tables are well formed, and every file's count is the number of descriptors that hold it plus
  what others hold (\<open>ext\<close>: working directories, polls in progress, tables of other tasks).
\<close>

definition fd_slot :: "fdst \<Rightarrow> u32 \<Rightarrow> ptr" where
  "fd_slot st = array_abs (fd_files st)"

definition fd_tables :: "fdst \<Rightarrow> bool" where
  "fd_tables st \<longleftrightarrow> wf_array (fd_files st) \<and> wf_array (fd_cloexec st)"

definition holders :: "(u32 \<Rightarrow> ptr) \<Rightarrow> ptr \<Rightarrow> int" where
  "holders slots f = int (card {fd. slots fd = f})"

definition file_refs :: "fsys \<Rightarrow> ptr \<Rightarrow> int" where
  "file_refs s f = (case fs_files s f of None \<Rightarrow> 0 | Some fl \<Rightarrow> f_refcount fl)"

definition fd_inv :: "(ptr \<Rightarrow> int) \<Rightarrow> fdst \<Rightarrow> bool" where
  "fd_inv ext st \<longleftrightarrow> fd_tables st \<and> (\<forall>f. f \<noteq> 0 \<longrightarrow>
     0 \<le> ext f \<and> file_refs (fd_fs st) f = holders (fd_slot st) f + ext f \<and>
     (fs_files (fd_fs st) f = None \<longrightarrow> file_refs (fd_fs st) f = 0))"

lemma holders_upd:
  fixes slots :: "u32 \<Rightarrow> ptr"
  shows "holders (slots(fd := g)) f =
    holders slots f - (if slots fd = f then 1 else 0) + (if g = f then 1 else 0)"
proof -
  let ?S = "{x. slots x = f} - {fd}"
  have fin: "finite {x. slots x = f}" by simp
  have upd: "{x. (slots(fd := g)) x = f} = (if g = f then insert fd ?S else ?S)" by auto
  have "card {x. slots x = f} = card ?S + (if slots fd = f then 1 else 0)"
  proof (cases "slots fd = f")
    case True
    then have "0 < card {x. slots x = f}" using fin by (auto simp: card_gt_0_iff)
    then show ?thesis using True card_Diff_singleton [of fd "{x. slots x = f}"] by simp
  qed simp
  moreover have "card {x. (slots(fd := g)) x = f} = card ?S + (if g = f then 1 else 0)"
    unfolding upd using card_insert_disjoint [of ?S fd] by simp
  ultimately show ?thesis by (simp add: holders_def)
qed

lemma holders_nonneg: "0 \<le> holders slots f"
  by (simp add: holders_def)

lemma holders_pos: "slots fd = f \<Longrightarrow> 0 < holders (slots :: u32 \<Rightarrow> ptr) f"
  by (auto simp: holders_def card_gt_0_iff)

lemma fd_get_slot: "fd_tables st \<Longrightarrow> fd_get fd st = Some (fd_slot st fd)"
  by (simp add: fd_get_def fd_tables_def fd_slot_def array_get_abs)

lemma fd_set_slot:
  assumes "fd_tables st" and "unat fd < 2 ^ 29"
  obtains st' where "fd_set True fd f st = Some (0, st')" and "fd_tables st'"
    and "fd_slot st' = (fd_slot st)(fd := f)" and "fd_fs st' = fd_fs st"
    and "fd_cloexec st' = fd_cloexec st" and "fd_cwd st' = fd_cwd st"
proof -
  from assms arr.set_law [of "fd_files st" fd f] obtain arr where
    "array_set True (fd_files st) fd f = Done (0, arr)" "wf_array arr"
    "array_abs arr = (array_abs (fd_files st))(fd := f)" by (auto simp: fd_tables_def)
  then show thesis
    using assms that [of "st\<lparr>fd_files := arr\<rparr>"] by (simp add: fd_set_def fd_tables_def fd_slot_def)
qed

lemma cloexec_set_slot:
  assumes "fd_tables st" and "unat fd < 2 ^ 29"
  obtains st' where "cloexec_set True fd v st = Some st'" and "fd_tables st'"
    and "fd_slot st' = fd_slot st" and "fd_fs st' = fd_fs st"
    and "array_abs (fd_cloexec st') = (array_abs (fd_cloexec st))(fd := v)"
proof -
  from assms arr.set_law [of "fd_cloexec st" fd v] obtain arr where
    "array_set True (fd_cloexec st) fd v = Done (0, arr)" "wf_array arr"
    "array_abs arr = (array_abs (fd_cloexec st))(fd := v)" by (auto simp: fd_tables_def)
  then show thesis
    using assms that [of "st\<lparr>fd_cloexec := arr\<rparr>"]
    by (simp add: cloexec_set_def fd_tables_def fd_slot_def)
qed

text \<open>Dropping and taking a reference.\<close>

lemma filp_close_refs:
  "filp_close f s = Some (res, s') \<Longrightarrow> res = 0 \<and> file_refs s' = (file_refs s)(f := file_refs s f - 1)
    \<and> (\<forall>g. g \<noteq> f \<longrightarrow> fs_files s' g = fs_files s g)
    \<and> (fs_files s' f = None \<longrightarrow> file_refs s' f = 0)"
proof -
  assume c: "filp_close f s = Some (res, s')"
  then obtain fl where fl: "fs_files s f = Some fl" by (auto simp: filp_close_def bind_eq_Some_conv)
  have d: "destroy p t = Some t' \<Longrightarrow> fs_files t' = fs_files t" for p t t'
    by (auto simp: destroy_def bind_eq_Some_conv)
  have i: "put_inode i t = Some t' \<Longrightarrow> fs_files t' = fs_files t" for i t t'
    by (auto simp: put_inode_def bind_eq_Some_conv Let_def split: if_splits)
  show ?thesis
  proof (cases "f_refcount fl = 1")
    case False
    with c fl show ?thesis by (auto simp: filp_close_def Let_def file_refs_def fun_eq_iff)
  next
    case True
    with c fl show ?thesis
      by (auto simp: filp_close_def Let_def file_refs_def fun_eq_iff bind_eq_Some_conv dest!: d i)
  qed
qed

lemma get_file_refs:
  "get_file f s = Some s' \<Longrightarrow> file_refs s' = (file_refs s)(f := file_refs s f + 1)
    \<and> (\<forall>g. fs_files s' g = None \<longleftrightarrow> fs_files s g = None)"
  by (auto simp: get_file_def bind_eq_Some_conv file_refs_def fun_eq_iff split: if_splits)

text \<open>Freeing a slot with its reference, and filling one with a reference.\<close>

lemma fd_inv_tables: "fd_inv ext st \<Longrightarrow> fd_tables st"
  by (simp add: fd_inv_def)

lemma on_fs_simps:
  "on_fs g st = Some (x, st') \<Longrightarrow> fd_files st' = fd_files st \<and> fd_cloexec st' = fd_cloexec st
    \<and> fd_cwd st' = fd_cwd st \<and> g (fd_fs st) = Some (x, fd_fs st')"
  by (auto simp: on_fs_def bind_eq_Some_conv)

lemma on_file_simps:
  "on_file g st = Some st' \<Longrightarrow> fd_files st' = fd_files st \<and> fd_cloexec st' = fd_cloexec st
    \<and> fd_cwd st' = fd_cwd st \<and> g (fd_fs st) = Some (fd_fs st')"
  by (auto simp: on_file_def bind_eq_Some_conv)

lemma fd_inv_drop:
  assumes inv: "fd_inv ext st" and f: "fd_slot st fd = f" "f \<noteq> 0"
    and c: "filp_close f (fd_fs st) = Some (res, s')"
    and tab: "fd_tables st'" and fs: "fd_fs st' = s'" and slots: "fd_slot st' = (fd_slot st)(fd := 0)"
  shows "fd_inv ext st'"
proof -
  have r: "file_refs s' = (file_refs (fd_fs st))(f := file_refs (fd_fs st) f - 1)"
    "\<forall>g. g \<noteq> f \<longrightarrow> fs_files s' g = fs_files (fd_fs st) g" "fs_files s' f = None \<longrightarrow> file_refs s' f = 0"
    using filp_close_refs [OF c] by auto
  show ?thesis
    unfolding fd_inv_def
  proof (intro conjI allI impI)
    show "fd_tables st'" by (rule tab)
    fix g :: ptr
    assume g: "g \<noteq> 0"
    show "0 \<le> ext g" using inv g by (simp add: fd_inv_def)
    show "file_refs (fd_fs st') g = holders (fd_slot st') g + ext g"
      using inv g f r(1) unfolding fs slots holders_upd by (auto simp: fd_inv_def)
    show "fs_files (fd_fs st') g = None \<Longrightarrow> file_refs (fd_fs st') g = 0"
      by (simp add: file_refs_def)
  qed
qed

lemma do_sys_close_inv:
  assumes inv: "fd_inv ext st" and lim: "unat fd < 2 ^ 29"
    and run: "do_sys_close True fd st = Some (res, st')"
  shows "if fd_slot st fd = 0 then res = - EBADF \<and> st' = st
    else res = 0 \<and> fd_slot st' = (fd_slot st)(fd := 0) \<and> fd_inv ext st'"
proof (cases "fd_slot st fd = 0")
  case True
  with run fd_get_slot [OF fd_inv_tables [OF inv]] show ?thesis by (auto simp: do_sys_close_def)
next
  case False
  let ?f = "fd_slot st fd"
  from run False fd_get_slot [OF fd_inv_tables [OF inv]] obtain r1 st1 where
    c: "on_fs (filp_close ?f) st = Some (r1, st1)" by (auto simp: do_sys_close_def bind_eq_Some_conv)
  note c1 = on_fs_simps [OF c]
  have r1: "r1 = 0" using filp_close_refs c1 by blast
  have tab1: "fd_tables st1" and slot1: "fd_slot st1 = fd_slot st"
    using fd_inv_tables [OF inv] c1 by (simp_all add: fd_tables_def fd_slot_def)
  obtain st2 where st2: "fd_set True fd 0 st1 = Some (0, st2)" "fd_tables st2"
    "fd_slot st2 = (fd_slot st1)(fd := 0)" "fd_fs st2 = fd_fs st1"
    using fd_set_slot [OF tab1 lim] by metis
  obtain st3 where st3: "cloexec_set True fd 0 st2 = Some st3" "fd_tables st3"
    "fd_slot st3 = fd_slot st2" "fd_fs st3 = fd_fs st2"
    using cloexec_set_slot [OF st2(2) lim] by metis
  have res: "res = 0" "st' = st3"
    using run False fd_get_slot [OF fd_inv_tables [OF inv]] c r1 st2(1) st3(1)
    by (auto simp: do_sys_close_def)
  have "fd_inv ext st3"
    using c1 st2 st3 slot1 by (intro fd_inv_drop [OF inv refl False]) auto
  with res st3 st2 slot1 False show ?thesis by simp
qed

lemma fd_inv_take:
  assumes inv: "\<And>g. g \<noteq> 0 \<Longrightarrow> 0 \<le> ext g \<and> file_refs s g = holders slots g + ext g"
    and f: "f \<noteq> 0" and free: "slots fd = 0"
    and fs: "file_refs (fd_fs st') = (file_refs s)(f := file_refs s f + 1)"
    and tab: "fd_tables st'" and new: "fd_slot st' = slots(fd := f)"
  shows "fd_inv ext st'"
  unfolding fd_inv_def
proof (intro conjI allI impI)
  show "fd_tables st'" by (rule tab)
  fix g :: ptr
  assume g: "g \<noteq> 0"
  show "0 \<le> ext g" using inv [OF g] by simp
  show "file_refs (fd_fs st') g = holders (fd_slot st') g + ext g"
    using inv [OF g] f free g unfolding fs new holders_upd by auto
  show "fs_files (fd_fs st') g = None \<Longrightarrow> file_refs (fd_fs st') g = 0"
    by (simp add: file_refs_def)
qed

text \<open>Installing at the least free descriptor.\<close>

lemma fd_install_slot:
  assumes tab: "fd_tables st" and free: "fd_slot st (word_of_nat k) = 0" and k: "k < 2 ^ 29"
    and used: "\<And>j. unat fd \<le> j \<Longrightarrow> j < k \<Longrightarrow> fd_slot st (word_of_nat j) \<noteq> 0" and le: "unat fd \<le> k"
  obtains st' where "fd_install True fd f st = Some (word_of_nat k, st')" and "fd_tables st'"
    and "fd_slot st' = (fd_slot st)(word_of_nat k := f)" and "fd_fs st' = fd_fs st"
    and "fd_cloexec st' = fd_cloexec st"
proof -
  from tab have "wf_array (fd_files st)" by (simp add: fd_tables_def)
  from arr.first_free_least [OF this, of k fd f] free k used le obtain arr where
    "first_free array_get (array_set True) (fd_files st) f fd = Some (Done (word_of_nat k, arr))"
    "wf_array arr" "array_abs arr = (array_abs (fd_files st))(word_of_nat k := f)"
    by (auto simp: fd_slot_def)
  then show thesis
    using that [of "st\<lparr>fd_files := arr\<rparr>"] tab by (simp add: fd_install_def fd_tables_def fd_slot_def)
qed

lemma sys_dup2_inv:
  assumes inv: "fd_inv ext st" and lim: "unat newfd < 2 ^ 29" and ne: "oldfd \<noteq> newfd"
    and run: "sys_dup2 True oldfd newfd st = Some (res, st')"
  shows "if fd_slot st oldfd = 0 then res = - EBADF \<and> st' = st
    else res = s32 newfd \<and> fd_slot st' = (fd_slot st)(newfd := fd_slot st oldfd) \<and> fd_inv ext st'"
proof (cases "fd_slot st oldfd = 0")
  case True
  with run fd_get_slot [OF fd_inv_tables [OF inv]] show ?thesis by (auto simp: sys_dup2_def)
next
  case False
  let ?f = "fd_slot st oldfd" and ?g = "fd_slot st newfd"
  note get = fd_get_slot [OF fd_inv_tables [OF inv]]
  from run False get obtain r1 st1 where
    c: "(if ?g = 0 then Some (0, st) else on_fs (filp_close ?g) st) = Some (r1, st1)"
    by (auto simp: sys_dup2_def bind_eq_Some_conv)
  have st1: "fd_files st1 = fd_files st" "fd_cloexec st1 = fd_cloexec st"
    "?g \<noteq> 0 \<Longrightarrow> file_refs (fd_fs st1) = (file_refs (fd_fs st))(?g := file_refs (fd_fs st) ?g - 1)"
    "?g = 0 \<Longrightarrow> fd_fs st1 = fd_fs st"
    using c on_fs_simps [of "filp_close ?g" st r1 st1] filp_close_refs by (auto split: if_splits)
  have tab1: "fd_tables st1" and slot1: "fd_slot st1 = fd_slot st"
    using fd_inv_tables [OF inv] st1 by (simp_all add: fd_tables_def fd_slot_def)
  obtain st2 where st2: "fd_set True newfd ?f st1 = Some (0, st2)" "fd_tables st2"
    "fd_slot st2 = (fd_slot st1)(newfd := ?f)" "fd_fs st2 = fd_fs st1" "fd_cloexec st2 = fd_cloexec st1"
    using fd_set_slot [OF tab1 lim] by metis
  from run False get c st2(1) obtain st3 where st3: "on_file (get_file ?f) st2 = Some st3"
    by (auto simp: sys_dup2_def bind_eq_Some_conv)
  note o3 = on_file_simps [OF st3]
  have tab3: "fd_tables st3" and slot3: "fd_slot st3 = fd_slot st2"
    using st2(2) o3 by (simp_all add: fd_tables_def fd_slot_def)
  from tab3 have "array_get (fd_cloexec st3) oldfd = Done (array_abs (fd_cloexec st3) oldfd)"
    by (simp add: fd_tables_def array_get_abs)
  then obtain v where v: "out (array_get (fd_cloexec st3) oldfd) = Some v" by simp
  obtain st4 where st4: "cloexec_set True newfd v st3 = Some st4" "fd_tables st4"
    "fd_slot st4 = fd_slot st3" "fd_fs st4 = fd_fs st3"
    using cloexec_set_slot [OF tab3 lim] by metis
  have res: "res = s32 newfd" "st' = st4"
    using run False get c st2(1) st3 v st4(1) by (auto simp: sys_dup2_def)
  have slots: "fd_slot st4 = (fd_slot st)(newfd := ?f)"
    by (simp add: st4(3) slot3 st2(3) slot1)
  have refs: "file_refs (fd_fs st4) = (file_refs (fd_fs st1))(?f := file_refs (fd_fs st1) ?f + 1)"
    using get_file_refs [of ?f "fd_fs st2" "fd_fs st3"] o3 by (simp add: st4(4) st2(4))
  have "fd_inv ext st4"
    unfolding fd_inv_def
  proof (intro conjI allI impI)
    show "fd_tables st4" by (rule st4(2))
    fix h :: ptr
    assume h: "h \<noteq> 0"
    show "0 \<le> ext h" using inv h by (simp add: fd_inv_def)
    have old: "file_refs (fd_fs st) h = holders (fd_slot st) h + ext h"
      using inv h by (simp add: fd_inv_def)
    have "file_refs (fd_fs st1) h = file_refs (fd_fs st) h - (if ?g = h then 1 else 0)"
      using st1(3,4) h by (cases "?g = 0") auto
    then show "file_refs (fd_fs st4) h = holders (fd_slot st4) h + ext h"
      unfolding refs slots holders_upd using old by auto
    show "fs_files (fd_fs st4) h = None \<Longrightarrow> file_refs (fd_fs st4) h = 0"
      by (simp add: file_refs_def)
  qed
  with res slots False show ?thesis by simp
qed

lemma do_sys_openat_inv:
  assumes inv: "fd_inv ext st" and op: "opens_fresh openat"
    and run: "do_sys_openat True openat len dup flags st = Some (res, st')"
    and free: "fd_slot st (word_of_nat k) = 0" and k: "k < 2 ^ 29"
    and used: "\<forall>j < k. fd_slot st (word_of_nat j) \<noteq> 0"
  shows "if len = 0 then res = - EFAULT \<and> st' = st
    else if \<not> dup then res = - ENOMEM \<and> st' = st
    else \<exists>r. openat (fd_fs st) = Some (r, fd_fs st') \<and> fd_inv ext st' \<and>
      (case r of
        Inl e \<Rightarrow> res = e \<and> fd_files st' = fd_files st \<and> fd_cloexec st' = fd_cloexec st
      | Inr f \<Rightarrow> res = int k \<and> f \<noteq> 0 \<and> fs_files (fd_fs st) f = None \<and>
          fd_slot st' = (fd_slot st)(word_of_nat k := f) \<and>
          array_abs (fd_cloexec st') = (array_abs (fd_cloexec st))(word_of_nat k := flags AND O_CLOEXEC))"
proof (cases "len = 0 \<or> \<not> dup")
  case True
  with run show ?thesis by (auto simp: do_sys_openat_def split: if_splits)
next
  case False
  with run obtain r st1 where o: "on_fs openat st = Some (r, st1)"
    by (auto simp: do_sys_openat_def bind_eq_Some_conv)
  note o1 = on_fs_simps [OF o]
  have tab1: "fd_tables st1" and slot1: "fd_slot st1 = fd_slot st"
    using fd_inv_tables [OF inv] o1 by (simp_all add: fd_tables_def fd_slot_def)
  show ?thesis
  proof (cases r)
    case (Inl e)
    with run False o have st': "res = e" "st' = st1" by (auto simp: do_sys_openat_def)
    have "fs_files (fd_fs st1) = fs_files (fd_fs st)" using op o1 Inl unfolding opens_fresh_def by fastforce
    then have "file_refs (fd_fs st1) = file_refs (fd_fs st)" by (simp add: file_refs_def fun_eq_iff)
    then have "fd_inv ext st1"
      using inv tab1 unfolding fd_inv_def slot1 \<open>fs_files (fd_fs st1) = fs_files (fd_fs st)\<close> by metis
    then show ?thesis using st' o1 Inl False by auto
  next
    case (Inr f)
    with op o1 obtain fl where f: "f \<noteq> 0" "fs_files (fd_fs st) f = None" "f_refcount fl = 1"
      "fs_files (fd_fs st1) = (fs_files (fd_fs st))(f := Some fl)"
      unfolding opens_fresh_def by fastforce
    obtain st2 where st2: "fd_install True 0 f st1 = Some (word_of_nat k, st2)" "fd_tables st2"
      "fd_slot st2 = (fd_slot st1)(word_of_nat k := f)" "fd_fs st2 = fd_fs st1" "fd_cloexec st2 = fd_cloexec st1"
    proof (rule fd_install_slot [OF tab1, of k 0 f])
      show "fd_slot st1 (word_of_nat k) = 0" using free slot1 by simp
      show "fd_slot st1 (word_of_nat j) \<noteq> 0" if "j < k" for j using used slot1 that by simp
    qed (use k in simp_all)
    have "unat (word_of_nat k :: u32) = k" using k by (simp add: unat_of_nat take_bit_nat_eq_self)
    then have "unat (word_of_nat k :: u32) < 2 ^ 29" using k by (simp only:)
    then obtain st3 where st3: "cloexec_set True (word_of_nat k) (flags AND O_CLOEXEC) st2 = Some st3"
      "fd_tables st3" "fd_slot st3 = fd_slot st2" "fd_fs st3 = fd_fs st2"
      "array_abs (fd_cloexec st3) = (array_abs (fd_cloexec st2))(word_of_nat k := flags AND O_CLOEXEC)"
      using cloexec_set_slot [OF st2(2)] by metis
    have "sint (word_of_nat k :: u32) = int k"
    proof -
      have "sint (word_of_int (int k) :: u32) = int k"
        unfolding sint_sbintrunc' using k by (intro signed_take_bit_int_eq_self) simp_all
      then show ?thesis by simp
    qed
    then have res: "res = int k" "st' = st3"
      using run False o Inr st2(1) st3(1) by (auto simp: do_sys_openat_def s32_def)
    have "fd_inv ext st3"
    proof (rule fd_inv_take [where f = f and s = "fd_fs st" and slots = "fd_slot st" and fd = "word_of_nat k"])
      show "0 \<le> ext g \<and> file_refs (fd_fs st) g = holders (fd_slot st) g + ext g" if "g \<noteq> 0" for g
        using inv that by (simp add: fd_inv_def)
      show "file_refs (fd_fs st3) = (file_refs (fd_fs st))(f := file_refs (fd_fs st) f + 1)"
        using f by (simp add: st3(4) st2(4) file_refs_def fun_eq_iff)
      show "fd_tables st3" by (rule st3(2))
      show "fd_slot st3 = (fd_slot st)(word_of_nat k := f)" by (simp only: st3(3) st2(3) slot1)
    qed (rule f(1), rule free)
    moreover have "fd_slot st3 = (fd_slot st)(word_of_nat k := f)"
      by (simp only: st3(3) st2(3) slot1)
    moreover have "openat (fd_fs st) = Some (Inr f, fd_fs st3)" using o1 Inr by (simp add: st3(4) st2(4))
    moreover have "array_abs (fd_cloexec st3) = (array_abs (fd_cloexec st))(word_of_nat k := flags AND O_CLOEXEC)"
      using o1 by (simp add: st3(5) st2(5))
    ultimately show ?thesis using res f(1,2) False by auto
  qed
qed

section \<open>Properties\<close>

text \<open>A task with one open file, at descriptor 0.\<close>

definition one_fd :: fdst where
  "one_fd = \<lparr>fd_fs = \<lparr>fs_vfs = empty_vfs, fs_vendor = Map.empty, fs_inodes = [32 \<mapsto> sample_inode],
       fs_files = [64 \<mapsto> sample_file], fs_calls = []\<rparr>,
     fd_files = \<lparr>arr_size = 2, arr_values = Some [64, 0]\<rparr>, fd_cloexec = empty_array, fd_cwd = 0\<rparr>"

lemma one_fd_slot: "fd_slot one_fd = (\<lambda>_. 0)(0 := 64)"
proof
  fix fd :: u32
  have "[64, 0 :: ptr] ! unat fd = 0" if "fd \<noteq> 0" "unat fd < 2"
  proof -
    have "0 < unat fd" using that(1) by (simp add: unat_gt_0)
    with that(2) have "unat fd = 1" by simp
    then show ?thesis by simp
  qed
  then show "fd_slot one_fd fd = ((\<lambda>_. 0)(0 := 64)) fd"
    by (auto simp: fd_slot_def one_fd_def array_abs_def)
qed

lemma one_fd_inv: "fd_inv (\<lambda>_. 0) one_fd"
proof -
  have "holders (\<lambda>_. 0) f = 0" if "f \<noteq> 0" for f using that by (simp add: holders_def)
  moreover have "fd_tables one_fd"
    by (simp add: fd_tables_def one_fd_def wf_empty_array) (simp add: wf_array_def)
  moreover have "fs_files (fd_fs one_fd) = [64 \<mapsto> sample_file]" "f_refcount sample_file = 1"
    by (simp_all add: one_fd_def sample_file_def)
  ultimately show ?thesis
    by (simp add: fd_inv_def one_fd_slot holders_upd file_refs_def)
qed

text \<open>C10: closing a descriptor.  A free descriptor is refused and nothing changes; otherwise the call
  succeeds, frees exactly that descriptor, and every file's reference count is again the number of
  descriptors and other holders it has.\<close>

theorem close_keeps_counts:
  assumes "fd_inv ext st" and "unat fd < 2 ^ 29" and "do_sys_close True fd st = Some (res, st')"
  shows "if fd_slot st fd = 0 then res = - EBADF \<and> st' = st
    else res = 0 \<and> fd_slot st' = (fd_slot st)(fd := 0) \<and> fd_inv ext st'"
  by (rule do_sys_close_inv [OF assms])

theorem close_keeps_counts_witness:
  "\<exists>st'. do_sys_close True 0 one_fd = Some (0, st') \<and> fd_slot st' = (\<lambda>_. 0) \<and> fd_inv (\<lambda>_. 0) st'"
proof -
  obtain res st' where run: "do_sys_close True 0 one_fd = Some (res, st')"
    by (simp add: do_sys_close_def one_fd_def fd_get_def array_get_def read_slot_def on_fs_def
        filp_close_def sample_file_def destroy_def path_destroy_def root_path_def put_inode_def
        sample_inode_def fd_set_def array_set_def write_slot_def cloexec_set_def empty_array_def)
  from close_keeps_counts [OF one_fd_inv _ this] run show ?thesis
    by (auto simp: one_fd_slot)
qed

text \<open>Duplicating onto another descriptor.  When it returns, the new descriptor holds the file of the
  old one, what it held before has lost one reference, no other descriptor changes, and the reference
  counts are again the numbers of holders.\<close>

theorem dup2_keeps_counts:
  assumes "fd_inv ext st" and "unat newfd < 2 ^ 29" and "oldfd \<noteq> newfd"
    and "sys_dup2 True oldfd newfd st = Some (res, st')"
  shows "if fd_slot st oldfd = 0 then res = - EBADF \<and> st' = st
    else res = s32 newfd \<and> fd_slot st' = (fd_slot st)(newfd := fd_slot st oldfd) \<and> fd_inv ext st'"
  by (rule sys_dup2_inv [OF assms])

theorem dup2_keeps_counts_witness:
  "\<exists>res st'. sys_dup2 True 0 1 one_fd = Some (res, st') \<and> fd_slot st' = (\<lambda>_. 0)(0 := 64, 1 := 64)
    \<and> fd_inv (\<lambda>_. 0) st'"
proof -
  note tab = fd_inv_tables [OF one_fd_inv]
  obtain st2 where st2: "fd_set True 1 64 one_fd = Some (0, st2)" "fd_tables st2" "fd_fs st2 = fd_fs one_fd"
    using fd_set_slot [OF tab, of 1 64] by auto
  obtain st3 where st3: "on_file (get_file 64) st2 = Some st3"
    by (simp add: on_file_def get_file_def st2(3) one_fd_def sample_file_def)
  have tab3: "fd_tables st3" using st2(2) on_file_simps [OF st3] by (simp add: fd_tables_def)
  obtain st4 where st4: "cloexec_set True 1 (array_abs (fd_cloexec st3) 0) st3 = Some st4"
    using cloexec_set_slot [OF tab3, of 1] by auto
  have run: "sys_dup2 True 0 1 one_fd = Some (s32 1, st4)"
    using tab3 by (simp add: sys_dup2_def fd_get_slot [OF tab] one_fd_slot st2(1) st3 st4 fd_tables_def array_get_abs)
  from dup2_keeps_counts [OF one_fd_inv _ _ this] run show ?thesis
    by (auto simp: one_fd_slot)
qed

text \<open>Duplicating a descriptor onto itself destroys its file.  If nobody else holds the file,
  \<open>dup2\<close> with two equal descriptors releases it before it takes the new reference, and then uses freed
  memory; POSIX asks it to do nothing.\<close>

theorem dup2_self_faults:
  assumes inv: "fd_inv ext st" and f: "fd_slot st fd \<noteq> 0" and alone: "ext (fd_slot st fd) = 0"
    and single: "\<forall>d. d \<noteq> fd \<longrightarrow> fd_slot st d \<noteq> fd_slot st fd"
  shows "sys_dup2 ok fd fd st = None"
proof (rule ccontr)
  assume "sys_dup2 ok fd fd st \<noteq> None"
  then obtain res st' where run: "sys_dup2 ok fd fd st = Some (res, st')" by auto
  let ?f = "fd_slot st fd"
  have "{d. fd_slot st d = ?f} = {fd}" using single by auto
  then have one: "file_refs (fd_fs st) ?f = 1"
    using inv f alone by (simp add: fd_inv_def holders_def)
  from run f fd_get_slot [OF fd_inv_tables [OF inv]] obtain r1 st1 r2 st2 st3 where
    steps: "on_fs (filp_close ?f) st = Some (r1, st1)" "fd_set ok fd ?f st1 = Some (r2, st2)"
      "on_file (get_file ?f) st2 = Some st3"
    by (auto simp: sys_dup2_def bind_eq_Some_conv)
  from on_fs_simps [OF steps(1)] have c: "filp_close ?f (fd_fs st) = Some (r1, fd_fs st1)" by simp
  then obtain fl where "fs_files (fd_fs st) ?f = Some fl" "f_refcount fl = 1"
    using one by (auto simp: filp_close_def bind_eq_Some_conv file_refs_def)
  with c obtain s where "fd_fs st1 = set_file ?f None s"
    by (auto simp: filp_close_def bind_eq_Some_conv dest: sym)
  then have "fs_files (fd_fs st1) ?f = None" by simp
  moreover have "fd_fs st2 = fd_fs st1" using steps(2) by (auto simp: fd_set_def bind_eq_Some_conv)
  ultimately show False using on_file_simps [OF steps(3)] by (auto simp: get_file_def)
qed

theorem dup2_self_faults_witness: "sys_dup2 True 0 0 one_fd = None"
  by (rule dup2_self_faults [OF one_fd_inv]) (simp_all add: one_fd_slot)

text \<open>C11: Opening uses the least free descriptor.  Over a tar file system, \<open>open\<close> with a path that can be read
  returns, when the file cannot be opened, that error, and leaves the tables as they were; otherwise the new file is
  installed at the least free descriptor and nowhere else, that number is returned, and the descriptor is closed at
  the next program if and only if this was asked for.  Either way the reference counts of the files equal the
  numbers of their holders.\<close>

theorem open_least_fd:
  assumes "fd_inv ext st" and "fd_slot st (word_of_nat k) = 0" and "k < 2 ^ 29"
    and "\<forall>j < k. fd_slot st (word_of_nat j) \<noteq> 0"
    and "do_sys_openat True (filp_openat (ustar_ino_lookup dev addr) default_ino_create
      ustar_ino_readlink reg dops open_op linux base path flags mode f) len dup flags st = Some (res, st')"
  shows "if len = 0 then res = - EFAULT \<and> st' = st
    else if \<not> dup then res = - ENOMEM \<and> st' = st
    else \<exists>r. filp_openat (ustar_ino_lookup dev addr) default_ino_create
        ustar_ino_readlink reg dops open_op linux base path flags mode f (fd_fs st) = Some (r, fd_fs st') \<and>
      fd_inv ext st' \<and>
      (case r of
        Inl e \<Rightarrow> res = e \<and> fd_files st' = fd_files st \<and> fd_cloexec st' = fd_cloexec st
      | Inr g \<Rightarrow> res = int k \<and> g \<noteq> 0 \<and> fs_files (fd_fs st) g = None \<and>
          fd_slot st' = (fd_slot st)(word_of_nat k := g) \<and>
          array_abs (fd_cloexec st') = (array_abs (fd_cloexec st))(word_of_nat k := flags AND O_CLOEXEC))"
  by (rule do_sys_openat_inv [OF assms(1) ustar.filp_openat_fresh assms(5,2-4)])

theorem open_least_fd_witness:
  "\<exists>st'. do_sys_openat True (filp_openat (ustar_ino_lookup (\<lambda>off. (-5, [])) (\<lambda>st. (64, 96)))
      default_ino_create ustar_ino_readlink [] 112 (\<lambda>_. 0) True None [47] 0 0 128) 2 True 0
      \<lparr>fd_fs = root_fs, fd_files = empty_array, fd_cloexec = empty_array, fd_cwd = 0\<rparr> = Some (0, st')
    \<and> fd_slot st' = (\<lambda>_. 0)(0 := 128) \<and> fd_inv (\<lambda>_. 0) st'"
proof -
  let ?st = "\<lparr>fd_fs = root_fs, fd_files = empty_array, fd_cloexec = empty_array, fd_cwd = 0\<rparr>"
  let ?open = "filp_openat (ustar_ino_lookup (\<lambda>off. (-5, [])) (\<lambda>st. (64, 96)))
      default_ino_create ustar_ino_readlink [] 112 (\<lambda>_. 0) True None [47] 0 0 128"
  have slot: "fd_slot ?st = (\<lambda>_. 0)" by (simp add: fd_slot_def)
  have tab: "fd_tables ?st" by (simp add: fd_tables_def wf_empty_array)
  have inv: "fd_inv (\<lambda>_. 0) ?st"
    using tab unfolding fd_inv_def slot by (simp add: holders_def file_refs_def root_fs_def)
  obtain s where o: "?open root_fs = Some (Inr 128, s)"
  proof -
    obtain q st' where "inode_open (ustar_ino_lookup (\<lambda>off. (-5, [])) (\<lambda>st. (64, 96)))
        default_ino_create ustar_ino_readlink None [47] 0 0 True root_fs = Some (q, st')"
      "q = Inr (32, \<lparr>p_absolute = False, p_mnt = 16, p_components = []\<rparr>)"
      "fs_inodes st' 32 = Some (sample_inode\<lparr>i_mode := 0x41ED, i_refcount := 2\<rparr>)"
      "v_answers (fs_vfs st') = []" "fs_files st' = Map.empty"
      using root_fs_open by blast
    then show thesis
      using that by (auto simp: filp_openat_def filp_open_inode_def file_type_def fs_kmalloc_def)
  qed
  then have of: "on_fs ?open ?st = Some (Inr 128, ?st\<lparr>fd_fs := s\<rparr>)" by (simp add: on_fs_def)
  obtain st2 where st2: "fd_install True 0 128 (?st\<lparr>fd_fs := s\<rparr>) = Some (word_of_nat 0, st2)" "fd_tables st2"
    by (rule fd_install_slot [of "?st\<lparr>fd_fs := s\<rparr>" 0 0 128]) (use tab in \<open>simp_all add: fd_tables_def fd_slot_def\<close>)
  obtain st3 where "cloexec_set True 0 0 st2 = Some st3" using cloexec_set_slot [OF st2(2), of 0 0] by auto
  with of st2(1) obtain res st' where run: "do_sys_openat True ?open 2 True 0 ?st = Some (res, st')"
    by (simp add: do_sys_openat_def)
  from open_least_fd [OF inv _ _ _ this, of 0] o have "res = 0" "fd_slot st' = (\<lambda>_. 0)(0 := 128)" "fd_inv (\<lambda>_. 0) st'"
    by (auto simp: slot)
  with run show ?thesis by auto
qed

end
