(* ===== verification/KList.thy ===== *)
theory KList
  imports Prelude "HOL-Library.Monad_Syntax" "HOL-Library.Multiset"
begin

text \<open>
  \<open>structure/list.c\<close> and \<open>structure/list.h\<close>: the doubly linked list with two sentinel nodes
  that every queue of the kernel is built on.  The operations are modelled on a heap of nodes,
  pointer by pointer; \<open>klist_rel\<close> relates a heap to the HOL list it represents, and one
  refinement lemma per operation says what the operation does to that list.  A result of \<open>None\<close>
  is an access through a dangling pointer or a loop that does not end.  \<open>kmalloc\<close> is an
  argument: the address it returned, with \<open>0\<close> for failure.
\<close>

section \<open>The data\<close>

record list_node =
  ln_value :: ptr
  ln_prev :: ptr
  ln_next :: ptr

type_synonym heap = "ptr \<Rightarrow> list_node option"

text \<open>A \<open>struct list\<close> holds its two sentinels; it is given by their addresses.\<close>

record klist =
  kl_first :: ptr
  kl_last :: ptr

definition mk_node :: "ptr \<Rightarrow> ptr \<Rightarrow> ptr \<Rightarrow> list_node" where
  "mk_node v p n = \<lparr>ln_value = v, ln_prev = p, ln_next = n\<rparr>"

lemma mk_node_sel [simp]:
  "ln_value (mk_node v p n) = v" "ln_prev (mk_node v p n) = p" "ln_next (mk_node v p n) = n"
  by (simp_all add: mk_node_def)

section \<open>The operations\<close>

text \<open>The two assignments through a node pointer, \<open>a->next = b\<close> and \<open>a->prev = b\<close>.\<close>

definition set_next :: "ptr \<Rightarrow> ptr \<Rightarrow> heap \<Rightarrow> heap option" where
  "set_next a b h = do { n \<leftarrow> h a; Some (h(a \<mapsto> n\<lparr>ln_next := b\<rparr>)) }"

definition set_prev :: "ptr \<Rightarrow> ptr \<Rightarrow> heap \<Rightarrow> heap option" where
  "set_prev a b h = do { n \<leftarrow> h a; Some (h(a \<mapsto> n\<lparr>ln_prev := b\<rparr>)) }"

definition list_init :: "klist \<Rightarrow> heap \<Rightarrow> heap" where
  "list_init l h = h(kl_first l \<mapsto> mk_node 0 0 (kl_last l), kl_last l \<mapsto> mk_node 0 (kl_first l) 0)"

text \<open>
  The tail all three insertions share: the new node is written, then its neighbours are linked
  to it, \<open>node->prev->next = node; node->next->prev = node\<close>.
\<close>

definition link_node :: "ptr \<Rightarrow> ptr \<Rightarrow> ptr \<Rightarrow> ptr \<Rightarrow> heap \<Rightarrow> heap option" where
  "link_node node v p n h = do {
     h1 \<leftarrow> set_next p node (h(node \<mapsto> mk_node v p n));
     set_prev n node h1 }"

definition list_insert_front :: "ptr \<Rightarrow> klist \<Rightarrow> ptr \<Rightarrow> heap \<Rightarrow> (int \<times> heap) option" where
  "list_insert_front node l v h =
     (if v = 0 then Some (- EINVAL, h)
      else if node = 0 then Some (- ENOMEM, h)
      else do {
        f \<leftarrow> h (kl_first l);
        h' \<leftarrow> link_node node v (kl_first l) (ln_next f) h;
        Some (0, h') })"

definition list_insert_back :: "ptr \<Rightarrow> klist \<Rightarrow> ptr \<Rightarrow> heap \<Rightarrow> (int \<times> heap) option" where
  "list_insert_back node l v h =
     (if v = 0 then Some (- EINVAL, h)
      else if node = 0 then Some (- ENOMEM, h)
      else do {
        t \<leftarrow> h (kl_last l);
        h' \<leftarrow> link_node node v (ln_prev t) (kl_last l) h;
        Some (0, h') })"

text \<open>
  The search of \<open>list_insert_ordered\<close>: it walks while the next node has a value that compares
  greater than the new one.
\<close>

partial_function (option) scan_ordered ::
    "(ptr \<Rightarrow> ptr \<Rightarrow> int) \<Rightarrow> ptr \<Rightarrow> heap \<Rightarrow> ptr \<Rightarrow> ptr option" where
  "scan_ordered compare v h p = do {
     pn \<leftarrow> h p;
     nn \<leftarrow> h (ln_next pn);
     if ln_value nn \<noteq> 0 \<and> compare (ln_value nn) v > 0
     then scan_ordered compare v h (ln_next pn)
     else Some p }"

definition list_insert_ordered ::
    "(ptr \<Rightarrow> ptr \<Rightarrow> int) \<Rightarrow> ptr \<Rightarrow> klist \<Rightarrow> ptr \<Rightarrow> heap \<Rightarrow> (int \<times> heap) option" where
  "list_insert_ordered compare node l v h =
     (if v = 0 then Some (- EINVAL, h)
      else if node = 0 then Some (- ENOMEM, h)
      else do {
        p \<leftarrow> scan_ordered compare v h (kl_first l);
        pn \<leftarrow> h p;
        h' \<leftarrow> link_node node v p (ln_next pn) h;
        Some (0, h') })"

definition list_isempty :: "klist \<Rightarrow> heap \<Rightarrow> bool option" where
  "list_isempty l h = do { f \<leftarrow> h (kl_first l); Some (ln_next f = kl_last l) }"

definition list_peek_front :: "klist \<Rightarrow> heap \<Rightarrow> ptr option" where
  "list_peek_front l h = do {
     f \<leftarrow> h (kl_first l);
     if ln_next f = kl_last l then Some 0
     else do { n \<leftarrow> h (ln_next f); Some (ln_value n) } }"

definition list_peek_back :: "klist \<Rightarrow> heap \<Rightarrow> ptr option" where
  "list_peek_back l h = do {
     f \<leftarrow> h (kl_first l);
     if ln_next f = kl_last l then Some 0
     else do { t \<leftarrow> h (kl_last l); n \<leftarrow> h (ln_prev t); Some (ln_value n) } }"

text \<open>
  Unlinking, shared by the two pops and the removal macro:
  \<open>node->next->prev = node->prev; node->prev->next = node->next\<close>, then \<open>kfree(node)\<close>.
\<close>

definition unlink_node :: "ptr \<Rightarrow> heap \<Rightarrow> heap option" where
  "unlink_node a h = do {
     n \<leftarrow> h a;
     h1 \<leftarrow> set_prev (ln_next n) (ln_prev n) h;
     n1 \<leftarrow> h1 a;
     h2 \<leftarrow> set_next (ln_prev n1) (ln_next n1) h1;
     Some (h2(a := None)) }"

definition list_pop_front :: "klist \<Rightarrow> heap \<Rightarrow> (ptr \<times> heap) option" where
  "list_pop_front l h = do {
     f \<leftarrow> h (kl_first l);
     if ln_next f = kl_last l then Some (0, h)
     else do {
       n \<leftarrow> h (ln_next f);
       h' \<leftarrow> unlink_node (ln_next f) h;
       Some (ln_value n, h') } }"

definition list_pop_back :: "klist \<Rightarrow> heap \<Rightarrow> (ptr \<times> heap) option" where
  "list_pop_back l h = do {
     f \<leftarrow> h (kl_first l);
     if ln_next f = kl_last l then Some (0, h)
     else do {
       t \<leftarrow> h (kl_last l);
       n \<leftarrow> h (ln_prev t);
       h' \<leftarrow> unlink_node (ln_prev t) h;
       Some (ln_value n, h') } }"

partial_function (option) list_destroy :: "klist \<Rightarrow> heap \<Rightarrow> heap option" where
  "list_destroy l h = do {
     e \<leftarrow> list_isempty l h;
     if e then Some h
     else do { r \<leftarrow> list_pop_back l h; list_destroy l (snd r) } }"

text \<open>\<open>list_for_each\<close> stops at the first node whose value is \<open>NULL\<close>, the last sentinel.\<close>

partial_function (option) contains_from :: "ptr \<Rightarrow> heap \<Rightarrow> ptr \<Rightarrow> bool option" where
  "contains_from v h a = do {
     n \<leftarrow> h a;
     if ln_value n = 0 then Some False
     else if ln_value n = v then Some True
     else contains_from v h (ln_next n) }"

definition list_contains :: "klist \<Rightarrow> ptr \<Rightarrow> heap \<Rightarrow> bool option" where
  "list_contains l v h = do { f \<leftarrow> h (kl_first l); contains_from v h (ln_next f) }"

text \<open>
  The loop of \<open>list_remove_on_cond_extra\<close>; the values the \<open>extra\<close> statement runs on are
  collected in order.
\<close>

partial_function (option) remove_loop ::
    "(ptr \<Rightarrow> bool) \<Rightarrow> heap \<Rightarrow> ptr \<Rightarrow> ptr list \<Rightarrow> (ptr list \<times> heap) option" where
  "remove_loop cond h a acc = do {
     n \<leftarrow> h a;
     if ln_value n = 0 then Some (acc, h)
     else if cond (ln_value n) then do {
       h' \<leftarrow> unlink_node a h;
       remove_loop cond h' (ln_next n) (acc @ [ln_value n]) }
     else remove_loop cond h (ln_next n) acc }"

definition list_remove_on_cond_extra ::
    "klist \<Rightarrow> (ptr \<Rightarrow> bool) \<Rightarrow> heap \<Rightarrow> (ptr list \<times> heap) option" where
  "list_remove_on_cond_extra l cond h = do {
     f \<leftarrow> h (kl_first l);
     remove_loop cond h (ln_next f) [] }"

definition list_remove :: "klist \<Rightarrow> ptr \<Rightarrow> heap \<Rightarrow> heap option" where
  "list_remove l v h = do {
     r \<leftarrow> list_remove_on_cond_extra l (\<lambda>entry. entry = v) h;
     Some (snd r) }"

section \<open>The list a heap represents\<close>

text \<open>
  \<open>links h as\<close>: the nodes at the addresses \<open>as\<close> are allocated and neighbours point at each
  other.  A segment says nothing about the outer pointers of its end nodes, so two segments
  compose when they share a node.
\<close>

fun links :: "heap \<Rightarrow> ptr list \<Rightarrow> bool" where
  "links h [] = True"
| "links h [a] = (h a \<noteq> None)"
| "links h (a # b # as) =
     ((case h a of None \<Rightarrow> False | Some n \<Rightarrow> ln_next n = b) \<and>
      (case h b of None \<Rightarrow> False | Some m \<Rightarrow> ln_prev m = a) \<and> links h (b # as))"

text \<open>The value stored at an address; unallocated addresses count as \<open>NULL\<close>.\<close>

definition node_value :: "heap \<Rightarrow> ptr \<Rightarrow> ptr" where
  "node_value h a = (case h a of None \<Rightarrow> 0 | Some n \<Rightarrow> ln_value n)"

definition klist_rel :: "klist \<Rightarrow> heap \<Rightarrow> ptr list \<Rightarrow> ptr list \<Rightarrow> bool" where
  "klist_rel l h ns xs \<longleftrightarrow>
     links h (kl_first l # ns @ [kl_last l]) \<and>
     distinct (kl_first l # ns @ [kl_last l]) \<and>
     node_value h (kl_first l) = 0 \<and> node_value h (kl_last l) = 0 \<and>
     xs = map (node_value h) ns \<and> 0 \<notin> set xs"

text \<open>The nodes of the list: every operation leaves the rest of the heap alone.\<close>

definition footprint :: "klist \<Rightarrow> ptr list \<Rightarrow> ptr set" where
  "footprint l ns = insert (kl_first l) (insert (kl_last l) (set ns))"


section \<open>Segments under the two pointer assignments\<close>

lemma links_append: "links h (as @ b # bs) \<longleftrightarrow> links h (as @ [b]) \<and> links h (b # bs)"
proof (induction as)
  case Nil
  show ?case by (cases bs) (auto split: option.splits)
next
  case (Cons a as)
  then show ?case by (cases as) (auto split: option.splits)
qed

lemma links_alloc: "links h as \<Longrightarrow> a \<in> set as \<Longrightarrow> \<exists>n. h a = Some n"
  by (induction h as rule: links.induct) (auto split: option.splits)

lemma links_frame: "\<forall>a \<in> set as. h' a = h a \<Longrightarrow> links h' as = links h as"
  by (induction h as rule: links.induct) auto

lemma links_transfer: "links h as \<Longrightarrow> \<forall>a \<in> set as. h' a = h a \<Longrightarrow> links h' as"
  by (simp only: links_frame)

lemma links_adjacent:
  assumes "links h (as @ a # b # bs)"
  shows "\<exists>n m. h a = Some n \<and> h b = Some m \<and> ln_next n = b \<and> ln_prev m = a"
proof -
  have "links h (a # b # bs)" using assms links_append by blast
  then show ?thesis by (auto split: option.splits)
qed

lemma links_upd_next:
  assumes "links h as" and "a \<notin> set (butlast as)" and "h a = Some n"
  shows "links (h(a \<mapsto> n\<lparr>ln_next := b\<rparr>)) as"
  using assms by (induction h as rule: links.induct) (auto split: option.splits if_splits)

lemma links_upd_prev:
  assumes "links h as" and "a \<notin> set (tl as)" and "h a = Some n"
  shows "links (h(a \<mapsto> n\<lparr>ln_prev := b\<rparr>)) as"
  using assms
proof (induction h as rule: links.induct)
  case (3 h c d as)
  then show ?case by (cases as) (auto split: option.splits if_splits)
qed auto

lemma node_value_upd [simp]:
  "h a = Some n \<Longrightarrow> node_value (h(a \<mapsto> n\<lparr>ln_next := b\<rparr>)) x = node_value h x"
  "h a = Some n \<Longrightarrow> node_value (h(a \<mapsto> n\<lparr>ln_prev := b\<rparr>)) x = node_value h x"
  by (simp_all add: node_value_def)

lemma node_value_frame: "h' a = h a \<Longrightarrow> node_value h' a = node_value h a"
  by (simp add: node_value_def)

text \<open>Linking a fresh node between two neighbours, and unlinking a node.\<close>

lemma link_node_spec:
  assumes lk: "links h (as @ p # n # bs)" and d: "distinct (as @ p # n # bs)"
    and fresh: "node \<notin> set (as @ p # n # bs)"
  obtains h' where "link_node node v p n h = Some h'"
    and "links h' (as @ p # node # n # bs)"
    and "node_value h' node = v"
    and "\<And>x. x \<noteq> node \<Longrightarrow> node_value h' x = node_value h x"
    and "\<And>x. x \<notin> {p, n, node} \<Longrightarrow> h' x = h x"
proof -
  from links_adjacent [OF lk] obtain pn nn where
    pn: "h p = Some pn" "ln_next pn = n" and nn: "h n = Some nn" "ln_prev nn = p" by blast
  have ne: "node \<noteq> p" "node \<noteq> n" "p \<noteq> n" using d fresh by auto
  define h1 where "h1 = h(node \<mapsto> mk_node v p n, p \<mapsto> pn\<lparr>ln_next := node\<rparr>)"
  define h' where "h' = h1(n \<mapsto> nn\<lparr>ln_prev := node\<rparr>)"
  have res: "link_node node v p n h = Some h'"
    using pn nn ne by (simp add: link_node_def set_next_def set_prev_def h1_def h'_def)
  have left: "links h (as @ [p])" and right: "links h (n # bs)"
    using lk links_append [of h as p "n # bs"] by (auto split: option.splits)
  have "links h' (as @ [p])"
  proof -
    have "links (h(p \<mapsto> pn\<lparr>ln_next := node\<rparr>)) (as @ [p])"
      using left d pn by (intro links_upd_next) auto
    moreover have "\<forall>a \<in> set (as @ [p]). h' a = (h(p \<mapsto> pn\<lparr>ln_next := node\<rparr>)) a"
      using d fresh by (auto simp: h'_def h1_def)
    ultimately show ?thesis by (rule links_transfer)
  qed
  moreover have "links h' (n # bs)"
  proof -
    have "links (h(n \<mapsto> nn\<lparr>ln_prev := node\<rparr>)) (n # bs)"
      using right d nn by (intro links_upd_prev) auto
    moreover have "\<forall>a \<in> set (n # bs). h' a = (h(n \<mapsto> nn\<lparr>ln_prev := node\<rparr>)) a"
      using d fresh by (auto simp: h'_def h1_def)
    ultimately show ?thesis by (rule links_transfer)
  qed
  moreover have "links h' [p, node, n]"
    using ne by (simp add: h'_def h1_def)
  ultimately have "links h' (as @ p # node # n # bs)"
    using links_append [of h' as p "node # n # bs"] links_append [of h' "[p, node]" n bs] by simp
  moreover have "node_value h' node = v"
    using ne by (simp add: node_value_def h'_def h1_def)
  moreover have "node_value h' x = node_value h x" if "x \<noteq> node" for x
    using ne that pn nn by (simp add: node_value_def h'_def h1_def)
  moreover have "h' x = h x" if "x \<notin> {p, n, node}" for x
    using that by (simp add: h'_def h1_def)
  ultimately show ?thesis using res that by blast
qed

lemma unlink_node_spec:
  assumes lk: "links h (as @ p # a # n # bs)" and d: "distinct (as @ p # a # n # bs)"
  obtains h' where "unlink_node a h = Some h'"
    and "links h' (as @ p # n # bs)"
    and "h' a = None"
    and "\<And>x. x \<noteq> a \<Longrightarrow> node_value h' x = node_value h x"
    and "\<And>x. x \<notin> {p, n, a} \<Longrightarrow> h' x = h x"
proof -
  from links_adjacent [OF lk] obtain pn an where
    pn: "h p = Some pn" "ln_next pn = a" and an: "h a = Some an" "ln_prev an = p" by blast
  from links_adjacent [of h "as @ [p]" a n bs] lk obtain nn where
    nn: "h n = Some nn" "ln_prev nn = a" and an': "ln_next an = n" using an by auto
  have ne: "a \<noteq> p" "a \<noteq> n" "p \<noteq> n" using d by auto
  define h1 where "h1 = h(n \<mapsto> nn\<lparr>ln_prev := p\<rparr>, p \<mapsto> pn\<lparr>ln_next := n\<rparr>)"
  define h' where "h' = h1(a := None)"
  have res: "unlink_node a h = Some h'"
    using pn nn an an' ne by (simp add: unlink_node_def set_next_def set_prev_def h1_def h'_def)
  have left: "links h (as @ [p])" and right: "links h (n # bs)"
    using lk links_append [of h as p "a # n # bs"] links_append [of h "as @ [p, a]" n bs] by auto
  have "links h' (as @ [p])"
  proof -
    have "links (h(p \<mapsto> pn\<lparr>ln_next := n\<rparr>)) (as @ [p])"
      using left d pn by (intro links_upd_next) auto
    moreover have "\<forall>x \<in> set (as @ [p]). h' x = (h(p \<mapsto> pn\<lparr>ln_next := n\<rparr>)) x"
      using d by (auto simp: h'_def h1_def)
    ultimately show ?thesis by (rule links_transfer)
  qed
  moreover have "links h' (n # bs)"
  proof -
    have "links (h(n \<mapsto> nn\<lparr>ln_prev := p\<rparr>)) (n # bs)"
      using right d nn by (intro links_upd_prev) auto
    moreover have "\<forall>x \<in> set (n # bs). h' x = (h(n \<mapsto> nn\<lparr>ln_prev := p\<rparr>)) x"
      using d by (auto simp: h'_def h1_def)
    ultimately show ?thesis by (rule links_transfer)
  qed
  moreover have "links h' [p, n]"
    using ne by (simp add: h'_def h1_def)
  ultimately have "links h' (as @ p # n # bs)"
    using links_append [of h' as p "n # bs"] links_append [of h' "[p]" n bs] by simp
  moreover have "h' a = None" by (simp add: h'_def)
  moreover have "node_value h' x = node_value h x" if "x \<noteq> a" for x
    using ne that pn nn by (simp add: node_value_def h'_def h1_def)
  moreover have "h' x = h x" if "x \<notin> {p, n, a}" for x
    using that by (simp add: h'_def h1_def)
  ultimately show ?thesis using res that by blast
qed


section \<open>What each operation does to the list\<close>

lemma klist_rel_parts:
  assumes "klist_rel l h ns xs"
  shows "links h (kl_first l # ns @ [kl_last l])" "distinct (kl_first l # ns @ [kl_last l])"
    "node_value h (kl_first l) = 0" "node_value h (kl_last l) = 0"
    "xs = map (node_value h) ns" "0 \<notin> set xs"
  using assms unfolding klist_rel_def by blast+

lemma klist_rel_first:
  assumes "klist_rel l h ns xs"
  shows "\<exists>f. h (kl_first l) = Some f \<and> ln_next f = hd (ns @ [kl_last l])"
  using klist_rel_parts(1) [OF assms] by (cases ns) (auto split: option.splits)

lemma klist_rel_last:
  assumes "klist_rel l h ns xs"
  shows "\<exists>t. h (kl_last l) = Some t \<and> ln_prev t = last (kl_first l # ns)"
proof (cases ns rule: rev_cases)
  case Nil
  with klist_rel_parts(1) [OF assms] show ?thesis by (auto split: option.splits)
next
  case (snoc ms m)
  then have "links h ((kl_first l # ms) @ m # kl_last l # [])"
    using klist_rel_parts(1) [OF assms] by simp
  from links_adjacent [OF this] snoc show ?thesis by auto
qed

lemma klist_rel_node:
  assumes "klist_rel l h ns xs" and "a \<in> set ns"
  shows "\<exists>n. h a = Some n \<and> ln_value n = node_value h a \<and> node_value h a \<noteq> 0"
proof -
  have "\<exists>n. h a = Some n"
    using links_alloc [OF klist_rel_parts(1) [OF assms(1)], of a] assms(2) by simp
  moreover have "node_value h a \<in> set xs"
    using klist_rel_parts(5) [OF assms(1)] assms(2) by simp
  ultimately show ?thesis
    using klist_rel_parts(6) [OF assms(1)] by (auto simp: node_value_def)
qed

lemma list_init_rel:
  assumes "kl_first l \<noteq> kl_last l"
  shows "klist_rel l (list_init l h) [] []"
  using assms by (simp add: klist_rel_def list_init_def node_value_def)

text \<open>The relation after linking a node in the middle: the common part of the insertions.\<close>

lemma klist_rel_linked:
  assumes rel: "klist_rel l h (ms @ ns) xs" and v: "v \<noteq> 0"
    and fresh: "node \<notin> footprint l (ms @ ns)"
  obtains h' where
    "link_node node v (last (kl_first l # ms)) (hd (ns @ [kl_last l])) h = Some h'"
    and "klist_rel l h' (ms @ node # ns) (take (length ms) xs @ v # drop (length ms) xs)"
    and "\<And>x. x \<notin> insert node (footprint l (ms @ ns)) \<Longrightarrow> h' x = h x"
proof -
  let ?p = "last (kl_first l # ms)" and ?n = "hd (ns @ [kl_last l])"
  let ?as = "butlast (kl_first l # ms)" and ?bs = "tl (ns @ [kl_last l])"
  have split: "kl_first l # ms = ?as @ [?p]"
    by (rule append_butlast_last_id [symmetric]) simp
  have split': "ns @ [kl_last l] = ?n # ?bs"
    by (cases ns) simp_all
  have whole: "kl_first l # (ms @ ns) @ [kl_last l] = ?as @ ?p # ?n # ?bs"
    using split split' by (metis append.assoc append_Cons append_Nil)
  have whole': "kl_first l # (ms @ node # ns) @ [kl_last l] = ?as @ ?p # node # ?n # ?bs"
    using split split' by (metis append.assoc append_Cons append_Nil)
  have fr: "node \<notin> set (?as @ ?p # ?n # ?bs)"
    unfolding whole [symmetric] using fresh by (simp add: footprint_def)
  from klist_rel_parts(1,2) [OF rel] have "links h (?as @ ?p # ?n # ?bs)"
    and d: "distinct (?as @ ?p # ?n # ?bs)" unfolding whole by auto
  from link_node_spec [OF this fr] obtain h' where
    h': "link_node node v ?p ?n h = Some h'" "links h' (?as @ ?p # node # ?n # ?bs)"
      "node_value h' node = v" "\<And>x. x \<noteq> node \<Longrightarrow> node_value h' x = node_value h x"
      "\<And>x. x \<notin> {?p, ?n, node} \<Longrightarrow> h' x = h x" by metis
  have same: "map (node_value h') as = map (node_value h) as" if "node \<notin> set as" for as
    using that h'(4) by (rule map_cong_except)
  have "xs = map (node_value h) ms @ map (node_value h) ns"
    using klist_rel_parts(5) [OF rel] by simp
  then have vals: "take (length ms) xs @ v # drop (length ms) xs = map (node_value h') (ms @ node # ns)"
    using fresh h'(3) by (simp add: same footprint_def)
  have "klist_rel l h' (ms @ node # ns) (take (length ms) xs @ v # drop (length ms) xs)"
    unfolding klist_rel_def
  proof (intro conjI)
    show "links h' (kl_first l # (ms @ node # ns) @ [kl_last l])"
      unfolding whole' by (rule h'(2))
    show "distinct (kl_first l # (ms @ node # ns) @ [kl_last l])"
      using d fr unfolding whole' by auto
    show "node_value h' (kl_first l) = 0" "node_value h' (kl_last l) = 0"
      using klist_rel_parts(3,4) [OF rel] h'(4) fresh by (auto simp: footprint_def)
    show "0 \<notin> set (take (length ms) xs @ v # drop (length ms) xs)"
      using klist_rel_parts(6) [OF rel] v by (auto dest: in_set_takeD in_set_dropD)
  qed (rule vals)
  moreover have "h' x = h x" if "x \<notin> insert node (footprint l (ms @ ns))" for x
  proof -
    have "?p \<in> set (kl_first l # (ms @ ns) @ [kl_last l])"
      "?n \<in> set (kl_first l # (ms @ ns) @ [kl_last l])" unfolding whole by (rule mid_in_set)+
    moreover have "x \<notin> set (kl_first l # (ms @ ns) @ [kl_last l])" "x \<noteq> node"
      using that by (simp_all add: footprint_def)
    ultimately have "x \<notin> {?p, ?n, node}" by blast
    then show ?thesis by (rule h'(5))
  qed
  ultimately show ?thesis using h'(1) that by blast
qed

lemma list_insert_front_rel:
  assumes rel: "klist_rel l h ns xs" and v: "v \<noteq> 0" and node: "node \<noteq> 0"
    and fresh: "node \<notin> footprint l ns"
  obtains h' where "list_insert_front node l v h = Some (0, h')"
    and "klist_rel l h' (node # ns) (v # xs)"
    and "\<And>x. x \<notin> insert node (footprint l ns) \<Longrightarrow> h' x = h x"
proof -
  obtain f where f: "h (kl_first l) = Some f" "ln_next f = hd (ns @ [kl_last l])"
    using klist_rel_first [OF rel] by blast
  from klist_rel_linked [of l h "[]" ns xs v node] assms obtain h' where
    h': "link_node node v (kl_first l) (hd (ns @ [kl_last l])) h = Some h'"
      "klist_rel l h' (node # ns) (v # xs)"
      "\<And>x. x \<notin> insert node (footprint l ns) \<Longrightarrow> h' x = h x" by auto
  have "list_insert_front node l v h = Some (0, h')"
    using f h'(1) v node by (simp add: list_insert_front_def)
  with h' show ?thesis using that by blast
qed

lemma list_insert_back_rel:
  assumes rel: "klist_rel l h ns xs" and v: "v \<noteq> 0" and node: "node \<noteq> 0"
    and fresh: "node \<notin> footprint l ns"
  obtains h' where "list_insert_back node l v h = Some (0, h')"
    and "klist_rel l h' (ns @ [node]) (xs @ [v])"
    and "\<And>x. x \<notin> insert node (footprint l ns) \<Longrightarrow> h' x = h x"
proof -
  obtain t where t: "h (kl_last l) = Some t" "ln_prev t = last (kl_first l # ns)"
    using klist_rel_last [OF rel] by blast
  have len: "length ns = length xs" using klist_rel_parts(5) [OF rel] by simp
  from klist_rel_linked [of l h ns "[]" xs v node] assms len obtain h' where
    h': "link_node node v (last (kl_first l # ns)) (kl_last l) h = Some h'"
      "klist_rel l h' (ns @ [node]) (xs @ [v])"
      "\<And>x. x \<notin> insert node (footprint l ns) \<Longrightarrow> h' x = h x" by auto
  have "list_insert_back node l v h = Some (0, h')"
    using t h'(1) v node by (simp add: list_insert_back_def)
  with h' show ?thesis using that by blast
qed


text \<open>The ordered insertion stops in front of the first value that does not compare greater.\<close>

lemma scan_ordered_spec:
  assumes "links h (p # ns @ [t])" and "node_value h t = 0"
    and "\<forall>a \<in> set ns. node_value h a \<noteq> 0"
  shows "scan_ordered compare v h p =
    Some (last (p # takeWhile (\<lambda>a. compare (node_value h a) v > 0) ns))"
  using assms
proof (induction ns arbitrary: p)
  case Nil
  from links_adjacent [of h "[]" p t "[]"] Nil.prems(1) obtain n m where
    "h p = Some n" "h t = Some m" "ln_next n = t" by auto
  with Nil.prems(2) show ?case by (subst scan_ordered.simps) (simp add: node_value_def)
next
  case (Cons a ns)
  from links_adjacent [of h "[]" p a "ns @ [t]"] Cons.prems(1) obtain n m where
    nm: "h p = Some n" "h a = Some m" "ln_next n = a" by auto
  have "links h (a # ns @ [t])"
    using Cons.prems(1) links_append [of h "[p]" a "ns @ [t]"] by simp
  then have IH: "scan_ordered compare v h a =
      Some (last (a # takeWhile (\<lambda>a. compare (node_value h a) v > 0) ns))"
    using Cons.prems(2,3) by (intro Cons.IH) auto
  from Cons.prems(3) nm have nz: "ln_value m \<noteq> 0" by (simp add: node_value_def)
  have val: "node_value h a = ln_value m" using nm by (simp add: node_value_def)
  show ?case
  proof (cases "compare (ln_value m) v > 0")
    case True
    then have "scan_ordered compare v h p = scan_ordered compare v h a"
      using nm nz by (subst scan_ordered.simps) simp
    with True IH val show ?thesis by simp
  next
    case False
    with nm nz val show ?thesis by (subst scan_ordered.simps) simp
  qed
qed

definition insert_ordered :: "('a \<Rightarrow> 'a \<Rightarrow> int) \<Rightarrow> 'a \<Rightarrow> 'a list \<Rightarrow> 'a list" where
  "insert_ordered compare v xs =
     takeWhile (\<lambda>x. compare x v > 0) xs @ v # dropWhile (\<lambda>x. compare x v > 0) xs"

lemma list_insert_ordered_rel:
  assumes rel: "klist_rel l h ns xs" and v: "v \<noteq> 0" and node: "node \<noteq> 0"
    and fresh: "node \<notin> footprint l ns"
  obtains ns' h' where "list_insert_ordered compare node l v h = Some (0, h')"
    and "klist_rel l h' ns' (insert_ordered compare v xs)"
    and "set ns' = insert node (set ns)"
    and "\<And>x. x \<notin> insert node (footprint l ns) \<Longrightarrow> h' x = h x"
proof -
  let ?P = "\<lambda>a. compare (node_value h a) v > 0"
  define ms where "ms = takeWhile ?P ns"
  define ns2 where "ns2 = dropWhile ?P ns"
  have split: "ns = ms @ ns2" by (simp add: ms_def ns2_def)
  have xs: "xs = map (node_value h) ns" by (rule klist_rel_parts(5) [OF rel])
  have "scan_ordered compare v h (kl_first l) = Some (last (kl_first l # ms))"
    unfolding ms_def using klist_rel_parts [OF rel] klist_rel_node [OF rel]
    by (intro scan_ordered_spec [where t = "kl_last l"]) auto
  moreover have "\<exists>pn. h (last (kl_first l # ms)) = Some pn \<and> ln_next pn = hd (ns2 @ [kl_last l])"
  proof -
    have "links h (butlast (kl_first l # ms) @ last (kl_first l # ms)
            # hd (ns2 @ [kl_last l]) # tl (ns2 @ [kl_last l]))"
    proof -
      have "butlast (kl_first l # ms) @ [last (kl_first l # ms)] = kl_first l # ms"
        by (rule append_butlast_last_id) simp
      moreover have "hd (ns2 @ [kl_last l]) # tl (ns2 @ [kl_last l]) = ns2 @ [kl_last l]"
        by (cases ns2) simp_all
      ultimately show ?thesis
        using klist_rel_parts(1) [OF rel] split by (metis append.assoc append_Cons append_Nil)
    qed
    from links_adjacent [OF this] show ?thesis by auto
  qed
  moreover from klist_rel_linked [of l h ms ns2 xs v node] rel v fresh split obtain h' where
    h': "link_node node v (last (kl_first l # ms)) (hd (ns2 @ [kl_last l])) h = Some h'"
      "klist_rel l h' (ms @ node # ns2) (take (length ms) xs @ v # drop (length ms) xs)"
      "\<And>x. x \<notin> insert node (footprint l ns) \<Longrightarrow> h' x = h x" by metis
  ultimately have "list_insert_ordered compare node l v h = Some (0, h')"
    using v node by (auto simp: list_insert_ordered_def)
  moreover have "take (length ms) xs @ v # drop (length ms) xs = insert_ordered compare v xs"
  proof -
    have "take (length ms) xs = map (node_value h) ms" "drop (length ms) xs = map (node_value h) ns2"
      using split xs by simp_all
    moreover have "map (node_value h) ms = takeWhile (\<lambda>x. compare x v > 0) xs"
      by (simp add: ms_def xs takeWhile_map comp_def)
    moreover have "map (node_value h) ns2 = dropWhile (\<lambda>x. compare x v > 0) xs"
      by (simp add: ns2_def xs dropWhile_map comp_def)
    ultimately show ?thesis by (simp add: insert_ordered_def)
  qed
  moreover have "set (ms @ node # ns2) = insert node (set ns)" using split by auto
  ultimately show ?thesis using h'(2,3) that by metis
qed

text \<open>The relation after unlinking a node in the middle: the common part of the removals.\<close>

lemma klist_rel_unlinked:
  assumes rel: "klist_rel l h (ms @ a # ns) xs"
  obtains h' where "unlink_node a h = Some h'"
    and "klist_rel l h' (ms @ ns) (take (length ms) xs @ drop (Suc (length ms)) xs)"
    and "h' a = None"
    and "\<And>x. x \<notin> footprint l (ms @ a # ns) \<Longrightarrow> h' x = h x"
proof -
  let ?p = "last (kl_first l # ms)" and ?n = "hd (ns @ [kl_last l])"
  let ?as = "butlast (kl_first l # ms)" and ?bs = "tl (ns @ [kl_last l])"
  have split: "kl_first l # ms = ?as @ [?p]"
    by (rule append_butlast_last_id [symmetric]) simp
  have split': "ns @ [kl_last l] = ?n # ?bs"
    by (cases ns) simp_all
  have whole: "kl_first l # (ms @ a # ns) @ [kl_last l] = ?as @ ?p # a # ?n # ?bs"
    using split split' by (metis append.assoc append_Cons append_Nil)
  have whole': "kl_first l # (ms @ ns) @ [kl_last l] = ?as @ ?p # ?n # ?bs"
    using split split' by (metis append.assoc append_Cons append_Nil)
  from klist_rel_parts(1,2) [OF rel] have lk: "links h (?as @ ?p # a # ?n # ?bs)"
    and d: "distinct (?as @ ?p # a # ?n # ?bs)" unfolding whole by auto
  from unlink_node_spec [OF lk d] obtain h' where
    h': "unlink_node a h = Some h'" "links h' (?as @ ?p # ?n # ?bs)" "h' a = None"
      "\<And>x. x \<noteq> a \<Longrightarrow> node_value h' x = node_value h x"
      "\<And>x. x \<notin> {?p, ?n, a} \<Longrightarrow> h' x = h x" by metis
  have nin: "a \<notin> set ms" "a \<notin> set ns" "a \<noteq> kl_first l" "a \<noteq> kl_last l"
    using klist_rel_parts(2) [OF rel] by auto
  have "klist_rel l h' (ms @ ns) (take (length ms) xs @ drop (Suc (length ms)) xs)"
    unfolding klist_rel_def
  proof (intro conjI)
    show "links h' (kl_first l # (ms @ ns) @ [kl_last l])"
      unfolding whole' by (rule h'(2))
    show "distinct (kl_first l # (ms @ ns) @ [kl_last l])"
      using d unfolding whole' by auto
    show "node_value h' (kl_first l) = 0" "node_value h' (kl_last l) = 0"
      using klist_rel_parts(3,4) [OF rel] h'(4) nin by auto
    show "0 \<notin> set (take (length ms) xs @ drop (Suc (length ms)) xs)"
      using klist_rel_parts(6) [OF rel] by (auto dest: in_set_takeD in_set_dropD)
    have "map (node_value h') (ms @ ns) = map (node_value h) (ms @ ns)"
      using nin(1,2) by (intro map_cong_except [of a] h'(4)) auto
    then show "take (length ms) xs @ drop (Suc (length ms)) xs = map (node_value h') (ms @ ns)"
      using klist_rel_parts(5) [OF rel] by simp
  qed
  moreover have "h' x = h x" if "x \<notin> footprint l (ms @ a # ns)" for x
  proof -
    have "?p \<in> set (kl_first l # (ms @ a # ns) @ [kl_last l])"
      "?n \<in> set (kl_first l # (ms @ a # ns) @ [kl_last l])"
      "a \<in> set (kl_first l # (ms @ a # ns) @ [kl_last l])" unfolding whole by (rule mid_in_set)+
    moreover have "x \<notin> set (kl_first l # (ms @ a # ns) @ [kl_last l])"
      using that by (simp add: footprint_def)
    ultimately have "x \<notin> {?p, ?n, a}" by blast
    then show ?thesis by (rule h'(5))
  qed
  ultimately show ?thesis using h'(1,3) that by blast
qed


lemma list_isempty_rel:
  assumes "klist_rel l h ns xs"
  shows "list_isempty l h = Some (xs = [])"
proof -
  obtain f where "h (kl_first l) = Some f" "ln_next f = hd (ns @ [kl_last l])"
    using klist_rel_first [OF assms] by blast
  moreover have "hd (ns @ [kl_last l]) = kl_last l \<longleftrightarrow> ns = []"
    using klist_rel_parts(2) [OF assms] by (cases ns) auto
  ultimately show ?thesis
    using klist_rel_parts(5) [OF assms] by (simp add: list_isempty_def)
qed

lemma list_peek_front_rel:
  assumes "klist_rel l h ns xs"
  shows "list_peek_front l h = Some (case xs of [] \<Rightarrow> 0 | x # _ \<Rightarrow> x)"
proof (cases ns)
  case Nil
  with klist_rel_first [OF assms] klist_rel_parts(5) [OF assms] show ?thesis
    by (auto simp: list_peek_front_def)
next
  case (Cons a ns')
  with klist_rel_first [OF assms] obtain f where f: "h (kl_first l) = Some f" "ln_next f = a" by auto
  from klist_rel_node [OF assms, of a] Cons obtain n where
    "h a = Some n" "ln_value n = node_value h a" by auto
  moreover have "a \<noteq> kl_last l" using klist_rel_parts(2) [OF assms] Cons by auto
  ultimately show ?thesis
    using f Cons klist_rel_parts(5) [OF assms] by (simp add: list_peek_front_def)
qed

lemma list_peek_back_rel:
  assumes "klist_rel l h ns xs"
  shows "list_peek_back l h = Some (if xs = [] then 0 else last xs)"
proof (cases ns rule: rev_cases)
  case Nil
  with klist_rel_first [OF assms] klist_rel_parts(5) [OF assms] show ?thesis
    by (auto simp: list_peek_back_def)
next
  case (snoc ms a)
  obtain f where f: "h (kl_first l) = Some f" "ln_next f = hd (ns @ [kl_last l])"
    using klist_rel_first [OF assms] by blast
  have "ln_next f \<noteq> kl_last l"
    using f klist_rel_parts(2) [OF assms] snoc by (cases ms) auto
  moreover from klist_rel_last [OF assms] snoc obtain t where
    "h (kl_last l) = Some t" "ln_prev t = a" by auto
  moreover from klist_rel_node [OF assms, of a] snoc obtain n where
    "h a = Some n" "ln_value n = node_value h a" by auto
  ultimately show ?thesis
    using f snoc klist_rel_parts(5) [OF assms] by (simp add: list_peek_back_def)
qed

lemma list_pop_front_rel:
  assumes rel: "klist_rel l h (a # ns) (x # xs)"
  obtains h' where "list_pop_front l h = Some (x, h')"
    and "klist_rel l h' ns xs" and "h' a = None"
    and "\<And>y. y \<notin> footprint l (a # ns) \<Longrightarrow> h' y = h y"
proof -
  obtain f where f: "h (kl_first l) = Some f" "ln_next f = a"
    using klist_rel_first [OF rel] by auto
  from klist_rel_node [OF rel, of a] obtain n where
    n: "h a = Some n" "ln_value n = node_value h a" by auto
  have "a \<noteq> kl_last l" using klist_rel_parts(2) [OF rel] by auto
  moreover from klist_rel_unlinked [of l h "[]" a ns "x # xs"] rel obtain h' where
    h': "unlink_node a h = Some h'" "klist_rel l h' ns xs" "h' a = None"
      "\<And>y. y \<notin> footprint l (a # ns) \<Longrightarrow> h' y = h y" by auto
  moreover have "x = node_value h a" using klist_rel_parts(5) [OF rel] by simp
  ultimately have "list_pop_front l h = Some (x, h')"
    using f n by (simp add: list_pop_front_def)
  with h' show ?thesis using that by blast
qed

lemma list_pop_back_rel:
  assumes rel: "klist_rel l h (ns @ [a]) (xs @ [x])"
  obtains h' where "list_pop_back l h = Some (x, h')"
    and "klist_rel l h' ns xs" and "h' a = None"
    and "\<And>y. y \<notin> footprint l (ns @ [a]) \<Longrightarrow> h' y = h y"
proof -
  obtain f where f: "h (kl_first l) = Some f" "ln_next f = hd (ns @ [a, kl_last l])"
    using klist_rel_first [OF rel] by auto
  have ne: "ln_next f \<noteq> kl_last l"
    using f klist_rel_parts(2) [OF rel] by (cases ns) auto
  obtain t where t: "h (kl_last l) = Some t" "ln_prev t = a"
    using klist_rel_last [OF rel] by auto
  from klist_rel_node [OF rel, of a] obtain n where
    n: "h a = Some n" "ln_value n = node_value h a" by auto
  have "xs = map (node_value h) ns" and x: "x = node_value h a"
    using klist_rel_parts(5) [OF rel] by simp_all
  then have len: "length ns = length xs" by simp
  from klist_rel_unlinked [of l h ns a "[]" "xs @ [x]"] rel len obtain h' where
    h': "unlink_node a h = Some h'" "klist_rel l h' ns xs" "h' a = None"
      "\<And>y. y \<notin> footprint l (ns @ [a]) \<Longrightarrow> h' y = h y" by auto
  have "list_pop_back l h = Some (x, h')"
    using f ne t n h'(1) x by (simp add: list_pop_back_def)
  with h' show ?thesis using that by blast
qed

lemma list_pop_empty_rel:
  assumes "klist_rel l h ns []"
  shows "list_pop_front l h = Some (0, h)" "list_pop_back l h = Some (0, h)"
proof -
  have "ns = []" using klist_rel_parts(5) [OF assms] by simp
  with klist_rel_first [OF assms] show "list_pop_front l h = Some (0, h)"
    "list_pop_back l h = Some (0, h)"
    by (auto simp: list_pop_front_def list_pop_back_def)
qed

lemma list_destroy_rel:
  assumes "klist_rel l h ns xs"
  obtains h' where "list_destroy l h = Some h'" and "klist_rel l h' [] []"
    and "\<forall>a \<in> set ns. h' a = None" and "\<And>y. y \<notin> footprint l ns \<Longrightarrow> h' y = h y"
  using assms
proof (induction ns arbitrary: h xs thesis rule: rev_induct)
  case Nil
  have "xs = []" using klist_rel_parts(5) [OF Nil(2)] by simp
  then have "list_destroy l h = Some h"
    using list_isempty_rel [OF Nil(2)] by (subst list_destroy.simps) simp
  with Nil \<open>xs = []\<close> show ?case by simp
next
  case (snoc a ns)
  obtain zs z where xs: "xs = zs @ [z]"
    using klist_rel_parts(5) [OF snoc.prems(2)] by auto
  from list_pop_back_rel [of l h ns a zs z] snoc.prems(2) xs obtain h1 where
    h1: "list_pop_back l h = Some (z, h1)" "klist_rel l h1 ns zs" "h1 a = None"
      "\<And>y. y \<notin> footprint l (ns @ [a]) \<Longrightarrow> h1 y = h y" by metis
  obtain h2 where h2: "list_destroy l h1 = Some h2" "klist_rel l h2 [] []"
      "\<forall>b \<in> set ns. h2 b = None" "\<And>y. y \<notin> footprint l ns \<Longrightarrow> h2 y = h1 y"
    using snoc.IH [OF _ h1(2)] by metis
  have "list_destroy l h = Some h2"
    using list_isempty_rel [OF snoc.prems(2)] xs h1(1) h2(1)
    by (subst list_destroy.simps) simp
  moreover have "h2 a = None"
  proof -
    have "a \<notin> footprint l ns"
      using klist_rel_parts(2) [OF snoc.prems(2)] by (auto simp: footprint_def)
    with h2(4) h1(3) show ?thesis by simp
  qed
  moreover have "h2 y = h y" if "y \<notin> footprint l (ns @ [a])" for y
    using that h2(4) h1(4) by (auto simp: footprint_def)
  ultimately show ?case using h2(2,3) snoc.prems(1) by auto
qed

lemma contains_from_spec:
  assumes "links h (ns @ [t])" and "node_value h t = 0" and "\<forall>a \<in> set ns. node_value h a \<noteq> 0"
  shows "contains_from v h (hd (ns @ [t])) = Some (v \<in> node_value h ` set ns)"
  using assms
proof (induction ns)
  case Nil
  then show ?case by (subst contains_from.simps) (auto simp: node_value_def)
next
  case (Cons a ns)
  have next_a: "\<exists>n. h a = Some n \<and> ln_next n = hd (ns @ [t])"
    using Cons.prems(1) by (cases ns) (auto split: option.splits)
  have "links h (ns @ [t])"
    using Cons.prems(1) by (cases ns) (auto split: option.splits)
  with Cons have IH: "contains_from v h (hd (ns @ [t])) = Some (v \<in> node_value h ` set ns)" by simp
  from next_a obtain n where n: "h a = Some n" "ln_next n = hd (ns @ [t])" by blast
  with Cons.prems(3) have nz: "ln_value n \<noteq> 0" "node_value h a = ln_value n"
    by (auto simp: node_value_def)
  then show ?case
    using n IH by (subst contains_from.simps) auto
qed

lemma list_contains_rel:
  assumes "klist_rel l h ns xs"
  shows "list_contains l v h = Some (v \<in> set xs)"
proof -
  have "links h (ns @ [kl_last l])"
    using klist_rel_parts(1) [OF assms] by (cases ns) (auto split: option.splits)
  then have "contains_from v h (hd (ns @ [kl_last l])) = Some (v \<in> node_value h ` set ns)"
    using klist_rel_parts(4) [OF assms] klist_rel_node [OF assms]
    by (intro contains_from_spec) auto
  with klist_rel_first [OF assms] klist_rel_parts(5) [OF assms] show ?thesis
    by (auto simp: list_contains_def)
qed


text \<open>
  The removal loop, started behind any prefix of the list: it visits the rest in order, unlinks
  and frees the nodes whose value satisfies the condition and leaves the others linked.
\<close>

lemma remove_loop_spec:
  assumes "klist_rel l h (ms @ ns) xs"
  shows "\<exists>h'. remove_loop cond h (hd (ns @ [kl_last l])) acc =
       Some (acc @ filter cond (map (node_value h) ns), h')
    \<and> klist_rel l h' (ms @ filter (\<lambda>a. \<not> cond (node_value h a)) ns)
       (map (node_value h) ms @ filter (\<lambda>x. \<not> cond x) (map (node_value h) ns))
    \<and> (\<forall>a \<in> set ns. cond (node_value h a) \<longrightarrow> h' a = None)
    \<and> (\<forall>y. y \<notin> footprint l (ms @ ns) \<longrightarrow> h' y = h y)"
  using assms
proof (induction ns arbitrary: ms h xs acc)
  case Nil
  from klist_rel_last [OF Nil] obtain t where "h (kl_last l) = Some t" by auto
  then have "remove_loop cond h (kl_last l) acc = Some (acc, h)"
    using klist_rel_parts(4) [OF Nil] by (subst remove_loop.simps) (simp add: node_value_def)
  with Nil klist_rel_parts(5) [OF Nil] show ?case by simp
next
  case (Cons a ns)
  note rel = Cons.prems
  from klist_rel_node [OF rel, of a] obtain n where
    n: "h a = Some n" "ln_value n = node_value h a" "node_value h a \<noteq> 0" by auto
  have nx: "ln_next n = hd (ns @ [kl_last l])"
  proof -
    have "links h ((kl_first l # ms) @ a # hd (ns @ [kl_last l]) # tl (ns @ [kl_last l]))"
      using klist_rel_parts(1) [OF rel] by (cases ns) simp_all
    from links_adjacent [OF this] n(1) show ?thesis by auto
  qed
  have xs: "xs = map (node_value h) (ms @ a # ns)" by (rule klist_rel_parts(5) [OF rel])
  have d: "a \<notin> set ms" "a \<notin> set ns" "a \<noteq> kl_first l" "a \<noteq> kl_last l"
    using klist_rel_parts(2) [OF rel] by auto
  show ?case
  proof (cases "cond (node_value h a)")
    case True
    from klist_rel_unlinked [OF rel] obtain h1 where
      h1: "unlink_node a h = Some h1"
        "klist_rel l h1 (ms @ ns) (take (length ms) xs @ drop (Suc (length ms)) xs)"
        "h1 a = None" "\<And>y. y \<notin> footprint l (ms @ a # ns) \<Longrightarrow> h1 y = h y" by metis
    have "map (node_value h1) (ms @ ns) = map (node_value h) (ms @ ns)"
      using klist_rel_parts(5) [OF h1(2)] xs by simp
    then have same: "map (node_value h1) ms = map (node_value h) ms"
      "\<forall>b \<in> set ns. node_value h1 b = node_value h b" by auto
    then have ns: "map (node_value h1) ns = map (node_value h) ns"
      "filter (\<lambda>a. \<not> cond (node_value h1 a)) ns = filter (\<lambda>a. \<not> cond (node_value h a)) ns"
      by (simp_all cong: filter_cong)
    from Cons.IH [OF h1(2), of "acc @ [node_value h a]"] obtain h' where
      h': "remove_loop cond h1 (hd (ns @ [kl_last l])) (acc @ [node_value h a]) =
         Some ((acc @ [node_value h a]) @ filter cond (map (node_value h) ns), h')"
      "klist_rel l h' (ms @ filter (\<lambda>a. \<not> cond (node_value h a)) ns)
         (map (node_value h) ms @ filter (\<lambda>x. \<not> cond x) (map (node_value h) ns))"
      "\<forall>b \<in> set ns. cond (node_value h b) \<longrightarrow> h' b = None"
      "\<forall>y. y \<notin> footprint l (ms @ ns) \<longrightarrow> h' y = h1 y"
      unfolding same(1) ns using same(2) by auto
    have "remove_loop cond h a acc =
        remove_loop cond h1 (hd (ns @ [kl_last l])) (acc @ [node_value h a])"
      using n nx True h1(1) by (subst remove_loop.simps) simp
    then have run: "remove_loop cond h (hd ((a # ns) @ [kl_last l])) acc =
        Some (acc @ filter cond (map (node_value h) (a # ns)), h')"
      using h'(1) True by simp
    have freed: "h' a = None"
      using h'(4) d h1(3) by (simp add: footprint_def)
    have frame: "\<forall>y. y \<notin> footprint l (ms @ a # ns) \<longrightarrow> h' y = h y"
      using h'(4) h1(4) by (simp add: footprint_def)
    show ?thesis
      using run h'(2,3) freed frame True by (intro exI [of _ h']) simp
  next
    case False
    from Cons.IH [of h "ms @ [a]" xs acc] rel obtain h' where
      h': "remove_loop cond h (hd (ns @ [kl_last l])) acc =
         Some (acc @ filter cond (map (node_value h) ns), h')"
      "klist_rel l h' (ms @ a # filter (\<lambda>a. \<not> cond (node_value h a)) ns)
         (map (node_value h) ms @ node_value h a # filter (\<lambda>x. \<not> cond x) (map (node_value h) ns))"
      "\<forall>b \<in> set ns. cond (node_value h b) \<longrightarrow> h' b = None"
      "\<forall>y. y \<notin> footprint l (ms @ a # ns) \<longrightarrow> h' y = h y" by auto
    have "remove_loop cond h a acc = remove_loop cond h (hd (ns @ [kl_last l])) acc"
      using n nx False by (subst remove_loop.simps) simp
    then show ?thesis
      using h' False by (intro exI [of _ h']) simp
  qed
qed

lemma list_remove_on_cond_extra_rel:
  assumes rel: "klist_rel l h ns xs"
  obtains h' where "list_remove_on_cond_extra l cond h = Some (filter cond xs, h')"
    and "klist_rel l h' (filter (\<lambda>a. \<not> cond (node_value h a)) ns) (filter (\<lambda>x. \<not> cond x) xs)"
    and "\<forall>a \<in> set ns. cond (node_value h a) \<longrightarrow> h' a = None"
    and "\<forall>y. y \<notin> footprint l ns \<longrightarrow> h' y = h y"
proof -
  obtain f where f: "h (kl_first l) = Some f" "ln_next f = hd (ns @ [kl_last l])"
    using klist_rel_first [OF rel] by blast
  from remove_loop_spec [of l h "[]" ns xs cond "[]"] rel klist_rel_parts(5) [OF rel]
  obtain h' where
    "remove_loop cond h (hd (ns @ [kl_last l])) [] = Some (filter cond xs, h')"
    "klist_rel l h' (filter (\<lambda>a. \<not> cond (node_value h a)) ns) (filter (\<lambda>x. \<not> cond x) xs)"
    "\<forall>a \<in> set ns. cond (node_value h a) \<longrightarrow> h' a = None"
    "\<forall>y. y \<notin> footprint l ns \<longrightarrow> h' y = h y" by auto
  with f that [of h'] show ?thesis
    by (simp add: list_remove_on_cond_extra_def)
qed

lemma list_remove_rel:
  assumes rel: "klist_rel l h ns xs"
  obtains h' where "list_remove l v h = Some h'"
    and "klist_rel l h' (filter (\<lambda>a. node_value h a \<noteq> v) ns) (filter (\<lambda>x. x \<noteq> v) xs)"
    and "\<forall>y. y \<notin> footprint l ns \<longrightarrow> h' y = h y"
proof (rule list_remove_on_cond_extra_rel [OF rel, of "\<lambda>entry. entry = v"])
  fix h'
  assume "list_remove_on_cond_extra l (\<lambda>entry. entry = v) h = Some (filter (\<lambda>entry. entry = v) xs, h')"
    and "klist_rel l h' (filter (\<lambda>a. node_value h a \<noteq> v) ns) (filter (\<lambda>x. x \<noteq> v) xs)"
    and "\<forall>y. y \<notin> footprint l ns \<longrightarrow> h' y = h y"
  with that [of h'] show thesis by (simp add: list_remove_def)
qed

section \<open>The queue interface\<close>

text \<open>
  What the kernel's queues (run queue, mutex, sleepers, page of deferred frees) rely on: an
  insertion at the back with a fresh node, a removal at the front.
\<close>

fun insert_all :: "('n \<Rightarrow> 'a \<Rightarrow> 's \<Rightarrow> (int \<times> 's) option) \<Rightarrow> ('n \<times> 'a) list \<Rightarrow> 's \<Rightarrow> 's option" where
  "insert_all ins [] s = Some s"
| "insert_all ins ((n, v) # nvs) s = do { r \<leftarrow> ins n v s; insert_all ins nvs (snd r) }"

fun pop_count :: "('s \<Rightarrow> ('a \<times> 's) option) \<Rightarrow> nat \<Rightarrow> 's \<Rightarrow> ('a list \<times> 's) option" where
  "pop_count pop 0 s = Some ([], s)"
| "pop_count pop (Suc k) s = do {
     r \<leftarrow> pop s;
     q \<leftarrow> pop_count pop k (snd r);
     Some (fst r # fst q, snd q) }"

locale kqueue =
  fixes rel :: "'s \<Rightarrow> 'a list \<Rightarrow> bool"
    and fresh :: "'n \<Rightarrow> 's \<Rightarrow> bool"
    and storable :: "'a \<Rightarrow> bool"
    and ins_back :: "'n \<Rightarrow> 'a \<Rightarrow> 's \<Rightarrow> (int \<times> 's) option"
    and pop_front :: "'s \<Rightarrow> ('a \<times> 's) option"
  assumes ins_back_law: "rel s xs \<Longrightarrow> fresh n s \<Longrightarrow> storable v \<Longrightarrow>
      \<exists>s'. ins_back n v s = Some (0, s') \<and> rel s' (xs @ [v])
        \<and> (\<forall>m. m \<noteq> n \<and> fresh m s \<longrightarrow> fresh m s')"
    and pop_front_law: "rel s (x # xs) \<Longrightarrow> \<exists>s'. pop_front s = Some (x, s') \<and> rel s' xs"
begin

lemma insert_all_back:
  assumes "rel s xs" and "distinct (map fst nvs)"
    and "\<forall>(n, v) \<in> set nvs. fresh n s \<and> storable v"
  shows "\<exists>s'. insert_all ins_back nvs s = Some s' \<and> rel s' (xs @ map snd nvs)"
  using assms
proof (induction nvs arbitrary: s xs)
  case Nil
  then show ?case by auto
next
  case (Cons nv nvs)
  obtain n v where nv: "nv = (n, v)" by (cases nv)
  with Cons.prems(1,3) ins_back_law [of s xs n v] obtain s1 where
    s1: "ins_back n v s = Some (0, s1)" "rel s1 (xs @ [v])"
      "\<forall>m. m \<noteq> n \<and> fresh m s \<longrightarrow> fresh m s1" by auto
  moreover have "\<forall>(m, w) \<in> set nvs. fresh m s1 \<and> storable w"
    using Cons.prems(2,3) nv s1(3) by (force simp: image_iff)
  ultimately show ?case
    using Cons.IH [of s1 "xs @ [v]"] Cons.prems(2) nv by auto
qed

lemma pop_all_front:
  "rel s (xs @ ys) \<Longrightarrow> \<exists>s'. pop_count pop_front (length xs) s = Some (xs, s') \<and> rel s' ys"
proof (induction xs arbitrary: s)
  case Nil
  then show ?case by simp
next
  case (Cons x xs)
  then obtain s1 where "pop_front s = Some (x, s1)" "rel s1 (xs @ ys)"
    using pop_front_law [of s x "xs @ ys"] by auto
  with Cons.IH [of s1] show ?case by auto
qed

lemma fifo:
  assumes "rel s []" and "distinct (map fst nvs)"
    and "\<forall>(n, v) \<in> set nvs. fresh n s \<and> storable v"
  shows "\<exists>s1 s2. insert_all ins_back nvs s = Some s1
    \<and> pop_count pop_front (length nvs) s1 = Some (map snd nvs, s2) \<and> rel s2 []"
proof -
  from insert_all_back [OF assms] obtain s1 where
    "insert_all ins_back nvs s = Some s1" "rel s1 (map snd nvs @ [])" by auto
  with pop_all_front [of s1 "map snd nvs" "[]"] show ?thesis by auto
qed

end

text \<open>The deque adds the other two ends; popping at the back undoes an insertion there.\<close>

locale kdeque = kqueue +
  fixes ins_front :: "'c \<Rightarrow> 'b \<Rightarrow> 'a \<Rightarrow> (int \<times> 'a) option"
    and pop_back :: "'a \<Rightarrow> ('b \<times> 'a) option"
  assumes ins_front_law: "rel s xs \<Longrightarrow> fresh n s \<Longrightarrow> storable v \<Longrightarrow>
      \<exists>s'. ins_front n v s = Some (0, s') \<and> rel s' (v # xs)"
    and pop_back_law: "rel s (xs @ [x]) \<Longrightarrow> \<exists>s'. pop_back s = Some (x, s') \<and> rel s' xs"
begin

lemma back_roundtrip:
  assumes "rel s xs" and "fresh n s" and "storable v"
  shows "\<exists>s1 s2. ins_back n v s = Some (0, s1) \<and> pop_back s1 = Some (v, s2) \<and> rel s2 xs"
  using ins_back_law [OF assms] pop_back_law by blast

lemma front_roundtrip:
  assumes "rel s xs" and "fresh n s" and "storable v"
  shows "\<exists>s1 s2. ins_front n v s = Some (0, s1) \<and> pop_front s1 = Some (v, s2) \<and> rel s2 xs"
  using ins_front_law [OF assms] pop_front_law by blast

end

definition list_of :: "klist \<Rightarrow> heap \<Rightarrow> ptr list \<Rightarrow> bool" where
  "list_of l h xs \<longleftrightarrow> (\<exists>ns. klist_rel l h ns xs)"

definition fresh_node :: "ptr \<Rightarrow> heap \<Rightarrow> bool" where
  "fresh_node a h \<longleftrightarrow> a \<noteq> 0 \<and> h a = None"

lemma footprint_alloc:
  assumes "klist_rel l h ns xs" and "a \<in> footprint l ns"
  shows "\<exists>n. h a = Some n"
  using links_alloc [OF klist_rel_parts(1) [OF assms(1)], of a] assms(2)
  by (simp add: footprint_def)

lemma fresh_node_footprint:
  "klist_rel l h ns xs \<Longrightarrow> fresh_node a h \<Longrightarrow> a \<notin> footprint l ns"
  using footprint_alloc by (fastforce simp: fresh_node_def)

interpretation klq: kdeque "list_of l" fresh_node "\<lambda>v. v \<noteq> 0"
    "\<lambda>n v. list_insert_back n l v" "list_pop_front l"
    "\<lambda>n v. list_insert_front n l v" "list_pop_back l" for l
proof unfold_locales
  fix h xs n and v :: ptr
  assume "list_of l h xs" and fr: "fresh_node n h" and v: "v \<noteq> 0"
  then obtain ns where rel: "klist_rel l h ns xs" by (auto simp: list_of_def)
  have nin: "n \<notin> footprint l ns" by (rule fresh_node_footprint [OF rel fr])
  have nz: "n \<noteq> 0" using fr by (simp add: fresh_node_def)
  obtain h' where h': "list_insert_back n l v h = Some (0, h')"
    "klist_rel l h' (ns @ [n]) (xs @ [v])"
    "\<And>x. x \<notin> insert n (footprint l ns) \<Longrightarrow> h' x = h x"
    using list_insert_back_rel [OF rel v nz nin] by metis
  have "fresh_node m h'" if "m \<noteq> n" and "fresh_node m h" for m
    using that h'(3) [of m] fresh_node_footprint [OF rel that(2)] by (simp add: fresh_node_def)
  with h' show "\<exists>h'. list_insert_back n l v h = Some (0, h') \<and> list_of l h' (xs @ [v])
      \<and> (\<forall>m. m \<noteq> n \<and> fresh_node m h \<longrightarrow> fresh_node m h')"
    unfolding list_of_def by blast
  obtain h'' where "list_insert_front n l v h = Some (0, h'')" "klist_rel l h'' (n # ns) (v # xs)"
    using list_insert_front_rel [OF rel v nz nin] by metis
  then show "\<exists>h'. list_insert_front n l v h = Some (0, h') \<and> list_of l h' (v # xs)"
    unfolding list_of_def by blast
next
  fix h x xs
  assume "list_of l h (x # xs)"
  then obtain ns where rel: "klist_rel l h ns (x # xs)" by (auto simp: list_of_def)
  then obtain a ms where "ns = a # ms" using klist_rel_parts(5) [OF rel] by auto
  with rel list_pop_front_rel [of l h a ms x xs]
  show "\<exists>h'. list_pop_front l h = Some (x, h') \<and> list_of l h' xs"
    unfolding list_of_def by metis
next
  fix h x xs
  assume "list_of l h (xs @ [x])"
  then obtain ns where rel: "klist_rel l h ns (xs @ [x])" by (auto simp: list_of_def)
  then obtain ms a where "ns = ms @ [a]"
    using klist_rel_parts(5) [OF rel] by (cases ns rule: rev_cases) auto
  with rel list_pop_back_rel [of l h ms a xs x]
  show "\<exists>h'. list_pop_back l h = Some (x, h') \<and> list_of l h' xs"
    unfolding list_of_def by metis
qed

section \<open>Properties\<close>

text \<open>C1: a queue is first in, first out.  On an initialised list, with successful allocations of
  distinct fresh nodes, inserting any values at the back and popping as many at the front returns
  exactly the inserted values in their order and leaves an empty list; no step faults or loops.\<close>

theorem list_queue_fifo:
  assumes "kl_first l \<noteq> kl_last l" and "distinct (map fst nvs)"
    and "\<forall>(n, v) \<in> set nvs. fresh_node n (list_init l h) \<and> v \<noteq> 0"
  shows "\<exists>h1 h2. insert_all (\<lambda>n v. list_insert_back n l v) nvs (list_init l h) = Some h1
    \<and> pop_count (list_pop_front l) (length nvs) h1 = Some (map snd nvs, h2)
    \<and> list_isempty l h2 = Some True"
proof -
  have "list_of l (list_init l h) []"
    unfolding list_of_def using list_init_rel [OF assms(1)] by blast
  from klq.fifo [OF this assms(2,3)] obtain h1 h2 where
    run: "insert_all (\<lambda>n v. list_insert_back n l v) nvs (list_init l h) = Some h1"
      "pop_count (list_pop_front l) (length nvs) h1 = Some (map snd nvs, h2)"
      "list_of l h2 []" by blast
  moreover have "list_isempty l h2 = Some True"
    using run(3) list_isempty_rel by (fastforce simp: list_of_def)
  ultimately show ?thesis by blast
qed

theorem list_queue_fifo_witness:
  "\<exists>h1 h2. insert_all (\<lambda>n v. list_insert_back n \<lparr>kl_first = 16, kl_last = 28\<rparr> v)
      [(64, 5), (96, 7)] (list_init \<lparr>kl_first = 16, kl_last = 28\<rparr> Map.empty) = Some h1
    \<and> pop_count (list_pop_front \<lparr>kl_first = 16, kl_last = 28\<rparr>) (length [(64 :: ptr, 5 :: ptr), (96, 7)]) h1
        = Some (map snd [(64 :: ptr, 5 :: ptr), (96, 7)], h2)
    \<and> list_isempty \<lparr>kl_first = 16, kl_last = 28\<rparr> h2 = Some True"
  by (rule list_queue_fifo) (simp_all add: fresh_node_def list_init_def)

text \<open>Removing on a condition is a filter.  The walk visits every entry once, runs the extra
  statement on exactly the entries that satisfy the condition, in order, frees their nodes, keeps
  the others in order and writes to no other memory.\<close>

theorem list_remove_on_cond_filters:
  assumes "klist_rel l h ns xs"
  shows "\<exists>h'. list_remove_on_cond_extra l cond h = Some (filter cond xs, h')
    \<and> klist_rel l h' (filter (\<lambda>a. \<not> cond (node_value h a)) ns) (filter (\<lambda>x. \<not> cond x) xs)
    \<and> (\<forall>a \<in> set ns. cond (node_value h a) \<longrightarrow> h' a = None)
    \<and> (\<forall>y. y \<notin> footprint l ns \<longrightarrow> h' y = h y)"
  by (rule list_remove_on_cond_extra_rel [OF assms, of cond]) blast

definition sample_heap :: heap where
  "sample_heap = [16 \<mapsto> mk_node 0 0 64, 64 \<mapsto> mk_node 5 16 96, 96 \<mapsto> mk_node 7 64 28, 28 \<mapsto> mk_node 0 96 0]"

lemma sample_rel: "klist_rel \<lparr>kl_first = 16, kl_last = 28\<rparr> sample_heap [64, 96] [5, 7]"
  by (simp add: klist_rel_def sample_heap_def node_value_def)

theorem list_remove_on_cond_filters_witness:
  "\<exists>h'. list_remove_on_cond_extra \<lparr>kl_first = 16, kl_last = 28\<rparr> (\<lambda>v. v = 5) sample_heap = Some ([5], h')
    \<and> klist_rel \<lparr>kl_first = 16, kl_last = 28\<rparr> h' [96] [7] \<and> h' 64 = None"
  using list_remove_on_cond_filters [OF sample_rel, of "\<lambda>v. v = 5"]
  by (auto simp: sample_heap_def node_value_def)

lemma insert_ordered_mset: "mset (insert_ordered compare v xs) = add_mset v (mset xs)"
  unfolding insert_ordered_def using takeWhile_dropWhile_id [of _ xs]
  by (metis (no_types, lifting) add_mset_add_single mset.simps(2) mset_append union_mset_add_mset_right)

lemma sorted_insert_ordered:
  assumes "sorted_wrt (\<lambda>x y. compare x y \<ge> 0) xs"
    and trans: "\<And>x y z. compare x y \<ge> 0 \<Longrightarrow> compare y z \<ge> 0 \<Longrightarrow> compare x z \<ge> (0 :: int)"
    and total: "\<And>x y. \<not> compare x y > 0 \<Longrightarrow> compare y x \<ge> 0"
  shows "sorted_wrt (\<lambda>x y. compare x y \<ge> 0) (insert_ordered compare v xs)"
  using assms(1)
proof (induction xs)
  case Nil
  show ?case by (simp add: insert_ordered_def)
next
  case (Cons x xs)
  show ?case
  proof (cases "compare x v > 0")
    case True
    then have "insert_ordered compare v (x # xs) = x # insert_ordered compare v xs"
      by (simp add: insert_ordered_def)
    moreover have "set (insert_ordered compare v xs) = insert v (set xs)"
      using insert_ordered_mset [of compare v xs] by (metis set_mset_add_mset_insert set_mset_mset)
    ultimately show ?thesis using Cons True by auto
  next
    case False
    then show ?thesis using Cons.prems trans [of v x] total [of x v]
      by (auto simp: insert_ordered_def)
  qed
qed

text \<open>Ordered insertion keeps a list ordered.  If the entries are in non-increasing order under
  a transitive comparison, they still are after \<open>list_insert_ordered\<close>, and the entries are the old
  ones and the new one.\<close>

theorem list_insert_ordered_sorted:
  assumes "klist_rel l h ns xs" and "v \<noteq> 0" and "fresh_node node h"
    and "sorted_wrt (\<lambda>x y. compare x y \<ge> 0) xs"
    and "\<And>x y z. compare x y \<ge> 0 \<Longrightarrow> compare y z \<ge> 0 \<Longrightarrow> compare x z \<ge> (0 :: int)"
    and "\<And>x y. \<not> compare x y > 0 \<Longrightarrow> compare y x \<ge> 0"
  shows "\<exists>h' ns' xs'. list_insert_ordered compare node l v h = Some (0, h') \<and> klist_rel l h' ns' xs'
    \<and> sorted_wrt (\<lambda>x y. compare x y \<ge> 0) xs' \<and> mset xs' = add_mset v (mset xs)"
proof -
  have "node \<noteq> 0" using assms(3) by (simp add: fresh_node_def)
  from list_insert_ordered_rel [OF assms(1,2) this fresh_node_footprint [OF assms(1,3)]]
  obtain ns' h' where "list_insert_ordered compare node l v h = Some (0, h')"
    "klist_rel l h' ns' (insert_ordered compare v xs)" by metis
  moreover have "sorted_wrt (\<lambda>x y. compare x y \<ge> 0) (insert_ordered compare v xs)"
    by (rule sorted_insert_ordered) (use assms(4-6) in blast)+
  ultimately show ?thesis
    using insert_ordered_mset [of compare v xs] by (intro exI conjI) assumption+
qed

theorem list_insert_ordered_sorted_witness:
  "\<exists>h' ns' xs'. list_insert_ordered (\<lambda>x y. int (unat y) - int (unat x)) 112
      \<lparr>kl_first = 16, kl_last = 28\<rparr> 6 sample_heap = Some (0, h')
    \<and> klist_rel \<lparr>kl_first = 16, kl_last = 28\<rparr> h' ns' xs'
    \<and> sorted_wrt (\<lambda>x y. int (unat y) - int (unat x) \<ge> 0) xs' \<and> mset xs' = add_mset 6 (mset [5, 7])"
  by (rule list_insert_ordered_sorted [OF sample_rel])
    (simp_all add: fresh_node_def sample_heap_def)

end
