(* ===== verification/Sched.thy ===== *)
theory Sched
  imports KList "HOL-Library.Monad_Syntax"
begin

text \<open>
  \<open>task/task.c\<close>, \<open>task/sched.c\<close>, \<open>task/session.c\<close> and the process numbers of \<open>task/clone.c\<close>: the task
  structures, the list of tasks, the run queue and the current task.  The lists are the HOL lists their
  nodes represent (\<open>KList\<close> relates the two).  The kernel is not preemptible: a task gives up the processor
  only in \<open>schedule\<close>, and interrupt handlers only wake tasks up.
\<close>

section \<open>Tasks\<close>

record sigaction =
  sa_sigaction :: ptr
  sa_mask :: u32
  sa_flags :: u32
  sa_restorer :: ptr

text \<open>The fields of \<open>struct siginfo\<close> the kernel fills in.\<close>

record siginfo =
  si_signo :: u32
  si_code :: int
  si_pid :: u32
  si_status :: int

record sigpending =
  blocked_mask :: u32
  pending_mask :: u32
  forced_mask :: u32
  siginfos :: "u32 \<rightharpoonup> siginfo"

datatype task_state = TASK_RUNNING | TASK_INTERRUPTIBLE | TASK_UNINTERRUPTIBLE | TASK_ZOMBIE | TASK_DEAD

datatype subsystem = SUBSYSTEM_LINUX | SUBSYSTEM_ECE391

record task_struct =
  t_pid :: u16
  t_ppid :: u16
  t_session :: ptr
  t_pgid :: u32
  t_sigpending :: sigpending
  t_sigactions :: ptr
  t_state :: task_state
  t_wakeup_current :: bool
  t_stopped :: bool
  t_subsystem :: subsystem
  t_exitcode :: int

record sigactions =
  sas_refcount :: int
  sas_actions :: "u32 \<Rightarrow> sigaction"

text \<open>A session; \<open>0\<close> is no terminal.\<close>

record session =
  se_refcount :: int
  se_sid :: u32
  se_tty :: ptr
  se_foreground_pgid :: u32

text \<open>
  The kernel's state: the objects by address, the lists \<open>tasks\<close>, \<open>schedule_queue\<close> and \<open>free_tasks\<close>, the
  current and the swapper task, the counter of \<open>_next_pid\<close> and the answers of \<open>kmalloc\<close>.
\<close>

record kst =
  k_objs :: "ptr \<rightharpoonup> task_struct"
  k_tasks :: "ptr list"
  k_queue :: "ptr list"
  k_free :: "ptr list"
  k_current :: ptr
  k_swapper :: ptr
  k_actions :: "ptr \<rightharpoonup> sigactions"
  k_sessions :: "ptr \<rightharpoonup> session"
  k_ttys :: "ptr \<rightharpoonup> ptr" \<comment> \<open>the session of a terminal\<close>
  k_pid :: u16
  k_answers :: answers

abbreviation set_task :: "ptr \<Rightarrow> task_struct \<Rightarrow> kst \<Rightarrow> kst" where
  "set_task t x st \<equiv> st\<lparr>k_objs := (k_objs st)(t \<mapsto> x)\<rparr>"

abbreviation current_task :: "kst \<Rightarrow> task_struct option" where
  "current_task st \<equiv> k_objs st (k_current st)"

definition k_kmalloc :: "kst \<Rightarrow> bool \<times> kst" where
  "k_kmalloc st = (let (ok, ans) = kmalloc (k_answers st) in (ok, st\<lparr>k_answers := ans\<rparr>))"

section \<open>Looking tasks up\<close>

definition MAXPID :: u16 where "MAXPID = 32767"
definition LOOPPID :: u16 where "LOOPPID = 16"

fun find_task :: "(ptr \<rightharpoonup> task_struct) \<Rightarrow> u16 \<Rightarrow> ptr list \<Rightarrow> (int + ptr) option" where
  "find_task objs pid [] = Some (Inl (- ESRCH))"
| "find_task objs pid (t # ts) = do {
     x \<leftarrow> objs t;
     if t_pid x = pid then Some (Inr t) else find_task objs pid ts }"

definition get_task_from_pid :: "u16 \<Rightarrow> kst \<Rightarrow> (int + ptr) option" where
  "get_task_from_pid pid st =
     (if pid > MAXPID then Some (Inl (- ESRCH)) else find_task (k_objs st) pid (k_tasks st))"

text \<open>\<open>clone.c\<close>: process numbers go round from \<open>LOOPPID\<close> when \<open>MAXPID\<close> is reached.\<close>

definition next_pid_once :: "u16 \<Rightarrow> u16 \<times> u16" where
  "next_pid_once pid = (let n = pid + 1 in (pid, if n > MAXPID then LOOPPID else n))"

partial_function (option) next_pid :: "kst \<Rightarrow> (u16 \<times> kst) option" where
  "next_pid st = do {
     let (pid, n) = next_pid_once (k_pid st);
     let st1 = st\<lparr>k_pid := n\<rparr>;
     r \<leftarrow> get_task_from_pid pid st1;
     case r of Inr _ \<Rightarrow> next_pid st1 | Inl _ \<Rightarrow> Some (pid, st1) }"

section \<open>The scheduler\<close>

definition wake_up_process :: "ptr \<Rightarrow> kst \<Rightarrow> kst option" where
  "wake_up_process t st =
     (if t = k_current st then do {
        x \<leftarrow> k_objs st t;
        Some (set_task t (x\<lparr>t_wakeup_current := True\<rparr>) st) }
      else if t \<notin> set (k_queue st) then
        (let (ok, st1) = k_kmalloc st in
         Some (if ok then st1\<lparr>k_queue := k_queue st1 @ [t]\<rparr> else st1))
      else Some st)"

text \<open>
  \<open>schedule\<close> up to the switch: the current task is queued again if it can go on, and the head of the
  queue becomes the current one.  A node that cannot be allocated is not noticed.
\<close>

definition requeue :: "kst \<Rightarrow> kst option" where
  "requeue st = do {
     x \<leftarrow> current_task st;
     if k_current st \<noteq> k_swapper st \<and> \<not> t_stopped x \<and> (t_state x = TASK_RUNNING \<or> t_wakeup_current x)
     then let (ok, st1) = k_kmalloc st in
       Some (set_task (k_current st) (x\<lparr>t_wakeup_current := False\<rparr>)
         (if ok then st1\<lparr>k_queue := k_queue st1 @ [k_current st]\<rparr> else st1))
     else Some st }"

definition schedule :: "kst \<Rightarrow> kst option" where
  "schedule st = do {
     st1 \<leftarrow> requeue st;
     Some (case k_queue st1 of
       [] \<Rightarrow> st1\<lparr>k_current := k_swapper st1\<rparr>
     | t # ts \<Rightarrow> st1\<lparr>k_queue := ts, k_current := t\<rparr>) }"

text \<open>
  The rest of \<open>schedule\<close>, run by the task that is switched to: the stacks of dead tasks, with the task
  structures at their bottoms, are freed.  A task that frees its own stack faults.
\<close>

definition do_free_tasks :: "kst \<Rightarrow> kst option" where
  "do_free_tasks st =
     (if k_current st \<in> set (k_free st) then None
      else Some (st\<lparr>k_objs := (k_objs st) |` (- set (k_free st)), k_free := []\<rparr>))"

section \<open>Sessions and process groups\<close>

fun group_exists :: "(ptr \<rightharpoonup> task_struct) \<Rightarrow> u32 \<Rightarrow> ptr list \<Rightarrow> bool option" where
  "group_exists objs pgid [] = Some False"
| "group_exists objs pgid (t # ts) = do {
     x \<leftarrow> objs t;
     if t_pgid x = pgid then Some True else group_exists objs pgid ts }"

text \<open>\<open>s\<close> is the address \<open>kmalloc\<close> returns for the session.\<close>

definition do_setsid :: "ptr \<Rightarrow> kst \<Rightarrow> (int \<times> kst) option" where
  "do_setsid s st = do {
     x \<leftarrow> current_task st;
     found \<leftarrow> group_exists (k_objs st) (ucast (t_pid x)) (k_tasks st);
     if found then Some (- EPERM, st)
     else
       (let (ok, st1) = k_kmalloc st in
        if \<not> ok then Some (- ENOMEM, st1)
        else Some (int (unat (t_pid x)),
          set_task (k_current st) (x\<lparr>t_session := s, t_pgid := ucast (t_pid x)\<rparr>)
            (st1\<lparr>k_sessions := (k_sessions st1)(s \<mapsto>
              \<lparr>se_refcount = 1, se_sid = ucast (t_pid x), se_tty = 0,
               se_foreground_pgid = ucast (t_pid x)\<rparr>)\<rparr>))) }"

text \<open>\<open>tty_put\<close> is the terminal's: \<open>put\<close> gives its effect on the rest of the state.\<close>

definition put_session :: "(ptr \<Rightarrow> kst \<Rightarrow> kst option) \<Rightarrow> kst \<Rightarrow> kst option" where
  "put_session put st = do {
     x \<leftarrow> current_task st;
     let s = t_session x;
     let st1 = set_task (k_current st) (x\<lparr>t_session := 0, t_pgid := 0\<rparr>) st;
     if s = 0 then Some st1
     else do {
       se \<leftarrow> k_sessions st1 s;
       if se_refcount se - 1 \<noteq> 0
       then Some (st1\<lparr>k_sessions := (k_sessions st1)(s \<mapsto> se\<lparr>se_refcount := se_refcount se - 1\<rparr>)\<rparr>)
       else do {
         st2 \<leftarrow> (if se_tty se = 0 then Some st1
           else do {
             owner \<leftarrow> k_ttys st1 (se_tty se);
             put (se_tty se)
               (if owner = s then st1\<lparr>k_ttys := (k_ttys st1)(se_tty se \<mapsto> 0)\<rparr> else st1) });
         Some (st2\<lparr>k_sessions := (k_sessions st2)(s := None)\<rparr>) } } }"

definition do_setpgid :: "int \<Rightarrow> int \<Rightarrow> kst \<Rightarrow> (int \<times> kst) option" where
  "do_setpgid pid pgid st = do {
     x \<leftarrow> current_task st;
     let pid1 = (if pid = 0 then int (unat (t_pid x)) else pid);
     let pgid1 = (if pgid = 0 then int (unat (t_pid x)) else pgid);
     r \<leftarrow> get_task_from_pid (word_of_int pid1) st;
     (case r of
       Inl e \<Rightarrow> Some (e, st)
     | Inr t \<Rightarrow> do {
         r2 \<leftarrow> get_task_from_pid (word_of_int pgid1) st;
         (case r2 of
           Inl e \<Rightarrow> Some (e, st)
         | Inr l \<Rightarrow> do {
             y \<leftarrow> k_objs st t;
             z \<leftarrow> k_objs st l;
             if t_session y = 0 \<or> t_session z = 0 then Some (- EINVAL, st)
             else do {
               se \<leftarrow> k_sessions st (t_session y);
               if se_sid se = ucast (t_pid y) then Some (- EPERM, st)
               else if t_session y \<noteq> t_session z then Some (- EPERM, st)
               else Some (0, set_task t (y\<lparr>t_pgid := of_s32 pgid1\<rparr>) st) } }) }) }"

definition sys_getpgid :: "u32 \<Rightarrow> kst \<Rightarrow> int option" where
  "sys_getpgid pid st = do {
     r \<leftarrow> get_task_from_pid (ucast pid) st;
     (case r of Inl e \<Rightarrow> Some e | Inr t \<Rightarrow> do { x \<leftarrow> k_objs st t; Some (s32 (t_pgid x)) }) }"

section \<open>Looking tasks up, proved\<close>

text \<open>The objects of the tasks exist, and their numbers are distinct and positive.\<close>

definition tasks_inv :: "kst \<Rightarrow> bool" where
  "tasks_inv st \<longleftrightarrow> (\<forall>t \<in> set (k_tasks st). k_objs st t \<noteq> None)"

definition pid_of :: "kst \<Rightarrow> ptr \<Rightarrow> u16" where
  "pid_of st t = t_pid (the (k_objs st t))"

lemma find_task_result:
  assumes "\<forall>t \<in> set ts. objs t \<noteq> None"
  shows "case find_task objs pid ts of
      Some (Inr t) \<Rightarrow> t \<in> set ts \<and> (\<exists>x. objs t = Some x \<and> t_pid x = pid)
    | Some (Inl e) \<Rightarrow> e = - ESRCH \<and> (\<forall>t \<in> set ts. \<forall>x. objs t = Some x \<longrightarrow> t_pid x \<noteq> pid)
    | None \<Rightarrow> False"
  using assms
proof (induction ts)
  case (Cons t ts)
  from Cons.prems obtain x where x: "objs t = Some x" by auto
  show ?case
  proof (cases "t_pid x = pid")
    case False
    with Cons x show ?thesis by (auto split: option.splits sum.splits)
  qed (use x in auto)
qed simp

lemma get_task_found:
  assumes "tasks_inv st" and "get_task_from_pid pid st = Some (Inr t)"
  shows "t \<in> set (k_tasks st)" and "\<exists>x. k_objs st t = Some x \<and> t_pid x = pid"
  using assms find_task_result [of "k_tasks st" "k_objs st" pid]
  by (auto simp: get_task_from_pid_def tasks_inv_def split: if_splits)

lemma get_task_missing:
  assumes "tasks_inv st" and "get_task_from_pid pid st = Some (Inl e)" and "pid \<le> MAXPID"
  shows "e = - ESRCH" and "\<forall>t \<in> set (k_tasks st). pid_of st t \<noteq> pid"
  using assms find_task_result [of "k_tasks st" "k_objs st" pid]
  by (auto simp: get_task_from_pid_def tasks_inv_def pid_of_def split: if_splits)

lemma get_task_total: "tasks_inv st \<Longrightarrow> get_task_from_pid pid st \<noteq> None"
  using find_task_result [of "k_tasks st" "k_objs st" pid]
  by (auto simp: get_task_from_pid_def tasks_inv_def split: if_splits option.splits)

section \<open>Process numbers\<close>

text \<open>How many steps the counter needs from \<open>n\<close> to reach \<open>goal\<close>.\<close>

definition pid_distance :: "nat \<Rightarrow> nat \<Rightarrow> nat" where
  "pid_distance goal n = (if n \<le> goal then goal - n else 32767 - n + 1 + (goal - 16))"

lemma next_pid_once_steps:
  assumes n: "n \<le> MAXPID" and goal: "16 \<le> goal" "goal \<le> 32767" and ne: "unat n \<noteq> goal"
  shows "pid_distance goal (unat (snd (next_pid_once n))) < pid_distance goal (unat n)"
    and "snd (next_pid_once n) \<le> MAXPID"
proof -
  have le: "unat n \<le> 32767" using n by (simp add: MAXPID_def word_le_nat_alt)
  have suc: "unat (n + 1) = Suc (unat n)" using le by (intro unat_suc_small) simp
  show "snd (next_pid_once n) \<le> MAXPID"
    by (simp add: next_pid_once_def Let_def LOOPPID_def MAXPID_def not_less)
  show "pid_distance goal (unat (snd (next_pid_once n))) < pid_distance goal (unat n)"
  proof (cases "unat n = 32767")
    case True
    then have "MAXPID < n + 1" using suc by (simp add: MAXPID_def word_less_nat_alt)
    then show ?thesis using True goal ne
      by (simp add: next_pid_once_def Let_def LOOPPID_def pid_distance_def)
  next
    case False
    then have "\<not> MAXPID < n + 1" using suc le by (simp add: MAXPID_def word_less_nat_alt)
    then show ?thesis using suc goal ne le False
      by (auto simp: next_pid_once_def Let_def pid_distance_def)
  qed
qed

lemma next_pid_terminates:
  assumes inv: "tasks_inv st" and n: "k_pid st \<le> MAXPID"
    and goal: "16 \<le> unat goal" "goal \<le> MAXPID" and free: "\<forall>t \<in> set (k_tasks st). pid_of st t \<noteq> goal"
  shows "\<exists>pid n. next_pid st = Some (pid, st\<lparr>k_pid := n\<rparr>) \<and> n \<le> MAXPID \<and> pid \<le> MAXPID
    \<and> (\<forall>t \<in> set (k_tasks st). pid_of st t \<noteq> pid)"
  using inv n free
proof (induction "pid_distance (unat goal) (unat (k_pid st))" arbitrary: st rule: less_induct)
  case less
  define pid where "pid = k_pid st"
  obtain n where once: "next_pid_once pid = (pid, n)" by (simp add: next_pid_once_def Let_def)
  let ?st = "st\<lparr>k_pid := n\<rparr>"
  have inv1: "tasks_inv ?st" using less.prems by (simp add: tasks_inv_def)
  have goal2: "unat goal \<le> 32767" using goal by (simp add: MAXPID_def word_le_nat_alt)
  have n1: "n \<le> MAXPID" using once
    by (auto simp: next_pid_once_def Let_def LOOPPID_def MAXPID_def not_less)
  have lim: "pid \<le> MAXPID" using less.prems(2) by (simp add: pid_def)
  obtain r where r: "get_task_from_pid pid ?st = Some r" using get_task_total [OF inv1] by blast
  have unfold: "next_pid st = (case r of Inr _ \<Rightarrow> next_pid ?st | Inl _ \<Rightarrow> Some (pid, ?st))"
    by (subst next_pid.simps) (simp add: pid_def [symmetric] once r Let_def split: sum.splits)
  show ?case
  proof (cases r)
    case (Inl e)
    then have "\<forall>t \<in> set (k_tasks st). pid_of st t \<noteq> pid"
      using get_task_missing [OF inv1] r lim by (auto simp: pid_of_def)
    then show ?thesis using n1 lim unfold Inl by auto
  next
    case (Inr t)
    have "t \<in> set (k_tasks st)" "pid_of st t = pid"
      using get_task_found [OF inv1 r [unfolded Inr]] by (auto simp: pid_of_def)
    then have "pid \<noteq> goal" using less.prems(3) by auto
    then have "unat pid \<noteq> unat goal" by (metis word_unat_eq_iff)
    from next_pid_once_steps(1) [OF lim goal(1) goal2 this]
    have d: "pid_distance (unat goal) (unat (k_pid ?st)) < pid_distance (unat goal) (unat (k_pid st))"
      by (simp add: once pid_def [symmetric])
    have "\<forall>t \<in> set (k_tasks ?st). pid_of ?st t \<noteq> goal" using less.prems(3) by (simp add: pid_of_def)
    from less.hyps [OF d inv1 _ this] n1 show ?thesis by (simp add: unfold Inr pid_of_def)
  qed
qed

section \<open>Runs of the scheduler\<close>

text \<open>
  What happens to the run queue: tasks and interrupt handlers wake tasks up, and the current task
  assigns its state, stops, or gives up the processor.  A run is recorded with the current task after
  each step.
\<close>

datatype sched_act = Wake ptr | Yield | SetState task_state | Stop | Cont ptr

inductive sched_step :: "kst \<Rightarrow> sched_act \<Rightarrow> kst \<Rightarrow> bool" where
  wake: "wake_up_process t st = Some st' \<Longrightarrow> sched_step st (Wake t) st'"
| yield: "schedule st = Some st' \<Longrightarrow> sched_step st Yield st'"
| set_state: "current_task st = Some x \<Longrightarrow>
    sched_step st (SetState s) (set_task (k_current st) (x\<lparr>t_state := s\<rparr>) st)"
| stop: "current_task st = Some x \<Longrightarrow>
    sched_step st Stop (set_task (k_current st) (x\<lparr>t_stopped := True\<rparr>) st)"
| cont: "k_objs st t = Some x \<Longrightarrow>
    sched_step st (Cont t) (set_task t (x\<lparr>t_stopped := False\<rparr>) st)"

inductive_cases sched_step_cases: "sched_step st a st'"
inductive_simps sched_step_yield: "sched_step st Yield st'"

inductive sched_run :: "kst \<Rightarrow> (sched_act \<times> ptr) list \<Rightarrow> kst \<Rightarrow> bool" where
  finish: "sched_run st [] st"
| step: "sched_step st a st1 \<Longrightarrow> sched_run st1 tr st2 \<Longrightarrow> sched_run st ((a, k_current st1) # tr) st2"

definition run_inv :: "kst \<Rightarrow> bool" where
  "run_inv st \<longleftrightarrow> distinct (k_queue st) \<and> k_current st \<notin> set (k_queue st)"

lemma k_kmalloc_frame [simp]:
  "k_kmalloc st = (ok, st1) \<Longrightarrow> k_queue st1 = k_queue st \<and> k_current st1 = k_current st
    \<and> k_objs st1 = k_objs st \<and> k_swapper st1 = k_swapper st \<and> k_free st1 = k_free st
    \<and> k_tasks st1 = k_tasks st \<and> k_actions st1 = k_actions st"
  by (auto simp: k_kmalloc_def split: prod.splits)

lemma requeue_queue:
  "requeue st = Some st' \<Longrightarrow> k_current st' = k_current st \<and> k_swapper st' = k_swapper st
    \<and> (k_queue st' = k_queue st \<or> k_queue st' = k_queue st @ [k_current st])"
  by (auto simp: requeue_def bind_eq_Some_conv split: if_splits prod.splits)

lemma wake_queue:
  "wake_up_process t st = Some st' \<Longrightarrow> k_current st' = k_current st
    \<and> (k_queue st' = k_queue st \<or>
       t \<noteq> k_current st \<and> t \<notin> set (k_queue st) \<and> k_queue st' = k_queue st @ [t])"
  by (auto simp: wake_up_process_def bind_eq_Some_conv split: if_splits prod.splits)

lemma schedule_queue:
  assumes "schedule st = Some st'"
  obtains q where "q = k_queue st \<or> q = k_queue st @ [k_current st]"
    and "case q of [] \<Rightarrow> k_queue st' = [] \<and> k_current st' = k_swapper st
     | t # ts \<Rightarrow> k_queue st' = ts \<and> k_current st' = t"
proof -
  from assms obtain st1 where st1: "requeue st = Some st1"
    and st': "st' = (case k_queue st1 of [] \<Rightarrow> st1\<lparr>k_current := k_swapper st1\<rparr>
       | t # ts \<Rightarrow> st1\<lparr>k_queue := ts, k_current := t\<rparr>)"
    by (auto simp: schedule_def bind_eq_Some_conv)
  have "case k_queue st1 of [] \<Rightarrow> k_queue st' = [] \<and> k_current st' = k_swapper st
     | t # ts \<Rightarrow> k_queue st' = ts \<and> k_current st' = t"
    using requeue_queue [OF st1] by (cases "k_queue st1") (auto simp: st')
  then show thesis using that requeue_queue [OF st1] by blast
qed

lemma schedule_inv:
  assumes "run_inv st" and "schedule st = Some st'"
  shows "run_inv st'"
proof -
  from schedule_queue [OF assms(2)] obtain q where
    q: "q = k_queue st \<or> q = k_queue st @ [k_current st]"
    and popped: "case q of [] \<Rightarrow> k_queue st' = [] \<and> k_current st' = k_swapper st
      | t # ts \<Rightarrow> k_queue st' = ts \<and> k_current st' = t" by blast
  have "distinct q" using q assms(1) by (auto simp: run_inv_def)
  with popped show ?thesis by (cases q) (auto simp: run_inv_def)
qed

lemma sched_step_inv: "sched_step st a st' \<Longrightarrow> run_inv st \<Longrightarrow> run_inv st'"
proof (induction rule: sched_step.induct)
  case (wake t st st')
  then show ?case by (auto simp: run_inv_def dest!: wake_queue)
next
  case (yield st st')
  then show ?case by (blast intro: schedule_inv)
qed (simp_all add: run_inv_def)

lemma sched_run_inv: "sched_run st tr st' \<Longrightarrow> run_inv st \<Longrightarrow> run_inv st'"
  by (induction rule: sched_run.induct) (auto intro: sched_step_inv)

lemma queue_position:
  assumes "sched_step st a st'" and "k_queue st = xs @ t # ys"
  shows "if a = Yield then (case xs of [] \<Rightarrow> k_current st' = t | _ # us \<Rightarrow> \<exists>zs. k_queue st' = us @ t # zs)
    else \<exists>zs. k_queue st' = xs @ t # zs"
  using assms(1)
proof cases
  case (wake u)
  with assms(2) show ?thesis by (auto dest!: wake_queue)
next
  case yield
  from schedule_queue [OF yield(2)] obtain q where
    "q = k_queue st \<or> q = k_queue st @ [k_current st]"
    "case q of [] \<Rightarrow> k_queue st' = [] \<and> k_current st' = k_swapper st
     | t # ts \<Rightarrow> k_queue st' = ts \<and> k_current st' = t" by blast
  with assms(2) yield(1) show ?thesis by (cases xs) auto
qed (use assms(2) in auto)

lemma queued_task_runs:
  assumes "sched_run st tr st'" and "k_queue st = xs @ t # ys"
    and "length xs < length (filter (\<lambda>(a, c). a = Yield) tr)"
  shows "(Yield, t) \<in> set tr"
  using assms
proof (induction arbitrary: xs ys rule: sched_run.induct)
  case (step st a st1 tr st2)
  note pos = queue_position [OF step.hyps(1) step.prems(1)]
  show ?case
  proof (cases "a = Yield")
    case True
    show ?thesis
    proof (cases xs)
      case Nil
      with pos True show ?thesis by simp
    next
      case (Cons x us)
      with pos True obtain zs where "k_queue st1 = us @ t # zs" by auto
      from step.IH [OF this] step.prems(2) True Cons show ?thesis by simp
    qed
  next
    case False
    with pos obtain zs where "k_queue st1 = xs @ t # zs" by auto
    from step.IH [OF this] step.prems(2) False show ?thesis by simp
  qed
qed simp

section \<open>What waking changes\<close>

text \<open>A task that will run: it is queued, or it is the current one and will be queued when it gives way.\<close>

definition will_run :: "kst \<Rightarrow> ptr \<Rightarrow> bool" where
  "will_run st t \<longleftrightarrow> t \<in> set (k_queue st) \<or> (t = k_current st \<and> (\<exists>x. k_objs st t = Some x \<and> t_wakeup_current x))"

text \<open>The interrupt changes nothing of the kernel but the queue and the flag of the current task.\<close>

definition wake_ext :: "kst \<Rightarrow> kst \<Rightarrow> bool" where
  "wake_ext st st1 \<longleftrightarrow> k_current st1 = k_current st \<and> (k_answers st = [] \<longrightarrow> k_answers st1 = []) \<and>
     (k_objs st (k_current st) \<noteq> None \<longrightarrow> k_objs st1 (k_current st) \<noteq> None) \<and>
     (\<forall>t. will_run st t \<longrightarrow> will_run st1 t)"

lemma wake_ext_refl: "wake_ext st st"
  by (simp add: wake_ext_def)

lemma wake_ext_trans: "wake_ext a b \<Longrightarrow> wake_ext b c \<Longrightarrow> wake_ext a c"
  by (simp add: wake_ext_def)

lemma wake_up_process_runs:
  assumes "k_objs st (k_current st) \<noteq> None" and "k_answers st = []"
  shows "\<exists>st1. wake_up_process t st = Some st1 \<and> wake_ext st st1 \<and> will_run st1 t"
  using assms by (auto simp: wake_up_process_def k_kmalloc_def wake_ext_def will_run_def)

section \<open>Properties\<close>

text \<open>Two tasks and the swapper; the first task runs, the second one waits.\<close>

definition no_signals :: sigpending where
  "no_signals = \<lparr>blocked_mask = 0, pending_mask = 0, forced_mask = 0, siginfos = Map.empty\<rparr>"

definition sample_task :: "u16 \<Rightarrow> task_struct" where
  "sample_task pid = \<lparr>t_pid = pid, t_ppid = 1, t_session = 0, t_pgid = 16, t_sigpending = no_signals,
     t_sigactions = 128, t_state = TASK_RUNNING, t_wakeup_current = False, t_stopped = False,
     t_subsystem = SUBSYSTEM_LINUX, t_exitcode = 0\<rparr>"

lemma sample_task_simps [simp]:
  "t_pid (sample_task p) = p" "t_pgid (sample_task p) = 16" "t_sigpending (sample_task p) = no_signals"
  "t_sigactions (sample_task p) = 128" "t_state (sample_task p) = TASK_RUNNING"
  "t_subsystem (sample_task p) = SUBSYSTEM_LINUX" "t_stopped (sample_task p) = False"
  "t_wakeup_current (sample_task p) = False" "t_ppid (sample_task p) = 1"
  by (simp_all add: sample_task_def)

definition sample_kst :: kst where
  "sample_kst = \<lparr>
     k_objs = [32 \<mapsto> sample_task 0, 64 \<mapsto> sample_task 16, 96 \<mapsto> (sample_task 17)\<lparr>t_state := TASK_INTERRUPTIBLE\<rparr>],
     k_tasks = [64, 96], k_queue = [], k_free = [], k_current = 64, k_swapper = 32,
     k_actions = [128 \<mapsto> \<lparr>sas_refcount = 3, sas_actions = (\<lambda>_. \<lparr>sa_sigaction = 0, sa_mask = 0, sa_flags = 0, sa_restorer = 0\<rparr>)\<rparr>],
     k_sessions = Map.empty, k_ttys = Map.empty, k_pid = 16, k_answers = []\<rparr>"

text \<open>C12: process numbers.  While some number of the range that is reused is free, \<open>next_pid\<close> returns, with
  a number no task has.\<close>

theorem next_pid_fresh:
  assumes "tasks_inv st" and "k_pid st \<le> MAXPID" and "LOOPPID \<le> goal" and "goal \<le> MAXPID"
    and "\<forall>t \<in> set (k_tasks st). pid_of st t \<noteq> goal"
  shows "\<exists>pid n. next_pid st = Some (pid, st\<lparr>k_pid := n\<rparr>) \<and> pid \<le> MAXPID \<and> n \<le> MAXPID
    \<and> (\<forall>t \<in> set (k_tasks st). pid_of st t \<noteq> pid)"
  using next_pid_terminates [of st goal] assms by (auto simp: LOOPPID_def word_le_nat_alt)

theorem next_pid_fresh_witness:
  "\<exists>pid n. next_pid sample_kst = Some (pid, sample_kst\<lparr>k_pid := n\<rparr>) \<and> pid \<noteq> 16 \<and> pid \<noteq> 17"
  using next_pid_fresh [of sample_kst 20]
  by (auto simp: sample_kst_def sample_task_def tasks_inv_def pid_of_def MAXPID_def LOOPPID_def)

text \<open>The run queue never holds a task twice, nor the one that is running, whatever tasks and
  interrupt handlers do.\<close>

theorem run_queue_distinct:
  assumes "sched_run st tr st'" and "run_inv st"
  shows "distinct (k_queue st') \<and> k_current st' \<notin> set (k_queue st')"
  using sched_run_inv [OF assms] by (simp add: run_inv_def)

lemma sample_wakes: "sched_step sample_kst (Wake 96) (sample_kst\<lparr>k_queue := [96]\<rparr>)"
  by (rule sched_step.wake) (simp add: wake_up_process_def sample_kst_def k_kmalloc_def)

lemma sample_yields:
  "sched_step (sample_kst\<lparr>k_queue := [96]\<rparr>) Yield (sample_kst\<lparr>k_queue := [64], k_current := 96\<rparr>)"
  by (simp add: sched_step_yield schedule_def requeue_def sample_kst_def k_kmalloc_def)
     (simp add: sample_task_def fun_eq_iff)

lemma sample_run:
  "sched_run (sample_kst\<lparr>k_queue := [96]\<rparr>) [(Yield, 96)] (sample_kst\<lparr>k_queue := [64], k_current := 96\<rparr>)"
  using sched_run.step [OF sample_yields sched_run.finish] by simp

theorem run_queue_distinct_witness: "(96 :: ptr) \<notin> set [64]"
  using run_queue_distinct [OF sample_run] by (simp add: run_inv_def sample_kst_def)

text \<open>C13: a task that is woken up runs.  Whatever tasks are woken or change their state meanwhile, it is
  the current task at the latest when the processor has been given up as many times as there were
  tasks in the queue.\<close>

theorem woken_task_runs:
  assumes "wake_up_process t st = Some st1" and "t \<noteq> k_current st" and "k_answers st = []"
    and "sched_run st1 tr st2" and "length (k_queue st1) \<le> length (filter (\<lambda>(a, c). a = Yield) tr)"
  shows "(Yield, t) \<in> set tr"
proof -
  have "t \<in> set (k_queue st1)"
    using assms(1-3) by (auto simp: wake_up_process_def k_kmalloc_def split: if_splits)
  then obtain xs ys where q: "k_queue st1 = xs @ t # ys" by (auto dest: split_list)
  show ?thesis by (rule queued_task_runs [OF assms(4) q]) (use assms(5) q in simp)
qed

theorem woken_task_runs_witness:
  "\<exists>st1. wake_up_process 96 sample_kst = Some st1 \<and> (Yield, 96 :: ptr) \<in> set [(Yield, 96)]"
proof -
  have w: "wake_up_process 96 sample_kst = Some (sample_kst\<lparr>k_queue := [96]\<rparr>)"
    by (simp add: wake_up_process_def sample_kst_def k_kmalloc_def)
  from woken_task_runs [OF w _ _ sample_run] w show ?thesis by (simp add: sample_kst_def)
qed

end
