(* ===== verification/Exec.thy ===== *)
theory Exec
  imports FdTable Sched
begin

text \<open>
  Loading a program: \<open>task/exec.c\<close> and the command lines of \<open>task/ece391exec_shim.c\<close>.  The file is given by what
  seeking and reading in it answer, memory is a map from addresses to bytes.
\<close>

section \<open>Numbers in memory\<close>

definition le16 :: "u8 list \<Rightarrow> nat \<Rightarrow> u16" where
  "le16 bs i = ucast (bs ! i) OR push_bit 8 (ucast (bs ! (i + 1)))"

definition le32 :: "u8 list \<Rightarrow> nat \<Rightarrow> u32" where
  "le32 bs i = ucast (bs ! i) OR push_bit 8 (ucast (bs ! (i + 1))) OR push_bit 16 (ucast (bs ! (i + 2))) OR
     push_bit 24 (ucast (bs ! (i + 3)))"

definition bytes_of_word :: "u32 \<Rightarrow> u8 list" where
  "bytes_of_word w = [ucast w, ucast (drop_bit 8 w), ucast (drop_bit 16 w), ucast (drop_bit 24 w)]"

definition word_at :: "mem \<Rightarrow> u32 \<Rightarrow> u32" where
  "word_at m p = le32 (bytes m p 4) 0"

section \<open>The header of a program\<close>

record elf_header =
  eh_magic :: "u8 list"
  eh_bit :: u8
  eh_endian :: u8
  eh_header_version :: u8
  eh_abi :: u8
  eh_type :: u16
  eh_isa :: u16
  eh_elf_version :: u32
  eh_entry_pos :: u32
  eh_segment_pos :: u32
  eh_header_size :: u16
  eh_segment_entry_size :: u16
  eh_segment_entry_num :: u16

definition parse_header :: "u8 list \<Rightarrow> elf_header" where
  "parse_header bs = \<lparr>eh_magic = take 4 bs, eh_bit = bs ! 4, eh_endian = bs ! 5, eh_header_version = bs ! 6, eh_abi = bs ! 7,
     eh_type = le16 bs 16, eh_isa = le16 bs 18, eh_elf_version = le32 bs 20, eh_entry_pos = le32 bs 24,
     eh_segment_pos = le32 bs 28, eh_header_size = le16 bs 40, eh_segment_entry_size = le16 bs 42,
     eh_segment_entry_num = le16 bs 44\<rparr>"

definition elf_magic :: "u8 list" where "elf_magic = [0x7F, 0x45, 0x4C, 0x46]"

definition ENOEXEC :: int where "ENOEXEC = 8"
definition EAGAIN :: int where "EAGAIN = 11"

text \<open>The operations of the file: where a seek ends, or its error, and what a read at a position gives.\<close>

record exe_file =
  ex_seek :: "u32 \<Rightarrow> int"
  ex_read :: "u32 \<Rightarrow> u32 \<Rightarrow> int \<times> u8 list"

definition decode_elf :: "exe_file \<Rightarrow> int + elf_header" where
  "decode_elf exe =
     (let s = ex_seek exe 0 in
      if s < 0 then Inl s
      else if s \<noteq> 0 then Inl (- ENOEXEC)
      else (let (n, bs) = ex_read exe 0 52; h = parse_header bs in
        if n < 0 then Inl n
        else if n \<noteq> 52 then Inl (- ENOEXEC)
        else if eh_magic h \<noteq> elf_magic then Inl (- ENOEXEC)
        else if eh_bit h \<noteq> 1 then Inl (- ENOEXEC)
        else if eh_endian h \<noteq> 1 then Inl (- ENOEXEC)
        else if eh_header_version h \<noteq> 1 then Inl (- ENOEXEC)
        else if eh_abi h \<noteq> 0 then Inl (- ENOEXEC)
        else if eh_type h \<noteq> 2 then Inl (- ENOEXEC)
        else if eh_isa h \<noteq> 3 then Inl (- ENOEXEC)
        else if eh_elf_version h \<noteq> 1 then Inl (- ENOEXEC)
        else if eh_header_size h \<noteq> 52 then Inl (- ENOEXEC)
        else if eh_segment_entry_size h \<noteq> 32 then Inl (- ENOEXEC)
        else Inr h))"

text \<open>A program of three segments is taken for one of the course.\<close>

definition exec_subsystem :: "elf_header \<Rightarrow> subsystem" where
  "exec_subsystem h = (if eh_segment_entry_num h = 3 then SUBSYSTEM_ECE391 else SUBSYSTEM_LINUX)"

text \<open>\<open>user\<close> says which tasks have memory of their own.\<close>

fun count_ece391 :: "(ptr \<Rightarrow> bool) \<Rightarrow> ptr list \<Rightarrow> kst \<Rightarrow> nat option" where
  "count_ece391 user [] st = Some 0"
| "count_ece391 user (t # ts) st = do {
     x \<leftarrow> k_objs st t;
     n \<leftarrow> count_ece391 user ts st;
     Some (if user t \<and> t_subsystem x = SUBSYSTEM_ECE391 \<and> t \<noteq> k_current st then n + 1 else n) }"

text \<open>The part of \<open>do_execve\<close> before anything is changed: the header and the subsystem, or the error.\<close>

definition exec_check :: "(ptr \<Rightarrow> bool) \<Rightarrow> exe_file \<Rightarrow> kst \<Rightarrow> (int + elf_header \<times> subsystem) option" where
  "exec_check user exe st =
     (let (n, bs) = ex_read exe 0 4 in
      if n < 0 then Some (Inl n)
      else if bs \<noteq> elf_magic then Some (Inl (- ENOEXEC))
      else (case decode_elf exe of
        Inl e \<Rightarrow> Some (Inl e)
      | Inr h \<Rightarrow>
          (if exec_subsystem h = SUBSYSTEM_ECE391 then do {
             n \<leftarrow> count_ece391 user (k_tasks st) st;
             Some (if n \<ge> 6 then Inl (- EAGAIN) else Inr (h, SUBSYSTEM_ECE391)) }
           else Some (Inr (h, SUBSYSTEM_LINUX)))))"

section \<open>Descriptors that are closed\<close>

fun close_marked :: "nat list \<Rightarrow> fdst \<Rightarrow> fdst option" where
  "close_marked [] st = Some st"
| "close_marked (i # is) st = do {
     f \<leftarrow> fd_get (word_of_nat i) st;
     c \<leftarrow> out (array_get (fd_cloexec st) (word_of_nat i));
     if f \<noteq> 0 \<and> c \<noteq> 0 then do {
       (_, st1) \<leftarrow> on_fs (filp_close f) st;
       (_, st2) \<leftarrow> fd_set True (word_of_nat i) 0 st1;
       st3 \<leftarrow> cloexec_set True (word_of_nat i) 0 st2;
       close_marked is st3 }
     else close_marked is st }"

definition close_on_exec :: "fdst \<Rightarrow> fdst option" where
  "close_on_exec st = close_marked [0..<unat (arr_size (fd_files st))] st"

section \<open>Segments\<close>

record elf_segment =
  es_type :: u32
  es_file_offset :: u32
  es_virt_addr :: u32
  es_file_size :: u32
  es_mem_size :: u32
  es_flags :: u32

definition parse_segment :: "u8 list \<Rightarrow> elf_segment" where
  "parse_segment bs = \<lparr>es_type = le32 bs 0, es_file_offset = le32 bs 4, es_virt_addr = le32 bs 8,
     es_file_size = le32 bs 16, es_mem_size = le32 bs 20, es_flags = le32 bs 24\<rparr>"

text \<open>
  The memory of the program while it is loaded: its bytes, the pages it has asked for (first address, number,
  whether it may write), the break and the address the header was loaded at.
\<close>

record image =
  im_mem :: mem
  im_pages :: "(u32 \<times> u32 \<times> bool) list"
  im_brk :: u32
  im_hdr :: u32

definition seg_base :: "elf_segment \<Rightarrow> u32" where
  "seg_base s = es_virt_addr s div 0x1000 * 0x1000"

definition seg_pages :: "elf_segment \<Rightarrow> u32" where
  "seg_pages s = (es_mem_size s + es_virt_addr s - seg_base s - 1) div 0x1000 + 1"

definition seg_fsize :: "elf_segment \<Rightarrow> u32" where
  "seg_fsize s = (if es_file_size s > es_mem_size s then es_mem_size s else es_file_size s)"

text \<open>\<open>request_pages\<close> clears the pages it gives; \<open>grant\<close> says whether it gives them, after those before.\<close>

definition take_pages :: "u32 \<Rightarrow> u32 \<Rightarrow> bool \<Rightarrow> image \<Rightarrow> image" where
  "take_pages base n wr im = im\<lparr>im_mem := (\<lambda>a. if a - base < n * 0x1000 then 0 else im_mem im a),
     im_pages := im_pages im @ [(base, n, wr)]\<rparr>"

definition load_segment ::
    "(image \<Rightarrow> u32 \<times> u32 \<times> bool \<Rightarrow> bool) \<Rightarrow> exe_file \<Rightarrow> elf_segment \<Rightarrow> image \<Rightarrow> image option" where
  "load_segment grant exe s im =
     (let fsize = seg_fsize s; wr = (es_flags s AND 2 \<noteq> 0); base = seg_base s; n = seg_pages s in
      if \<not> grant im (base, n, wr) then None
      else (let im1 = take_pages base n wr im in
        if ex_seek exe (es_file_offset s) \<noteq> s32 (es_file_offset s) then None
        else (let (r, bs) = ex_read exe (es_file_offset s) fsize in
          if r \<noteq> s32 fsize then None
          else Some (im1\<lparr>im_mem := store (im_mem im1) (es_virt_addr s) bs,
            im_brk := (if wr \<and> (im_brk im1 = 0 \<or> fsize \<noteq> es_mem_size s) then es_virt_addr s + es_mem_size s else im_brk im1),
            im_hdr := (if es_file_offset s = 0 then es_virt_addr s else im_hdr im1)\<rparr>))))"

text \<open>
  The loop over the table of segments; \<open>None\<close> is the jump to \<open>force_sigsegv\<close>.  A segment without memory is
  skipped by \<open>continue\<close>, which also skips the step to the next entry: it is read again.
\<close>

fun load_segments ::
    "(image \<Rightarrow> u32 \<times> u32 \<times> bool \<Rightarrow> bool) \<Rightarrow> exe_file \<Rightarrow> nat \<Rightarrow> u32 \<Rightarrow> image \<Rightarrow> image option" where
  "load_segments grant exe 0 pos im = Some im"
| "load_segments grant exe (Suc k) pos im =
     (if ex_seek exe pos \<noteq> s32 pos then None
      else (let (r, bs) = ex_read exe pos 32; s = parse_segment bs in
        if r \<noteq> 32 then None
        else if es_type s = 1 then
          (if es_mem_size s = 0 then load_segments grant exe k pos im
           else do { im1 \<leftarrow> load_segment grant exe s im; load_segments grant exe k (pos + 32) im1 })
        else if es_type s = 2 \<or> es_type s = 3 then None
        else load_segments grant exe k (pos + 32) im))"

section \<open>The first stack\<close>

text \<open>\<open>push_userstack\<close> on bytes.  Its result is not looked at: what cannot be pushed is left out.\<close>

definition push_bytes :: "(u32 \<Rightarrow> u32 \<Rightarrow> bool) \<Rightarrow> u8 list \<Rightarrow> u32 \<times> mem \<Rightarrow> u32 \<times> mem" where
  "push_bytes safe bs = (\<lambda>(esp, m). let esp1 = esp - word_of_nat (length bs) in
     if safe esp1 (word_of_nat (length bs)) then (esp1, store m esp1 bs) else (esp, m))"

text \<open>The strings, each with its end, and the addresses they are at.\<close>

fun push_strings :: "(u32 \<Rightarrow> u32 \<Rightarrow> bool) \<Rightarrow> u8 list list \<Rightarrow> u32 \<times> mem \<Rightarrow> u32 list \<times> u32 \<times> mem" where
  "push_strings safe [] st = ([], st)"
| "push_strings safe (s # ss) st =
     (let st1 = push_bytes safe (s @ [0]) st; (ps, st2) = push_strings safe ss st1 in (fst st1 # ps, st2))"

definition push_word :: "(u32 \<Rightarrow> u32 \<Rightarrow> bool) \<Rightarrow> u32 \<Rightarrow> u32 \<times> mem \<Rightarrow> u32 \<times> mem" where
  "push_word safe w = push_bytes safe (bytes_of_word w)"

definition push_words :: "(u32 \<Rightarrow> u32 \<Rightarrow> bool) \<Rightarrow> u32 list \<Rightarrow> u32 \<times> mem \<Rightarrow> u32 \<times> mem" where
  "push_words safe ws = push_bytes safe (concat (map bytes_of_word ws))"

text \<open>The auxiliary vector in the order of the pushes: the last one is first in memory.\<close>

definition exec_auxv :: "elf_header \<Rightarrow> u32 \<Rightarrow> u32 \<Rightarrow> u32 \<Rightarrow> (u32 \<times> u32) list" where
  "exec_auxv h hdr rand_ptr hwcap =
     [(0, 0), (11, 0), (12, 0), (13, 0), (14, 0), (25, rand_ptr), (3, hdr + eh_segment_pos h), (4, 32),
      (5, ucast (eh_segment_entry_num h)), (7, hdr), (9, eh_entry_pos h), (6, 4096), (16, hwcap)]"

definition push_auxv :: "(u32 \<Rightarrow> u32 \<Rightarrow> bool) \<Rightarrow> (u32 \<times> u32) list \<Rightarrow> u32 \<times> mem \<Rightarrow> u32 \<times> mem" where
  "push_auxv safe av st = foldl (\<lambda>st (ty, v). push_words safe [ty, v] st) st av"

definition align_stack :: "u32 \<times> mem \<Rightarrow> u32 \<times> mem" where
  "align_stack = (\<lambda>(esp, m). (esp AND NOT 0xF, m))"

text \<open>\<open>rands\<close> are the 16 values of \<open>rdrand\<close>.\<close>

definition setup_stack ::
    "(u32 \<Rightarrow> u32 \<Rightarrow> bool) \<Rightarrow> u8 list list \<Rightarrow> u8 list list \<Rightarrow> u32 list \<Rightarrow> elf_header \<Rightarrow> u32 \<Rightarrow> u32 \<Rightarrow> u32 \<times> mem \<Rightarrow> u32 \<times> mem" where
  "setup_stack safe argv envp rands h hdr hwcap st0 =
     (let (envp_user, st1) = push_strings safe envp st0;
          (argv_user, st2) = push_strings safe argv st1;
          st3 = foldl (\<lambda>st r. push_word safe r st) st2 rands;
          rand_ptr = fst st3;
          st4 = push_auxv safe (exec_auxv h hdr rand_ptr hwcap) (align_stack st3);
          st5 = push_words safe (envp_user @ [0]) st4;
          st6 = push_words safe (argv_user @ [0]) st5 in
      push_word safe (word_of_nat (length argv)) st6)"

text \<open>The stack is one large page that ends at \<open>2 GB\<close>.\<close>

definition stack_top :: u32 where "stack_top = 0x80000000"

text \<open>
  The program in memory and its stack pointer and entry point; \<open>large\<close> says whether the stack's page is there.
\<close>

definition exec_linux ::
    "(image \<Rightarrow> u32 \<times> u32 \<times> bool \<Rightarrow> bool) \<Rightarrow> (image \<Rightarrow> bool) \<Rightarrow> (u32 \<Rightarrow> u32 \<Rightarrow> bool) \<Rightarrow> exe_file \<Rightarrow> elf_header \<Rightarrow>
      u8 list list \<Rightarrow> u8 list list \<Rightarrow> u32 list \<Rightarrow> u32 \<Rightarrow> image \<Rightarrow> (u32 \<times> u32 \<times> image) option" where
  "exec_linux grant large safe exe h argv envp rands hwcap im = do {
     im1 \<leftarrow> load_segments grant exe (unat (eh_segment_entry_num h)) (eh_segment_pos h) im;
     if \<not> large im1 then None
     else (let base = stack_top - 0x400000;
               im2 = im1\<lparr>im_mem := (\<lambda>a. if a - base < 0x400000 then 0 else im_mem im1 a)\<rparr>;
               (esp, m) = setup_stack safe argv envp rands h (im_hdr im2) hwcap (stack_top, im_mem im2) in
       Some (eh_entry_pos h, esp, im2\<lparr>im_mem := m\<rparr>)) }"

section \<open>Programs of the course\<close>

definition ECE391_PAGEADDR :: u32 where "ECE391_PAGEADDR = 0x08000000"
definition ECE391_MAPADDR :: u32 where "ECE391_MAPADDR = 0x48000"
definition ECE391_ARGSADDR :: u32 where "ECE391_ARGSADDR = ECE391_PAGEADDR"

text \<open>
  The file at its fixed place in a page of 4 MB, which is cleared before, and the arguments at its start.  The
  strings of \<open>argv\<close>, here their addresses, are the kernel's.
\<close>

definition put_args :: "ptr \<Rightarrow> ptr \<Rightarrow> mem \<Rightarrow> mem" where
  "put_args arg0 arg1 m = (if arg0 \<noteq> 0 \<and> arg1 \<noteq> 0 then strncpy m ECE391_ARGSADDR arg1 ECE391_MAPADDR
     else m(ECE391_ARGSADDR := 0))"

definition exec_ece391 :: "exe_file \<Rightarrow> ptr \<Rightarrow> ptr \<Rightarrow> mem \<Rightarrow> u32 \<times> u32 \<times> mem" where
  "exec_ece391 exe arg0 arg1 m =
     (let m1 = (\<lambda>a. if a - ECE391_PAGEADDR < 0x400000 then 0 else m a);
          (r, bs) = ex_read exe 0 (0x400000 - ECE391_MAPADDR);
          m2 = store m1 (ECE391_PAGEADDR + ECE391_MAPADDR) bs;
          eip = word_at m2 (ECE391_PAGEADDR + ECE391_MAPADDR + 24) in
      (eip, ECE391_PAGEADDR + 0x400000, put_args arg0 arg1 m2))"

text \<open>
  \<open>ece391execute_child\<close>: a command line is split into the program, up to the first space, and what follows the
  spaces.  \<open>k0\<close> and \<open>k1\<close> are the blocks for the copies, zero without memory.
\<close>

partial_function (option) skip_spaces :: "mem \<Rightarrow> ptr \<Rightarrow> ptr option" where
  "skip_spaces m p = (if m p = 32 then skip_spaces m (p + 1) else Some p)"

definition split_command :: "ptr \<Rightarrow> ptr \<Rightarrow> ptr \<Rightarrow> mem \<Rightarrow> (ptr \<times> ptr \<times> mem) option" where
  "split_command k0 k1 cmd m = do {
     space \<leftarrow> strchr m cmd 32;
     if space \<noteq> 0 then do {
       (arg0, m1) \<leftarrow> strndup k0 m cmd (space - cmd);
       rest \<leftarrow> skip_spaces m1 space;
       (arg1, m2) \<leftarrow> strdup k1 m1 rest;
       Some (arg0, arg1, m2) }
     else do {
       (arg0, m1) \<leftarrow> strdup k0 m cmd;
       Some (arg0, 0, m1) } }"

text \<open>
  \<open>getargs\<close>: \<open>len\<close> is how much can be read at \<open>ECE391_ARGSADDR\<close>, \<open>k\<close> the block for the copy, \<open>n\<close> how much of the
  user's buffer can be written.
\<close>

definition sys_getargs :: "u32 \<Rightarrow> ptr \<Rightarrow> u32 \<Rightarrow> ptr \<Rightarrow> u32 \<Rightarrow> mem \<Rightarrow> (int \<times> mem) option" where
  "sys_getargs len k n buf nbytes m = do {
     (args, m1) \<leftarrow> strndup k m ECE391_ARGSADDR len;
     Some (if args = 0 then (- ENOMEM, m1)
       else if n = 0 \<and> nbytes \<noteq> 0 then (- EFAULT, m1)
       else (0, strncpy m1 buf args n)) }"

section \<open>What is on the stack\<close>

lemma le32_bytes [simp]: "le32 (bytes_of_word w) 0 = w"
proof (rule bit_word_eqI)
  fix n :: nat
  consider "n < 8" | "8 \<le> n" "n < 16" | "16 \<le> n" "n < 24" | "24 \<le> n" by linarith
  then show "bit (le32 (bytes_of_word w) 0) n = bit w n" if "n < LENGTH(32)"
    using that by cases (auto simp: le32_def bytes_of_word_def bit_simps)
qed

lemma length_bytes_of_word [simp]: "length (bytes_of_word w) = 4"
  by (simp add: bytes_of_word_def)

lemma length_words [simp]: "length (concat (map bytes_of_word ws)) = 4 * length ws"
  by (induction ws) simp_all

definition kept :: "u32 \<Rightarrow> mem \<Rightarrow> mem \<Rightarrow> bool" where
  "kept e m m1 \<longleftrightarrow> (\<forall>a. unat e \<le> unat a \<longrightarrow> m1 a = m a)"

lemma kept_refl [simp]: "kept e m m"
  by (simp add: kept_def)

lemma kept_trans: "kept e m m1 \<Longrightarrow> kept e1 m1 m2 \<Longrightarrow> unat e1 \<le> unat e \<Longrightarrow> kept e m m2"
  by (simp add: kept_def)

lemma bytes_kept:
  assumes "kept e m m1" and "unat e \<le> unat p" and "unat p + n \<le> 2 ^ 32"
  shows "bytes m1 p n = bytes m p n"
proof (rule nth_equalityI)
  fix i
  assume "i < length (bytes m1 p n)"
  then have "i < n" by simp
  then have "unat (p + word_of_nat i) = unat p + i"
    using assms(3) by (subst unat_add_small) (simp_all add: unat_of_nat)
  then have "m1 (p + word_of_nat i) = m (p + word_of_nat i)" using assms(1,2) by (simp add: kept_def)
  then show "bytes m1 p n ! i = bytes m p n ! i" using \<open>i < n\<close> by simp
qed simp

lemma bytes_part:
  assumes "i + k \<le> n"
  shows "bytes m (p + word_of_nat i) k = take k (drop i (bytes m p n))"
proof -
  have "bytes m p n = bytes m p i @ bytes m (p + word_of_nat i) (n - i)" using bytes_add [of m p i "n - i"] assms by simp
  moreover have "bytes m (p + word_of_nat i) (n - i) =
      bytes m (p + word_of_nat i) k @ bytes m (p + word_of_nat i + word_of_nat k) (n - i - k)"
    using bytes_add [of m "p + word_of_nat i" k "n - i - k"] assms by simp
  ultimately show ?thesis by simp
qed

lemma words_nth: "i < length ws \<Longrightarrow> take 4 (drop (4 * i) (concat (map bytes_of_word ws))) = bytes_of_word (ws ! i)"
proof (induction ws arbitrary: i)
  case (Cons w ws)
  then show ?case by (cases i) simp_all
qed simp

lemma word_at_words:
  assumes "bytes m p (4 * length ws) = concat (map bytes_of_word ws)" and "i < length ws"
  shows "word_at m (p + word_of_nat (4 * i)) = ws ! i"
proof -
  have "bytes m (p + word_of_nat (4 * i)) 4 = take 4 (drop (4 * i) (concat (map bytes_of_word ws)))"
    using assms by (subst bytes_part [of "4 * i" 4 "4 * length ws"]) simp_all
  then show ?thesis using words_nth [OF assms(2)] by (simp add: word_at_def)
qed

section \<open>Pushing\<close>

text \<open>All of user memory can be written: it is the one large page of the stack.\<close>

abbreviation all_safe :: "u32 \<Rightarrow> u32 \<Rightarrow> bool" where
  "all_safe \<equiv> \<lambda>_ _. True"

definition pushed :: "nat \<Rightarrow> u32 \<times> mem \<Rightarrow> u32 \<times> mem \<Rightarrow> bool" where
  "pushed n st st1 \<longleftrightarrow> unat (fst st1) + n = unat (fst st) \<and> kept (fst st) (snd st) (snd st1) \<and>
     (\<forall>a. unat a < unat (fst st1) \<longrightarrow> snd st1 a = snd st a)"

lemma pushed_trans: "pushed a st st1 \<Longrightarrow> pushed b st1 st2 \<Longrightarrow> pushed (a + b) st st2"
  by (auto simp: pushed_def intro: kept_trans)

lemma push_bytes_ok:
  assumes "length bs \<le> unat (fst st)"
  shows "pushed (length bs) st (push_bytes all_safe bs st) \<and>
    bytes (snd (push_bytes all_safe bs st)) (fst (push_bytes all_safe bs st)) (length bs) = bs"
proof -
  obtain esp m where st: "st = (esp, m)" by force
  have l: "length bs < 2 ^ 32" using assms unat_lt_size32 [of esp] by (simp add: st)
  let ?e = "esp - word_of_nat (length bs)"
  have e: "unat ?e + length bs = unat esp"
    using assms l by (simp add: st unat_sub_le word_le_nat_alt unat_of_nat)
  have "bytes (store m ?e bs) ?e (length bs) = bs"
    by (rule nth_equalityI) (use l in \<open>simp_all add: store_at(1)\<close>)
  moreover have "kept esp m (store m ?e bs)"
    unfolding kept_def
  proof (intro allI impI, rule store_outside)
    fix a :: u32 and i
    assume a: "unat esp \<le> unat a" and i: "i < length bs"
    have "unat (?e + word_of_nat i) = unat ?e + i"
      using e i l unat_lt_size32 [of esp] by (subst unat_add_small) (simp_all add: unat_of_nat)
    then have "unat (?e + word_of_nat i) < unat a" using e i a by linarith
    then show "a \<noteq> ?e + word_of_nat i" by auto
  qed
  moreover have "store m ?e bs a = m a" if "unat a < unat ?e" for a
  proof (rule store_outside)
    fix i
    assume "i < length bs"
    then have "unat (?e + word_of_nat i) = unat ?e + i"
      using e l unat_lt_size32 [of esp] by (subst unat_add_small) (simp_all add: unat_of_nat)
    then show "a \<noteq> ?e + word_of_nat i" using that by auto
  qed
  ultimately show ?thesis using e by (simp add: st push_bytes_def Let_def pushed_def)
qed

lemma push_words_ok:
  assumes "4 * length ws \<le> unat (fst st)"
  defines "st1 \<equiv> push_words all_safe ws st"
  shows "pushed (4 * length ws) st st1" and "bytes (snd st1) (fst st1) (4 * length ws) = concat (map bytes_of_word ws)"
  using push_bytes_ok [of "concat (map bytes_of_word ws)" st] assms(1) by (simp_all add: st1_def push_words_def)

lemma push_word_words: "push_word safe w = push_words safe [w]"
  by (simp add: push_word_def push_words_def)

lemma push_rands_ok:
  "4 * length rs \<le> unat (fst st) \<Longrightarrow> pushed (4 * length rs) st (foldl (\<lambda>st r. push_word all_safe r st) st rs)"
proof (induction rs arbitrary: st)
  case Nil
  then show ?case by (simp add: pushed_def)
next
  case (Cons r rs)
  let ?st1 = "push_word all_safe r st"
  have p: "pushed 4 st ?st1" using push_words_ok(1) [of "[r]" st] Cons.prems by (simp add: push_word_words)
  then have "4 * length rs \<le> unat (fst ?st1)" using Cons.prems by (simp add: pushed_def)
  from pushed_trans [OF p Cons.IH [OF this]] show ?case by simp
qed

lemma pushed_addr: "pushed n st st1 \<Longrightarrow> fst st = fst st1 + word_of_nat n"
proof -
  assume "pushed n st st1"
  then have "word_of_nat (unat (fst st1) + n) = (word_of_nat (unat (fst st)) :: u32)" by (simp only: pushed_def)
  then show ?thesis by simp
qed

lemma pushed_le: "pushed n st st1 \<Longrightarrow> unat (fst st1) + n = unat (fst st)"
  by (simp add: pushed_def)

text \<open>What is on the stack stays there under what is pushed later.\<close>

lemma bytes_pushed:
  assumes "pushed n st st1" and "bytes (snd st) (fst st) k = bs" and "unat (fst st) + k \<le> 2 ^ 32"
  shows "bytes (snd st1) (fst st1 + word_of_nat n) k = bs"
  using bytes_kept [OF _ order_refl assms(3)] assms(1,2) pushed_addr [OF assms(1)] by (metis pushed_def)

definition auxv_words :: "(u32 \<times> u32) list \<Rightarrow> u32 list" where
  "auxv_words av = concat (map (\<lambda>(ty, v). [ty, v]) (rev av))"

lemma push_auxv_ok:
  assumes "8 * length av \<le> unat (fst st)"
  defines "st1 \<equiv> push_auxv all_safe av st"
  shows "pushed (8 * length av) st st1 \<and>
    bytes (snd st1) (fst st1) (8 * length av) = concat (map bytes_of_word (auxv_words av))"
  using assms(1) unfolding st1_def
proof (induction av arbitrary: st)
  case Nil
  then show ?case by (simp add: pushed_def push_auxv_def auxv_words_def bytes_def)
next
  case (Cons x av)
  obtain ty v where x: "x = (ty, v)" by force
  let ?st1 = "push_words all_safe [ty, v] st"
  let ?st2 = "push_auxv all_safe av ?st1"
  have p: "pushed 8 st ?st1" "bytes (snd ?st1) (fst ?st1) 8 = concat (map bytes_of_word [ty, v])"
    using push_words_ok [of "[ty, v]" st] Cons.prems by simp_all
  then have "8 * length av \<le> unat (fst ?st1)" using Cons.prems by (simp add: pushed_def)
  from Cons.IH [OF this] have ih: "pushed (8 * length av) ?st1 ?st2"
    "bytes (snd ?st2) (fst ?st2) (8 * length av) = concat (map bytes_of_word (auxv_words av))" by blast+
  have "unat (fst ?st1) + 8 \<le> 2 ^ 32" using p(1) unat_lt_size32 [of "fst st"] by (simp add: pushed_def)
  from bytes_pushed [OF ih(1) p(2) this] ih(2)
  have "bytes (snd ?st2) (fst ?st2) (8 * length av + 8) = concat (map bytes_of_word (auxv_words (x # av)))"
    unfolding bytes_add by (simp add: auxv_words_def x)
  then show ?case using pushed_trans [OF p(1) ih(1)] by (simp add: push_auxv_def x add.commute)
qed

definition strings_size :: "u8 list list \<Rightarrow> nat" where
  "strings_size ss = sum_list (map (\<lambda>s. length s + 1) ss)"

text \<open>Strings at addresses above \<open>e\<close>.\<close>

definition strings_at :: "mem \<Rightarrow> nat \<Rightarrow> u32 list \<Rightarrow> u8 list list \<Rightarrow> bool" where
  "strings_at m e ps ss \<longleftrightarrow> length ps = length ss \<and>
     (\<forall>i < length ss. e \<le> unat (ps ! i) \<and> unat (ps ! i) + length (ss ! i) + 1 \<le> 2 ^ 32 \<and>
       bytes m (ps ! i) (length (ss ! i) + 1) = ss ! i @ [0])"

lemma strings_at_kept:
  assumes "strings_at m e ps ss" and "kept x m m1" and "unat x \<le> e" and "e1 \<le> e"
  shows "strings_at m1 e1 ps ss"
  unfolding strings_at_def
proof (intro conjI allI impI)
  show "length ps = length ss" using assms(1) by (simp add: strings_at_def)
  fix i
  assume "i < length ss"
  then have i: "e \<le> unat (ps ! i)" "unat (ps ! i) + length (ss ! i) + 1 \<le> 2 ^ 32"
    "bytes m (ps ! i) (length (ss ! i) + 1) = ss ! i @ [0]" using assms(1) unfolding strings_at_def by blast+
  show "e1 \<le> unat (ps ! i)" using i(1) assms(4) by linarith
  show "unat (ps ! i) + length (ss ! i) + 1 \<le> 2 ^ 32" by (rule i(2))
  have "unat x \<le> unat (ps ! i)" "unat (ps ! i) + (length (ss ! i) + 1) \<le> 2 ^ 32" using i(1,2) assms(3) by linarith+
  from bytes_kept [OF assms(2) this] i(3) show "bytes m1 (ps ! i) (length (ss ! i) + 1) = ss ! i @ [0]" by (simp only:)
qed

lemma push_strings_ok:
  assumes "strings_size ss \<le> unat (fst st)" and "push_strings all_safe ss st = (ps, st1)"
  shows "pushed (strings_size ss) st st1 \<and> strings_at (snd st1) (unat (fst st1)) ps ss"
  using assms
proof (induction ss arbitrary: st ps st1)
  case Nil
  then show ?case by (simp add: pushed_def strings_size_def strings_at_def)
next
  case (Cons s ss)
  let ?st2 = "push_bytes all_safe (s @ [0]) st"
  obtain ps2 st3 where r: "push_strings all_safe ss ?st2 = (ps2, st3)"
    by (cases "push_strings all_safe ss ?st2")
  with Cons.prems(2) have eq: "ps = fst ?st2 # ps2" "st1 = st3" by (simp_all add: Let_def)
  have sz: "strings_size (s # ss) = length (s @ [0]) + strings_size ss" by (simp add: strings_size_def)
  from push_bytes_ok [of "s @ [0]" st] Cons.prems(1) have
    p: "pushed (length (s @ [0])) st ?st2" "bytes (snd ?st2) (fst ?st2) (length s + 1) = s @ [0]"
    by (simp_all add: sz)
  then have "strings_size ss \<le> unat (fst ?st2)" using Cons.prems(1) sz by (simp add: pushed_def)
  from Cons.IH [OF this r] have ih: "pushed (strings_size ss) ?st2 st3" "strings_at (snd st3) (unat (fst st3)) ps2 ss" by blast+
  have up: "unat (fst ?st2) + length s + 1 \<le> 2 ^ 32"
    using p(1) unat_lt_size32 [of "fst st"] by (simp add: pushed_def)
  have k: "kept (fst ?st2) (snd ?st2) (snd st3)" "unat (fst st3) \<le> unat (fst ?st2)" using ih(1) by (simp_all add: pushed_def)
  have "bytes (snd st3) (fst ?st2) (length s + 1) = s @ [0]" using bytes_kept [OF k(1)] p(2) up by simp
  then have "strings_at (snd st3) (unat (fst st3)) (fst ?st2 # ps2) (s # ss)"
    using ih(2) k(2) up unfolding strings_at_def by (auto simp: nth_Cons split: nat.split)
  then show ?case using pushed_trans [OF p(1) ih(1)] by (simp add: eq sz)
qed

lemma align_ok:
  assumes "15 \<le> unat (fst st)"
  shows "\<exists>k \<le> 15. pushed k st (align_stack st)"
proof -
  obtain esp m where st: "st = (esp, m)" by force
  let ?k = "esp AND 0xF"
  have "?k + (esp AND NOT 0xF) = ?k OR (esp AND NOT 0xF)"
    by (rule disjunctive_add_eq_or) (simp add: bit_eq_iff bit_simps)
  also have "\<dots> = esp" by (auto simp: bit_eq_iff bit_simps)
  finally have "?k + (esp AND NOT 0xF) = esp" .
  then have "esp AND NOT 0xF = esp - ?k" by (metis add_diff_cancel_left')
  moreover have "?k \<le> esp" by (rule word_and_le2)
  ultimately have "unat (esp AND NOT 0xF) + unat ?k = unat esp" by (simp add: unat_sub_le word_le_nat_alt)
  moreover have "unat ?k \<le> 15" using word_and_le1 [of esp "0xF"] by (simp add: word_le_nat_alt)
  ultimately show ?thesis by (intro exI [of _ "unat ?k"]) (simp add: st align_stack_def pushed_def)
qed

lemma strings_at_pushed:
  "strings_at (snd st) (unat (fst st)) ps ss \<Longrightarrow> pushed n st st1 \<Longrightarrow> strings_at (snd st1) (unat (fst st1)) ps ss"
  by (rule strings_at_kept [where x = "fst st"]) (auto simp: pushed_def)

text \<open>What a program finds at \<open>p\<close>: the addresses of strings, ended by zero, and the strings there.\<close>

definition finds_strings :: "mem \<Rightarrow> u32 \<Rightarrow> u8 list list \<Rightarrow> bool" where
  "finds_strings m p ss \<longleftrightarrow> word_at m (p + word_of_nat (4 * length ss)) = 0 \<and>
     (\<forall>i < length ss. bytes m (word_at m (p + word_of_nat (4 * i))) (length (ss ! i) + 1) = ss ! i @ [0])"

lemma finds_stringsI:
  assumes "strings_at m e ps ss" and "bytes m p (4 * length (ps @ [0])) = concat (map bytes_of_word (ps @ [0]))"
  shows "finds_strings m p ss"
proof -
  have len: "length ps = length ss" using assms(1) by (simp add: strings_at_def)
  have w: "word_at m (p + word_of_nat (4 * i)) = (ps @ [0]) ! i" if "i \<le> length ss" for i
    by (rule word_at_words [OF assms(2)]) (use that len in simp)
  have "bytes m (ps ! i) (length (ss ! i) + 1) = ss ! i @ [0]" if "i < length ss" for i
    using assms(1) that unfolding strings_at_def by blast
  then show ?thesis using w [of "length ss"] w len by (simp add: finds_strings_def nth_append)
qed

text \<open>What a program finds on its stack, from the stack pointer up: the number of its arguments, their
  addresses ended by zero, those of the environment ended by zero, and the auxiliary vector; and at every address
  the string itself, whatever was pushed after it.\<close>

lemma args_on_stack:
  assumes "strings_size argv + strings_size envp + 4 * (length argv + length envp + length rands) + 200 \<le> unat esp0"
    and "setup_stack all_safe argv envp rands h hdr hwcap (esp0, m0) = (esp, m)"
  shows "word_at m esp = word_of_nat (length argv) \<and>
    finds_strings m (esp + 4) argv \<and>
    finds_strings m (esp + 8 + word_of_nat (4 * length argv)) envp \<and>
    (\<exists>rand_ptr. bytes m (esp + 12 + word_of_nat (4 * length argv + 4 * length envp)) 104 =
      concat (map bytes_of_word (auxv_words (exec_auxv h hdr rand_ptr hwcap)))) \<and>
    (\<exists>n \<le> strings_size argv + strings_size envp + 4 * (length argv + length envp + length rands) + 200.
      pushed n (esp0, m0) (esp, m))"
proof -
  obtain eu st1 where r1: "push_strings all_safe envp (esp0, m0) = (eu, st1)"
    by (cases "push_strings all_safe envp (esp0, m0)")
  obtain au st2 where r2: "push_strings all_safe argv st1 = (au, st2)" by (cases "push_strings all_safe argv st1")
  let ?st3 = "foldl (\<lambda>st r. push_word all_safe r st) st2 rands"
  let ?st4 = "align_stack ?st3"
  let ?av = "exec_auxv h hdr (fst ?st3) hwcap"
  let ?st5 = "push_auxv all_safe ?av ?st4"
  let ?st6 = "push_words all_safe (eu @ [0]) ?st5"
  let ?st7 = "push_words all_safe (au @ [0]) ?st6"
  let ?st8 = "push_word all_safe (word_of_nat (length argv)) ?st7"
  have st8: "?st8 = (esp, m)" using assms(2) r1 r2 by (simp add: setup_stack_def Let_def)
  have room: "strings_size argv + strings_size envp + 4 * length argv + 4 * length envp + 4 * length rands + 200 \<le> unat esp0"
    using assms(1) by simp
  from push_strings_ok [OF _ r1] room have p1: "pushed (strings_size envp) (esp0, m0) st1" and
    e1: "strings_at (snd st1) (unat (fst st1)) eu envp" by simp_all
  note room = room pushed_le [OF p1, unfolded fst_conv]
  from push_strings_ok [OF _ r2] room have p2: "pushed (strings_size argv) st1 st2" and
    a2: "strings_at (snd st2) (unat (fst st2)) au argv" by simp_all
  note room = room pushed_le [OF p2]
  have p3: "pushed (4 * length rands) st2 ?st3" using room by (intro push_rands_ok) simp
  note room = room pushed_le [OF p3]
  have "15 \<le> unat (fst ?st3)" using room by linarith
  from align_ok [OF this] obtain k where k: "k \<le> 15" "pushed k ?st3 ?st4" by blast
  note room = room k(1) pushed_le [OF k(2)]
  have av: "length ?av = 13" by (simp add: exec_auxv_def)
  have "8 * length ?av \<le> unat (fst ?st4)" using room unfolding av by linarith
  from push_auxv_ok [OF this] have p5: "pushed 104 ?st4 ?st5" and
    v5: "bytes (snd ?st5) (fst ?st5) 104 = concat (map bytes_of_word (auxv_words ?av))" by (simp_all add: av)
  note room = room pushed_le [OF p5]
  have len: "length eu = length envp" "length au = length argv" using e1 a2 by (simp_all add: strings_at_def)
  have "4 * length (eu @ [0]) \<le> unat (fst ?st5)" using room len by simp
  note p6 = push_words_ok [OF this]
  note room = room pushed_le [OF p6(1)]
  have "4 * length (au @ [0]) \<le> unat (fst ?st6)" using room len by simp
  note p7 = push_words_ok [OF this]
  note room = room pushed_le [OF p7(1)]
  have "4 * length [word_of_nat (length argv) :: u32] \<le> unat (fst ?st7)" using room len by simp
  note p8 = push_words_ok [OF this, folded push_word_words, unfolded st8]
  note to_end = pushed_trans [OF p7(1) p8(1)]
  have le: "unat (fst st) + n \<le> 2 ^ 32" if "pushed n st' st" for n st st'
    using that unat_lt_size32 [of "fst st'"] by (simp add: pushed_def)
  have "word_at m (esp + word_of_nat (4 * 0)) = [word_of_nat (length argv)] ! 0"
    by (rule word_at_words) (use p8(2) in simp_all)
  moreover have "finds_strings m (esp + word_of_nat (4 * 1)) argv"
  proof (rule finds_stringsI)
    note kept = strings_at_pushed [OF strings_at_pushed [OF strings_at_pushed [OF a2 p3] k(2)] p5]
    show "strings_at m (unat esp) au argv"
      using strings_at_pushed [OF strings_at_pushed [OF kept p6(1)] to_end] by simp
    show "bytes m (esp + word_of_nat (4 * 1)) (4 * length (au @ [0])) = concat (map bytes_of_word (au @ [0]))"
      using bytes_pushed [OF p8(1) p7(2) le [OF p7(1)]] by simp
  qed
  moreover have "finds_strings m (esp + word_of_nat (4 * length (au @ [0]) + 4 * 1)) envp"
  proof (rule finds_stringsI)
    note kept = strings_at_pushed [OF strings_at_pushed [OF strings_at_pushed [OF strings_at_pushed [OF e1 p2] p3] k(2)] p5]
    show "strings_at m (unat esp) eu envp"
      using strings_at_pushed [OF strings_at_pushed [OF kept p6(1)] to_end] by simp
    show "bytes m (esp + word_of_nat (4 * length (au @ [0]) + 4 * 1)) (4 * length (eu @ [0])) =
        concat (map bytes_of_word (eu @ [0]))"
      using bytes_pushed [OF to_end p6(2) le [OF p6(1)]] by simp
  qed
  moreover have "\<exists>rand_ptr. bytes m (esp + word_of_nat (4 * length (eu @ [0]) + (4 * length (au @ [0]) + 4 * 1))) 104 =
      concat (map bytes_of_word (auxv_words (exec_auxv h hdr rand_ptr hwcap)))"
    by (rule exI [of _ "fst ?st3"]) (use bytes_pushed [OF pushed_trans [OF p6(1) to_end] v5 le [OF p5]] in simp)
  moreover have "\<exists>n \<le> strings_size argv + strings_size envp + 4 * (length argv + length envp + length rands) + 200.
      pushed n (esp0, m0) (esp, m)"
  proof (rule exI, rule conjI [rotated])
    show "pushed (strings_size envp + (strings_size argv + (4 * length rands + (k + (104 +
        (4 * length (eu @ [0]) + (4 * length (au @ [0]) + 4 * 1))))))) (esp0, m0) (esp, m)"
      using pushed_trans [OF p1 pushed_trans [OF p2 pushed_trans [OF p3 pushed_trans [OF k(2) pushed_trans [OF p5
          pushed_trans [OF p6(1) to_end]]]]]] by simp
  qed (use k(1) len in simp)
  ultimately show ?thesis using len by (simp add: algebra_simps)
qed

section \<open>Segments in memory\<close>

definition seg_ok :: "elf_segment \<Rightarrow> bool" where
  "seg_ok s \<longleftrightarrow> 0 < unat (es_mem_size s) \<and> unat (es_mem_size s) < 2 ^ 31 \<and>
     unat (es_virt_addr s) + unat (es_mem_size s) < 2 ^ 32 - 0x1000"

definition in_seg :: "elf_segment \<Rightarrow> u32 \<Rightarrow> bool" where
  "in_seg s a \<longleftrightarrow> a - seg_base s < seg_pages s * 0x1000"

lemma seg_base_nat: "unat (seg_base s) = unat (es_virt_addr s) div 4096 * 4096"
proof -
  have "unat (es_virt_addr s) div 4096 * 4096 < 2 ^ 32"
    using div_times_less_eq_dividend [of "unat (es_virt_addr s)" 4096] unat_lt_size32 [of "es_virt_addr s"] by simp
  then show ?thesis unfolding seg_base_def by (subst unat_mult_lem [THEN iffD1]) (simp_all add: unat_div)
qed

lemma seg_offset: "es_virt_addr s = seg_base s + word_of_nat (unat (es_virt_addr s) mod 4096)"
proof -
  have "es_virt_addr s = word_of_nat (unat (es_virt_addr s) div 4096 * 4096 + unat (es_virt_addr s) mod 4096)"
    by (simp only: div_mult_mod_eq of_nat_unat ucast_id)
  also have "\<dots> = word_of_nat (unat (seg_base s)) + word_of_nat (unat (es_virt_addr s) mod 4096)"
    by (simp only: seg_base_nat of_nat_add)
  finally show ?thesis by simp
qed

lemma seg_pages_nat:
  assumes "seg_ok s"
  shows "unat (seg_pages s * 0x1000) =
    ((unat (es_mem_size s) + unat (es_virt_addr s) mod 4096 - 1) div 4096 + 1) * 4096"
proof -
  let ?V = "unat (es_virt_addr s)" and ?M = "unat (es_mem_size s)"
  have M: "0 < ?M" "?M < 2 ^ 31" using assms(1) by (simp_all add: seg_ok_def)
  have r: "?V mod 4096 < 4096" by simp
  have "es_mem_size s + es_virt_addr s - seg_base s - 1 = word_of_nat (?M + ?V mod 4096 - 1)"
  proof -
    have "word_of_nat (?M + ?V mod 4096 - 1) = (word_of_nat (?M + ?V mod 4096) :: u32) - 1"
      using M by (simp add: of_nat_diff)
    also have "\<dots> = es_mem_size s + word_of_nat (?V mod 4096) - 1" by simp
    finally show ?thesis by (subst seg_offset) simp
  qed
  moreover have "?M + ?V mod 4096 - 1 < 2 ^ 32" using M r by simp
  ultimately have e: "unat (es_mem_size s + es_virt_addr s - seg_base s - 1) = ?M + ?V mod 4096 - 1"
    by (simp add: unat_of_nat)
  let ?n = "(?M + ?V mod 4096 - 1) div 4096"
  have n: "?n < 1048575" using M r by (simp add: div_less_iff_less_mult)
  then have "unat (seg_pages s) = ?n + 1"
    unfolding seg_pages_def by (subst unat_add_small) (simp_all add: unat_div e)
  then show ?thesis using n by (subst unat_mult_lem [THEN iffD1]) simp_all
qed

lemma seg_span:
  assumes "seg_ok s" and "i < unat (es_mem_size s)"
  shows "in_seg s (es_virt_addr s + word_of_nat i)"
proof -
  let ?V = "unat (es_virt_addr s)" and ?M = "unat (es_mem_size s)"
  let ?n = "(?M + ?V mod 4096 - 1) div 4096"
  have off: "es_virt_addr s + word_of_nat i - seg_base s = word_of_nat (?V mod 4096 + i)" by (subst seg_offset) simp
  have r: "?V mod 4096 < 4096" by simp
  moreover have "?M < 2147483648" using assms(1) by (simp add: seg_ok_def)
  ultimately have "?V mod 4096 + i < 4294967296" using assms(2) by linarith
  then have "unat (es_virt_addr s + word_of_nat i - seg_base s) = ?V mod 4096 + i"
    unfolding off by (simp add: unat_of_nat del: of_nat_add)
  moreover have "?M + ?V mod 4096 - 1 < (?n + 1) * 4096"
    using dividend_less_div_times [of 4096 "?M + ?V mod 4096 - 1"] by simp
  moreover have "?V mod 4096 + i \<le> ?M + ?V mod 4096 - 1" using assms(2) by linarith
  ultimately show ?thesis unfolding in_seg_def word_less_nat_alt seg_pages_nat [OF assms(1)] by linarith
qed

text \<open>A segment ends before the page behind it.\<close>

lemma in_seg_bound:
  assumes "seg_ok s" and "in_seg s a"
  shows "unat a < unat (es_virt_addr s) + unat (es_mem_size s) + 0x1000"
proof -
  let ?V = "unat (es_virt_addr s)" and ?M = "unat (es_mem_size s)"
  let ?x = "?M + ?V mod 4096 - 1"
  have "unat a \<le> unat (seg_base s) + unat (a - seg_base s)"
    using unat_plus_if' [of "seg_base s" "a - seg_base s"] by (simp split: if_splits)
  moreover have "unat (a - seg_base s) < (?x div 4096 + 1) * 4096"
    using assms(2) unfolding in_seg_def word_less_nat_alt seg_pages_nat [OF assms(1)] .
  moreover have "(?x div 4096 + 1) * 4096 \<le> ?x + 4096" by simp
  moreover have "unat (seg_base s) + ?V mod 4096 = ?V" by (simp add: seg_base_nat)
  moreover have "0 < ?M" using assms(1) by (simp add: seg_ok_def)
  moreover have "a < v + m + (4096 :: nat)" if "a \<le> b + d" "d < p" "p \<le> (m + r - 1) + 4096" "b + r = v" "0 < m"
    for a b d p m r v
    using that by linarith
  ultimately show ?thesis by simp
qed

text \<open>The operations of the file are honest: a read that gives no error gives as many bytes as it says.\<close>

definition reads_honestly :: "exe_file \<Rightarrow> bool" where
  "reads_honestly exe \<longleftrightarrow> (\<forall>pos n. 0 \<le> fst (ex_read exe pos n) \<longrightarrow>
     length (snd (ex_read exe pos n)) = nat (fst (ex_read exe pos n)))"

definition seg_bytes :: "exe_file \<Rightarrow> elf_segment \<Rightarrow> u8 list" where
  "seg_bytes exe s = snd (ex_read exe (es_file_offset s) (seg_fsize s))"

text \<open>A segment in its place: its bytes of the file, and zeros up to its size in memory.\<close>

definition seg_in_place :: "exe_file \<Rightarrow> elf_segment \<Rightarrow> mem \<Rightarrow> bool" where
  "seg_in_place exe s m \<longleftrightarrow> length (seg_bytes exe s) = min (unat (es_file_size s)) (unat (es_mem_size s)) \<and>
     bytes m (es_virt_addr s) (unat (es_mem_size s)) =
       seg_bytes exe s @ replicate (unat (es_mem_size s) - length (seg_bytes exe s)) 0"

lemma seg_in_place_kept:
  assumes "seg_in_place exe s m" and "seg_ok s" and "\<And>a. in_seg s a \<Longrightarrow> m1 a = m a"
  shows "seg_in_place exe s m1"
proof -
  have "bytes m1 (es_virt_addr s) (unat (es_mem_size s)) = bytes m (es_virt_addr s) (unat (es_mem_size s))"
    by (rule nth_equalityI) (simp_all add: assms(3) seg_span [OF assms(2)])
  then show ?thesis using assms(1) by (simp add: seg_in_place_def)
qed

lemma load_segment_places:
  assumes "load_segment grant exe s im = Some im1" and "seg_ok s" and "reads_honestly exe"
  shows "seg_in_place exe s (im_mem im1) \<and> (\<forall>a. \<not> in_seg s a \<longrightarrow> im_mem im1 a = im_mem im a)"
proof -
  let ?bs = "seg_bytes exe s" and ?v = "es_virt_addr s" and ?M = "unat (es_mem_size s)"
  let ?m = "im_mem (take_pages (seg_base s) (seg_pages s) (es_flags s AND 2 \<noteq> 0) im)"
  obtain r bs where rd: "ex_read exe (es_file_offset s) (seg_fsize s) = (r, bs)" by force
  with assms(1) have r: "r = s32 (seg_fsize s)" and m1: "im_mem im1 = store ?m ?v ?bs"
    by (auto simp: load_segment_def Let_def seg_bytes_def split: if_splits)
  have f: "unat (seg_fsize s) = min (unat (es_file_size s)) ?M" by (auto simp: seg_fsize_def word_less_nat_alt min_def)
  have M: "?M < 2 ^ 31" using assms(2) by (simp add: seg_ok_def)
  then have "unat (seg_fsize s) < 2 ^ 31" unfolding f by simp
  then have "r = int (unat (seg_fsize s))" using r s32_of_nat [of "unat (seg_fsize s)"] by simp
  with assms(3) rd have len: "length ?bs = unat (seg_fsize s)"
    unfolding reads_honestly_def seg_bytes_def by (metis fst_conv nat_int of_nat_0_le_iff snd_conv)
  have lt: "length ?bs \<le> 2 ^ 32" and le: "length ?bs \<le> ?M" using len f M by simp_all
  have "bytes (store ?m ?v ?bs) ?v ?M = ?bs @ replicate (?M - length ?bs) 0"
  proof (rule nth_equalityI)
    fix i
    assume "i < length (bytes (store ?m ?v ?bs) ?v ?M)"
    then have i: "i < ?M" "i < 2 ^ 32" using M by simp_all
    have "?m (?v + word_of_nat i) = 0" using seg_span [OF assms(2) i(1)] by (simp add: take_pages_def in_seg_def)
    then show "bytes (store ?m ?v ?bs) ?v ?M ! i = (?bs @ replicate (?M - length ?bs) 0) ! i"
      using i lt by (cases "i < length ?bs") (simp_all add: store_at nth_append)
  qed (simp add: le)
  moreover have "store ?m ?v ?bs a = im_mem im a" if "\<not> in_seg s a" for a
  proof -
    have "a \<noteq> ?v + word_of_nat i" if "i < length ?bs" for i
      using seg_span [OF assms(2), of i] \<open>\<not> in_seg s a\<close> that le by auto
    then have "store ?m ?v ?bs a = ?m a" by (rule store_outside)
    then show ?thesis using that by (simp add: take_pages_def in_seg_def)
  qed
  ultimately show ?thesis by (simp add: seg_in_place_def m1 len f)
qed

text \<open>The entries of the table of segments, and those that are loaded.\<close>

definition entry_at :: "exe_file \<Rightarrow> u32 \<Rightarrow> elf_segment" where
  "entry_at exe pos = parse_segment (snd (ex_read exe pos 32))"

fun loaded :: "exe_file \<Rightarrow> nat \<Rightarrow> u32 \<Rightarrow> elf_segment list" where
  "loaded exe 0 pos = []"
| "loaded exe (Suc k) pos = (let s = entry_at exe pos in
     if es_type s = 1 then s # loaded exe k (pos + 32) else loaded exe k (pos + 32))"

text \<open>No page belongs to two of them.\<close>

fun segs_apart :: "elf_segment list \<Rightarrow> bool" where
  "segs_apart [] = True"
| "segs_apart (s # ss) = ((\<forall>t \<in> set ss. \<forall>a. \<not> (in_seg s a \<and> in_seg t a)) \<and> segs_apart ss)"

lemma load_segments_step:
  assumes "load_segments grant exe (Suc k) pos im = Some im1" and "\<forall>s \<in> set (loaded exe (Suc k) pos). seg_ok s"
  shows "es_type (entry_at exe pos) = 1 \<and>
      (\<exists>im2. load_segment grant exe (entry_at exe pos) im = Some im2 \<and> load_segments grant exe k (pos + 32) im2 = Some im1) \<or>
    es_type (entry_at exe pos) \<noteq> 1 \<and> load_segments grant exe k (pos + 32) im = Some im1"
  using assms by (auto simp: entry_at_def Let_def seg_ok_def bind_eq_Some_conv unat_gt_0 split: if_splits prod.splits)

lemma load_segments_places:
  assumes "load_segments grant exe k pos im = Some im1" and "reads_honestly exe"
    and "\<forall>s \<in> set (loaded exe k pos). seg_ok s" and "segs_apart (loaded exe k pos)"
  shows "(\<forall>s \<in> set (loaded exe k pos). seg_in_place exe s (im_mem im1)) \<and>
    (\<forall>a. (\<forall>s \<in> set (loaded exe k pos). \<not> in_seg s a) \<longrightarrow> im_mem im1 a = im_mem im a)"
  using assms(1,3,4)
proof (induction k arbitrary: pos im)
  case (Suc k)
  let ?s = "entry_at exe pos"
  show ?case
  proof (cases "es_type ?s = 1")
    case False
    with load_segments_step [OF Suc.prems(1,2)] Suc.IH [of "pos + 32" im] Suc.prems(2,3) show ?thesis
      by (simp add: Let_def)
  next
    case True
    then have l: "loaded exe (Suc k) pos = ?s # loaded exe k (pos + 32)" by (simp add: Let_def)
    from load_segments_step [OF Suc.prems(1,2)] True obtain im2 where
      s: "load_segment grant exe ?s im = Some im2" "load_segments grant exe k (pos + 32) im2 = Some im1" by blast
    have ok: "seg_ok ?s" "\<forall>s \<in> set (loaded exe k (pos + 32)). seg_ok s" using Suc.prems(2) unfolding l by simp_all
    have ap: "\<forall>t \<in> set (loaded exe k (pos + 32)). \<forall>a. \<not> (in_seg ?s a \<and> in_seg t a)" "segs_apart (loaded exe k (pos + 32))"
      using Suc.prems(3) unfolding l by simp_all
    note ih = Suc.IH [OF s(2) ok(2) ap(2)]
    note here = load_segment_places [OF s(1) ok(1) assms(2)]
    have "seg_in_place exe ?s (im_mem im1)"
      by (rule seg_in_place_kept [OF _ ok(1), of exe "im_mem im2"]) (use here ih ap(1) in blast)+
    then show ?thesis unfolding l using ih here by simp
  qed
qed simp

section \<open>A program that starts\<close>

text \<open>C39: A program that is started has its entry point, and in its memory are, at once: every segment of the table
  that is to be loaded, with its bytes of the file and zeros behind them; and on its stack the number of its
  arguments, their addresses ended by zero, those of the environment ended by zero, the auxiliary vector, and at
  every address the string itself.\<close>

theorem program_starts:
  assumes "exec_linux grant large all_safe exe h argv envp rands hwcap im = Some (eip, esp, im1)"
    and "reads_honestly exe"
  defines "ss \<equiv> loaded exe (unat (eh_segment_entry_num h)) (eh_segment_pos h)"
  assumes "\<forall>s \<in> set ss. seg_ok s \<and> unat (es_virt_addr s) + unat (es_mem_size s) + 0x1000 \<le> 0x7FC00000" and "segs_apart ss"
    and "strings_size argv + strings_size envp + 4 * (length argv + length envp + length rands) + 200 \<le> 0x400000"
  shows "eip = eh_entry_pos h \<and> (\<forall>s \<in> set ss. seg_in_place exe s (im_mem im1)) \<and>
    word_at (im_mem im1) esp = word_of_nat (length argv) \<and>
    finds_strings (im_mem im1) (esp + 4) argv \<and>
    finds_strings (im_mem im1) (esp + 8 + word_of_nat (4 * length argv)) envp \<and>
    (\<exists>rand_ptr. bytes (im_mem im1) (esp + 12 + word_of_nat (4 * length argv + 4 * length envp)) 104 =
      concat (map bytes_of_word (auxv_words (exec_auxv h (im_hdr im1) rand_ptr hwcap))))"
proof -
  let ?base = "stack_top - 0x400000"
  let ?clear = "\<lambda>im. im\<lparr>im_mem := \<lambda>a. if a - ?base < 0x400000 then 0 else im_mem im a\<rparr>"
  from assms(1) obtain im2 m where
    l: "load_segments grant exe (unat (eh_segment_entry_num h)) (eh_segment_pos h) im = Some im2"
    and st: "setup_stack all_safe argv envp rands h (im_hdr im2) hwcap (stack_top, im_mem (?clear im2)) = (esp, m)"
    and im1: "im1 = (?clear im2)\<lparr>im_mem := m\<rparr>" "eip = eh_entry_pos h"
    by (auto simp: exec_linux_def Let_def bind_eq_Some_conv split: if_splits prod.splits)
  have top: "unat stack_top = 0x80000000" by (simp add: stack_top_def)
  have "strings_size argv + strings_size envp + 4 * (length argv + length envp + length rands) + 200 \<le> unat stack_top"
    using assms(6) unfolding top by simp
  note stack = args_on_stack [OF this st]
  then obtain n where "n \<le> strings_size argv + strings_size envp + 4 * (length argv + length envp + length rands) + 200"
    and n: "pushed n (stack_top, im_mem (?clear im2)) (esp, m)" by blast
  then have "0x7FC00000 \<le> unat esp" using assms(6) pushed_le [OF n] top by simp
  have ok: "\<forall>s \<in> set ss. seg_ok s" using assms(4) by blast
  note placed = load_segments_places [OF l assms(2), folded ss_def, OF ok assms(5)]
  have "seg_in_place exe s m" if s: "s \<in> set ss" for s
  proof (rule seg_in_place_kept)
    show "seg_in_place exe s (im_mem im2)" and "seg_ok s" using placed ok s by blast+
    fix a
    assume "in_seg s a"
    with in_seg_bound [of s a] assms(4) s have a: "unat a < 0x7FC00000" by fastforce
    have "a - ?base = word_of_nat (0x80400000 + unat a)" by (simp add: stack_top_def)
    then have "unat (a - ?base) = 0x80400000 + unat a" using a by (simp add: unat_of_nat del: of_nat_add)
    then have "\<not> a - ?base < 0x400000" by (simp add: word_less_nat_alt)
    moreover have "unat a < unat esp" using a \<open>0x7FC00000 \<le> unat esp\<close> by linarith
    ultimately show "m a = im_mem im2 a" using n by (simp add: pushed_def)
  qed
  then show ?thesis using stack im1 by simp
qed

text \<open>A program of one segment at \<open>0x08048000\<close>, two bytes of the file and four in memory, with one argument and one
  variable.\<close>

definition sample_segment :: elf_segment where
  "sample_segment = \<lparr>es_type = 1, es_file_offset = 0x1000, es_virt_addr = 0x08048000, es_file_size = 2, es_mem_size = 4,
     es_flags = 5\<rparr>"

definition sample_entry :: "u8 list" where
  "sample_entry = concat (map bytes_of_word [1, 0x1000, 0x08048000, 0, 2, 4, 5, 0x1000])"

definition sample_exe :: exe_file where
  "sample_exe = \<lparr>ex_seek = s32, ex_read = (\<lambda>pos n. if pos = 52 then (32, sample_entry) else (int (unat n), replicate (unat n) 9))\<rparr>"

definition sample_header :: elf_header where
  "sample_header = (parse_header (replicate 52 0))\<lparr>eh_entry_pos := 0x08048000, eh_segment_pos := 52, eh_segment_entry_num := 1\<rparr>"

definition empty_image :: image where
  "empty_image = \<lparr>im_mem = \<lambda>_. 0, im_pages = [], im_brk = 0, im_hdr = 0\<rparr>"

lemma sample_parsed: "parse_segment sample_entry = sample_segment"
  by (simp add: parse_segment_def sample_entry_def sample_segment_def bytes_of_word_def le32_def)

lemma sample_loaded:
  "loaded sample_exe (unat (eh_segment_entry_num sample_header)) (eh_segment_pos sample_header) = [sample_segment]"
  by (simp add: sample_header_def sample_exe_def entry_at_def sample_parsed) (simp add: sample_segment_def)

lemma sample_runs: "\<exists>esp im1. exec_linux (\<lambda>_ _. True) (\<lambda>_. True) all_safe sample_exe sample_header [[65]] [[66]] [7] 0 empty_image =
    Some (0x08048000, esp, im1)"
  by (simp add: exec_linux_def sample_header_def sample_exe_def sample_parsed)
    (use s32_of_nat [of 2] in \<open>simp add: load_segment_def Let_def seg_fsize_def sample_segment_def split: prod.split\<close>)

lemma sample_bytes: "seg_bytes sample_exe sample_segment = [9, 9]"
  by (simp add: seg_bytes_def sample_exe_def sample_segment_def seg_fsize_def) (simp add: numeral_2_eq_2)

lemma program_starts_witness:
  "\<exists>esp im1. exec_linux (\<lambda>_ _. True) (\<lambda>_. True) all_safe sample_exe sample_header [[65]] [[66]] [7] 0 empty_image =
      Some (0x08048000, esp, im1) \<and>
    bytes (im_mem im1) 0x08048000 4 = [9, 9, 0, 0] \<and> bytes (im_mem im1) (word_at (im_mem im1) (esp + 4)) 2 = [65, 0]"
proof -
  obtain esp im1 where s: "exec_linux (\<lambda>_ _. True) (\<lambda>_. True) all_safe sample_exe sample_header [[65]] [[66]] [7] 0 empty_image =
    Some (0x08048000, esp, im1)" using sample_runs by blast
  have r: "reads_honestly sample_exe" by (simp add: reads_honestly_def sample_exe_def sample_entry_def)
  have o: "\<forall>s \<in> set (loaded sample_exe (unat (eh_segment_entry_num sample_header)) (eh_segment_pos sample_header)).
      seg_ok s \<and> unat (es_virt_addr s) + unat (es_mem_size s) + 0x1000 \<le> 0x7FC00000"
    unfolding sample_loaded by (simp add: seg_ok_def sample_segment_def)
  have a: "segs_apart (loaded sample_exe (unat (eh_segment_entry_num sample_header)) (eh_segment_pos sample_header))"
    unfolding sample_loaded by simp
  have z: "strings_size [[65]] + strings_size [[66]] + 4 * (length [[65 :: u8]] + length [[66 :: u8]] + length [7 :: u32]) + 200
      \<le> 0x400000" by (simp add: strings_size_def)
  note t = program_starts [OF s r o a z, unfolded sample_loaded]
  then have p: "seg_in_place sample_exe sample_segment (im_mem im1)" and f: "finds_strings (im_mem im1) (esp + 4) [[65]]"
    by simp_all
  have "unat (es_mem_size sample_segment) = 4" "es_virt_addr sample_segment = 0x08048000" by (simp_all add: sample_segment_def)
  then have "bytes (im_mem im1) 0x08048000 4 = [9, 9, 0, 0]"
    using p unfolding seg_in_place_def sample_bytes by (simp add: numeral_2_eq_2)
  moreover have "bytes (im_mem im1) (word_at (im_mem im1) (esp + 4)) 2 = [65, 0]"
    using f by (simp add: finds_strings_def numeral_2_eq_2)
  ultimately show ?thesis using s by blast
qed

section \<open>The arguments of a program of the course\<close>

lemma cstr_append: "cstr m p (xs @ ys) \<Longrightarrow> cstr m (p + word_of_nat (length xs)) ys"
proof (induction xs arbitrary: p)
  case (Cons x xs)
  then have "cstr m (p + 1) (xs @ ys)" by (simp add: cstr_Cons_iff)
  from Cons.IH [OF this] show ?case by (simp add: add.assoc)
qed simp

lemma cstr_same:
  assumes "cstr m q s" and "\<And>j. j \<le> length s \<Longrightarrow> m1 (q + word_of_nat j) = m (q + word_of_nat j)"
  shows "cstr m1 q s"
  by (rule cstrI) (use assms cstr_nth [OF assms(1)] cstr_end [OF assms(1)] in \<open>simp_all add: cstr_def\<close>)

lemma skip_spaces_to:
  "cstr m p (replicate k 32 @ s) \<Longrightarrow> s = [] \<or> hd s \<noteq> 32 \<Longrightarrow> skip_spaces m p = Some (p + word_of_nat k)"
proof (induction k arbitrary: p)
  case 0
  then have "m p \<noteq> 32" by (cases s) (auto simp: cstr_Nil_iff cstr_Cons_iff)
  then show ?case by (subst skip_spaces.simps) simp
next
  case (Suc k)
  then have "m p = 32" "cstr m (p + 1) (replicate k 32 @ s)" by (simp_all add: cstr_Cons_iff)
  with Suc.IH [OF this(2) Suc.prems(2)] show ?case by (subst skip_spaces.simps) (simp add: add.assoc)
qed

text \<open>A copy, and what it leaves alone.\<close>

lemma strdup_cstr:
  assumes "cstr m src s" and "ret \<noteq> 0" and "apart ret (Suc (length s)) src (Suc (length s))"
  shows "\<exists>m'. strdup ret m src = Some (ret, m') \<and> cstr m' ret s \<and>
    (\<forall>q. (\<forall>i \<le> length s. q \<noteq> ret + word_of_nat i) \<longrightarrow> m' q = m q)"
proof -
  have n: "unat (word_of_nat (length s) :: u32) = length s"
    using cstr_end(2) [OF assms(1)] by (simp add: unat_of_nat take_bit_nat_eq_self)
  have "apart ret (min (length s) (unat (word_of_nat (length s) :: u32))) src (Suc (length s))"
    using assms(3) by (simp add: n apart_def)
  from strndup_cstr [OF assms(1,2) this] show ?thesis
    by (simp add: strdup_def strlen_cstr [OF assms(1)] n)
qed

lemma split_command_spec:
  assumes c: "cstr m cmd (name @ replicate (Suc k) 32 @ args)" and "32 \<notin> set name" and h: "args = [] \<or> hd args \<noteq> 32"
    and nz: "k0 \<noteq> 0" "k1 \<noteq> 0" "cmd + word_of_nat (length name) \<noteq> 0"
    and ap: "apart k0 (Suc (length name)) cmd (length name + k + length args + 2)"
      "apart k1 (Suc (length args)) cmd (length name + k + length args + 2)" "apart k1 (Suc (length args)) k0 (Suc (length name))"
  shows "\<exists>m1. split_command k0 k1 cmd m = Some (k0, k1, m1) \<and> cstr m1 k0 name \<and> cstr m1 k1 args"
proof -
  let ?s = "name @ replicate (Suc k) 32 @ args"
  have tw: "takeWhile (\<lambda>x. x \<noteq> 32) ?s = name"
    using assms(2) by (subst takeWhile_append2) (auto simp: takeWhile_append1)
  let ?space = "cmd + word_of_nat (length name)"
  have sp: "strchr m cmd 32 = Some ?space" using strchr_first [OF c, of 32] tw by simp
  have ln: "unat (?space - cmd) = length name"
    using cstr_end(2) [OF c] by (simp add: unat_of_nat take_bit_nat_eq_self)
  have "apart k0 (min (length ?s) (unat (?space - cmd))) cmd (Suc (length ?s))"
    using ap(1) unfolding ln by (auto simp: apart_def)
  from strndup_cstr [OF c nz(1) this] obtain m1 where
    m1: "strndup k0 m cmd (?space - cmd) = Some (k0, m1)" "cstr m1 k0 (take (length name) ?s)"
      "\<forall>q. (\<forall>i \<le> min (length ?s) (length name). q \<noteq> k0 + word_of_nat i) \<longrightarrow> m1 q = m q" unfolding ln by blast
  have "cstr m1 cmd ?s"
  proof (rule cstr_same [OF c], rule m1(3) [rule_format])
    fix j i
    assume "j \<le> length ?s" "i \<le> min (length ?s) (length name)"
    then have "i < Suc (length name)" "j < length name + k + length args + 2" by simp_all
    with ap(1) show "cmd + word_of_nat j \<noteq> k0 + word_of_nat i" unfolding apart_def by metis
  qed
  then have c1: "cstr m1 ?space (replicate (Suc k) 32 @ args)" by (rule cstr_append)
  from skip_spaces_to [OF this h] have sk: "skip_spaces m1 ?space = Some (?space + word_of_nat (Suc k))" .
  let ?rest = "?space + word_of_nat (Suc k)"
  have c2: "cstr m1 ?rest args" using cstr_append [OF c1] by simp
  have "apart k1 (Suc (length args)) ?rest (Suc (length args))"
    unfolding apart_def
  proof (intro allI impI)
    fix i j
    assume "i < Suc (length args)" "j < Suc (length args)"
    moreover from this have "length name + Suc k + j < length name + k + length args + 2" by simp
    ultimately have "k1 + word_of_nat i \<noteq> cmd + word_of_nat (length name + Suc k + j)"
      using ap(2) unfolding apart_def by blast
    then show "k1 + word_of_nat i \<noteq> ?rest + word_of_nat j" by (simp add: algebra_simps)
  qed
  from strdup_cstr [OF c2 nz(2) this] obtain m2 where
    m2: "strdup k1 m1 ?rest = Some (k1, m2)" "cstr m2 k1 args"
      "\<forall>q. (\<forall>i \<le> length args. q \<noteq> k1 + word_of_nat i) \<longrightarrow> m2 q = m1 q" by blast
  have "cstr m2 k0 name"
  proof (rule cstr_same [of m1], goal_cases)
    case 1
    then show ?case using m1(2) by simp
  next
    case (2 j)
    have "k0 + word_of_nat j \<noteq> k1 + word_of_nat i" if "i \<le> length args" for i
      using ap(3) 2 that unfolding apart_def by (metis le_imp_less_Suc)
    then show ?case using m2(3) by blast
  qed
  then show ?thesis using m2(1,2) nz(3) m1(1) sk by (simp add: split_command_def sp)
qed

text \<open>An address outside the page of the program.\<close>

definition outside_page :: "u32 \<Rightarrow> bool" where
  "outside_page a \<longleftrightarrow> \<not> a - ECE391_PAGEADDR < 0x400000"

lemma args_inside:
  assumes "i < 0x400000" and "outside_page a"
  shows "a \<noteq> ECE391_PAGEADDR + word_of_nat i"
proof
  assume "a = ECE391_PAGEADDR + word_of_nat i"
  then have "a - ECE391_PAGEADDR = word_of_nat i" by simp
  then have "unat (a - ECE391_PAGEADDR) = i" using assms(1) by (simp add: unat_of_nat take_bit_nat_eq_self)
  then show False using assms by (simp add: outside_page_def word_less_nat_alt)
qed

text \<open>The arguments stand at the start of the page, with an end of their own, when they are shorter than the space
  before the file.\<close>

lemma exec_ece391_args:
  assumes "cstr m arg1 args" and "arg0 \<noteq> 0" and "arg1 \<noteq> 0" and "length args < 0x48000"
    and out: "\<And>j. j \<le> length args \<Longrightarrow> outside_page (arg1 + word_of_nat j)"
    and size: "length (snd (ex_read exe 0 (0x400000 - ECE391_MAPADDR))) \<le> 0x400000 - 0x48000"
    and e: "exec_ece391 exe arg0 arg1 m = (eip, esp, m1)"
  shows "cstr m1 ECE391_ARGSADDR args"
proof -
  let ?bs = "snd (ex_read exe 0 (0x400000 - ECE391_MAPADDR))"
  let ?m = "store (\<lambda>a. if a - ECE391_PAGEADDR < 0x400000 then 0 else m a) (ECE391_PAGEADDR + ECE391_MAPADDR) ?bs"
  have m1: "m1 = strncpy ?m ECE391_ARGSADDR arg1 ECE391_MAPADDR"
    using e assms(2,3) by (auto simp: exec_ece391_def put_args_def Let_def split: prod.splits)
  have c: "cstr ?m arg1 args"
  proof (rule cstr_same [OF assms(1)])
    fix j
    assume j: "j \<le> length args"
    have "arg1 + word_of_nat j \<noteq> ECE391_PAGEADDR + ECE391_MAPADDR + word_of_nat i" if "i < length ?bs" for i
      using args_inside [OF _ out [OF j], of "0x48000 + i"] that size by (simp add: ECE391_MAPADDR_def add.assoc)
    then show "?m (arg1 + word_of_nat j) = m (arg1 + word_of_nat j)"
      using out [OF j] by (subst store_outside) (auto simp: outside_page_def)
  qed
  have n: "unat ECE391_MAPADDR = 0x48000" by (simp add: ECE391_MAPADDR_def)
  have "apart ECE391_ARGSADDR (min (length args) (unat ECE391_MAPADDR)) arg1 (Suc (length args))"
    unfolding apart_def ECE391_ARGSADDR_def
  proof (intro allI impI)
    fix i j
    assume "i < min (length args) (unat ECE391_MAPADDR)" "j < Suc (length args)"
    then have "i < 0x400000" "outside_page (arg1 + word_of_nat j)" using assms(4) out by simp_all
    from args_inside [OF this] show "ECE391_PAGEADDR + word_of_nat i \<noteq> arg1 + word_of_nat j" by simp
  qed
  from strncpy_store [OF c this] have m1: "m1 = store ?m ECE391_ARGSADDR (args @ replicate (0x48000 - length args) 0)"
    using m1 assms(4) by (simp add: n)
  show ?thesis
  proof (rule cstrI)
    show "0 \<notin> set args" "length args < 2 ^ 31" using assms(1) by (simp_all add: cstr_def)
    show "m1 (ECE391_ARGSADDR + word_of_nat (length args)) = 0"
      using assms(4) unfolding m1 by (subst store_at(1)) (simp_all add: nth_append)
    show "m1 (ECE391_ARGSADDR + word_of_nat i) = args ! i" if "i < length args" for i
      using assms(4) that unfolding m1 by (subst store_at(1)) (simp_all add: nth_append)
  qed
qed

text \<open>A string is copied into a buffer that has room for it.\<close>

lemma sys_getargs_copies:
  assumes c: "cstr m ECE391_ARGSADDR args" and "length args \<le> unat len" and "k \<noteq> 0" and "length args < unat n"
    and "apart k (Suc (length args)) ECE391_ARGSADDR (Suc (length args))" "apart buf (length args) k (Suc (length args))"
  shows "\<exists>m1. sys_getargs len k n buf nbytes m = Some (0, m1) \<and> cstr m1 buf args"
proof -
  have "apart k (min (length args) (unat len)) ECE391_ARGSADDR (Suc (length args))" using assms(5) by (simp add: apart_def)
  from strndup_cstr [OF c assms(3) this] obtain m1 where
    m1: "strndup k m ECE391_ARGSADDR len = Some (k, m1)" "cstr m1 k args" using assms(2) by auto
  have "apart buf (min (length args) (unat n)) k (Suc (length args))" using assms(6) by (simp add: apart_def)
  from strncpy_store [OF m1(2) this] have st: "strncpy m1 buf k n = store m1 buf (args @ replicate (unat n - length args) 0)"
    using assms(4) by simp
  have l: "length args + (unat n - length args) \<le> 2 ^ 32" using assms(4) unat_lt_size32 [of n] by simp
  have "cstr (strncpy m1 buf k n) buf args"
  proof (rule cstrI)
    show "0 \<notin> set args" "length args < 2 ^ 31" using c by (simp_all add: cstr_def)
    show "strncpy m1 buf k n (buf + word_of_nat (length args)) = 0"
      using assms(4) l unfolding st by (subst store_at(1)) (simp_all add: nth_append)
    show "strncpy m1 buf k n (buf + word_of_nat i) = args ! i" if "i < length args" for i
      using assms(4) that l unfolding st by (subst store_at(1)) (simp_all add: nth_append)
  qed
  moreover have "n \<noteq> 0" using assms(4) by auto
  ultimately show ?thesis using m1(1) assms(3) by (simp add: sys_getargs_def)
qed

text \<open>C40: What is typed behind the name of a program reaches it: for a command line of a name, spaces and the rest,
  \<open>getargs\<close> gives the program the rest, as long as its buffer has room for it and the program has not written
  over its place.  The blocks for the copies are apart from each other and from the program's page.\<close>

theorem getargs_roundtrip:
  assumes "cstr m cmd (name @ replicate (Suc k) 32 @ args)" and "32 \<notin> set name" and "args = [] \<or> hd args \<noteq> 32"
    and "length args < 0x48000" and "length args \<le> unat len" and "length args < unat n"
    and "k0 \<noteq> 0" and "k1 \<noteq> 0" and "k2 \<noteq> 0" and "cmd + word_of_nat (length name) \<noteq> 0"
    and "apart k0 (Suc (length name)) cmd (length name + k + length args + 2)"
    and "apart k1 (Suc (length args)) cmd (length name + k + length args + 2)"
    and "apart k1 (Suc (length args)) k0 (Suc (length name))"
    and "\<forall>j \<le> length args. outside_page (k1 + word_of_nat j)"
    and "length (snd (ex_read exe 0 (0x400000 - ECE391_MAPADDR))) \<le> 0x400000 - 0x48000"
    and "apart k2 (Suc (length args)) ECE391_ARGSADDR (Suc (length args))" and "apart buf (length args) k2 (Suc (length args))"
  shows "\<exists>arg0 arg1 m1 eip esp m2. split_command k0 k1 cmd m = Some (arg0, arg1, m1) \<and> cstr m1 arg0 name \<and>
    exec_ece391 exe arg0 arg1 m1 = (eip, esp, m2) \<and>
    (\<forall>m3. bytes m3 ECE391_ARGSADDR (length args + 1) = bytes m2 ECE391_ARGSADDR (length args + 1) \<longrightarrow>
      (\<exists>m4. sys_getargs len k2 n buf nbytes m3 = Some (0, m4) \<and> cstr m4 buf args))"
proof -
  from split_command_spec [OF assms(1-3,7,8,10-13)] obtain m1 where
    m1: "split_command k0 k1 cmd m = Some (k0, k1, m1)" "cstr m1 k0 name" "cstr m1 k1 args" by blast
  obtain eip esp m2 where e: "exec_ece391 exe k0 k1 m1 = (eip, esp, m2)" by (metis prod_cases3)
  have a: "cstr m2 ECE391_ARGSADDR args"
    by (rule exec_ece391_args [OF m1(3) assms(7,8,4) _ assms(15) e]) (use assms(14) in blast)
  have "\<exists>m4. sys_getargs len k2 n buf nbytes m3 = Some (0, m4) \<and> cstr m4 buf args"
    if eq: "bytes m3 ECE391_ARGSADDR (length args + 1) = bytes m2 ECE391_ARGSADDR (length args + 1)" for m3
  proof (rule sys_getargs_copies [OF _ assms(5,9,6,16,17)], rule cstr_same [OF a])
    fix j
    assume "j \<le> length args"
    then show "m3 (ECE391_ARGSADDR + word_of_nat j) = m2 (ECE391_ARGSADDR + word_of_nat j)"
      using arg_cong [OF eq, of "\<lambda>bs. bs ! j"] by simp
  qed
  with m1 e show ?thesis by blast
qed

text \<open>The command line \<open>a b\<close>.\<close>

definition command_mem :: mem where
  "command_mem = (\<lambda>_. 0)(0x1000 := 97, 0x1001 := 32, 0x1002 := 98)"

lemma apartI:
  "unat p + a \<le> unat q \<Longrightarrow> unat q + b \<le> 2 ^ 32 \<Longrightarrow> apart p a q b"
  "unat q + b \<le> unat p \<Longrightarrow> unat p + a \<le> 2 ^ 32 \<Longrightarrow> apart p a q b"
proof -
  have e: "unat (r + word_of_nat i) = unat r + i" if "unat r + i < 2 ^ 32" for r :: u32 and i
    using that by (subst unat_add_small) (simp_all add: unat_of_nat)
  show "unat p + a \<le> unat q \<Longrightarrow> unat q + b \<le> 2 ^ 32 \<Longrightarrow> apart p a q b"
    unfolding apart_def
  proof (intro allI impI notI)
    fix i j
    assume "unat p + a \<le> unat q" "unat q + b \<le> 2 ^ 32" "i < a" "j < b" "p + word_of_nat i = q + word_of_nat j"
    with e [of p i] e [of q j] show False by simp
  qed
  show "unat q + b \<le> unat p \<Longrightarrow> unat p + a \<le> 2 ^ 32 \<Longrightarrow> apart p a q b"
    unfolding apart_def
  proof (intro allI impI notI)
    fix i j
    assume "unat q + b \<le> unat p" "unat p + a \<le> 2 ^ 32" "i < a" "j < b" "p + word_of_nat i = q + word_of_nat j"
    with e [of p i] e [of q j] show False by simp
  qed
qed

lemma getargs_roundtrip_witness:
  "\<exists>m1 eip esp m2 m4. split_command 0x2000 0x3000 0x1000 command_mem = Some (0x2000, 0x3000, m1) \<and>
    exec_ece391 sample_exe 0x2000 0x3000 m1 = (eip, esp, m2) \<and>
    sys_getargs 2 0x4000 16 0x08100000 16 m2 = Some (0, m4) \<and> cstr m4 0x08100000 [98]"
proof -
  have c: "cstr command_mem 0x1000 ([97] @ replicate (Suc 0) 32 @ [98])"
    by (simp add: cstr_Cons_iff cstr_Nil_iff command_mem_def)
  have t: "length (snd (ex_read sample_exe 0 (0x400000 - ECE391_MAPADDR))) \<le> 0x400000 - 0x48000"
    by (simp add: sample_exe_def ECE391_MAPADDR_def)
  have o: "\<forall>j \<le> length [98 :: u8]. outside_page (0x3000 + word_of_nat j)"
    by (auto simp: outside_page_def ECE391_PAGEADDR_def le_Suc_eq)
  have args: "unat ECE391_ARGSADDR = 0x08000000" by (simp add: ECE391_ARGSADDR_def ECE391_PAGEADDR_def)
  have a: "apart 0x2000 (Suc (length [97 :: u8])) 0x1000 (length [97 :: u8] + 0 + length [98 :: u8] + 2)"
    "apart 0x3000 (Suc (length [98 :: u8])) 0x1000 (length [97 :: u8] + 0 + length [98 :: u8] + 2)"
    "apart 0x3000 (Suc (length [98 :: u8])) 0x2000 (Suc (length [97 :: u8]))"
    "apart 0x08100000 (length [98 :: u8]) 0x4000 (Suc (length [98 :: u8]))" by (rule apartI(2); simp)+
  have b: "apart 0x4000 (Suc (length [98 :: u8])) ECE391_ARGSADDR (Suc (length [98 :: u8]))"
    by (rule apartI(1)) (simp_all add: args)
  have sp: "split_command 0x2000 0x3000 0x1000 command_mem = Some (arg0, arg1, m1) \<Longrightarrow> arg0 = 0x2000 \<and> arg1 = 0x3000"
    for arg0 arg1 m1 using split_command_spec [OF c _ _ _ _ _ a(1-3)] by auto
  obtain arg0 arg1 m1 eip esp m2 where
    s: "split_command 0x2000 0x3000 0x1000 command_mem = Some (arg0, arg1, m1)" and
    e: "exec_ece391 sample_exe arg0 arg1 m1 = (eip, esp, m2)" and
    g: "\<exists>m4. sys_getargs 2 0x4000 16 0x08100000 16 m2 = Some (0, m4) \<and> cstr m4 0x08100000 [98]"
    using getargs_roundtrip [OF c _ _ _ _ _ _ _ _ _ a(1-3) o t b a(4), of 2 16 16] by auto
  from sp [OF s] s e g show ?thesis by blast
qed

end
