(* ===== verification/Signals.thy ===== *)
theory Signals
  imports Sched KArray
begin

text \<open>
  \<open>task/signal.c\<close> and \<open>task/userstack.c\<close>: sending, masking and delivering signals, the frames a handler
  runs on and the return from it.  Signal numbers are below \<open>NSIG\<close>; the code indexes a table of that
  size and shifts by the number, so a larger one is a fault (\<open>None\<close>).
\<close>

section \<open>Signal sets\<close>

definition NSIG :: u32 where "NSIG = 32"

abbreviation (input) SIGINT :: u32 where "SIGINT \<equiv> 2"
abbreviation (input) SIGFPE :: u32 where "SIGFPE \<equiv> 8"
abbreviation (input) SIGKILL :: u32 where "SIGKILL \<equiv> 9"
abbreviation (input) SIGUSR1 :: u32 where "SIGUSR1 \<equiv> 10"
abbreviation (input) SIGSEGV :: u32 where "SIGSEGV \<equiv> 11"
abbreviation (input) SIGALRM :: u32 where "SIGALRM \<equiv> 14"
abbreviation (input) SIGCHLD :: u32 where "SIGCHLD \<equiv> 17"
abbreviation (input) SIGCONT :: u32 where "SIGCONT \<equiv> 18"
abbreviation (input) SIGSTOP :: u32 where "SIGSTOP \<equiv> 19"
abbreviation (input) SIG_DFL :: ptr where "SIG_DFL \<equiv> 0"
abbreviation (input) SIG_IGN :: ptr where "SIG_IGN \<equiv> 1"

definition MASKVAL :: "u32 \<Rightarrow> u32" where
  "MASKVAL signum = push_bit (unat signum) 1"

definition SIG_UNMASKABLE :: u32 where
  "SIG_UNMASKABLE = MASKVAL SIGKILL OR MASKVAL SIGSTOP OR MASKVAL SIGCONT"

datatype default_action = SIG_IGNORE | SIG_KILL | SIG_STOP | SIG_CONT

text \<open>
  \<open>SIGHUP\<close>, \<open>SIGINT\<close>, \<open>SIGILL\<close>, \<open>SIGABRT\<close>, \<open>SIGBUS\<close>, \<open>SIGKILL\<close>, \<open>SIGSEGV\<close>, \<open>SIGPIPE\<close> and \<open>SIGTERM\<close> kill;
  \<open>SIGSTOP\<close>, \<open>SIGTSTP\<close>, \<open>SIGTTIN\<close> and \<open>SIGTTOU\<close> stop.
\<close>

definition default_sig_action :: "u32 \<Rightarrow> default_action" where
  "default_sig_action signum =
     (if signum \<in> {1, 2, 4, 6, 7, 9, 11, 13, 15} then SIG_KILL
      else if signum \<in> {19, 20, 21, 22} then SIG_STOP
      else if signum = SIGCONT then SIG_CONT
      else SIG_IGNORE)"

definition fatal_signal_pending :: "sigpending \<Rightarrow> u32" where
  "fatal_signal_pending p = pending_mask p AND (forced_mask p OR SIG_UNMASKABLE)"

definition signal_pending :: "sigpending \<Rightarrow> u32" where
  "signal_pending p = fatal_signal_pending p OR (pending_mask p AND NOT (blocked_mask p))"

definition signal_pending_one :: "sigpending \<Rightarrow> u32" where
  "signal_pending_one p =
     (if fatal_signal_pending p \<noteq> 0 then word_of_int (bsr (fatal_signal_pending p))
      else if signal_pending p \<noteq> 0 then word_of_int (bsr (signal_pending p))
      else 0)"

definition signal_is_fatal :: "sigpending \<Rightarrow> u32 \<Rightarrow> bool" where
  "signal_is_fatal p signum \<longleftrightarrow> MASKVAL signum AND (forced_mask p OR SIG_UNMASKABLE) \<noteq> 0"

definition clear_pending :: "u32 \<Rightarrow> sigpending \<Rightarrow> sigpending" where
  "clear_pending signum p = p\<lparr>pending_mask := pending_mask p AND NOT (MASKVAL signum),
     forced_mask := forced_mask p AND NOT (MASKVAL signum)\<rparr>"

section \<open>Sending\<close>

abbreviation upd_pending :: "(sigpending \<Rightarrow> sigpending) \<Rightarrow> task_struct \<Rightarrow> task_struct" where
  "upd_pending f x \<equiv> x\<lparr>t_sigpending := f (t_sigpending x)\<rparr>"

text \<open>The record of the signal is allocated without a check: no memory is a fault.\<close>

definition send_sig_info :: "ptr \<Rightarrow> siginfo \<Rightarrow> kst \<Rightarrow> kst option" where
  "send_sig_info t info st = do {
     x \<leftarrow> k_objs st t;
     let signo = si_signo info;
     if \<not> signo < NSIG then None
     else if pending_mask (t_sigpending x) AND MASKVAL signo \<noteq> 0 then Some st
     else do {
       acts \<leftarrow> k_actions st (t_sigactions x);
       if sa_sigaction (sas_actions acts signo) = SIG_IGN then Some st
       else if signo = SIGCONT then
         (if t_stopped x then wake_up_process t (set_task t (x\<lparr>t_stopped := False\<rparr>) st) else Some st)
       else
         (let (ok, st1) = k_kmalloc st;
              x1 = upd_pending (\<lambda>p. p\<lparr>pending_mask := pending_mask p OR MASKVAL signo,
                siginfos := (siginfos p)(signo \<mapsto> info)\<rparr>) x;
              st2 = set_task t x1 st1 in
          if \<not> ok then None
          else if t_state x = TASK_INTERRUPTIBLE then wake_up_process t st2
          else Some st2) } }"

definition force_sig_info :: "ptr \<Rightarrow> siginfo \<Rightarrow> kst \<Rightarrow> kst option" where
  "force_sig_info t info st = do {
     st1 \<leftarrow> send_sig_info t info st;
     x \<leftarrow> k_objs st1 t;
     Some (set_task t (upd_pending (\<lambda>p. p\<lparr>forced_mask := forced_mask p OR MASKVAL (si_signo info)\<rparr>) x) st1) }"

text \<open>\<open>SI_KERNEL\<close> is \<open>0x80\<close>.\<close>

definition kernel_siginfo :: "u32 \<Rightarrow> siginfo" where
  "kernel_siginfo signum = \<lparr>si_signo = signum, si_code = 0x80, si_pid = 0, si_status = 0\<rparr>"

definition send_sig :: "ptr \<Rightarrow> u32 \<Rightarrow> kst \<Rightarrow> kst option" where
  "send_sig t signum st = send_sig_info t (kernel_siginfo signum) st"

definition force_sig :: "ptr \<Rightarrow> u32 \<Rightarrow> kst \<Rightarrow> kst option" where
  "force_sig t signum st = force_sig_info t (kernel_siginfo signum) st"

text \<open>The loop over the tasks: \<open>f\<close> for those whose structure satisfies \<open>p\<close>.\<close>

fun for_tasks :: "(task_struct \<Rightarrow> bool) \<Rightarrow> (ptr \<Rightarrow> kst \<Rightarrow> kst option) \<Rightarrow> ptr list \<Rightarrow> kst \<Rightarrow> (bool \<times> kst) option" where
  "for_tasks p f [] st = Some (False, st)"
| "for_tasks p f (t # ts) st = do {
     x \<leftarrow> k_objs st t;
     if p x then do { st1 \<leftarrow> f t st; (_, st2) \<leftarrow> for_tasks p f ts st1; Some (True, st2) }
     else for_tasks p f ts st }"

definition send_sig_info_pg :: "u16 \<Rightarrow> siginfo \<Rightarrow> kst \<Rightarrow> (int \<times> kst) option" where
  "send_sig_info_pg pgid info st = do {
     r \<leftarrow> get_task_from_pid pgid st;
     (case r of
       Inl e \<Rightarrow> Some (e, st)
     | Inr leader \<Rightarrow> do {
         x \<leftarrow> k_objs st leader;
         if t_pgid x \<noteq> ucast pgid then do { st1 \<leftarrow> send_sig_info leader info st; Some (0, st1) }
         else do {
           (_, st1) \<leftarrow> for_tasks (\<lambda>x. t_pgid x = ucast pgid) (\<lambda>t. send_sig_info t info) (k_tasks st) st;
           Some (0, st1) } }) }"

section \<open>Signals the kernel waits for\<close>

definition set_sigaction :: "u32 \<Rightarrow> (sigaction \<Rightarrow> sigaction) \<Rightarrow> kst \<Rightarrow> kst option" where
  "set_sigaction signum f st = do {
     x \<leftarrow> current_task st;
     acts \<leftarrow> k_actions st (t_sigactions x);
     Some (st\<lparr>k_actions := (k_actions st)(t_sigactions x \<mapsto>
       acts\<lparr>sas_actions := (sas_actions acts)(signum := f (sas_actions acts signum))\<rparr>)\<rparr>) }"

definition kernel_mask_signal :: "u32 \<Rightarrow> kst \<Rightarrow> kst option" where
  "kernel_mask_signal signum st = set_sigaction signum (\<lambda>a. a\<lparr>sa_sigaction := SIG_IGN\<rparr>) st"

definition kernel_unmask_signal :: "u32 \<Rightarrow> kst \<Rightarrow> kst option" where
  "kernel_unmask_signal signum st = set_sigaction signum (\<lambda>a. a\<lparr>sa_sigaction := SIG_DFL\<rparr>) st"

definition kernel_sig_ispending :: "u32 \<Rightarrow> sigpending \<Rightarrow> bool" where
  "kernel_sig_ispending signum p \<longleftrightarrow> pending_mask p AND MASKVAL signum \<noteq> 0"

text \<open>\<open>None\<close> inside the result is the answer \<open>false\<close>.\<close>

definition kernel_peek_pending_sig :: "u32 \<Rightarrow> sigpending \<Rightarrow> siginfo option option" where
  "kernel_peek_pending_sig signum p =
     (if \<not> kernel_sig_ispending signum p then Some None
      else do { info \<leftarrow> siginfos p signum; Some (Some info) })"

definition kernel_get_pending_sig :: "u32 \<Rightarrow> kst \<Rightarrow> (siginfo option \<times> kst) option" where
  "kernel_get_pending_sig signum st = do {
     x \<leftarrow> current_task st;
     r \<leftarrow> kernel_peek_pending_sig signum (t_sigpending x);
     Some (r, set_task (k_current st) (upd_pending (clear_pending signum) x) st) }"

definition set_sigmask :: "u32 \<Rightarrow> sigpending \<Rightarrow> sigpending" where
  "set_sigmask newmask p = p\<lparr>blocked_mask := newmask AND NOT SIG_UNMASKABLE\<rparr>"

section \<open>The user's registers and stack\<close>

record intr_info =
  r_edi :: u32
  r_esi :: u32
  r_intr_esp :: u32
  r_ebx :: u32
  r_edx :: u32
  r_ecx :: u32
  r_eax :: u32
  r_ds :: u16
  r_es :: u16
  r_fs :: u16
  r_gs :: u16
  r_ebp :: u32
  r_intr_num :: u32
  r_error_code :: u32
  r_eip :: u32
  r_cs :: u16
  r_eflags :: u32
  r_esp :: u32
  r_ss :: u16

record ece391_user_context =
  c_ebx :: u32
  c_ecx :: u32
  c_edx :: u32
  c_esi :: u32
  c_edi :: u32
  c_ebp :: u32
  c_eax :: u32
  c_ds :: u16
  c_es :: u16
  c_fs :: u16
  c_intr_num :: u32
  c_error_code :: u32
  c_eip :: u32
  c_cs :: u16
  c_eflags :: u32
  c_esp :: u32
  c_ss :: u16

text \<open>The fields of \<open>struct sigcontext\<close> the kernel sets; the others are zero.\<close>

record sigcontext =
  sc_gs :: u16
  sc_fs :: u16
  sc_es :: u16
  sc_ds :: u16
  sc_edi :: u32
  sc_esi :: u32
  sc_ebp :: u32
  sc_esp :: u32
  sc_ebx :: u32
  sc_edx :: u32
  sc_ecx :: u32
  sc_eax :: u32
  sc_trapno :: u32
  sc_err :: u32
  sc_eip :: u32
  sc_cs :: u16
  sc_eflags :: u32
  sc_esp_at_signal :: u32
  sc_ss :: u16
  sc_oldmask :: u32

record sigframe =
  sf_pretcode :: ptr
  sf_sig :: u32
  sf_sc :: sigcontext

text \<open>
  What the kernel stores on the user's stack: a frame (whose last eight bytes are the code that calls
  \<open>sigreturn\<close>), an ECE391 context, the ECE391 return code, or a word.
\<close>

datatype uobj = Frame sigframe | Context ece391_user_context | SigretCode | Word u32

text \<open>
  \<open>1052\<close> is \<open>sizeof(struct sigframe)\<close>, \<open>68\<close> that of the context; the ECE391 return code is \<open>8\<close> bytes long
  and its interrupt returns behind the seventh.
\<close>

definition SIGFRAME_SIZE :: u32 where "SIGFRAME_SIZE = 1052"
definition CONTEXT_SIZE :: u32 where "CONTEXT_SIZE = 68"
definition SIGRET_SIZE :: u32 where "SIGRET_SIZE = 8"
definition SIGRET_POSTINT :: u32 where "SIGRET_POSTINT = 7"

text \<open>\<open>ok\<close> says whether a block of user memory can be accessed: \<open>safe_buf\<close> returns its whole size.\<close>

type_synonym access = "ptr \<Rightarrow> u32 \<Rightarrow> bool"

definition push_userstack ::
    "access \<Rightarrow> uobj \<Rightarrow> u32 \<Rightarrow> intr_info \<times> (ptr \<rightharpoonup> uobj) \<Rightarrow> (int + intr_info \<times> (ptr \<rightharpoonup> uobj))" where
  "push_userstack ok obj sz = (\<lambda>(regs, um).
     let esp = r_esp regs - sz in
     if \<not> ok esp sz then Inl (- EFAULT)
     else Inr (regs\<lparr>r_esp := esp\<rparr>, um(esp \<mapsto> obj)))"

section \<open>Delivering\<close>

definition linux_frame :: "intr_info \<Rightarrow> sigpending \<Rightarrow> sigaction \<Rightarrow> ptr \<Rightarrow> u32 \<Rightarrow> sigframe" where
  "linux_frame regs p act esp signum = \<lparr>
     sf_pretcode = (if sa_flags act AND 0x04000000 \<noteq> 0 then sa_restorer act else esp + 1044),
     sf_sig = signum,
     sf_sc = \<lparr>sc_gs = r_gs regs, sc_fs = r_fs regs, sc_es = r_es regs, sc_ds = r_ds regs,
       sc_edi = r_edi regs, sc_esi = r_esi regs, sc_ebp = r_ebp regs, sc_esp = r_intr_esp regs,
       sc_ebx = r_ebx regs, sc_edx = r_edx regs, sc_ecx = r_ecx regs, sc_eax = r_eax regs,
       sc_trapno = r_intr_num regs, sc_err = r_error_code regs, sc_eip = r_eip regs,
       sc_cs = r_cs regs, sc_eflags = r_eflags regs, sc_esp_at_signal = r_esp regs,
       sc_ss = r_ss regs, sc_oldmask = blocked_mask p\<rparr>\<rparr>"

definition ece391_context :: "intr_info \<Rightarrow> ece391_user_context" where
  "ece391_context regs = \<lparr>c_ebx = r_ebx regs, c_ecx = r_ecx regs, c_edx = r_edx regs,
     c_esi = r_esi regs, c_edi = r_edi regs, c_ebp = r_ebp regs, c_eax = r_eax regs,
     c_ds = r_ds regs, c_es = r_es regs, c_fs = r_fs regs, c_intr_num = r_intr_num regs,
     c_error_code = r_error_code regs, c_eip = r_eip regs, c_cs = r_cs regs,
     c_eflags = r_eflags regs, c_esp = r_esp regs, c_ss = r_ss regs\<rparr>"

definition ece391_signum :: "u32 \<Rightarrow> u32 option" where
  "ece391_signum signum =
     (if signum = SIGFPE then Some 0 else if signum = SIGSEGV then Some 1
      else if signum = SIGINT then Some 2 else if signum = SIGALRM then Some 3
      else if signum = SIGUSR1 then Some 4 else None)"

text \<open>The stack of a handler; \<open>Inl\<close> is the jump to \<open>force_segv\<close>, with what was pushed before it.\<close>

definition linux_handler ::
    "access \<Rightarrow> sigpending \<Rightarrow> sigaction \<Rightarrow> u32 \<Rightarrow> intr_info \<times> (ptr \<rightharpoonup> uobj) \<Rightarrow>
      (intr_info \<times> (ptr \<rightharpoonup> uobj)) + (intr_info \<times> (ptr \<rightharpoonup> uobj))" where
  "linux_handler ok p act signum = (\<lambda>(regs, um).
     case push_userstack ok (Frame (linux_frame regs p act (r_esp regs - SIGFRAME_SIZE) signum))
       SIGFRAME_SIZE (regs, um) of
       Inl _ \<Rightarrow> Inl (regs, um)
     | Inr (regs1, um1) \<Rightarrow> Inr (regs1\<lparr>r_eip := sa_sigaction act, r_eax := signum\<rparr>, um1))"

definition ece391_handler ::
    "access \<Rightarrow> sigaction \<Rightarrow> u32 \<Rightarrow> intr_info \<times> (ptr \<rightharpoonup> uobj) \<Rightarrow>
      (intr_info \<times> (ptr \<rightharpoonup> uobj)) + (intr_info \<times> (ptr \<rightharpoonup> uobj))" where
  "ece391_handler ok act signum = (\<lambda>(regs, um).
     case push_userstack ok SigretCode SIGRET_SIZE (regs, um) of
       Inl _ \<Rightarrow> Inl (regs, um)
     | Inr (regs1, um1) \<Rightarrow>
         (case push_userstack ok (Context (ece391_context (regs1\<lparr>r_esp := r_esp regs\<rparr>))) CONTEXT_SIZE (regs1, um1) of
           Inl _ \<Rightarrow> Inl (regs1, um1)
         | Inr (regs2, um2) \<Rightarrow>
             (case ece391_signum signum of
               None \<Rightarrow> Inl (regs2, um2)
             | Some n \<Rightarrow>
                 (case push_userstack ok (Word n) 4 (regs2, um2) of
                   Inl _ \<Rightarrow> Inl (regs2, um2)
                 | Inr (regs3, um3) \<Rightarrow>
                     (case push_userstack ok (Word (r_esp regs1)) 4 (regs3, um3) of
                       Inl _ \<Rightarrow> Inl (regs3, um3)
                     | Inr (regs4, um4) \<Rightarrow> Inr (regs4\<lparr>r_eip := sa_sigaction act\<rparr>, um4))))))"

text \<open>
  How a delivery ends: the task goes on with these registers, exits, stops (it is in the loop that gives
  up the processor until \<open>stopped\<close> is cleared), or runs into \<open>BUG\<close>.
\<close>

datatype delivered = Resumed intr_info | Exits int | Stops | Bug

text \<open>The signal taken: its default action, or the handler's stack.\<close>

datatype taken = Ends delivered | Handled intr_info "ptr \<rightharpoonup> uobj" | ForceSegv intr_info "ptr \<rightharpoonup> uobj"

definition take_signal ::
    "access \<Rightarrow> task_struct \<Rightarrow> sigaction \<Rightarrow> bool \<Rightarrow> u32 \<Rightarrow> intr_info \<times> (ptr \<rightharpoonup> uobj) \<Rightarrow> taken" where
  "take_signal ok x act is_fatal signum ru =
     (if is_fatal \<or> sa_sigaction act = SIG_DFL then
        (case default_sig_action signum of
          SIG_IGNORE \<Rightarrow> Ends (Resumed (fst ru))
        | SIG_KILL \<Rightarrow> Ends (Exits (case t_subsystem x of SUBSYSTEM_LINUX \<Rightarrow> 128 + int (unat signum)
            | SUBSYSTEM_ECE391 \<Rightarrow> 256))
        | SIG_STOP \<Rightarrow> Ends Stops
        | SIG_CONT \<Rightarrow> Ends Bug)
      else if sa_sigaction act = SIG_IGN then Ends (Resumed (fst ru))
      else
        (case (case t_subsystem x of
            SUBSYSTEM_LINUX \<Rightarrow> linux_handler ok (t_sigpending x) act signum ru
          | SUBSYSTEM_ECE391 \<Rightarrow> ece391_handler ok act signum ru) of
          Inl (regs, um) \<Rightarrow> ForceSegv regs um
        | Inr (regs, um) \<Rightarrow> Handled regs um))"

text \<open>
  \<open>deliver_signal\<close>.  A Linux handler runs with the mask of its action; when the frame cannot be pushed
  \<open>SIGSEGV\<close> is forced and delivered in turn.
\<close>

partial_function (option) deliver_signal ::
    "access \<Rightarrow> intr_info \<Rightarrow> kst \<times> (ptr \<rightharpoonup> uobj) \<Rightarrow> (delivered \<times> kst \<times> (ptr \<rightharpoonup> uobj)) option" where
  "deliver_signal ok regs s = do {
     x \<leftarrow> current_task (fst s);
     let signum = signal_pending_one (t_sigpending x);
     if signum = 0 then Some (Resumed regs, s)
     else do {
       let is_fatal = signal_is_fatal (t_sigpending x) signum;
       let x1 = upd_pending (clear_pending signum) x;
       let st1 = set_task (k_current (fst s)) x1 (fst s);
       acts \<leftarrow> k_actions st1 (t_sigactions x1);
       let act = sas_actions acts signum;
       (case take_signal ok x1 act is_fatal signum (regs, snd s) of
         Ends Stops \<Rightarrow> Some (Stops, set_task (k_current st1) (x1\<lparr>t_stopped := True\<rparr>) st1, snd s)
       | Ends d \<Rightarrow> Some (d, st1, snd s)
       | Handled regs1 um1 \<Rightarrow>
           Some (Resumed regs1,
             (case t_subsystem x1 of
               SUBSYSTEM_LINUX \<Rightarrow> set_task (k_current st1) (upd_pending (set_sigmask (sa_mask act)) x1) st1
             | SUBSYSTEM_ECE391 \<Rightarrow> st1), um1)
       | ForceSegv regs1 um1 \<Rightarrow> do {
           st2 \<leftarrow> force_sig (k_current st1) SIGSEGV st1;
           deliver_signal ok regs1 (st2, um1) }) } }"

text \<open>
  When a stopped task is the current one again: it gives up the processor again while it is stopped;
  the statement behind the loop is the one for \<open>SIG_CONT\<close>.
\<close>

definition stopped_resumes :: "kst \<Rightarrow> delivered option" where
  "stopped_resumes st = do { x \<leftarrow> current_task st; Some (if t_stopped x then Stops else Bug) }"

section \<open>Returning from a handler\<close>

text \<open>\<open>Some None\<close> is the failed check, for which \<open>SIGSEGV\<close> is forced.\<close>

definition ece391_sigreturn :: "access \<Rightarrow> (ptr \<rightharpoonup> uobj) \<Rightarrow> intr_info \<Rightarrow> intr_info option option" where
  "ece391_sigreturn ok um regs =
     (let a = r_eip regs - SIGRET_POSTINT - CONTEXT_SIZE in
      if \<not> ok a CONTEXT_SIZE then Some None
      else case um a of
        Some (Context c) \<Rightarrow> Some (Some (regs\<lparr>r_ebx := c_ebx c, r_ecx := c_ecx c, r_edx := c_edx c,
          r_esi := c_esi c, r_edi := c_edi c, r_ebp := c_ebp c, r_eax := c_eax c, r_ds := c_ds c,
          r_es := c_es c, r_fs := c_fs c, r_eip := c_eip c, r_eflags := c_eflags c, r_esp := c_esp c,
          r_ss := c_ss c\<rparr>))
      | _ \<Rightarrow> None)"

definition linux_sigreturn ::
    "access \<Rightarrow> (ptr \<rightharpoonup> uobj) \<Rightarrow> intr_info \<Rightarrow> sigpending \<Rightarrow> (intr_info \<times> sigpending) option option" where
  "linux_sigreturn ok um regs p =
     (let a = r_eip regs - SIGFRAME_SIZE in
      if \<not> ok a SIGFRAME_SIZE then Some None
      else case um a of
        Some (Frame f) \<Rightarrow> (let c = sf_sc f in
          Some (Some (regs\<lparr>r_ebx := sc_ebx c, r_ecx := sc_ecx c, r_edx := sc_edx c,
            r_esi := sc_esi c, r_edi := sc_edi c, r_ebp := sc_ebp c, r_eax := sc_eax c, r_ds := sc_ds c,
            r_es := sc_es c, r_fs := sc_fs c, r_gs := sc_gs c, r_eip := sc_eip c,
            r_eflags := sc_eflags c, r_esp := sc_esp_at_signal c, r_ss := sc_ss c\<rparr>,
            set_sigmask (sc_oldmask c) p)))
      | _ \<Rightarrow> None)"

section \<open>System calls\<close>

definition sys_set_handler :: "u32 \<Rightarrow> ptr \<Rightarrow> kst \<Rightarrow> (int \<times> kst) option" where
  "sys_set_handler n handler st =
     (if n < 5 then do {
        st1 \<leftarrow> set_sigaction ([SIGFPE, SIGSEGV, SIGINT, SIGALRM, SIGUSR1] ! unat n)
          (\<lambda>a. a\<lparr>sa_sigaction := handler\<rparr>) st;
        Some (0, st1) }
      else Some (- EINVAL, st))"

text \<open>\<open>act\<close> is the new action when its memory can be read; the second component is stored through \<open>oldact\<close>.\<close>

definition sys_rt_sigaction ::
    "u32 \<Rightarrow> sigaction option \<Rightarrow> bool \<Rightarrow> kst \<Rightarrow> (int \<times> sigaction option \<times> kst) option" where
  "sys_rt_sigaction signum act old st =
     (if s32 signum \<le> 0 \<or> s32 signum \<ge> 32 then Some (- EINVAL, None, st)
      else if signum = SIGKILL \<or> signum = SIGSTOP then Some (- EINVAL, None, st)
      else do {
        x \<leftarrow> current_task st;
        acts \<leftarrow> k_actions st (t_sigactions x);
        let out = (if old then Some (sas_actions acts signum) else None);
        (case act of
          None \<Rightarrow> Some (0, out, st)
        | Some a \<Rightarrow> do { st1 \<leftarrow> set_sigaction signum (\<lambda>_. a) st; Some (0, out, st1) }) })"

definition sys_rt_sigprocmask :: "u32 \<Rightarrow> u32 option \<Rightarrow> kst \<Rightarrow> (int \<times> u32 \<times> kst) option" where
  "sys_rt_sigprocmask how new st = do {
     x \<leftarrow> current_task st;
     let cur = blocked_mask (t_sigpending x);
     (case new of
       None \<Rightarrow> Some (0, cur, st)
     | Some m \<Rightarrow>
         if how = 0 \<or> how = 1 \<or> how = 2 then
           Some (0, cur, set_task (k_current st) (upd_pending (set_sigmask
             (if how = 0 then cur OR m else if how = 1 then cur AND NOT m else m)) x) st)
         else Some (- EINVAL, cur, st)) }"

definition user_siginfo :: "u32 \<Rightarrow> u16 \<Rightarrow> siginfo" where
  "user_siginfo signum pid = \<lparr>si_signo = signum, si_code = 0, si_pid = ucast pid, si_status = 0\<rparr>"

definition kill_group :: "int \<Rightarrow> task_struct \<Rightarrow> u16" where
  "kill_group pid x = (if pid < -1 then word_of_int (- pid) else if pid = -1 then 0 else ucast (t_pgid x))"

definition sys_kill :: "int \<Rightarrow> u32 \<Rightarrow> kst \<Rightarrow> (int \<times> kst) option" where
  "sys_kill pid signum st =
     (if signum > NSIG then Some (- EINVAL, st)
      else do {
        me \<leftarrow> current_task st;
        let info = user_siginfo signum (t_pid me);
        let send = (\<lambda>t st. if signum \<noteq> 0 then send_sig_info t info st else Some st);
        if pid < 1 then do {
          let pgid = kill_group pid me;
          (hashit, st1) \<leftarrow> for_tasks (\<lambda>x. pgid = 0 \<and> t_pid x > 1 \<or> t_pgid x = ucast pgid) send (k_tasks st) st;
          Some (if hashit then 0 else - ESRCH, st1) }
        else do {
          r \<leftarrow> get_task_from_pid (word_of_int pid) st;
          (case r of
            Inl e \<Rightarrow> Some (e, st)
          | Inr t \<Rightarrow> do { st1 \<leftarrow> send t st; Some (0, st1) }) } })"

definition sys_tgkill :: "int \<Rightarrow> int \<Rightarrow> u32 \<Rightarrow> kst \<Rightarrow> (int \<times> kst) option" where
  "sys_tgkill tgid tid signum st =
     (if signum > NSIG then Some (- EINVAL, st)
      else if tid \<noteq> tgid then Some (- ESRCH, st)
      else do {
        me \<leftarrow> current_task st;
        r \<leftarrow> get_task_from_pid (word_of_int tid) st;
        (case r of
          Inl e \<Rightarrow> Some (e, st)
        | Inr t \<Rightarrow>
            if signum \<noteq> 0 then do {
              st1 \<leftarrow> send_sig_info t (user_siginfo signum (t_pid me)) st; Some (0, st1) }
            else Some (0, st)) })"

section \<open>Bits of signal sets\<close>

lemma bit_top_bit: "0 < n \<Longrightarrow> bit n (top_bit n)"
proof -
  assume "0 < n"
  from top_bit_bounds [OF this] have lo: "2 ^ top_bit n \<le> n" and hi: "n < 2 * 2 ^ top_bit n" by simp_all
  have "1 \<le> n div 2 ^ top_bit n" using lo div_le_mono [OF lo, of "2 ^ top_bit n"] by simp
  moreover have "n div 2 ^ top_bit n < 2" using hi by (simp add: less_mult_imp_div_less)
  ultimately have "n div 2 ^ top_bit n = 1" by simp
  then show ?thesis by (simp add: bit_nat_def)
qed

lemma bsr_bit:
  fixes w :: u32
  assumes "w \<noteq> 0"
  obtains k where "bsr w = int k" and "k < 32" and "bit w k" and "unat (word_of_int (bsr w) :: u32) = k"
proof -
  let ?k = "top_bit (unat w)"
  have pos: "0 < unat w" using assms by (simp add: unat_gt_0)
  have lt: "?k < 32" using top_bit_less [OF pos, of 32] unat_lt_size32 [of w] by simp
  have "bit w ?k" using bit_top_bit [OF pos] by (simp add: bit_unsigned_iff lt)
  moreover have "unat (word_of_int (int ?k) :: u32) = ?k" using lt by (simp add: unat_of_nat)
  ultimately show thesis using that [of ?k] lt assms by (simp add: bsr_def)
qed

lemma bit_MASKVAL: "bit (MASKVAL n) k \<longleftrightarrow> k = unat n \<and> k < 32"
  by (auto simp: MASKVAL_def bit_exp_iff possible_bit_word)

lemma and_MASKVAL: "x AND MASKVAL n \<noteq> 0 \<longleftrightarrow> bit x (unat n)"
proof
  assume "x AND MASKVAL n \<noteq> 0"
  then obtain k where "bit (x AND MASKVAL n) k" using bit_word_eqI [of "x AND MASKVAL n" 0] by auto
  then show "bit x (unat n)" by (auto simp: bit_and_iff bit_MASKVAL)
next
  assume b: "bit x (unat n)"
  then have "unat n < 32" using bit_imp_le_length [of x "unat n"] by simp
  with b have "bit (x AND MASKVAL n) (unat n)" by (simp add: bit_and_iff bit_MASKVAL)
  then show "x AND MASKVAL n \<noteq> 0" by auto
qed

lemma and_not_smaller:
  fixes x m :: u32
  assumes "bit x k" and "bit m k"
  shows "unat (x AND NOT m) < unat x"
proof -
  have "\<not> bit (x AND NOT m) k" using assms by (simp add: bit_and_iff bit_not_iff)
  then have "x AND NOT m \<noteq> x" using assms(1) by auto
  moreover have "x AND NOT m \<le> x" by (rule word_and_le2)
  ultimately have "x AND NOT m < x" by (simp only: order_less_le simp_thms)
  then show ?thesis by (simp only: word_less_nat_alt)
qed

lemma signal_pending_one_bit:
  assumes "signal_pending_one p \<noteq> 0"
  shows "bit (pending_mask p) (unat (signal_pending_one p))" and "unat (signal_pending_one p) < 32"
    and "fatal_signal_pending p \<noteq> 0 \<Longrightarrow> signal_is_fatal p (signal_pending_one p)"
proof -
  let ?m = "if fatal_signal_pending p \<noteq> 0 then fatal_signal_pending p else signal_pending p"
  have nz: "?m \<noteq> 0" using assms by (auto simp: signal_pending_one_def split: if_splits)
  from bsr_bit [OF nz] obtain k where k: "bsr ?m = int k" "k < 32" "bit ?m k"
    "unat (word_of_int (bsr ?m) :: u32) = k" by blast
  have one: "signal_pending_one p = word_of_int (bsr ?m)"
    using nz by (auto simp: signal_pending_one_def)
  show "unat (signal_pending_one p) < 32" using k by (simp only: one)
  show "bit (pending_mask p) (unat (signal_pending_one p))"
    using k(3) unfolding one k(4)
    by (auto simp: fatal_signal_pending_def signal_pending_def bit_and_iff bit_or_iff split: if_splits)
  show "signal_is_fatal p (signal_pending_one p)" if "fatal_signal_pending p \<noteq> 0"
  proof -
    have "bit (forced_mask p OR SIG_UNMASKABLE) (unat (signal_pending_one p))"
      using k(3) that unfolding one k(4) by (simp add: fatal_signal_pending_def bit_and_iff)
    then have "(forced_mask p OR SIG_UNMASKABLE) AND MASKVAL (signal_pending_one p) \<noteq> 0"
      by (simp only: and_MASKVAL not_False_eq_True)
    then show ?thesis by (simp only: signal_is_fatal_def and.commute not_False_eq_True)
  qed
qed

section \<open>Delivery returns\<close>

lemma deliver_step:
  assumes x: "k_objs st (k_current st) = Some x" and acts: "k_actions st (t_sigactions x) = Some acts"
    and signum: "signum = signal_pending_one (t_sigpending x)" "signum \<noteq> 0"
    and x1: "x1 = upd_pending (clear_pending signum) x" and st1: "st1 = set_task (k_current st) x1 st"
    and act: "act = sas_actions acts signum"
  shows "deliver_signal ok regs (st, um) =
    (case take_signal ok x1 act (signal_is_fatal (t_sigpending x) signum) signum (regs, um) of
       Ends Stops \<Rightarrow> Some (Stops, set_task (k_current st1) (x1\<lparr>t_stopped := True\<rparr>) st1, um)
     | Ends d \<Rightarrow> Some (d, st1, um)
     | Handled regs1 um1 \<Rightarrow>
         Some (Resumed regs1,
           (case t_subsystem x1 of
             SUBSYSTEM_LINUX \<Rightarrow> set_task (k_current st1) (upd_pending (set_sigmask (sa_mask act)) x1) st1
           | SUBSYSTEM_ECE391 \<Rightarrow> st1), um1)
     | ForceSegv regs1 um1 \<Rightarrow> do {
         st2 \<leftarrow> force_sig (k_current st1) SIGSEGV st1;
         deliver_signal ok regs1 (st2, um1) })"
proof -
  have acts1: "k_actions st (t_sigactions x1) = Some acts" by (simp add: x1 acts)
  note facts = x signum(1) [symmetric] signum(2) x1 [symmetric] acts1 Let_def
  show ?thesis
  proof (cases "take_signal ok x1 (sas_actions acts signum) (signal_is_fatal (t_sigpending x) signum) signum (regs, um)")
    case (Ends d)
    then show ?thesis by (cases d; subst deliver_signal.simps; simp add: facts act st1)
  next
    case (Handled regs1 um1)
    then show ?thesis
      by (subst deliver_signal.simps) (simp add: facts act st1 split: subsystem.split)
  next
    case (ForceSegv regs1 um1)
    then show ?thesis by (subst deliver_signal.simps) (simp add: facts act st1)
  qed
qed

lemma fatal_ends: "take_signal ok x act True signum ru \<noteq> ForceSegv r u"
  by (simp add: take_signal_def split: default_action.split)

lemma deliver_fatal:
  assumes x: "k_objs st (k_current st) = Some x" and acts: "k_actions st (t_sigactions x) = Some acts"
    and fatal: "fatal_signal_pending (t_sigpending x) \<noteq> 0"
  shows "deliver_signal ok regs (st, um) \<noteq> None"
proof (cases "signal_pending_one (t_sigpending x) = 0")
  case True
  then show ?thesis by (subst deliver_signal.simps) (simp add: x)
next
  case False
  have "signal_is_fatal (t_sigpending x) (signal_pending_one (t_sigpending x))"
    using signal_pending_one_bit(3) [OF False] fatal by blast
  then show ?thesis
    unfolding deliver_step [OF x acts refl False refl refl refl]
    by (auto simp: fatal_ends split: taken.splits delivered.splits)
qed

lemma send_sig_total:
  assumes "k_objs st t \<noteq> None" and "k_actions st (t_sigactions (the (k_objs st t))) \<noteq> None"
    and "signo < NSIG" and "k_answers st = []"
  shows "\<exists>st'. send_sig t signo st = Some st'"
  using assms
  by (auto simp: send_sig_def send_sig_info_def kernel_siginfo_def wake_up_process_def k_kmalloc_def Let_def)

text \<open>What sending a signal does to the target: it is pending afterwards, unless it is ignored or is \<open>SIGCONT\<close>.\<close>

definition ignores :: "kst \<Rightarrow> ptr \<Rightarrow> u32 \<Rightarrow> bool" where
  "ignores st t signo \<longleftrightarrow> (\<exists>x acts. k_objs st t = Some x \<and> k_actions st (t_sigactions x) = Some acts
     \<and> sa_sigaction (sas_actions acts signo) = SIG_IGN)"

definition is_pending :: "kst \<Rightarrow> ptr \<Rightarrow> u32 \<Rightarrow> bool" where
  "is_pending st t signo \<longleftrightarrow> (\<exists>x. k_objs st t = Some x \<and> pending_mask (t_sigpending x) AND MASKVAL signo \<noteq> 0)"

lemma wake_up_process_cases:
  assumes "wake_up_process t st = Some st'"
  obtains (current) x where "k_objs st t = Some x" and "st' = set_task t (x\<lparr>t_wakeup_current := True\<rparr>) st"
  | (queue) a q where "st' = st\<lparr>k_answers := a, k_queue := q\<rparr>" and "k_answers st = [] \<Longrightarrow> a = []"
proof (cases "t = k_current st")
  case True
  with assms current show thesis by (auto simp: wake_up_process_def bind_eq_Some_conv)
next
  case False
  obtain ok ans where k: "kmalloc (k_answers st) = (ok, ans)" by fastforce
  from assms False k have "st' = st\<lparr>k_answers := (if t \<in> set (k_queue st) then k_answers st else ans),
      k_queue := (if t \<notin> set (k_queue st) \<and> ok then k_queue st @ [t] else k_queue st)\<rparr>"
    by (auto simp: wake_up_process_def k_kmalloc_def split: if_splits)
  then show thesis by (rule queue) (use k in auto)
qed

text \<open>What sending a signal, to whomever, keeps of every task.\<close>

definition task_keeps :: "task_struct \<Rightarrow> task_struct \<Rightarrow> bool" where
  "task_keeps x x' \<longleftrightarrow> t_pid x' = t_pid x \<and> t_pgid x' = t_pgid x \<and> t_sigactions x' = t_sigactions x \<and>
     (\<forall>k. bit (pending_mask (t_sigpending x)) k \<longrightarrow> bit (pending_mask (t_sigpending x')) k)"

lemma task_keeps_refl: "task_keeps x x"
  by (simp add: task_keeps_def)

lemma task_keeps_trans: "task_keeps x y \<Longrightarrow> task_keeps y z \<Longrightarrow> task_keeps x z"
  by (simp add: task_keeps_def)

definition keeps_signals :: "kst \<Rightarrow> kst \<Rightarrow> bool" where
  "keeps_signals st st' \<longleftrightarrow> k_tasks st' = k_tasks st \<and> k_actions st' = k_actions st \<and>
     k_current st' = k_current st \<and> (k_answers st = [] \<longrightarrow> k_answers st' = []) \<and>
     (\<forall>u x. k_objs st u = Some x \<longrightarrow> (\<exists>x'. k_objs st' u = Some x' \<and> task_keeps x x'))"

lemma keeps_signals_refl: "keeps_signals st st"
  by (simp add: keeps_signals_def task_keeps_refl)

lemma keeps_signals_task:
  "keeps_signals st st' \<Longrightarrow> k_objs st t = Some x \<Longrightarrow> \<exists>x'. k_objs st' t = Some x' \<and> task_keeps x x'"
  by (simp add: keeps_signals_def)

lemma keeps_signals_trans: "keeps_signals st st1 \<Longrightarrow> keeps_signals st1 st2 \<Longrightarrow> keeps_signals st st2"
  unfolding keeps_signals_def by (simp, blast intro: task_keeps_trans)

lemma keeps_signals_set:
  assumes "k_objs st t = Some x" and "task_keeps x x1"
  shows "keeps_signals st (set_task t x1 st)"
  using assms by (auto simp: keeps_signals_def task_keeps_refl)

lemma keeps_signals_wake: "wake_up_process t st = Some st' \<Longrightarrow> keeps_signals st st'"
proof (erule wake_up_process_cases)
  fix x
  assume "k_objs st t = Some x" and st': "st' = set_task t (x\<lparr>t_wakeup_current := True\<rparr>) st"
  then show "keeps_signals st st'" unfolding st' by (intro keeps_signals_set) (auto simp: task_keeps_def)
qed (simp add: keeps_signals_def task_keeps_refl)

lemma keeps_signals_kmalloc: "k_kmalloc st = (ok, st1) \<Longrightarrow> keeps_signals st st1"
  by (cases "k_answers st") (auto simp: k_kmalloc_def keeps_signals_def task_keeps_refl)

lemma send_sig_info_keeps:
  assumes run: "send_sig_info t info st = Some st'"
  shows "keeps_signals st st'" and
    "is_pending st' t (si_signo info) \<or> ignores st t (si_signo info) \<or> si_signo info = SIGCONT"
proof -
  let ?n = "si_signo info"
  from run obtain x where x: "k_objs st t = Some x" and lt: "?n < NSIG"
    by (auto simp: send_sig_info_def bind_eq_Some_conv Let_def split: if_splits)
  have "keeps_signals st st' \<and> (is_pending st' t ?n \<or> ignores st t ?n \<or> ?n = SIGCONT)"
  proof (cases "pending_mask (t_sigpending x) AND MASKVAL ?n \<noteq> 0")
    case True
    with run x lt have "st' = st" by (auto simp: send_sig_info_def Let_def)
    with True x show ?thesis by (auto simp: keeps_signals_refl is_pending_def)
  next
    case False
    with run x lt obtain acts where acts: "k_actions st (t_sigactions x) = Some acts"
      by (auto simp: send_sig_info_def bind_eq_Some_conv Let_def)
    show ?thesis
    proof (cases "sa_sigaction (sas_actions acts ?n) = SIG_IGN")
      case True
      with run x lt False acts have "st' = st" by (auto simp: send_sig_info_def Let_def)
      with True x acts show ?thesis by (auto simp: keeps_signals_refl ignores_def)
    next
      case dflt: False
      show ?thesis
      proof (cases "?n = SIGCONT")
        case True
        let ?st1 = "set_task t (x\<lparr>t_stopped := False\<rparr>) st"
        from True run x lt False acts dflt have "st' = st \<or> wake_up_process t ?st1 = Some st'"
          by (auto simp: send_sig_info_def Let_def split: if_splits)
        moreover have "keeps_signals st ?st1" by (rule keeps_signals_set [OF x]) (simp add: task_keeps_def)
        ultimately show ?thesis
          using True keeps_signals_wake keeps_signals_trans keeps_signals_refl by blast
      next
        case other: False
        obtain st1 where k: "k_kmalloc st = (True, st1)"
          using run x lt False acts dflt other
          by (cases "k_kmalloc st") (auto simp: send_sig_info_def Let_def split: if_splits)
        define x1 where "x1 = upd_pending (\<lambda>p. p\<lparr>pending_mask := pending_mask p OR MASKVAL ?n,
          siginfos := (siginfos p)(?n \<mapsto> info)\<rparr>) x"
        have x1: "t_state x1 = t_state x" "pending_mask (t_sigpending x1) = pending_mask (t_sigpending x) OR MASKVAL ?n"
          "t_pid x1 = t_pid x" "t_pgid x1 = t_pgid x" "t_sigactions x1 = t_sigactions x" by (simp_all add: x1_def)
        let ?st2 = "set_task t x1 st1"
        have step: "st' = ?st2 \<or> wake_up_process t ?st2 = Some st'"
          using run x lt False acts dflt other k
          by (auto simp: send_sig_info_def Let_def x1_def split: if_splits)
        have x': "k_objs st1 t = Some x" using x k_kmalloc_frame [OF k] by simp
        have "keeps_signals st1 ?st2"
          by (rule keeps_signals_set [OF x']) (use x1 in \<open>simp add: task_keeps_def bit_or_iff\<close>)
        then have k2: "keeps_signals st ?st2" using keeps_signals_kmalloc [OF k] keeps_signals_trans by blast
        moreover have k3: "keeps_signals ?st2 st'"
          using step keeps_signals_wake keeps_signals_refl by blast
        ultimately have "keeps_signals st st'" using keeps_signals_trans by blast
        moreover have "is_pending st' t ?n"
        proof -
          have "unat ?n < 32" using lt by (simp add: NSIG_def word_less_nat_alt)
          then have b: "bit (pending_mask (t_sigpending x1)) (unat ?n)"
            by (simp add: x1 bit_or_iff bit_MASKVAL)
          from k3 obtain x2 where "k_objs st' t = Some x2" "bit (pending_mask (t_sigpending x2)) (unat ?n)"
            using keeps_signals_task [OF k3, of t x1] b by (auto simp: task_keeps_def)
          then show ?thesis by (simp add: is_pending_def and_MASKVAL)
        qed
        ultimately show ?thesis by blast
      qed
    qed
  qed
  then show "keeps_signals st st'"
    and "is_pending st' t ?n \<or> ignores st t ?n \<or> ?n = SIGCONT" by blast+
qed

lemma force_sig_cases:
  assumes x: "k_objs st t = Some x" and acts: "k_actions st (t_sigactions x) = Some acts"
    and mem: "k_answers st = []" and lt: "signo < NSIG" and ne: "signo \<noteq> SIGCONT"
  obtains x2 st2 where "force_sig t signo st = Some st2" and "k_objs st2 t = Some x2"
    and "k_actions st2 = k_actions st" and "t_sigactions x2 = t_sigactions x"
    and "k_current st2 = k_current st" and "k_answers st2 = []"
    and "fatal_signal_pending (t_sigpending x2) \<noteq> 0 \<or>
      pending_mask (t_sigpending x2) = pending_mask (t_sigpending x)"
proof -
  have "k_objs st t \<noteq> None" "k_actions st (t_sigactions (the (k_objs st t))) \<noteq> None"
    using x acts by simp_all
  from send_sig_total [OF this lt mem] obtain st1 where
    run: "send_sig_info t (kernel_siginfo signo) st = Some st1" by (auto simp: send_sig_def)
  note keeps = send_sig_info_keeps [OF run]
  from keeps_signals_task [OF keeps(1) x] obtain x' where x': "k_objs st1 t = Some x'" "task_keeps x x'" by blast
  define x2 where "x2 = upd_pending (\<lambda>p. p\<lparr>forced_mask := forced_mask p OR MASKVAL signo\<rparr>) x'"
  have st2: "force_sig t signo st = Some (set_task t x2 st1)"
    using x' by (simp add: force_sig_def force_sig_info_def run x2_def) (simp add: kernel_siginfo_def)
  have n: "unat signo < 32" using lt by (simp add: NSIG_def word_less_nat_alt)
  have "fatal_signal_pending (t_sigpending x2) \<noteq> 0 \<or>
      pending_mask (t_sigpending x2) = pending_mask (t_sigpending x)"
  proof (cases "is_pending st1 t signo")
    case True
    then have "bit (pending_mask (t_sigpending x')) (unat signo)"
      using x' by (simp add: is_pending_def and_MASKVAL)
    then have "bit (fatal_signal_pending (t_sigpending x2)) (unat signo)"
      using n by (simp add: x2_def fatal_signal_pending_def bit_and_iff bit_or_iff bit_MASKVAL)
    then have "fatal_signal_pending (t_sigpending x2) \<noteq> 0" by auto
    then show ?thesis ..
  next
    case False
    with keeps(2) ne have ign: "sa_sigaction (sas_actions acts signo) = SIG_IGN"
      using x acts by (auto simp: kernel_siginfo_def ignores_def)
    have "st1 = st"
      using run x acts ign lt
      by (auto simp: send_sig_info_def kernel_siginfo_def Let_def split: if_splits)
    then show ?thesis using x x' by (simp add: x2_def)
  qed
  with that [of "set_task t x2 st1" x2] st2 keeps(1) x' mem show thesis
    by (simp add: keeps_signals_def task_keeps_def x2_def)
qed

lemma deliver_total:
  assumes "k_objs st (k_current st) = Some x" and "k_actions st (t_sigactions x) = Some acts"
    and "k_answers st = []"
  shows "deliver_signal ok regs (st, um) \<noteq> None"
  using assms
proof (induction "unat (pending_mask (t_sigpending x))" arbitrary: st x regs um rule: less_induct)
  case less
  note x = less.prems(1) and acts = less.prems(2)
  let ?n = "signal_pending_one (t_sigpending x)"
  show ?case
  proof (cases "?n = 0")
    case True
    then show ?thesis by (subst deliver_signal.simps) (simp add: x)
  next
    case False
    define x1 where "x1 = upd_pending (clear_pending ?n) x"
    define st1 where "st1 = set_task (k_current st) x1 st"
    note step = deliver_step [OF x acts refl False x1_def st1_def refl, of ok regs um]
    show ?thesis
    proof (cases "take_signal ok x1 (sas_actions acts ?n) (signal_is_fatal (t_sigpending x) ?n) ?n (regs, um)")
      case (ForceSegv regs1 um1)
      have p1: "k_objs st1 (k_current st) = Some x1" "k_actions st1 (t_sigactions x1) = Some acts"
        "k_answers st1 = []" "k_current st1 = k_current st"
        using acts less.prems(3) by (simp_all add: st1_def x1_def)
      have "SIGSEGV < NSIG" "SIGSEGV \<noteq> SIGCONT" by (simp_all add: NSIG_def)
      from force_sig_cases [OF p1(1-3) this] obtain st2 x2 where
        f: "force_sig (k_current st) SIGSEGV st1 = Some st2" and x2: "k_objs st2 (k_current st) = Some x2"
        "k_actions st2 = k_actions st1" "t_sigactions x2 = t_sigactions x1"
        "k_current st2 = k_current st1" "k_answers st2 = []"
        and next_mask: "fatal_signal_pending (t_sigpending x2) \<noteq> 0 \<or>
          pending_mask (t_sigpending x2) = pending_mask (t_sigpending x1)" by blast
      have cur: "k_objs st2 (k_current st2) = Some x2" "k_actions st2 (t_sigactions x2) = Some acts"
        using x2 p1 by simp_all
      have small: "unat (pending_mask (t_sigpending x1)) < unat (pending_mask (t_sigpending x))"
        unfolding x1_def clear_pending_def
        using and_not_smaller [OF signal_pending_one_bit(1) [OF False], of "MASKVAL ?n"]
          signal_pending_one_bit(2) [OF False] by (simp add: bit_MASKVAL)
      have "deliver_signal ok regs1 (st2, um1) \<noteq> None"
        using next_mask
      proof
        assume "fatal_signal_pending (t_sigpending x2) \<noteq> 0"
        then show ?thesis by (rule deliver_fatal [OF cur])
      next
        assume "pending_mask (t_sigpending x2) = pending_mask (t_sigpending x1)"
        then show ?thesis using less.hyps [OF _ cur x2(5)] small by simp
      qed
      then show ?thesis by (simp add: step ForceSegv f p1(4))
    qed (simp_all add: step split: delivered.split)
  qed
qed

text \<open>The loop over the tasks reaches every task it is meant for.\<close>

lemma for_tasks_keeps:
  assumes "\<And>t st st'. f t st = Some st' \<Longrightarrow> keeps_signals st st'"
  shows "for_tasks p f ts st = Some (hit, st') \<Longrightarrow> keeps_signals st st'"
proof (induction ts arbitrary: st hit)
  case (Cons t ts)
  then show ?case
    by (auto simp: bind_eq_Some_conv keeps_signals_refl split: if_splits
        intro: keeps_signals_trans dest: assms)
qed (simp add: keeps_signals_refl)

lemma is_pending_keeps: "keeps_signals st st' \<Longrightarrow> is_pending st t n \<Longrightarrow> is_pending st' t n"
  using keeps_signals_task [of st st' t] by (fastforce simp: is_pending_def and_MASKVAL task_keeps_def)

lemma ignores_keeps: "keeps_signals st st' \<Longrightarrow> k_objs st t \<noteq> None \<Longrightarrow> ignores st' t n \<longleftrightarrow> ignores st t n"
  using keeps_signals_task [of st st' t] by (fastforce simp: ignores_def keeps_signals_def task_keeps_def)

definition signalled :: "kst \<Rightarrow> kst \<Rightarrow> ptr \<Rightarrow> u32 \<Rightarrow> bool" where
  "signalled st st' t signo \<longleftrightarrow> is_pending st' t signo \<or> ignores st t signo \<or> signo = SIGCONT"

lemma for_tasks_group:
  assumes "for_tasks p (\<lambda>t. send_sig_info t info) ts st = Some (hit, st')"
    and "\<And>x x'. task_keeps x x' \<Longrightarrow> p x' = p x"
  shows "(hit \<longleftrightarrow> (\<exists>t \<in> set ts. \<exists>x. k_objs st t = Some x \<and> p x))
    \<and> (\<forall>t \<in> set ts. \<forall>x. k_objs st t = Some x \<longrightarrow> p x \<longrightarrow> signalled st st' t (si_signo info))
    \<and> (\<not> hit \<longrightarrow> st' = st)"
  using assms(1)
proof (induction ts arbitrary: st hit)
  case (Cons t ts)
  from Cons.prems obtain x where x: "k_objs st t = Some x" by (auto simp: bind_eq_Some_conv)
  show ?case
  proof (cases "p x")
    case False
    with Cons x show ?thesis by auto
  next
    case True
    with Cons.prems x obtain st1 h where s: "send_sig_info t info st = Some st1"
      and rest: "for_tasks p (\<lambda>t. send_sig_info t info) ts st1 = Some (h, st')" and hit: "hit"
      by (auto simp: bind_eq_Some_conv)
    note keeps = send_sig_info_keeps [OF s]
    have later: "keeps_signals st1 st'"
      by (rule for_tasks_keeps [OF _ rest]) (rule send_sig_info_keeps(1))
    have here: "signalled st st' t (si_signo info)"
      using keeps(2) is_pending_keeps [OF later] by (auto simp: signalled_def)
    have "signalled st st' u (si_signo info)" if u: "u \<in> set ts" "k_objs st u = Some y" "p y" for u y
    proof -
      from keeps_signals_task [OF keeps(1) u(2)] obtain y' where
        "k_objs st1 u = Some y'" "task_keeps y y'" by blast
      with Cons.IH [OF rest] u assms(2) have "signalled st1 st' u (si_signo info)" by blast
      then show ?thesis using ignores_keeps [OF keeps(1), of u] u(2) by (auto simp: signalled_def)
    qed
    with here hit x True show ?thesis by auto
  qed
qed simp

section \<open>Properties\<close>

text \<open>The running task of the sample kernel, with a signal pending and an action for it.\<close>

definition signalled_task :: "u32 \<Rightarrow> subsystem \<Rightarrow> task_struct" where
  "signalled_task m sub = (sample_task 16)\<lparr>t_subsystem := sub, t_sigpending := no_signals\<lparr>pending_mask := m\<rparr>\<rparr>"

definition one_handler :: "ptr \<Rightarrow> sigactions" where
  "one_handler h = \<lparr>sas_refcount = 3, sas_actions =
     (\<lambda>_. \<lparr>sa_sigaction = h, sa_mask = 4, sa_flags = 0, sa_restorer = 0\<rparr>)\<rparr>"

definition signalled_kst :: "u32 \<Rightarrow> ptr \<Rightarrow> subsystem \<Rightarrow> kst" where
  "signalled_kst m h sub = sample_kst\<lparr>k_objs := (k_objs sample_kst)(64 \<mapsto> signalled_task m sub),
     k_actions := [128 \<mapsto> one_handler h]\<rparr>"

definition sample_regs :: intr_info where
  "sample_regs = \<lparr>r_edi = 1, r_esi = 2, r_intr_esp = 0, r_ebx = 3, r_edx = 4, r_ecx = 5, r_eax = 6,
     r_ds = 43, r_es = 43, r_fs = 43, r_gs = 43, r_ebp = 7, r_intr_num = 128, r_error_code = 0,
     r_eip = 4096, r_cs = 35, r_eflags = 514, r_esp = 8192, r_ss = 43\<rparr>"

lemma top_bit_power: "top_bit (2 ^ k) = k"
proof (rule antisym)
  show "top_bit (2 ^ k) \<le> k" using top_bit_less [of "2 ^ k" "Suc k"] by simp
  show "k \<le> top_bit (2 ^ k)" by (rule top_bit_ge) simp
qed

lemma bsr_examples: "bsr 0x400 = 10" "bsr 0x80000 = 19"
  using top_bit_power [of 10] top_bit_power [of 19] by (simp_all add: bsr_def)

lemma signalled_simps [simp]:
  "k_current (signalled_kst m h sub) = 64"
  "k_objs (signalled_kst m h sub) 64 = Some (signalled_task m sub)"
  "k_actions (signalled_kst m h sub) 128 = Some (one_handler h)"
  "k_answers (signalled_kst m h sub) = []"
  "t_sigactions (signalled_task m sub) = 128" "t_subsystem (signalled_task m sub) = sub"
  "t_sigpending (signalled_task m sub) = no_signals\<lparr>pending_mask := m\<rparr>"
  "sas_actions (one_handler h) n = \<lparr>sa_sigaction = h, sa_mask = 4, sa_flags = 0, sa_restorer = 0\<rparr>"
  by (simp_all add: signalled_kst_def signalled_task_def one_handler_def sample_kst_def)

lemma signalled_pending [simp]:
  "signal_pending_one (no_signals\<lparr>pending_mask := 0x400\<rparr>) = 10"
  "\<not> signal_is_fatal (no_signals\<lparr>pending_mask := 0x400\<rparr>) 10"
  "signal_pending_one (no_signals\<lparr>pending_mask := 0x80000\<rparr>) = 19"
  by (simp_all add: signal_pending_one_def signal_is_fatal_def fatal_signal_pending_def signal_pending_def
      no_signals_def SIG_UNMASKABLE_def MASKVAL_def bsr_examples)

text \<open>C14: delivering signals ends.  With memory for the records, the delivery to the current task reaches
  one of its ends, also when stacks cannot be written and \<open>SIGSEGV\<close> is forced again and again.\<close>

theorem deliver_signal_returns:
  assumes "current_task st = Some x" and "k_actions st (t_sigactions x) = Some acts" and "k_answers st = []"
  shows "\<exists>d st' um'. deliver_signal ok regs (st, um) = Some (d, st', um')"
  using deliver_total [OF assms] by auto

theorem deliver_signal_returns_witness:
  "\<exists>d st' um'. deliver_signal (\<lambda>_ _. False) sample_regs (signalled_kst 0x400 512 SUBSYSTEM_LINUX, Map.empty)
     = Some (d, st', um')"
  using deliver_signal_returns [of "signalled_kst 0x400 512 SUBSYSTEM_LINUX" "signalled_task 0x400 SUBSYSTEM_LINUX"
      "one_handler 512"] by simp

text \<open>C15: a Linux handler returns to where it was called.  Delivering a signal with a handler pushes a frame
  from which \<open>sigreturn\<close>, called from the code at the end of the frame, restores the registers and the
  mask of blocked signals, whatever the handler did to the registers.\<close>

theorem linux_handler_returns:
  assumes x: "current_task st = Some x" and acts: "k_actions st (t_sigactions x) = Some acts"
    and n: "n = signal_pending_one (t_sigpending x)" "n \<noteq> 0" and nonfatal: "\<not> signal_is_fatal (t_sigpending x) n"
    and act: "act = sas_actions acts n" "sa_sigaction act \<noteq> SIG_DFL" "sa_sigaction act \<noteq> SIG_IGN"
    and sub: "t_subsystem x = SUBSYSTEM_LINUX" and ok: "ok (r_esp regs - SIGFRAME_SIZE) SIGFRAME_SIZE"
  shows "\<exists>regs1 st1 um1 x1. deliver_signal ok regs (st, um) = Some (Resumed regs1, st1, um1) \<and>
    r_eip regs1 = sa_sigaction act \<and> r_eax regs1 = n \<and> current_task st1 = Some x1 \<and>
    blocked_mask (t_sigpending x1) = sa_mask act AND NOT SIG_UNMASKABLE \<and>
    (\<forall>regs2 um2 p2. r_eip regs2 = r_esp regs1 + SIGFRAME_SIZE \<longrightarrow> um2 (r_esp regs1) = um1 (r_esp regs1) \<longrightarrow>
      linux_sigreturn ok um2 regs2 p2 =
        Some (Some (regs\<lparr>r_intr_esp := r_intr_esp regs2, r_intr_num := r_intr_num regs2,
          r_error_code := r_error_code regs2, r_cs := r_cs regs2\<rparr>,
          set_sigmask (blocked_mask (t_sigpending x)) p2)))"
proof -
  define x1 where "x1 = upd_pending (clear_pending n) x"
  have "take_signal ok x1 act False n (regs, um) = Handled
      (regs\<lparr>r_esp := r_esp regs - SIGFRAME_SIZE, r_eip := sa_sigaction act, r_eax := n\<rparr>)
      (um(r_esp regs - SIGFRAME_SIZE \<mapsto> Frame (linux_frame regs (t_sigpending x1) act (r_esp regs - SIGFRAME_SIZE) n)))"
    using act(2,3) sub ok by (simp add: take_signal_def x1_def linux_handler_def push_userstack_def Let_def)
  then have d: "deliver_signal ok regs (st, um) = Some (Resumed
      (regs\<lparr>r_esp := r_esp regs - SIGFRAME_SIZE, r_eip := sa_sigaction act, r_eax := n\<rparr>),
      set_task (k_current st) (upd_pending (set_sigmask (sa_mask act)) x1) (set_task (k_current st) x1 st),
      um(r_esp regs - SIGFRAME_SIZE \<mapsto> Frame (linux_frame regs (t_sigpending x1) act (r_esp regs - SIGFRAME_SIZE) n)))"
    using deliver_step [OF x acts n x1_def refl act(1), of ok regs um] nonfatal sub
    by (simp add: x1_def)
  have returns_to: "linux_sigreturn ok um2 regs2 p2 =
        Some (Some (regs\<lparr>r_intr_esp := r_intr_esp regs2, r_intr_num := r_intr_num regs2,
          r_error_code := r_error_code regs2, r_cs := r_cs regs2\<rparr>,
          set_sigmask (blocked_mask (t_sigpending x)) p2))"
    if eip: "r_eip regs2 = r_esp regs - SIGFRAME_SIZE + SIGFRAME_SIZE"
      and frame: "um2 (r_esp regs - SIGFRAME_SIZE) =
        Some (Frame (linux_frame regs (t_sigpending x1) act (r_esp regs - SIGFRAME_SIZE) n))" for regs2 um2 p2
  proof -
    have a: "r_eip regs2 - SIGFRAME_SIZE = r_esp regs - SIGFRAME_SIZE" using eip by simp
    show ?thesis
      unfolding linux_sigreturn_def a Let_def frame
      by (simp add: ok linux_frame_def x1_def clear_pending_def)
  qed
  show ?thesis
  proof (intro exI conjI)
    show "deliver_signal ok regs (st, um) = Some (Resumed
      (regs\<lparr>r_esp := r_esp regs - SIGFRAME_SIZE, r_eip := sa_sigaction act, r_eax := n\<rparr>),
      set_task (k_current st) (upd_pending (set_sigmask (sa_mask act)) x1) (set_task (k_current st) x1 st),
      um(r_esp regs - SIGFRAME_SIZE \<mapsto> Frame (linux_frame regs (t_sigpending x1) act (r_esp regs - SIGFRAME_SIZE) n)))"
      by (rule d)
    show "current_task (set_task (k_current st) (upd_pending (set_sigmask (sa_mask act)) x1) (set_task (k_current st) x1 st))
      = Some (upd_pending (set_sigmask (sa_mask act)) x1)" by simp
  qed (simp_all add: set_sigmask_def returns_to)
qed

theorem linux_handler_returns_witness:
  "\<exists>regs1 st1 um1. deliver_signal (\<lambda>_ _. True) sample_regs (signalled_kst 0x400 512 SUBSYSTEM_LINUX, Map.empty)
     = Some (Resumed regs1, st1, um1) \<and> r_eip regs1 = 512"
  using linux_handler_returns [of "signalled_kst 0x400 512 SUBSYSTEM_LINUX" "signalled_task 0x400 SUBSYSTEM_LINUX"
      "one_handler 512" 10 "sas_actions (one_handler 512) 10" "\<lambda>_ _. True" sample_regs Map.empty]
  by auto

text \<open>An ECE391 handler returns to where it was called.  Its stack holds the address of the return code
  and the ECE391 number of the signal; when that code calls \<open>sigreturn\<close>, the registers are restored.\<close>

theorem ece391_handler_returns:
  assumes x: "current_task st = Some x" and acts: "k_actions st (t_sigactions x) = Some acts"
    and n: "n = signal_pending_one (t_sigpending x)" "n \<noteq> 0" and nonfatal: "\<not> signal_is_fatal (t_sigpending x) n"
    and act: "act = sas_actions acts n" "sa_sigaction act \<noteq> SIG_DFL" "sa_sigaction act \<noteq> SIG_IGN"
    and sub: "t_subsystem x = SUBSYSTEM_ECE391" and ok: "\<forall>a k. ok a k" and num: "ece391_signum n = Some m"
  shows "\<exists>regs1 st1 um1 code. deliver_signal ok regs (st, um) = Some (Resumed regs1, st1, um1) \<and>
    r_eip regs1 = sa_sigaction act \<and> um1 (r_esp regs1) = Some (Word code) \<and> um1 code = Some SigretCode \<and>
    um1 (r_esp regs1 + 4) = Some (Word m) \<and>
    (\<forall>regs2 um2. r_eip regs2 = code + SIGRET_POSTINT \<longrightarrow> um2 (code - CONTEXT_SIZE) = um1 (code - CONTEXT_SIZE) \<longrightarrow>
      ece391_sigreturn ok um2 regs2 =
        Some (Some (regs\<lparr>r_intr_esp := r_intr_esp regs2, r_intr_num := r_intr_num regs2, r_gs := r_gs regs2,
          r_error_code := r_error_code regs2, r_cs := r_cs regs2\<rparr>)))"
proof -
  define x1 where "x1 = upd_pending (clear_pending n) x"
  let ?e = "r_esp regs"
  have "take_signal ok x1 act False n (regs, um) = Handled
      (regs\<lparr>r_esp := ?e - 84, r_eip := sa_sigaction act\<rparr>)
      (um(?e - 8 \<mapsto> SigretCode, ?e - 76 \<mapsto> Context (ece391_context regs), ?e - 80 \<mapsto> Word m, ?e - 84 \<mapsto> Word (?e - 8)))"
    using act(2,3) sub ok num
    by (simp add: take_signal_def x1_def ece391_handler_def push_userstack_def Let_def SIGRET_SIZE_def CONTEXT_SIZE_def)
  then have d: "deliver_signal ok regs (st, um) = Some (Resumed
      (regs\<lparr>r_esp := ?e - 84, r_eip := sa_sigaction act\<rparr>), set_task (k_current st) x1 st,
      um(?e - 8 \<mapsto> SigretCode, ?e - 76 \<mapsto> Context (ece391_context regs), ?e - 80 \<mapsto> Word m, ?e - 84 \<mapsto> Word (?e - 8)))"
    using deliver_step [OF x acts n x1_def refl act(1), of ok regs um] nonfatal sub
    by (simp add: x1_def)
  have returns_to: "ece391_sigreturn ok um2 regs2 =
        Some (Some (regs\<lparr>r_intr_esp := r_intr_esp regs2, r_intr_num := r_intr_num regs2, r_gs := r_gs regs2,
          r_error_code := r_error_code regs2, r_cs := r_cs regs2\<rparr>))"
    if eip: "r_eip regs2 = ?e - 8 + SIGRET_POSTINT"
      and ctx: "um2 (?e - 8 - CONTEXT_SIZE) = Some (Context (ece391_context regs))" for regs2 um2
  proof -
    have a: "r_eip regs2 - SIGRET_POSTINT - CONTEXT_SIZE = ?e - 8 - CONTEXT_SIZE" using eip by simp
    show ?thesis
      unfolding ece391_sigreturn_def a Let_def ctx
      by (simp add: ok ece391_context_def)
  qed
  show ?thesis
  proof (intro exI conjI)
    show "deliver_signal ok regs (st, um) = Some (Resumed
      (regs\<lparr>r_esp := ?e - 84, r_eip := sa_sigaction act\<rparr>), set_task (k_current st) x1 st,
      um(?e - 8 \<mapsto> SigretCode, ?e - 76 \<mapsto> Context (ece391_context regs), ?e - 80 \<mapsto> Word m, ?e - 84 \<mapsto> Word (?e - 8)))"
      by (rule d)
    show "\<forall>regs2 um2. r_eip regs2 = ?e - 8 + SIGRET_POSTINT \<longrightarrow>
      um2 (?e - 8 - CONTEXT_SIZE) =
        (um(?e - 8 \<mapsto> SigretCode, ?e - 76 \<mapsto> Context (ece391_context regs), ?e - 80 \<mapsto> Word m, ?e - 84 \<mapsto> Word (?e - 8)))
          (?e - 8 - CONTEXT_SIZE) \<longrightarrow>
      ece391_sigreturn ok um2 regs2 =
        Some (Some (regs\<lparr>r_intr_esp := r_intr_esp regs2, r_intr_num := r_intr_num regs2, r_gs := r_gs regs2,
          r_error_code := r_error_code regs2, r_cs := r_cs regs2\<rparr>))"
      by (intro allI impI returns_to) (simp_all add: CONTEXT_SIZE_def)
  qed simp_all
qed

theorem ece391_handler_returns_witness:
  "\<exists>regs1 st1 um1. deliver_signal (\<lambda>_ _. True) sample_regs (signalled_kst 0x400 512 SUBSYSTEM_ECE391, Map.empty)
     = Some (Resumed regs1, st1, um1) \<and> r_eip regs1 = 512"
  using ece391_handler_returns [of "signalled_kst 0x400 512 SUBSYSTEM_ECE391" "signalled_task 0x400 SUBSYSTEM_ECE391"
      "one_handler 512" 10 "sas_actions (one_handler 512) 10" "\<lambda>_ _. True" 4 sample_regs Map.empty]
  by (auto simp: ece391_signum_def)

text \<open>Stopping and continuing a task halts the kernel.  A stop signal that takes its default action stops
  the task and takes it off the processor; when another task sends \<open>SIGCONT\<close>, the stopped task is queued
  again, and as soon as it runs it reaches \<open>BUG\<close>.\<close>

theorem stop_then_cont_bugs:
  assumes x: "current_task st = Some x" and acts: "k_actions st (t_sigactions x) = Some acts"
    and n: "n = signal_pending_one (t_sigpending x)" "n \<noteq> 0" "default_sig_action n = SIG_STOP"
    and dflt: "signal_is_fatal (t_sigpending x) n \<or> sa_sigaction (sas_actions acts n) = SIG_DFL"
    and cont: "sa_sigaction (sas_actions acts SIGCONT) \<noteq> SIG_IGN"
      "pending_mask (t_sigpending x) AND MASKVAL SIGCONT = 0"
    and other: "other \<noteq> k_current st" "k_queue st = [other]" and mem: "k_answers st = []"
  shows "\<exists>st1 st2 st3. deliver_signal ok regs (st, um) = Some (Stops, st1, um) \<and>
    schedule st1 = Some st2 \<and> k_current st2 = other \<and> k_current st \<notin> set (k_queue st2) \<and>
    send_sig (k_current st) SIGCONT st2 = Some st3 \<and> k_current st \<in> set (k_queue st3) \<and>
    stopped_resumes (st3\<lparr>k_current := k_current st\<rparr>) = Some Bug"
proof -
  let ?t = "k_current st"
  define x1 where "x1 = upd_pending (clear_pending n) x"
  define x2 where "x2 = x1\<lparr>t_stopped := True\<rparr>"
  have taken: "take_signal ok x1 (sas_actions acts n) (signal_is_fatal (t_sigpending x) n) n (regs, um) = Ends Stops"
    using dflt n(3) by (auto simp: take_signal_def)
  let ?st1 = "set_task ?t x2 (set_task ?t x1 st)"
  have d: "deliver_signal ok regs (st, um) = Some (Stops, ?st1, um)"
    using deliver_step [OF x acts n(1,2) x1_def refl refl, of ok regs um] by (simp add: taken x2_def)
  let ?st2 = "?st1\<lparr>k_queue := [], k_current := other\<rparr>"
  have s: "schedule ?st1 = Some ?st2"
    using other by (simp add: schedule_def requeue_def x2_def)
  have low: "\<not> bit (pending_mask (t_sigpending x2)) 18"
    using cont(2) and_MASKVAL [of "pending_mask (t_sigpending x)" SIGCONT]
    by (auto simp: x2_def x1_def clear_pending_def bit_and_iff)
  then have np: "pending_mask (t_sigpending x2) AND MASKVAL SIGCONT = 0"
    using and_MASKVAL [of "pending_mask (t_sigpending x2)" SIGCONT] by simp
  let ?st3 = "(set_task ?t (x2\<lparr>t_stopped := False\<rparr>) ?st2)\<lparr>k_queue := [?t]\<rparr>"
  have "send_sig ?t SIGCONT ?st2 = Some ?st3"
    using np cont(1) acts other mem
    by (simp add: send_sig_def send_sig_info_def kernel_siginfo_def Let_def NSIG_def x2_def x1_def
        wake_up_process_def k_kmalloc_def)
  then show ?thesis
    using d s other(1) by (intro exI [of _ ?st1] exI [of _ ?st2] exI [of _ ?st3] conjI) (simp_all add: stopped_resumes_def)
qed

theorem stop_then_cont_bugs_witness:
  "\<exists>st1. deliver_signal (\<lambda>_ _. True) sample_regs
     ((signalled_kst 0x80000 0 SUBSYSTEM_LINUX)\<lparr>k_queue := [96]\<rparr>, Map.empty) = Some (Stops, st1, Map.empty)"
  using stop_then_cont_bugs [of "(signalled_kst 0x80000 0 SUBSYSTEM_LINUX)\<lparr>k_queue := [96]\<rparr>"
      "signalled_task 0x80000 SUBSYSTEM_LINUX" "one_handler 0" 19 96 "\<lambda>_ _. True" sample_regs Map.empty]
  by (auto simp: default_sig_action_def MASKVAL_def)

text \<open>\<open>kill\<close> reaches a process group.  With the negated number of a group as its target, it fails with
  \<open>ESRCH\<close> and changes nothing if the group is empty; otherwise it returns 0 and the signal is pending for
  every task of the group that does not ignore it (\<open>SIGCONT\<close> never is pending).\<close>

theorem kill_reaches_group:
  assumes "1 < g" and "g < 65536" and "signum \<noteq> 0" and "signum < NSIG"
    and "sys_kill (- g) signum st = Some (res, st')"
  shows "if \<exists>t \<in> set (k_tasks st). \<exists>x. k_objs st t = Some x \<and> uint (t_pgid x) = g
    then res = 0 \<and> (\<forall>t \<in> set (k_tasks st). \<forall>x. k_objs st t = Some x \<longrightarrow> uint (t_pgid x) = g \<longrightarrow>
      is_pending st' t signum \<or> ignores st t signum \<or> signum = SIGCONT)
    else res = - ESRCH \<and> st' = st"
proof -
  let ?w = "word_of_int g :: u16"
  have u: "uint ?w = g" using assms(1,2) by (simp add: uint_word_of_int)
  have w: "?w \<noteq> 0" using u assms(1) by auto
  have pg: "y = ucast ?w \<longleftrightarrow> uint y = g" for y :: u32
  proof -
    have "uint (ucast ?w :: u32) = g" using u uint_up_ucast [where 'b = 32, of ?w] by (simp add: is_up)
    then show ?thesis by (metis word_uint_eq_iff)
  qed
  have valid: "\<not> NSIG < signum" using assms(4) by auto
  have g: "- g < - 1" "- g < 1" using assms(1) by simp_all
  obtain me where me: "current_task st = Some me"
    using assms(5) valid by (cases "current_task st") (simp_all add: sys_kill_def)
  have "kill_group (- g) me = ?w" using g by (simp add: kill_group_def)
  then have "sys_kill (- g) signum st = do {
      (hashit, st1) \<leftarrow> for_tasks (\<lambda>x. t_pgid x = ucast ?w) (\<lambda>t. send_sig_info t (user_siginfo signum (t_pid me))) (k_tasks st) st;
      Some (if hashit then 0 else - ESRCH, st1) }"
    using valid me g w assms(3) by (simp add: sys_kill_def Let_def del: minus_less_iff)
  with assms(5) obtain hit where
    run: "for_tasks (\<lambda>x. t_pgid x = ucast ?w) (\<lambda>t. send_sig_info t (user_siginfo signum (t_pid me))) (k_tasks st) st
      = Some (hit, st')" and res: "res = (if hit then 0 else - ESRCH)"
    by (auto simp: bind_eq_Some_conv)
  have "task_keeps x x' \<Longrightarrow> (t_pgid x' = ucast ?w) = (t_pgid x = ucast ?w)" for x x' :: task_struct
    by (simp add: task_keeps_def)
  from for_tasks_group [OF run this] res show ?thesis
    unfolding pg signalled_def by (simp add: user_siginfo_def)
qed

lemma sample_kill:
  "sys_kill (- 16) 10 (signalled_kst 0 0 SUBSYSTEM_LINUX) = Some (0, (signalled_kst 0 0 SUBSYSTEM_LINUX)\<lparr>
     k_objs := (k_objs (signalled_kst 0 0 SUBSYSTEM_LINUX))
       (64 \<mapsto> upd_pending (\<lambda>p. p\<lparr>pending_mask := 0x400, siginfos := [10 \<mapsto> user_siginfo 10 16]\<rparr>) (signalled_task 0 SUBSYSTEM_LINUX),
        96 \<mapsto> upd_pending (\<lambda>p. p\<lparr>pending_mask := 0x400, siginfos := [10 \<mapsto> user_siginfo 10 16]\<rparr>)
          ((sample_task 17)\<lparr>t_state := TASK_INTERRUPTIBLE\<rparr>)),
     k_queue := [96]\<rparr>)"
  by (simp add: sys_kill_def kill_group_def NSIG_def Let_def send_sig_info_def user_siginfo_def MASKVAL_def
      signalled_kst_def signalled_task_def one_handler_def sample_kst_def k_kmalloc_def wake_up_process_def
      no_signals_def)

theorem kill_reaches_group_witness:
  "\<exists>st'. sys_kill (- 16) 10 (signalled_kst 0 0 SUBSYSTEM_LINUX) = Some (0, st') \<and> is_pending st' 96 10"
proof -
  define s where "s = signalled_kst 0 0 SUBSYSTEM_LINUX"
  obtain st' where k: "sys_kill (- 16) 10 s = Some (0, st')" unfolding s_def using sample_kill by blast
  have "if \<exists>t \<in> set (k_tasks s). \<exists>x. k_objs s t = Some x \<and> uint (t_pgid x) = 16
    then (0::int) = 0 \<and> (\<forall>t \<in> set (k_tasks s). \<forall>x. k_objs s t = Some x \<longrightarrow> uint (t_pgid x) = 16 \<longrightarrow>
      is_pending st' t 10 \<or> ignores s t 10 \<or> (10::u32) = SIGCONT)
    else 0 = - ESRCH \<and> st' = s"
    by (rule kill_reaches_group [OF _ _ _ _ k]) (simp_all add: NSIG_def)
  then have "k_objs s t = Some x \<Longrightarrow> uint (t_pgid x) = 16 \<Longrightarrow> is_pending st' t 10 \<or> ignores s t 10"
    if "t \<in> set (k_tasks s)" for t x using that by (simp split: if_split_asm)
  moreover have "96 \<in> set (k_tasks s)" "\<not> ignores s 96 10"
    "k_objs s 96 = Some ((sample_task 17)\<lparr>t_state := TASK_INTERRUPTIBLE\<rparr>)"
    by (simp_all add: s_def ignores_def signalled_kst_def sample_kst_def one_handler_def)
  ultimately have "is_pending st' 96 10" by fastforce
  with k show ?thesis unfolding s_def by blast
qed

end
