(* ===== verification/Clock.thy ===== *)
theory Clock
  imports Signals
begin

text \<open>
  Time: the calendar of the battery clock (\<open>drivers/rtc.c\<close>, \<open>time/clock.c\<close>), the time since the start
  (\<open>time/uptime.c\<close>), sleeping tasks (\<open>time/sleep.c\<close>) and the clock device (\<open>char/rtc.c\<close>).  All of it is
  driven by the clock interrupt, 1024 times a second; the registers of the clock are arguments.
\<close>

section \<open>Points in time\<close>

datatype timespec = Timespec (ts_sec: u32) (ts_nsec: u32)

definition NSEC :: u32 where "NSEC = 1000000000"

definition timespec_cmp :: "timespec \<Rightarrow> timespec \<Rightarrow> int" where
  "timespec_cmp x y = (if ts_sec x = ts_sec y then s32 (ts_nsec x - ts_nsec y) else s32 (ts_sec x - ts_sec y))"

definition timespec_add :: "timespec \<Rightarrow> timespec \<Rightarrow> timespec" where
  "timespec_add x y =
     (let sec = ts_sec x + ts_sec y; nsec = ts_nsec x + ts_nsec y in
      if nsec \<ge> NSEC then Timespec (sec + 1) (nsec - NSEC) else Timespec sec nsec)"

definition timespec_sub :: "timespec \<Rightarrow> timespec \<Rightarrow> timespec" where
  "timespec_sub x y =
     (if ts_nsec x < ts_nsec y then Timespec (ts_sec x - 1 - ts_sec y) (ts_nsec x + NSEC - ts_nsec y)
      else Timespec (ts_sec x - ts_sec y) (ts_nsec x - ts_nsec y))"

text \<open>The order of time: by the seconds, then by the nanoseconds.\<close>

instantiation timespec :: linorder
begin

definition less_eq_timespec :: "timespec \<Rightarrow> timespec \<Rightarrow> bool" where
  "x \<le> y \<longleftrightarrow> ts_sec x < ts_sec y \<or> ts_sec x = ts_sec y \<and> ts_nsec x \<le> ts_nsec y"

definition less_timespec :: "timespec \<Rightarrow> timespec \<Rightarrow> bool" where
  "x < y \<longleftrightarrow> ts_sec x < ts_sec y \<or> ts_sec x = ts_sec y \<and> ts_nsec x < ts_nsec y"

instance
  by standard (auto simp: less_eq_timespec_def less_timespec_def timespec.expand)

end

section \<open>The battery clock\<close>

record rtc_timestamp =
  rt_year :: u16
  rt_month :: u8
  rt_day :: u8
  rt_hour :: u8
  rt_minute :: u8
  rt_second :: u8

definition bcd :: "u8 \<Rightarrow> u8" where
  "bcd v = (v AND 0x0F) + (v div 16) * 10"

text \<open>The registers are decoded when register B says they are in decimal, and in half days.\<close>

definition decode_decimal :: "u8 \<Rightarrow> rtc_timestamp \<Rightarrow> rtc_timestamp" where
  "decode_decimal format t =
     (if format AND 4 = 0 then
        t\<lparr>rt_second := bcd (rt_second t), rt_minute := bcd (rt_minute t),
          rt_hour := ((rt_hour t AND 0x0F) + ((rt_hour t AND 0x70) div 16) * 10) OR (rt_hour t AND 0x80),
          rt_day := bcd (rt_day t), rt_month := bcd (rt_month t),
          rt_year := (rt_year t AND 0x0F) + (rt_year t div 16) * 10\<rparr>
      else t)"

definition decode_half_day :: "u8 \<Rightarrow> rtc_timestamp \<Rightarrow> rtc_timestamp" where
  "decode_half_day format t =
     (if format AND 2 = 0 \<and> rt_hour t AND 0x80 \<noteq> 0 then t\<lparr>rt_hour := ((rt_hour t AND 0x7F) + 12) mod 24\<rparr> else t)"

text \<open>\<open>this_year\<close> is the year the kernel was compiled in; the registers hold two digits of the year.\<close>

definition full_year :: "nat \<Rightarrow> rtc_timestamp \<Rightarrow> rtc_timestamp" where
  "full_year this_year t =
     (let y = rt_year t + word_of_nat (this_year div 100 * 100) in
      t\<lparr>rt_year := (if unat y < this_year then y + 100 else y)\<rparr>)"

definition rtc_get_timestamp :: "nat \<Rightarrow> u8 \<Rightarrow> rtc_timestamp \<Rightarrow> rtc_timestamp" where
  "rtc_get_timestamp this_year format t =
     full_year this_year (decode_half_day format (decode_decimal format t))"

text \<open>Seconds since 1970.  The year and the month are 32-bit numbers, the day count is 64-bit from the days on.\<close>

definition mktime64 :: "u32 \<Rightarrow> u32 \<Rightarrow> u32 \<Rightarrow> u32 \<Rightarrow> u32 \<Rightarrow> u32 \<Rightarrow> 64 word" where
  "mktime64 year0 mon0 day hour minute sec =
     (let early = sint (mon0 - 2) \<le> 0;
          mon = (if early then mon0 - 2 + 12 else mon0 - 2);
          year = (if early then year0 - 1 else year0) in
      (((ucast (year div 4 - year div 100 + year div 400 + 367 * mon div 12 + day) +
         ucast (year * 365) - 719499) * 24 + ucast hour) * 60 + ucast minute) * 60 + ucast sec)"

definition time_now :: "nat \<Rightarrow> u8 \<Rightarrow> rtc_timestamp \<Rightarrow> 64 word" where
  "time_now this_year format t =
     (let r = rtc_get_timestamp this_year format t in
      mktime64 (ucast (rt_year r)) (ucast (rt_month r)) (ucast (rt_day r)) (ucast (rt_hour r)) (ucast (rt_minute r))
        (ucast (rt_second r)))"

section \<open>The time since the start\<close>

record uptime =
  up_calibration :: u32
  up_counter :: u32
  up_seconds :: u32
  up_last_second :: u16
  up_state :: u8

definition rtc_rate_to_freq :: "nat \<Rightarrow> nat" where
  "rtc_rate_to_freq rate = 32768 div 2 ^ (rate - 1)"

definition RTC_HW_RATE :: nat where "RTC_HW_RATE = 6"

definition uptime_start :: uptime where
  "uptime_start = \<lparr>up_calibration = word_of_nat (rtc_rate_to_freq RTC_HW_RATE), up_counter = 0, up_seconds = 0,
     up_last_second = - 1, up_state = 0\<rparr>"

definition next_second :: "uptime \<Rightarrow> uptime" where
  "next_second u = u\<lparr>up_calibration := (if up_counter u = 0 then 1 else up_counter u),
     up_seconds := up_seconds u + 1, up_counter := 0\<rparr>"

text \<open>State 1 goes on into state 2.\<close>

definition uptime_tick :: "u8 \<Rightarrow> uptime \<Rightarrow> uptime" where
  "uptime_tick second u =
     (let changed = ucast second \<noteq> up_last_second u;
          u1 = (if up_state u = 0 then u\<lparr>up_state := up_state u + 1\<rparr>
            else if up_state u = 1 then
              (if changed then next_second (u\<lparr>up_state := up_state u + 1, up_counter := 0\<rparr>) else u)
            else if up_state u = 2 then (if changed then next_second u else u)
            else u) in
      u1\<lparr>up_last_second := ucast second, up_counter := up_counter u1 + 1\<rparr>)"

definition get_uptime :: "uptime \<Rightarrow> timespec" where
  "get_uptime u =
     (let counter = (if up_counter u \<ge> up_calibration u then up_calibration u - 1 else up_counter u) in
      Timespec (up_seconds u) (counter * 1000000 div up_calibration u * 1000))"

section \<open>Sleeping tasks\<close>

record sleep_spec =
  ss_task :: ptr
  ss_endtime :: timespec

text \<open>The clock, the queue of sleepers and the rest of the kernel.\<close>

record clk =
  c_up :: uptime
  c_specs :: "ptr \<rightharpoonup> sleep_spec"
  c_sleep_queue :: "ptr list"
  c_kst :: kst

abbreviation on_kst :: "(kst \<Rightarrow> kst) \<Rightarrow> clk \<Rightarrow> clk" where
  "on_kst f c \<equiv> c\<lparr>c_kst := f (c_kst c)\<rparr>"

definition now :: "clk \<Rightarrow> timespec" where
  "now c = get_uptime (c_up c)"

text \<open>
  \<open>list_insert_ordered\<close> compares the records of the queue as if they were times: the address of the task is
  taken for the seconds and the seconds of the end for the nanoseconds.
\<close>

definition spec_as_time :: "sleep_spec \<Rightarrow> timespec" where
  "spec_as_time x = Timespec (ss_task x) (ts_sec (ss_endtime x))"

definition compare_specs :: "(ptr \<rightharpoonup> sleep_spec) \<Rightarrow> ptr \<Rightarrow> ptr \<Rightarrow> int" where
  "compare_specs specs a b = timespec_cmp (spec_as_time (the (specs a))) (spec_as_time (the (specs b)))"

text \<open>\<open>p\<close> is where the new record would be.  A list node that cannot be allocated is not noticed.\<close>

definition sleep_add :: "ptr \<Rightarrow> timespec \<Rightarrow> clk \<Rightarrow> (int + ptr) \<times> clk" where
  "sleep_add p time c =
     (let (ok, st) = k_kmalloc (c_kst c) in
      if \<not> ok then (Inl (- ENOMEM), c\<lparr>c_kst := st\<rparr>)
      else (let x = \<lparr>ss_task = k_current st, ss_endtime = timespec_add (now c) time\<rparr>;
                specs = (c_specs c)(p \<mapsto> x);
                (ok2, st2) = k_kmalloc st in
        (Inr p, c\<lparr>c_specs := specs, c_kst := st2,
          c_sleep_queue := (if ok2 then insert_ordered (compare_specs specs) p (c_sleep_queue c) else c_sleep_queue c)\<rparr>)))"

definition sleep_hashit :: "ptr \<Rightarrow> clk \<Rightarrow> bool option" where
  "sleep_hashit p c = do { x \<leftarrow> c_specs c p; Some (timespec_cmp (now c) (ss_endtime x) \<ge> 0) }"

definition sleep_finalize :: "ptr \<Rightarrow> clk \<Rightarrow> clk" where
  "sleep_finalize p c = c\<lparr>c_sleep_queue := filter (\<lambda>q. q \<noteq> p) (c_sleep_queue c), c_specs := (c_specs c)(p := None)\<rparr>"

text \<open>The clock interrupt: the sleepers whose time has come are woken, and leave the queue.\<close>

fun wake_sleepers :: "ptr list \<Rightarrow> clk \<Rightarrow> (ptr list \<times> clk) option" where
  "wake_sleepers [] c = Some ([], c)"
| "wake_sleepers (p # ps) c = do {
     x \<leftarrow> c_specs c p;
     if timespec_cmp (now c) (ss_endtime x) \<ge> 0 then do {
       st \<leftarrow> wake_up_process (ss_task x) (c_kst c);
       wake_sleepers ps (c\<lparr>c_kst := st\<rparr>) }
     else do { (qs, c1) \<leftarrow> wake_sleepers ps c; Some (p # qs, c1) } }"

definition sleep_tick :: "clk \<Rightarrow> clk option" where
  "sleep_tick c = do { (qs, c1) \<leftarrow> wake_sleepers (c_sleep_queue c) c; Some (c1\<lparr>c_sleep_queue := qs\<rparr>) }"

definition clock_tick :: "u8 \<Rightarrow> clk \<Rightarrow> clk option" where
  "clock_tick second c = sleep_tick (c\<lparr>c_up := uptime_tick second (c_up c)\<rparr>)"

text \<open>
  \<open>nanosleep\<close> up to its loop, and one round of it.  \<open>req\<close> is \<open>None\<close> for a pointer that is not safe, \<open>rem_ok\<close>
  says whether the place for the remaining time is; what is written there is the last component.
\<close>

definition nanosleep_enter :: "ptr \<Rightarrow> timespec option \<Rightarrow> bool \<Rightarrow> clk \<Rightarrow> (int + ptr) \<times> timespec option \<times> clk" where
  "nanosleep_enter p req rem_ok c =
     (case req of
       None \<Rightarrow> (Inl (- EFAULT), None, c)
     | Some r \<Rightarrow>
         if ts_nsec r \<ge> NSEC then (Inl (- EINVAL), None, c)
         else (case sleep_add p r c of
             (Inl e, c1) \<Rightarrow> (Inl e, None, c1)
           | (Inr q, c1) \<Rightarrow> (Inr q, if rem_ok then Some (Timespec 0 0) else None, c1)))"

datatype sleep_result = SleepDone int "timespec option" | SleepOn

definition set_current_state :: "task_state \<Rightarrow> kst \<Rightarrow> kst option" where
  "set_current_state s st = do { x \<leftarrow> current_task st; Some (set_task (k_current st) (x\<lparr>t_state := s\<rparr>) st) }"

definition nanosleep_round :: "ptr \<Rightarrow> bool \<Rightarrow> clk \<Rightarrow> (sleep_result \<times> clk) option" where
  "nanosleep_round p rem_ok c = do {
     hit \<leftarrow> sleep_hashit p c;
     x \<leftarrow> current_task (c_kst c);
     y \<leftarrow> c_specs c p;
     if hit then Some (SleepDone 0 None, sleep_finalize p c)
     else if signal_pending (t_sigpending x) \<noteq> 0 then
       Some (SleepDone (- EINTR) (if rem_ok then Some (timespec_sub (ss_endtime y) (now c)) else None), sleep_finalize p c)
     else do {
       st1 \<leftarrow> set_current_state TASK_INTERRUPTIBLE (c_kst c);
       st2 \<leftarrow> schedule st1;
       Some (SleepOn, c\<lparr>c_kst := st2\<rparr>) } }"

text \<open>The task runs again: it goes on with the next round.\<close>

definition nanosleep_resume :: "ptr \<Rightarrow> bool \<Rightarrow> clk \<Rightarrow> (sleep_result \<times> clk) option" where
  "nanosleep_resume p rem_ok c = do {
     st \<leftarrow> set_current_state TASK_RUNNING (c_kst c);
     nanosleep_round p rem_ok (c\<lparr>c_kst := st\<rparr>) }"

section \<open>The clock device\<close>

text \<open>Each open file of the device counts the interrupts of its own rate.\<close>

record rtc_private =
  rp_task :: ptr
  rp_rate :: nat
  rp_div :: u32
  rp_mod :: u16

definition MAX_RATE :: nat where "MAX_RATE = 15"

definition new_rtc_private :: rtc_private where
  "new_rtc_private = \<lparr>rp_task = 0, rp_rate = MAX_RATE, rp_div = 0, rp_mod = 0\<rparr>"

definition rtc_write :: "u8 list \<Rightarrow> rtc_private \<Rightarrow> int \<times> rtc_private" where
  "rtc_write buf r =
     (if length buf \<noteq> 4 then (- EINVAL, r)
      else (let freq = unat (buf ! 0) + unat (buf ! 1) * 256 + unat (buf ! 2) * 65536 + unat (buf ! 3) * 16777216 in
        case List.find (\<lambda>i. freq = rtc_rate_to_freq i) [RTC_HW_RATE..<MAX_RATE + 1] of
          None \<Rightarrow> (- EINVAL, r)
        | Some i \<Rightarrow> (4, r\<lparr>rp_rate := i\<rparr>)))"

definition n_intr :: "rtc_private \<Rightarrow> nat" where
  "n_intr r = rtc_rate_to_freq RTC_HW_RATE div rtc_rate_to_freq (rp_rate r)"

text \<open>The loop that moves whole periods from the one counter to the other; \<open>None\<close> is a loop without end.\<close>

partial_function (option) count_periods :: "nat \<Rightarrow> bool \<Rightarrow> rtc_private \<Rightarrow> (bool \<times> rtc_private) option" where
  "count_periods n wake r =
     (if unat (rp_mod r) \<ge> n
      then count_periods n True (r\<lparr>rp_div := rp_div r + 1, rp_mod := rp_mod r - word_of_nat n\<rparr>)
      else Some (wake, r))"

definition rtc_tick_one :: "rtc_private \<times> kst \<Rightarrow> (rtc_private \<times> kst) option" where
  "rtc_tick_one = (\<lambda>(r, st). do {
     (wake, r1) \<leftarrow> count_periods (n_intr r) False (r\<lparr>rp_mod := rp_mod r + 1\<rparr>);
     st1 \<leftarrow> (if wake \<and> rp_task r1 \<noteq> 0 then wake_up_process (rp_task r1) st else Some st);
     Some (r1, st1) })"

fun rtc_tick :: "rtc_private list \<Rightarrow> kst \<Rightarrow> (rtc_private list \<times> kst) option" where
  "rtc_tick [] st = Some ([], st)"
| "rtc_tick (r # rs) st = do {
     (r1, st1) \<leftarrow> rtc_tick_one (r, st);
     (rs1, st2) \<leftarrow> rtc_tick rs st1;
     Some (r1 # rs1, st2) }"

text \<open>A read waits until the count changes; \<open>rtc_read_enter\<close> remembers it, \<open>rtc_read_round\<close> is a round of the loop.\<close>

definition rtc_read_enter :: "rtc_private \<times> kst \<Rightarrow> ((int + u32) \<times> rtc_private \<times> kst) option" where
  "rtc_read_enter = (\<lambda>(r, st).
     if rp_task r \<noteq> 0 then Some (Inl (- EBUSY), r, st)
     else do {
       st1 \<leftarrow> set_current_state TASK_UNINTERRUPTIBLE st;
       Some (Inr (rp_div r), r\<lparr>rp_task := k_current st\<rparr>, st1) })"

definition rtc_read_round :: "u32 \<Rightarrow> rtc_private \<times> kst \<Rightarrow> (int option \<times> rtc_private \<times> kst) option" where
  "rtc_read_round init = (\<lambda>(r, st).
     if rp_div r = init then do { st1 \<leftarrow> schedule st; Some (None, r, st1) }
     else do {
       st1 \<leftarrow> set_current_state TASK_RUNNING st;
       Some (Some 0, r\<lparr>rp_div := 0, rp_task := 0\<rparr>, st1) })"

section \<open>The order of time\<close>

definition timespec_ok :: "timespec \<Rightarrow> bool" where
  "timespec_ok x \<longleftrightarrow> unat (ts_sec x) < 2 ^ 31 \<and> ts_nsec x < NSEC"

lemma s32_diff:
  fixes a b :: u32
  assumes "unat a < 2147483648" and "unat b < 2147483648"
  shows "s32 (a - b) = int (unat a) - int (unat b)"
proof -
  have u: "uint a < 2147483648" "uint b < 2147483648" "0 \<le> uint a" "0 \<le> uint b"
    using assms unfolding uint_nat by linarith+
  have "s32 (a - b) = sint (word_of_int (uint a - uint b) :: u32)" by (simp add: s32_def)
  also have "\<dots> = signed_take_bit (LENGTH(32) - 1) (uint a - uint b)" by (rule sint_sbintrunc')
  also have "\<dots> = uint a - uint b"
  proof -
    have "- 2147483648 \<le> uint a - uint b" "uint a - uint b < 2147483648" using u by linarith+
    then show ?thesis by (intro signed_take_bit_int_eq_self) simp_all
  qed
  finally show ?thesis by simp
qed

lemma timespec_cmp_eq:
  assumes "timespec_ok x" and "timespec_ok y"
  shows "timespec_cmp x y = (if ts_sec x = ts_sec y then int (unat (ts_nsec x)) - int (unat (ts_nsec y))
    else int (unat (ts_sec x)) - int (unat (ts_sec y)))"
proof -
  have "unat (ts_nsec x) < 1000000000" "unat (ts_nsec y) < 1000000000"
    using assms by (simp_all add: timespec_ok_def NSEC_def word_less_nat_alt)
  with assms show ?thesis by (simp add: timespec_cmp_def s32_diff timespec_ok_def del: of_nat_unat)
qed

lemma timespec_cmp_less: "timespec_ok x \<Longrightarrow> timespec_ok y \<Longrightarrow> timespec_cmp x y < 0 \<longleftrightarrow> x < y"
  by (auto simp: timespec_cmp_eq less_timespec_def word_less_nat_alt simp del: of_nat_unat)

text \<open>The comparison by differences is the order of time, for seconds below \<open>2^31\<close>.\<close>

lemma timespec_cmp_ge: "timespec_ok x \<Longrightarrow> timespec_ok y \<Longrightarrow> timespec_cmp x y \<ge> 0 \<longleftrightarrow> y \<le> x"
  using timespec_cmp_less [of x y] by (auto simp: not_less)

lemma timespec_cmp_antisym:
  "timespec_ok x \<Longrightarrow> timespec_ok y \<Longrightarrow> timespec_cmp x y = 0 \<longleftrightarrow> x = y"
  by (auto simp: timespec_cmp_eq timespec.expand word_unat_eq_iff simp del: of_nat_unat intro: timespec.expand)

text \<open>Adding keeps the nanoseconds in range, and subtracting takes an addition back, modulo \<open>2^32\<close> seconds.\<close>

lemma timespec_add_nsec:
  assumes "ts_nsec x < NSEC" and "ts_nsec y < NSEC"
  shows "ts_nsec (timespec_add x y) < NSEC"
proof -
  have l: "unat (ts_nsec x) < 1000000000" "unat (ts_nsec y) < 1000000000"
    using assms by (simp_all add: NSEC_def word_less_nat_alt)
  then have s: "unat (ts_nsec x + ts_nsec y) = unat (ts_nsec x) + unat (ts_nsec y)" by (subst unat_add_small) simp_all
  have "unat (ts_nsec x + ts_nsec y - NSEC) = unat (ts_nsec x) + unat (ts_nsec y) - 1000000000"
    if "NSEC \<le> ts_nsec x + ts_nsec y"
    using that s by (subst unat_sub_le) (simp_all add: NSEC_def)
  with l show ?thesis by (auto simp: timespec_add_def Let_def NSEC_def word_less_nat_alt not_le)
qed

lemma timespec_sub_add:
  assumes "ts_nsec x < NSEC" and "ts_nsec y < NSEC"
  shows "timespec_sub (timespec_add x y) y = x"
proof (cases "NSEC \<le> ts_nsec x + ts_nsec y")
  case True
  have l: "unat (ts_nsec x) < 1000000000" "unat (ts_nsec y) < 1000000000"
    using assms by (simp_all add: NSEC_def word_less_nat_alt)
  then have s: "unat (ts_nsec x + ts_nsec y) = unat (ts_nsec x) + unat (ts_nsec y)" by (subst unat_add_small) simp_all
  from True s have "1000000000 \<le> unat (ts_nsec x) + unat (ts_nsec y)" by (simp add: NSEC_def word_le_nat_alt)
  then have "unat (ts_nsec x + ts_nsec y - NSEC) < unat (ts_nsec y)"
    using True s l by (subst unat_sub_le) (simp_all add: NSEC_def)
  then have "ts_nsec x + ts_nsec y - NSEC < ts_nsec y" by (simp add: word_less_nat_alt)
  with True show ?thesis by (simp add: timespec_add_def timespec_sub_def timespec.expand)
next
  case False
  have l: "unat (ts_nsec x) < 1000000000" "unat (ts_nsec y) < 1000000000"
    using assms by (simp_all add: NSEC_def word_less_nat_alt)
  then have "unat (ts_nsec x + ts_nsec y) = unat (ts_nsec x) + unat (ts_nsec y)" by (subst unat_add_small) simp_all
  then have "\<not> ts_nsec x + ts_nsec y < ts_nsec y" by (simp add: word_less_nat_alt)
  with False show ?thesis by (simp add: timespec_add_def timespec_sub_def timespec.expand)
qed

section \<open>The calendar\<close>

text \<open>The reference: days and months counted one by one from 1970.\<close>

definition leap_year :: "nat \<Rightarrow> bool" where
  "leap_year y \<longleftrightarrow> y mod 4 = 0 \<and> (y mod 100 \<noteq> 0 \<or> y mod 400 = 0)"

definition month_days :: "nat \<Rightarrow> nat \<Rightarrow> nat" where
  "month_days y m = (if m = 2 then (if leap_year y then 29 else 28) else if m \<in> {4, 6, 9, 11} then 30 else 31)"

definition year_days :: "nat \<Rightarrow> nat" where
  "year_days y = (if leap_year y then 366 else 365)"

definition days_since_1970 :: "nat \<Rightarrow> nat \<Rightarrow> nat \<Rightarrow> nat" where
  "days_since_1970 y m d = (\<Sum>k = 1970..<y. year_days k) + (\<Sum>k = 1..<m. month_days y k) + (d - 1)"

lemma div_pred: "0 < k \<Longrightarrow> 0 < y \<Longrightarrow> y div k = (y - 1) div k + (if y mod k = 0 then 1 else 0)" for y k :: nat
proof -
  assume k: "0 < k" "0 < y"
  then obtain z where y: "y = Suc z" by (cases y) auto
  show ?thesis unfolding y by (simp add: div_Suc)
qed

lemma year_step:
  assumes "1 \<le> n"
  shows "n div 4 + n div 400 + 365 * n - n div 100 =
    (n - 1) div 4 + (n - 1) div 400 + 365 * (n - 1) - (n - 1) div 100 + year_days n"
proof -
  define a b c where "a = (n - 1) div 4" and "b = (n - 1) div 100" and "c = (n - 1) div 400"
  have d: "n div 4 = a + (if n mod 4 = 0 then 1 else 0)" "n div 100 = b + (if n mod 100 = 0 then 1 else 0)"
    "n div 400 = c + (if n mod 400 = 0 then 1 else 0)"
    unfolding a_def b_def c_def using assms by (intro div_pred; simp)+
  have b: "b \<le> n - 1" by (simp add: b_def)
  have m: "n mod 100 = 0 \<Longrightarrow> n mod 4 = 0" "n mod 400 = 0 \<Longrightarrow> n mod 100 = 0"
    using mod_mod_cancel [of 4 100 n] mod_mod_cancel [of 100 400 n] by simp_all
  obtain k where k: "n = Suc k" using assms by (cases n) auto
  consider "n mod 4 \<noteq> 0" | "n mod 4 = 0" "n mod 100 \<noteq> 0" | "n mod 100 = 0" "n mod 400 \<noteq> 0" | "n mod 400 = 0" by blast
  then have "(a + c + 365 * (n - 1) - b) + year_days n = n div 4 + n div 400 + 365 * n - n div 100"
  proof cases
    case 1
    then have "n mod 100 \<noteq> 0" using m(1) by linarith
    moreover from this have "n mod 400 \<noteq> 0" using m(2) by linarith
    ultimately show ?thesis using 1 d b k by (simp add: year_days_def leap_year_def)
  next
    case 2
    then have "n mod 400 \<noteq> 0" using m(2) by linarith
    with 2 d b k show ?thesis by (simp add: year_days_def leap_year_def)
  next
    case 3
    with m have "n mod 4 = 0" by auto
    with 3 d b k show ?thesis by (simp add: year_days_def leap_year_def)
  next
    case 4
    with m have "n mod 4 = 0" "n mod 100 = 0" by auto
    with 4 d b k show ?thesis by (simp add: year_days_def leap_year_def)
  qed
  moreover have "b \<le> a + c + 365 * (n - 1)" using b by linarith
  ultimately show ?thesis unfolding a_def b_def c_def by linarith
qed

lemma year_formula:
  assumes "1970 \<le> y"
  shows "(\<Sum>k = 1970..<y. year_days k) + 719162 = (y - 1) div 4 + (y - 1) div 400 + 365 * (y - 1) - (y - 1) div 100"
  using assms
proof (induction y rule: dec_induct)
  case (step n)
  have "(\<Sum>k = 1970..<Suc n. year_days k) + 719162 = ((n - 1) div 4 + (n - 1) div 400 + 365 * (n - 1) - (n - 1) div 100) + year_days n"
    using step by simp
  with year_step [of n] step(1) show ?case by simp
qed simp

text \<open>The formula of \<open>mktime64\<close> with natural numbers: the year begins in March.\<close>

definition march_year :: "nat \<Rightarrow> nat \<Rightarrow> nat" where
  "march_year y m = (if m \<le> 2 then y - 1 else y)"

definition march_month :: "nat \<Rightarrow> nat" where
  "march_month m = (if m \<le> 2 then m + 10 else m - 2)"

definition day_formula :: "nat \<Rightarrow> nat \<Rightarrow> nat \<Rightarrow> nat" where
  "day_formula y m d =
     (let y1 = march_year y m in y1 div 4 - y1 div 100 + y1 div 400 + 367 * march_month m div 12 + d)"

lemma month_range: "1 \<le> m \<Longrightarrow> m \<le> 12 \<Longrightarrow> m \<in> {1, 2, 3, 4, 5, 6, 7, 8, 9, 10, 11, 12}" for m :: nat
  by (simp, arith)

text \<open>Days before a month, as the formula counts them.\<close>

lemma months_formula:
  assumes "1 \<le> m" and "m \<le> 12"
  shows "(\<Sum>k = 1..<m. month_days y k) + (if m \<le> 2 then 336 else 0) =
    (if m \<le> 2 then 367 * (m + 10) div 12 else 367 * (m - 2) div 12 + (if leap_year y then 30 else 29))"
proof -
  have r: "{1..<m} = set [1..<m]" by auto
  show ?thesis
    using month_range [OF assms] unfolding r
    by (elim insertE emptyE; simp add: month_days_def upt_rec sum.distinct_set_conv_list)
qed

text \<open>The sums of the two halves of the year, with the quotients as variables.\<close>

lemma early_sum:
  fixes A B C M P S Y d :: nat
  assumes "B \<le> A" "S + 719162 = A + C + 365 * Y - B" "P + 336 = M" "1 \<le> d"
  shows "(A - B + C + M + d) + Y * 365 = S + P + (d - 1) + 719499"
  using assms by linarith

lemma late_sum:
  fixes A B C F P S Y R l d :: nat
  assumes "B \<le> A" "A + C + 365 * Y - B = R + (336 + l)" "S + 719162 = R" "P = F + l" "1 \<le> d"
  shows "(A - B + C + F + d) + Y * 365 = S + P + (d - 1) + 719499"
  using assms by linarith

lemma day_formula_days:
  assumes "1970 \<le> y" and "1 \<le> m" and "m \<le> 12" and "1 \<le> d"
  shows "day_formula y m d + march_year y m * 365 = days_since_1970 y m d + 719499"
proof (cases "m \<le> 2")
  case True
  have p: "(\<Sum>k = 1..<m. month_days y k) + 336 = 367 * (m + 10) div 12"
    using months_formula [OF assms(2,3), of y] by (simp only: if_P [OF True])
  show ?thesis
    unfolding day_formula_def days_since_1970_def march_year_def march_month_def Let_def if_P [OF True]
    by (rule early_sum [OF _ year_formula [OF assms(1)] p assms(4)]) (simp add: div_le_mono2)
next
  case False
  let ?l = "if leap_year y then 30 else 29 :: nat"
  have m: "(\<Sum>k = 1..<m. month_days y k) = 367 * (m - 2) div 12 + ?l"
    using months_formula [OF assms(2,3), of y] by (simp only: if_not_P [OF False] add_0_right)
  have yd: "year_days y = 336 + ?l" by (simp add: year_days_def)
  have "1 \<le> y" using assms(1) by simp
  from year_step [OF this] have s: "y div 4 + y div 400 + 365 * y - y div 100 =
    ((y - 1) div 4 + (y - 1) div 400 + 365 * (y - 1) - (y - 1) div 100) + (336 + ?l)" unfolding yd .
  show ?thesis
    unfolding day_formula_def days_since_1970_def march_year_def march_month_def Let_def if_not_P [OF False]
    by (rule late_sum [OF _ s year_formula [OF assms(1)] m assms(4)]) (simp add: div_le_mono2)
qed

text \<open>The number of seconds since 1970, from the calendar.\<close>

definition epoch_seconds :: "nat \<Rightarrow> nat \<Rightarrow> nat \<Rightarrow> nat \<Rightarrow> nat \<Rightarrow> nat \<Rightarrow> nat" where
  "epoch_seconds y m d h mi s = ((days_since_1970 y m d * 24 + h) * 60 + mi) * 60 + s"

lemma early_month:
  assumes "1 \<le> m" and "m \<le> 12"
  shows "(sint (word_of_nat m - 2 :: u32) \<le> 0) = (m \<le> 2)"
  using month_range [OF assms] by (elim insertE emptyE) simp_all

lemma march_words:
  assumes "1970 \<le> y" and "1 \<le> m" and "m \<le> 12"
  shows "(if m \<le> 2 then word_of_nat m - 2 + 12 else word_of_nat m - 2 :: u32) = word_of_nat (march_month m)"
    "(if m \<le> 2 then word_of_nat y - 1 else word_of_nat y :: u32) = word_of_nat (march_year y m)"
  using assms by (auto simp: march_month_def march_year_def of_nat_diff)

lemma ucast_nat64: "n < 2 ^ 32 \<Longrightarrow> (ucast (word_of_nat n :: u32) :: 64 word) = word_of_nat n"
  by (intro word_unat_eq_iff [THEN iffD2]) (simp add: unsigned_ucast_eq unsigned_take_bit_eq unat_of_nat take_bit_nat_eq_self)

text \<open>C25: \<open>mktime64\<close> agrees with the calendar: for every date from 1970 on it returns the number of seconds since
  the start of 1970, counting days and months one by one with their leap years.\<close>

theorem mktime64_calendar:
  assumes "1970 \<le> y" and "y \<le> 65535" and "1 \<le> m" and "m \<le> 12" and "1 \<le> d" and "d \<le> 31"
    and "h < 24" and "mi < 60" and "s < 60"
  shows "mktime64 (word_of_nat y) (word_of_nat m) (word_of_nat d) (word_of_nat h) (word_of_nat mi) (word_of_nat s) =
    word_of_nat (epoch_seconds y m d h mi s)"
proof -
  let ?y = "march_year y m" and ?m = "march_month m"
  have b: "?y \<le> 65535" "?m \<le> 12" using assms by (auto simp: march_year_def march_month_def)
  have "(word_of_nat ?y div 4 :: u32) = word_of_nat (?y div 4)" "(word_of_nat ?y div 100 :: u32) = word_of_nat (?y div 100)"
    "(word_of_nat ?y div 400 :: u32) = word_of_nat (?y div 400)"
    using u32_div_word [of ?y 4] u32_div_word [of ?y 100] u32_div_word [of ?y 400] b(1) by simp_all
  moreover have "(367 * word_of_nat ?m div 12 :: u32) = word_of_nat (367 * ?m div 12)"
    using u32_div_word [of "367 * ?m" 12] b(2) by simp
  moreover have "?y div 100 \<le> ?y div 4" by (simp add: div_le_mono2)
  ultimately have days: "(word_of_nat ?y div 4 - word_of_nat ?y div 100 + word_of_nat ?y div 400 + 367 * word_of_nat ?m div 12
      + word_of_nat d :: u32) = word_of_nat (day_formula y m d)"
    by (simp add: day_formula_def Let_def of_nat_diff)
  have "day_formula y m d < 2 ^ 32"
  proof -
    have "?y div 4 - ?y div 100 + ?y div 400 + 367 * ?m div 12 + d \<le> ?y + ?y + 367 * ?m + 31" using assms(6) by simp
    with b show ?thesis by (simp add: day_formula_def Let_def)
  qed
  then have "(ucast (word_of_nat (day_formula y m d) :: u32) :: 64 word) = word_of_nat (day_formula y m d)"
    by (rule ucast_nat64)
  moreover have "(ucast (word_of_nat ?y * 365 :: u32) :: 64 word) = word_of_nat (?y * 365)"
    using ucast_nat64 [of "?y * 365"] b(1) by simp
  moreover have "(word_of_nat (day_formula y m d) + word_of_nat (?y * 365) - 719499 :: 64 word) = word_of_nat (days_since_1970 y m d)"
  proof -
    have "(word_of_nat (day_formula y m d) + word_of_nat (?y * 365) :: 64 word) = word_of_nat (days_since_1970 y m d + 719499)"
      by (simp only: of_nat_add [symmetric] day_formula_days [OF assms(1,3-5)])
    then show ?thesis by simp
  qed
  moreover have "(ucast (word_of_nat h :: u32) :: 64 word) = word_of_nat h" "(ucast (word_of_nat mi :: u32) :: 64 word) = word_of_nat mi"
    "(ucast (word_of_nat s :: u32) :: 64 word) = word_of_nat s" using assms by (simp_all add: ucast_nat64)
  ultimately show ?thesis
    unfolding mktime64_def Let_def early_month [OF assms(3,4)] march_words [OF assms(1,3,4)] days epoch_seconds_def
    by (simp add: of_nat_mult)
qed

lemma mktime64_calendar_witness:
  "mktime64 2000 2 29 12 30 15 = word_of_nat (epoch_seconds 2000 2 29 12 30 15)"
  using mktime64_calendar [of 2000 2 29 12 30 15] by simp

section \<open>The registers of the clock\<close>

text \<open>A two-digit number in decimal code, as the clock keeps it.\<close>

definition to_bcd :: "nat \<Rightarrow> nat" where
  "to_bcd v = v div 10 * 16 + v mod 10"

lemma bcd_to_bcd:
  assumes "v < 100"
  shows "bcd (word_of_nat (to_bcd v)) = word_of_nat v"
proof (rule word_unat_eq_iff [THEN iffD2])
  have t: "to_bcd v < 256" "to_bcd v div 16 = v div 10" "to_bcd v mod 16 = v mod 10"
    using assms by (simp_all add: to_bcd_def)
  have "unat (word_of_nat (to_bcd v) :: u8) = to_bcd v" using t(1) by (simp add: unat_of_nat)
  then have "unat (word_of_nat (to_bcd v) AND 0x0F :: u8) = v mod 10" "unat (word_of_nat (to_bcd v) div 16 :: u8) = v div 10"
    using t by (simp_all add: and_low_mask unat_div)
  moreover have "v div 10 * 10 < 256" using assms by simp
  ultimately show "unat (bcd (word_of_nat (to_bcd v))) = unat (word_of_nat v :: u8)"
    using assms by (simp add: bcd_def unat_word_ariths unat_of_nat)
qed

section \<open>Time goes forward\<close>

text \<open>The hardware interrupts 1024 times a second, so the count within a second stays far below the bound.\<close>

definition uptime_ok :: "uptime \<Rightarrow> bool" where
  "uptime_ok u \<longleftrightarrow> 0 < unat (up_calibration u) \<and> unat (up_calibration u) \<le> 4294 \<and> unat (up_counter u) < 4294 \<and>
     up_state u \<le> 2"

lemma get_uptime_nsec:
  assumes "uptime_ok u"
  shows "unat (ts_nsec (get_uptime u)) =
    min (unat (up_counter u)) (unat (up_calibration u) - 1) * 1000000 div unat (up_calibration u) * 1000"
    and "ts_sec (get_uptime u) = up_seconds u"
proof -
  define c where "c = (if up_counter u \<ge> up_calibration u then up_calibration u - 1 else up_counter u)"
  have k: "0 < unat (up_calibration u)" "unat (up_calibration u) \<le> 4294" "up_calibration u \<noteq> 0"
    using assms by (auto simp: uptime_ok_def)
  have c: "unat c = min (unat (up_counter u)) (unat (up_calibration u) - 1)"
    using k unat_minus_one [of "up_calibration u"] by (auto simp: c_def word_le_nat_alt)
  have m: "unat (c * 1000000) = unat c * 1000000"
    using c k by (simp add: unat_word_ariths)
  have q: "unat c * 1000000 div unat (up_calibration u) < 1000000"
    using c k by (simp add: less_mult_imp_div_less)
  have d: "unat (c * 1000000 div up_calibration u) = unat c * 1000000 div unat (up_calibration u)"
    by (simp add: unat_div m)
  define e where "e = c * 1000000 div up_calibration u"
  have "unat e < 1000000" using q d by (simp add: e_def)
  then have "unat (e * 1000) = unat e * 1000" by (simp add: unat_word_ariths)
  then have "unat (c * 1000000 div up_calibration u * 1000) = unat c * 1000000 div unat (up_calibration u) * 1000"
    by (simp add: e_def d)
  then show "unat (ts_nsec (get_uptime u)) =
    min (unat (up_counter u)) (unat (up_calibration u) - 1) * 1000000 div unat (up_calibration u) * 1000"
    by (simp add: get_uptime_def Let_def flip: c_def) (simp add: c)
  show "ts_sec (get_uptime u) = up_seconds u" by (simp add: get_uptime_def Let_def)
qed

lemma nsec_in_range:
  assumes "uptime_ok u"
  shows "ts_nsec (get_uptime u) < NSEC"
proof -
  have k: "0 < unat (up_calibration u)" using assms by (simp add: uptime_ok_def)
  then have "min (unat (up_counter u)) (unat (up_calibration u) - 1) * 1000000 < 1000000 * unat (up_calibration u)" by simp
  then have "min (unat (up_counter u)) (unat (up_calibration u) - 1) * 1000000 div unat (up_calibration u) < 1000000"
    by (rule less_mult_imp_div_less)
  then show ?thesis by (simp add: word_less_nat_alt get_uptime_nsec(1) [OF assms] NSEC_def)
qed

text \<open>What a clock interrupt does: the count goes on, or a new second begins.\<close>

lemma uptime_tick_cases:
  assumes "uptime_ok u" and "unat (up_counter u) < 4293"
  obtains (count) "up_seconds (uptime_tick s u) = up_seconds u" and "up_calibration (uptime_tick s u) = up_calibration u"
      and "unat (up_counter (uptime_tick s u)) = unat (up_counter u) + 1" and "uptime_ok (uptime_tick s u)"
  | (second) "up_seconds (uptime_tick s u) = up_seconds u + 1" and "uptime_ok (uptime_tick s u)"
proof -
  have c: "unat (up_counter u + 1) = unat (up_counter u) + 1"
    using assms(2) unat_suc_small [of "up_counter u"] by simp
  have st: "up_state u = 0 \<or> up_state u = 1 \<or> up_state u = 2"
    using assms(1) by (auto simp: uptime_ok_def word_le_nat_alt word_unat_eq_iff)
  define changed where "changed \<longleftrightarrow> ucast s \<noteq> up_last_second u"
  consider "up_state u = 0" | "up_state u = 1" "\<not> changed" | "up_state u = 1" "changed" | "up_state u = 2" "\<not> changed"
    | "up_state u = 2" "changed" using st by blast
  then show thesis
  proof cases
    case 1
    show thesis by (rule count) (use 1 assms c in \<open>simp_all add: uptime_tick_def uptime_ok_def Let_def\<close>)
  next
    case 2
    show thesis by (rule count) (use 2 assms c in \<open>simp_all add: uptime_tick_def uptime_ok_def Let_def changed_def\<close>)
  next
    case 3
    show thesis by (rule second) (use 3 assms c in \<open>simp_all add: uptime_tick_def uptime_ok_def next_second_def Let_def changed_def\<close>)
  next
    case 4
    show thesis by (rule count) (use 4 assms c in \<open>simp_all add: uptime_tick_def uptime_ok_def Let_def changed_def\<close>)
  next
    case 5
    show thesis
      by (rule second)
        (use 5 assms c in \<open>simp_all add: uptime_tick_def uptime_ok_def next_second_def Let_def changed_def unat_gt_0\<close>)
  qed
qed

text \<open>C26: The time since the start never goes back: a clock interrupt, whatever the second it reads, moves
  \<open>get_uptime\<close> forward or leaves it, and the nanoseconds stay below a second.\<close>

theorem uptime_monotone:
  assumes "uptime_ok u" and "unat (up_counter u) < 4293" and "up_seconds u \<noteq> - 1"
  shows "uptime_ok (uptime_tick s u) \<and> get_uptime u \<le> get_uptime (uptime_tick s u) \<and>
    ts_nsec (get_uptime (uptime_tick s u)) < NSEC"
  using assms(1,2)
proof (cases rule: uptime_tick_cases [where s = s])
  case count
  let ?n = "unat (up_calibration u)"
  have "min (unat (up_counter u)) (?n - 1) \<le> min (unat (up_counter u) + 1) (?n - 1)" by simp
  then have "min (unat (up_counter u)) (?n - 1) * 1000000 div ?n * 1000 \<le>
      min (unat (up_counter u) + 1) (?n - 1) * 1000000 div ?n * 1000"
    by (intro mult_le_mono div_le_mono) simp_all
  with count get_uptime_nsec [OF assms(1)] get_uptime_nsec [OF count(4)]
  have "get_uptime u \<le> get_uptime (uptime_tick s u)"
    by (simp add: less_eq_timespec_def word_le_nat_alt)
  with count nsec_in_range show ?thesis by simp
next
  case second
  have "up_seconds u + 1 \<noteq> 0" using assms(3) by (metis add_eq_0_iff2)
  then have "unat (up_seconds u) = unat (up_seconds u + 1) - 1" "0 < unat (up_seconds u + 1)"
    using unat_minus_one [of "up_seconds u + 1"] by (simp_all add: unat_gt_0)
  then have "up_seconds u < up_seconds u + 1" by (simp add: word_less_nat_alt)
  then have "get_uptime u \<le> get_uptime (uptime_tick s u)"
    using second(1) get_uptime_nsec(2) [OF assms(1)] get_uptime_nsec(2) [OF second(2)] by (simp add: less_eq_timespec_def)
  with second nsec_in_range show ?thesis by simp
qed

lemma uptime_start_ok: "uptime_ok uptime_start"
  by (simp add: uptime_ok_def uptime_start_def rtc_rate_to_freq_def RTC_HW_RATE_def)

lemma uptime_monotone_witness:
  "get_uptime uptime_start \<le> get_uptime (uptime_tick 30 uptime_start)"
  using uptime_monotone [OF uptime_start_ok, of 30] by (simp add: uptime_start_def)

section \<open>Waking the sleepers\<close>

definition expired :: "clk \<Rightarrow> ptr \<Rightarrow> bool" where
  "expired c p \<longleftrightarrow> (\<exists>x. c_specs c p = Some x \<and> timespec_cmp (now c) (ss_endtime x) \<ge> 0)"

text \<open>
  Waking the tasks of \<open>T\<close>, and no others: a task will run afterwards exactly if it would have run before or is one
  of them, those that were queued keep their places, and nothing else of the kernel changes but the queue and the
  flag that the current task is to be queued again.
\<close>

definition wakes_only :: "ptr set \<Rightarrow> kst \<Rightarrow> kst \<Rightarrow> bool" where
  "wakes_only T st st1 \<longleftrightarrow> (\<forall>t. will_run st1 t \<longleftrightarrow> will_run st t \<or> t \<in> T) \<and>
     (\<exists>q. k_queue st1 = k_queue st @ q) \<and> st1\<lparr>k_objs := k_objs st, k_queue := k_queue st\<rparr> = st \<and>
     (\<forall>t. map_option (t_wakeup_current_update (\<lambda>_. False)) (k_objs st1 t) =
       map_option (t_wakeup_current_update (\<lambda>_. False)) (k_objs st t))"

lemma wakes_only_refl: "wakes_only {} st st"
  by (simp add: wakes_only_def)

lemma wakes_only_trans:
  assumes "wakes_only A a b" and "wakes_only B b c"
  shows "wakes_only (A \<union> B) a c"
proof -
  have "c\<lparr>k_objs := k_objs a, k_queue := k_queue a\<rparr> = c\<lparr>k_objs := k_objs b, k_queue := k_queue b\<rparr>\<lparr>k_objs := k_objs a, k_queue := k_queue a\<rparr>"
    by simp
  also have "\<dots> = a" using assms unfolding wakes_only_def by metis
  finally show ?thesis using assms unfolding wakes_only_def by auto
qed

lemma wakes_only_fields:
  assumes "wakes_only T st st1"
  shows "k_current st1 = k_current st" and "k_answers st1 = k_answers st"
    and "k_objs st1 t = None \<longleftrightarrow> k_objs st t = None"
proof -
  have eq: "st1\<lparr>k_objs := k_objs st, k_queue := k_queue st\<rparr> = st" and
    o: "map_option (t_wakeup_current_update (\<lambda>_. False)) (k_objs st1 t) =
       map_option (t_wakeup_current_update (\<lambda>_. False)) (k_objs st t)" using assms unfolding wakes_only_def by blast+
  show "k_current st1 = k_current st" "k_answers st1 = k_answers st"
    using arg_cong [OF eq, of k_current] arg_cong [OF eq, of k_answers] by simp_all
  show "k_objs st1 t = None \<longleftrightarrow> k_objs st t = None" using o by (metis map_option_is_None)
qed

lemma wake_up_process_only:
  assumes "k_objs st (k_current st) \<noteq> None" and "k_answers st = []"
  shows "\<exists>st1. wake_up_process t st = Some st1 \<and> wakes_only {t} st st1"
  using assms by (auto simp: wake_up_process_def k_kmalloc_def wakes_only_def will_run_def)

text \<open>The tasks among the sleepers \<open>ps\<close> whose time has come.\<close>

definition due_tasks :: "clk \<Rightarrow> ptr list \<Rightarrow> ptr set" where
  "due_tasks c ps = {t. \<exists>p \<in> set ps. \<exists>x. c_specs c p = Some x \<and> expired c p \<and> ss_task x = t}"

lemma wake_sleepers_spec:
  assumes "\<forall>p \<in> set ps. c_specs c p \<noteq> None" and "current_task (c_kst c) \<noteq> None" and "k_answers (c_kst c) = []"
  shows "\<exists>st. wake_sleepers ps c = Some (filter (\<lambda>p. \<not> expired c p) ps, c\<lparr>c_kst := st\<rparr>) \<and>
    wakes_only (due_tasks c ps) (c_kst c) st"
  using assms
proof (induction ps arbitrary: c)
  case Nil
  then show ?case by (intro exI [of _ "c_kst c"]) (simp add: wakes_only_refl due_tasks_def)
next
  case (Cons p ps)
  obtain x where x: "c_specs c p = Some x" using Cons.prems(1) by auto
  show ?case
  proof (cases "expired c p")
    case True
    with x have e: "timespec_cmp (now c) (ss_endtime x) \<ge> 0" by (simp add: expired_def)
    from wake_up_process_only [OF Cons.prems(2,3), of "ss_task x"] obtain st where
      st: "wake_up_process (ss_task x) (c_kst c) = Some st" "wakes_only {ss_task x} (c_kst c) st" by blast
    have ex: "expired (c\<lparr>c_kst := st\<rparr>) = expired c" by (simp add: expired_def now_def fun_eq_iff)
    have "current_task st \<noteq> None" "k_answers st = []"
      using wakes_only_fields [OF st(2)] Cons.prems(2,3) by simp_all
    with Cons.IH [of "c\<lparr>c_kst := st\<rparr>"] Cons.prems(1) obtain st2 where
      st2: "wake_sleepers ps (c\<lparr>c_kst := st\<rparr>) = Some (filter (\<lambda>p. \<not> expired c p) ps, c\<lparr>c_kst := st2\<rparr>)"
        "wakes_only (due_tasks c ps) st st2" by (auto simp: ex due_tasks_def)
    have "due_tasks c (p # ps) = {ss_task x} \<union> due_tasks c ps" using x True by (auto simp: due_tasks_def)
    then show ?thesis using wakes_only_trans [OF st(2) st2(2)] x e st(1) st2(1) True by (intro exI [of _ st2]) simp
  next
    case False
    with x have e: "\<not> timespec_cmp (now c) (ss_endtime x) \<ge> 0" by (simp add: expired_def)
    from Cons.IH [of c] Cons.prems obtain st2 where
      "wake_sleepers ps c = Some (filter (\<lambda>p. \<not> expired c p) ps, c\<lparr>c_kst := st2\<rparr>)" "wakes_only (due_tasks c ps) (c_kst c) st2" by auto
    moreover have "due_tasks c (p # ps) = due_tasks c ps" using False by (auto simp: due_tasks_def)
    ultimately show ?thesis using x e False by (intro exI [of _ st2]) simp
  qed
qed

text \<open>C27: The clock interrupt wakes exactly the sleepers whose time has come.  They leave the queue, the others stay
  in it in their order; a task will run afterwards exactly if it would have run before or is the task of one of
  them; and nothing else of the clocks and of the kernel changes.\<close>

theorem sleepers_woken:
  assumes "\<forall>p \<in> set (c_sleep_queue c). c_specs c p \<noteq> None" and "current_task (c_kst c) \<noteq> None"
    and "k_answers (c_kst c) = []"
  shows "\<exists>st. sleep_tick c = Some (c\<lparr>c_sleep_queue := filter (\<lambda>p. \<not> expired c p) (c_sleep_queue c), c_kst := st\<rparr>) \<and>
    wakes_only (due_tasks c (c_sleep_queue c)) (c_kst c) st"
proof -
  obtain st where "wake_sleepers (c_sleep_queue c) c =
      Some (filter (\<lambda>p. \<not> expired c p) (c_sleep_queue c), c\<lparr>c_kst := st\<rparr>)"
    and "wakes_only (due_tasks c (c_sleep_queue c)) (c_kst c) st"
    using wake_sleepers_spec [OF assms] by blast
  then show ?thesis by (intro exI [of _ st]) (simp add: sleep_tick_def)
qed

definition sample_clk :: clk where
  "sample_clk = \<lparr>c_up = uptime_start\<lparr>up_seconds := 5\<rparr>,
     c_specs = [200 \<mapsto> \<lparr>ss_task = 96, ss_endtime = Timespec 4 0\<rparr>, 300 \<mapsto> \<lparr>ss_task = 64, ss_endtime = Timespec 9 0\<rparr>],
     c_sleep_queue = [300, 200], c_kst = sample_kst\<rparr>"

lemma sample_clk_simps [simp]:
  "c_sleep_queue sample_clk = [300, 200]" "c_kst sample_clk = sample_kst"
  "c_specs sample_clk 200 = Some \<lparr>ss_task = 96, ss_endtime = Timespec 4 0\<rparr>"
  "c_specs sample_clk 300 = Some \<lparr>ss_task = 64, ss_endtime = Timespec 9 0\<rparr>"
  by (simp_all add: sample_clk_def)

lemma sample_clk_now: "now sample_clk = Timespec 5 0"
  by (simp add: now_def sample_clk_def get_uptime_def uptime_start_def rtc_rate_to_freq_def RTC_HW_RATE_def)

lemma sleepers_woken_witness:
  "\<exists>c1. sleep_tick sample_clk = Some c1 \<and> c_sleep_queue c1 = [300] \<and> will_run (c_kst c1) 96 \<and>
    (will_run (c_kst c1) 128 \<longleftrightarrow> will_run sample_kst 128)"
proof -
  have e: "expired sample_clk 200" "\<not> expired sample_clk 300"
    by (simp_all add: expired_def sample_clk_now timespec_cmp_def s32_def)
  moreover have "current_task sample_kst \<noteq> None" "k_answers sample_kst = []" by (simp_all add: sample_kst_def)
  ultimately obtain st where st: "sleep_tick sample_clk = Some (sample_clk\<lparr>c_sleep_queue := [300], c_kst := st\<rparr>)"
    "wakes_only (due_tasks sample_clk [300, 200]) sample_kst st"
    using sleepers_woken [of sample_clk] by auto
  have "due_tasks sample_clk [300, 200] = {96}" using e by (simp add: due_tasks_def)
  with st show ?thesis by (simp add: wakes_only_def)
qed

lemma sleep_add_spec:
  assumes "sleep_add p t c = (Inr q, c1)"
  shows "q = p \<and> c_up c1 = c_up c \<and>
    c_specs c1 = (c_specs c)(p \<mapsto> \<lparr>ss_task = k_current (c_kst c), ss_endtime = timespec_add (now c) t\<rparr>)"
proof -
  obtain ok st where k: "k_kmalloc (c_kst c) = (ok, st)" by (cases "k_kmalloc (c_kst c)")
  obtain ok2 st2 where k2: "k_kmalloc st = (ok2, st2)" by (cases "k_kmalloc st")
  have "k_current st = k_current (c_kst c)" using k by (auto simp: k_kmalloc_def split: list.splits)
  moreover have ok using assms k by (cases ok) (simp_all add: sleep_add_def)
  ultimately show ?thesis using assms k k2 by (auto simp: sleep_add_def Let_def)
qed

text \<open>A sleep is never too short: when \<open>nanosleep\<close> returns with success, the time it began at and the time
  asked for have passed.\<close>

theorem nanosleep_sleeps:
  assumes "nanosleep_enter p (Some r) rem_ok c = (Inr q, x, c1)" and "c_specs c2 q = c_specs c1 q"
    and "nanosleep_round q rem_ok2 c2 = Some (SleepDone 0 y, c3)"
    and "timespec_ok (timespec_add (now c) r)" and "timespec_ok (now c2)"
  shows "timespec_add (now c) r \<le> now c2 \<and> q \<notin> set (c_sleep_queue c3) \<and> c_specs c3 q = None"
proof -
  have "sleep_add p r c = (Inr q, c1)"
    using assms(1) by (cases "sleep_add p r c"; cases "fst (sleep_add p r c)") (simp_all add: nanosleep_enter_def split: if_splits)
  from sleep_add_spec [OF this] have c1: "c_specs c1 q = Some \<lparr>ss_task = k_current (c_kst c), ss_endtime = timespec_add (now c) r\<rparr>"
    by simp
  have hit: "sleep_hashit q c2 = Some (timespec_cmp (now c2) (timespec_add (now c) r) \<ge> 0)"
    using c1 assms(2) by (simp add: sleep_hashit_def)
  have "timespec_cmp (now c2) (timespec_add (now c) r) \<ge> 0 \<and> c3 = sleep_finalize q c2"
  proof (cases "timespec_cmp (now c2) (timespec_add (now c) r) \<ge> 0")
    case True
    with assms(3) hit show ?thesis by (simp add: nanosleep_round_def bind_eq_Some_conv)
  next
    case False
    with assms(3) hit show ?thesis by (simp add: nanosleep_round_def bind_eq_Some_conv split: if_splits)
  qed
  with timespec_cmp_ge [OF assms(5,4)] show ?thesis by (simp add: sleep_finalize_def)
qed

lemma nanosleep_sleeps_witness:
  "\<exists>c1 c3. nanosleep_enter 400 (Some (Timespec 1 0)) False sample_clk = (Inr 400, None, c1) \<and>
    nanosleep_round 400 False (c1\<lparr>c_up := (c_up c1)\<lparr>up_seconds := 6\<rparr>, c_kst := sample_kst\<rparr>) = Some (SleepDone 0 None, c3) \<and>
    400 \<notin> set (c_sleep_queue c3)"
proof -
  obtain q c1 where a: "sleep_add 400 (Timespec 1 0) sample_clk = (Inr q, c1)"
    by (simp add: sleep_add_def k_kmalloc_def sample_kst_def Let_def)
  note sp = sleep_add_spec [OF a]
  let ?c2 = "c1\<lparr>c_up := (c_up c1)\<lparr>up_seconds := 6\<rparr>, c_kst := sample_kst\<rparr>"
  have e: "nanosleep_enter 400 (Some (Timespec 1 0)) False sample_clk = (Inr q, None, c1)"
    using a by (simp add: nanosleep_enter_def NSEC_def)
  have n: "timespec_add (now sample_clk) (Timespec 1 0) = Timespec 6 0"
    by (simp add: sample_clk_now timespec_add_def NSEC_def)
  have n2: "now ?c2 = Timespec 6 0"
    using sp by (simp add: now_def sample_clk_def get_uptime_def uptime_start_def rtc_rate_to_freq_def RTC_HW_RATE_def)
  have "sleep_hashit q ?c2 = Some True" using sp n n2 by (simp add: sleep_hashit_def timespec_cmp_def s32_def)
  moreover have "current_task sample_kst \<noteq> None" by (simp add: sample_kst_def)
  ultimately have r: "nanosleep_round q False ?c2 = Some (SleepDone 0 None, sleep_finalize q ?c2)"
    using sp by (auto simp: nanosleep_round_def)
  from nanosleep_sleeps [OF e _ r] n n2 have "q \<notin> set (c_sleep_queue (sleep_finalize q ?c2))"
    by (simp add: timespec_ok_def NSEC_def)
  with e r sp show ?thesis by auto
qed

text \<open>What waiting does not do: an interrupted sleep reports the time that was left.\<close>

lemma nanosleep_interrupted:
  assumes "c_specs c p = Some z" and "current_task (c_kst c) = Some x" and "signal_pending (t_sigpending x) \<noteq> 0"
    and "timespec_ok (now c)" and "timespec_ok (ss_endtime z)" and "now c < ss_endtime z"
  shows "nanosleep_round p True c =
    Some (SleepDone (- EINTR) (Some (timespec_sub (ss_endtime z) (now c))), sleep_finalize p c)"
  using assms timespec_cmp_less [OF assms(4,5)]
  by (simp add: nanosleep_round_def sleep_hashit_def)

section \<open>Counting interrupts\<close>

lemma n_intr_values:
  assumes "6 \<le> rp_rate r" and "rp_rate r \<le> 15"
  shows "n_intr r = 2 ^ (rp_rate r - 6)"
proof -
  have "rp_rate r \<in> {6, 7, 8, 9, 10, 11, 12, 13, 14, 15}" using assms by (simp, arith)
  then show ?thesis by (elim insertE emptyE) (simp_all add: n_intr_def rtc_rate_to_freq_def RTC_HW_RATE_def)
qed

lemma n_intr_bounds:
  assumes "6 \<le> rp_rate r" and "rp_rate r \<le> 15"
  shows "0 < n_intr r" and "n_intr r \<le> 512"
proof -
  have "(2::nat) ^ (rp_rate r - 6) \<le> 2 ^ 9" using assms(2) by (intro power_increasing) auto
  with n_intr_values [OF assms] show "0 < n_intr r" "n_intr r \<le> 512" by simp_all
qed

text \<open>The loop ends, and leaves the quotient and the remainder.\<close>

lemma count_periods_spec:
  assumes "0 < n" and "n < 65536"
  shows "count_periods n w r = Some (w \<or> n \<le> unat (rp_mod r),
    r\<lparr>rp_div := rp_div r + word_of_nat (unat (rp_mod r) div n), rp_mod := word_of_nat (unat (rp_mod r) mod n)\<rparr>)"
proof (induction "unat (rp_mod r)" arbitrary: r w rule: less_induct)
  case less
  show ?case
  proof (cases "n \<le> unat (rp_mod r)")
    case True
    have "unat (rp_mod r - word_of_nat n) = unat (rp_mod r) - n"
      using True assms(2) by (simp add: unat_sub word_le_nat_alt unat_of_nat)
    moreover from this have "unat (rp_mod r - word_of_nat n) < unat (rp_mod r)" using True assms(1) by simp
    ultimately show ?thesis
      using True assms(1) less [of "r\<lparr>rp_div := rp_div r + 1, rp_mod := rp_mod r - word_of_nat n\<rparr>" True]
      by (subst count_periods.simps) (simp add: le_div_geq le_mod_geq)
  next
    case False
    then show ?thesis by (subst count_periods.simps) simp
  qed
qed

text \<open>The rate of an open clock is one the device offers, and less than a period is left to count.\<close>

definition rtc_ok :: "rtc_private \<Rightarrow> bool" where
  "rtc_ok r \<longleftrightarrow> 6 \<le> rp_rate r \<and> rp_rate r \<le> 15 \<and> unat (rp_mod r) < 512"

lemma new_rtc_ok: "rtc_ok new_rtc_private"
  by (simp add: rtc_ok_def new_rtc_private_def MAX_RATE_def)

lemma rtc_tick_one_ok:
  assumes "rtc_ok r" and "current_task st \<noteq> None" and "k_answers st = []"
  shows "\<exists>r1 st1. rtc_tick_one (r, st) = Some (r1, st1) \<and> rtc_ok r1 \<and> wake_ext st st1 \<and>
    rp_rate r1 = rp_rate r \<and> rp_task r1 = rp_task r \<and> unat (rp_mod r1) = (unat (rp_mod r) + 1) mod n_intr r \<and>
    rp_div r1 = rp_div r + word_of_nat ((unat (rp_mod r) + 1) div n_intr r) \<and>
    (n_intr r \<le> unat (rp_mod r) + 1 \<and> rp_task r \<noteq> 0 \<longrightarrow> will_run st1 (rp_task r))"
proof -
  have n: "0 < n_intr r" "n_intr r \<le> 512" using n_intr_bounds [of r] assms(1) by (simp_all add: rtc_ok_def)
  have m: "unat (rp_mod r + 1) = unat (rp_mod r) + 1"
    using assms(1) unat_suc_small [of "rp_mod r"] by (simp add: rtc_ok_def)
  let ?k = "unat (rp_mod r) + 1"
  let ?r = "r\<lparr>rp_div := rp_div r + word_of_nat (?k div n_intr r), rp_mod := word_of_nat (?k mod n_intr r)\<rparr>"
  have c: "count_periods (n_intr r) False (r\<lparr>rp_mod := rp_mod r + 1\<rparr>) = Some (n_intr r \<le> ?k, ?r)"
    using count_periods_spec [of "n_intr r" False "r\<lparr>rp_mod := rp_mod r + 1\<rparr>"] n by (simp add: m)
  have lt: "?k mod n_intr r < n_intr r" using n(1) by simp
  then have "unat (word_of_nat (?k mod n_intr r) :: u16) = ?k mod n_intr r"
    using n(2) by (simp add: unat_of_nat)
  moreover from this have "rtc_ok ?r" using assms(1) lt n(2) by (simp add: rtc_ok_def)
  moreover obtain st1 where "wake_up_process (rp_task r) st = Some st1" "wake_ext st st1" "will_run st1 (rp_task r)"
    using wake_up_process_runs [OF assms(2,3), of "rp_task r"] by blast
  ultimately show ?thesis
    using c wake_ext_refl [of st]
    by (cases "n_intr r \<le> ?k \<and> rp_task r \<noteq> 0") (auto simp: rtc_tick_one_def)
qed

fun rtc_ticks :: "nat \<Rightarrow> rtc_private \<times> kst \<Rightarrow> (rtc_private \<times> kst) option" where
  "rtc_ticks 0 s = Some s"
| "rtc_ticks (Suc k) s = do { s1 \<leftarrow> rtc_ticks k s; rtc_tick_one s1 }"

lemma div_mod_step:
  fixes a n :: nat
  assumes "0 < n"
  shows "a div n + (a mod n + 1) div n = (a + 1) div n" and "(a mod n + 1) mod n = (a + 1) mod n"
proof -
  have "(a + 1) div n = (a div n * n + (a mod n + 1)) div n" by simp
  also have "\<dots> = a div n + (a mod n + 1) div n" using assms by (subst div_mult_self3) simp_all
  finally show "a div n + (a mod n + 1) div n = (a + 1) div n" by simp
  show "(a mod n + 1) mod n = (a + 1) mod n" by (simp add: mod_simps)
qed

text \<open>An open clock counts exactly: after \<open>k\<close> interrupts its counter has advanced by the number of whole
  periods of its rate among them, none lost and none counted twice, and the rest is kept for the next period.\<close>

theorem rtc_counts_exactly:
  assumes "rtc_ok r" and "unat (rp_mod r) < n_intr r" and "current_task st \<noteq> None" and "k_answers st = []"
  shows "\<exists>r1 st1. rtc_ticks k (r, st) = Some (r1, st1) \<and> rtc_ok r1 \<and> rp_rate r1 = rp_rate r \<and>
    rp_div r1 = rp_div r + word_of_nat ((unat (rp_mod r) + k) div n_intr r) \<and>
    unat (rp_mod r1) = (unat (rp_mod r) + k) mod n_intr r \<and> wake_ext st st1"
proof (induction k)
  case 0
  with assms show ?case by (simp add: wake_ext_refl)
next
  case (Suc k)
  let ?a = "unat (rp_mod r) + k"
  from Suc obtain r1 st1 where r1: "rtc_ticks k (r, st) = Some (r1, st1)" "rtc_ok r1" "rp_rate r1 = rp_rate r"
    "rp_div r1 = rp_div r + word_of_nat (?a div n_intr r)" "unat (rp_mod r1) = ?a mod n_intr r" "wake_ext st st1" by blast
  have st1: "current_task st1 \<noteq> None" "k_answers st1 = []" using r1(6) assms(3,4) by (simp_all add: wake_ext_def)
  have n: "n_intr r1 = n_intr r" using r1(3) by (simp add: n_intr_def)
  from rtc_tick_one_ok [OF r1(2) st1] obtain r2 st2 where r2: "rtc_tick_one (r1, st1) = Some (r2, st2)" "rtc_ok r2"
    "wake_ext st1 st2" "rp_rate r2 = rp_rate r1" "unat (rp_mod r2) = (unat (rp_mod r1) + 1) mod n_intr r1"
    "rp_div r2 = rp_div r1 + word_of_nat ((unat (rp_mod r1) + 1) div n_intr r1)" by blast
  have p: "0 < n_intr r" using n_intr_bounds(1) [of r] assms(1) by (simp add: rtc_ok_def)
  note d = div_mod_step [OF p, of ?a]
  have "unat (rp_mod r2) = (unat (rp_mod r) + Suc k) mod n_intr r"
    using r2(5) d(2) by (simp only: n r1(5)) simp
  moreover have "rp_div r2 = rp_div r + word_of_nat ((unat (rp_mod r) + Suc k) div n_intr r)"
  proof -
    have "rp_div r2 = rp_div r + word_of_nat (?a div n_intr r + (?a mod n_intr r + 1) div n_intr r)"
      unfolding r2(6) r1(4) n r1(5) by (simp only: of_nat_add add.assoc)
    then show ?thesis unfolding d(1) by simp
  qed
  ultimately show ?case using r1(1,3) r2(1,2,4) wake_ext_trans [OF r1(6) r2(3)] by simp
qed

lemma rtc_counts_exactly_witness:
  "\<exists>r1 st1. rtc_ticks 1000 (new_rtc_private\<lparr>rp_rate := 13\<rparr>, sample_kst) = Some (r1, st1) \<and> rp_div r1 = 7 \<and>
    unat (rp_mod r1) = 104"
proof -
  have "n_intr (new_rtc_private\<lparr>rp_rate := 13\<rparr>) = 128" using n_intr_values [of "new_rtc_private\<lparr>rp_rate := 13\<rparr>"] by simp
  then show ?thesis
    using rtc_counts_exactly [of "new_rtc_private\<lparr>rp_rate := 13\<rparr>" sample_kst 1000]
    by (auto simp: new_rtc_private_def rtc_ok_def sample_kst_def)
qed

lemma find_in_set: "List.find P xs = Some i \<Longrightarrow> i \<in> set xs"
  by (induction xs) (auto split: if_splits)

lemma rtc_write_ok:
  assumes "rtc_ok r"
  shows "rtc_ok (snd (rtc_write buf r))"
proof (cases "length buf = 4")
  case True
  define f where "f = unat (buf ! 0) + unat (buf ! 1) * 256 + unat (buf ! 2) * 65536 + unat (buf ! 3) * 16777216"
  show ?thesis
  proof (cases "List.find (\<lambda>i. f = rtc_rate_to_freq i) [RTC_HW_RATE..<MAX_RATE + 1]")
    case None
    then show ?thesis using True assms by (simp only: rtc_write_def Let_def flip: f_def) simp
  next
    case (Some i)
    from find_in_set [OF this] have "6 \<le> i" "i \<le> 15"
      by (simp_all only: set_upt RTC_HW_RATE_def MAX_RATE_def atLeastLessThan_iff, arith)
    then show ?thesis using Some True assms by (simp only: rtc_write_def Let_def flip: f_def) (simp add: rtc_ok_def)
  qed
next
  case False
  then show ?thesis using assms by (simp add: rtc_write_def)
qed

text \<open>C28: The record of an open clock stays well-formed under every operation: the rate is one the device offers
  and the count of the current period is below the longest period, so the loop of the interrupt ends.\<close>

theorem rtc_stays_ok:
  assumes "rtc_ok r"
  shows "rtc_ok new_rtc_private \<and> rtc_ok (snd (rtc_write buf r)) \<and>
    (current_task st \<noteq> None \<longrightarrow> k_answers st = [] \<longrightarrow> (\<exists>r1 st1. rtc_tick_one (r, st) = Some (r1, st1) \<and> rtc_ok r1)) \<and>
    (\<forall>e r1 st1. rtc_read_enter (r, st) = Some (e, r1, st1) \<longrightarrow> rtc_ok r1) \<and>
    (\<forall>e r1 st1. rtc_read_round init (r, st) = Some (e, r1, st1) \<longrightarrow> rtc_ok r1)"
proof (intro conjI)
  show "rtc_ok new_rtc_private" by (rule new_rtc_ok)
  show "rtc_ok (snd (rtc_write buf r))" using assms by (rule rtc_write_ok)
  show "current_task st \<noteq> None \<longrightarrow> k_answers st = [] \<longrightarrow> (\<exists>r1 st1. rtc_tick_one (r, st) = Some (r1, st1) \<and> rtc_ok r1)"
    using rtc_tick_one_ok [OF assms] by blast
  show "\<forall>e r1 st1. rtc_read_enter (r, st) = Some (e, r1, st1) \<longrightarrow> rtc_ok r1"
    using assms by (auto simp: rtc_read_enter_def rtc_ok_def bind_eq_Some_conv split: if_splits)
  show "\<forall>e r1 st1. rtc_read_round init (r, st) = Some (e, r1, st1) \<longrightarrow> rtc_ok r1"
    using assms by (auto simp: rtc_read_round_def rtc_ok_def bind_eq_Some_conv split: if_splits)
qed

lemma rtc_stays_ok_witness:
  "rtc_ok (snd (rtc_write [32, 0, 0, 0] new_rtc_private))"
  using rtc_stays_ok [OF new_rtc_ok] by blast

text \<open>A frequency of 32 interrupts a second is the rate 11; one that is not a power of two is refused.\<close>

lemma rtc_write_examples:
  "rtc_write [32, 0, 0, 0] r = (4, r\<lparr>rp_rate := 11\<rparr>)" "rtc_write [33, 0, 0, 0] r = (- EINVAL, r)"
  "rtc_write [0, 8, 0, 0] r = (- EINVAL, r)" "rtc_write [2, 0] r = (- EINVAL, r)"
  by (simp_all add: rtc_write_def RTC_HW_RATE_def MAX_RATE_def rtc_rate_to_freq_def upt_rec)

end
