(* ===== verification/Terminal.thy ===== *)
theory Terminal
  imports Signals
begin

text \<open>
  The terminal of \<open>char/tty.c\<close>: the emulator that writes text and control sequences to video memory, and the
  line discipline between the keyboard and the readers.  The cursor of the display adapter follows the
  cursor of the terminal and is left out.
\<close>

section \<open>A terminal\<close>

definition NUM_COLS :: nat where "NUM_COLS = 80"
definition NUM_ROWS :: nat where "NUM_ROWS = 25"
definition VGA_CHARS :: nat where "VGA_CHARS = NUM_ROWS * NUM_COLS"
definition WHITE_ON_BLACK :: u8 where "WHITE_ON_BLACK = 0x07"
definition BLACK_IN_WHITE :: u8 where "BLACK_IN_WHITE = 0x70"
definition TTY_BUFFER_SIZE :: nat where "TTY_BUFFER_SIZE = 128"

definition ICANON :: u32 where "ICANON = 2"
definition ISIG :: u32 where "ISIG = 1"
definition ECHO :: u32 where "ECHO = 8"
definition ECHOE :: u32 where "ECHOE = 16"
definition ECHOCTL :: u32 where "ECHOCTL = 512"
definition OPOST :: u32 where "OPOST = 1"

definition VINTR :: nat where "VINTR = 0"
definition VERASE :: nat where "VERASE = 2"

record termios =
  iflag :: u32
  oflag :: u32
  cflag :: u32
  lflag :: u32
  line :: u8
  cc :: "u8 list"

text \<open>\<open>ad_end\<close> bytes of the 16-byte buffer are the control sequence so far; the rest is what was there before.\<close>

record ansi_decode =
  ad_end :: nat
  ad_buffer :: "u8 list"

text \<open>
  \<open>tt_video\<close> is the page of video memory: character and attribute of each cell.  The session of a terminal
  is in \<open>k_ttys\<close> of the kernel's state.
\<close>

record tty =
  tt_refcount :: int
  tt_device :: u32
  tt_task :: ptr
  tt_video :: "nat \<Rightarrow> u8"
  tt_termios :: termios
  tt_ansi :: ansi_decode
  tt_x :: u16
  tt_y :: u16
  tt_color :: u8
  tt_mouse_shown :: bool
  tt_mouse_x :: int
  tt_mouse_y :: int
  tt_start :: nat
  tt_end :: nat
  tt_buffer :: "u8 list"

definition lflag_has :: "tty \<Rightarrow> u32 \<Rightarrow> bool" where
  "lflag_has t f \<longleftrightarrow> lflag (tt_termios t) AND f \<noteq> 0"

text \<open>A \<open>char\<close> is signed, a control character of \<open>termios\<close> is not.\<close>

definition is_cc :: "u8 \<Rightarrow> nat \<Rightarrow> tty \<Rightarrow> bool" where
  "is_cc c k t \<longleftrightarrow> sint c = int (unat (cc (tt_termios t) ! k))"

definition COLOR_SWAP :: "u8 \<Rightarrow> u8" where
  "COLOR_SWAP v = (drop_bit 4 (v AND 0xF0)) OR (push_bit 4 (v AND 0x0F))"

definition IS_MOUSE_POS :: "tty \<Rightarrow> nat \<Rightarrow> nat \<Rightarrow> bool" where
  "IS_MOUSE_POS t x y \<longleftrightarrow> tt_mouse_shown t \<and> int x = tt_mouse_x t div 16 \<and> int y = tt_mouse_y t div 32"

definition WHITE_ON_BLACK_M :: "tty \<Rightarrow> nat \<Rightarrow> nat \<Rightarrow> u8" where
  "WHITE_ON_BLACK_M t x y = (if IS_MOUSE_POS t x y then BLACK_IN_WHITE else WHITE_ON_BLACK)"

section \<open>Control sequences\<close>

text \<open>The character that says what kind a sequence is, \<open>0\<close> for none.  It is read past the end of the sequence.\<close>

definition decode_ansi_type :: "ansi_decode \<Rightarrow> u8" where
  "decode_ansi_type ad =
     (if ad_end ad = 1 then 0
      else (let c = ad_buffer ad ! 1 in
        if c = 0x5B then (if ad_buffer ad ! 2 = 0x3F then 0x3F else c)
        else if c = 0x28 \<or> c = 0x29 \<or> c = 0x23 then c else 0))"

definition is_digit :: "u8 \<Rightarrow> bool" where
  "is_digit c \<longleftrightarrow> 48 \<le> c \<and> c \<le> 57"

text \<open>\<open>atoi\<close> cut to 8 bits, and what follows the digits; \<open>None\<close> if there is no digit.\<close>

definition ansi_arg :: "u8 list \<Rightarrow> (u8 \<times> u8 list) option" where
  "ansi_arg s = (if takeWhile is_digit s = [] then None
     else Some (ucast (foldl (\<lambda>r c. r * 10 + ucast (c - 48)) 0 (takeWhile is_digit s) :: u32), dropWhile is_digit s))"

text \<open>
  The two arguments of a sequence, where they are given.  A caller that takes one argument passes \<open>NULL\<close> for
  the second (\<open>None\<close> here), and a sequence that has two then writes through it.
\<close>

definition decode_ansi :: "ansi_decode \<Rightarrow> u8 \<Rightarrow> u8 option \<Rightarrow> (u8 \<times> u8) option" where
  "decode_ansi ad arg1 arg2 =
     (let buf = take (ad_end ad) (ad_buffer ad);
          ty = decode_ansi_type ad;
          buf1 = (if ty = 0x5B \<or> ty = 0x28 \<or> ty = 0x29 \<or> ty = 0x23 then drop 2 buf
                  else if ty = 0x3F then drop 3 buf else buf);
          other = (case arg2 of None \<Rightarrow> 0 | Some b \<Rightarrow> b) in
      case ansi_arg buf1 of
        None \<Rightarrow> Some (arg1, other)
      | Some (a, rest) \<Rightarrow>
          if rest = [] \<or> hd rest \<noteq> 0x3B then Some (a, other)
          else (case ansi_arg (tl rest) of
            None \<Rightarrow> Some (a, other)
          | Some (b, _) \<Rightarrow> (case arg2 of None \<Rightarrow> None | Some _ \<Rightarrow> Some (a, b))))"

section \<open>Scrolling\<close>

text \<open>Every row takes the next one's contents, with the mouse's cell kept inverted, and the last is cleared.\<close>

definition scroll_once :: "tty \<Rightarrow> tty" where
  "scroll_once t = t\<lparr>tt_video := (\<lambda>b.
     let i = b div 2; x = i mod NUM_COLS; y = i div NUM_COLS; old = tt_video t (b + 2 * NUM_COLS) in
     if i < (NUM_ROWS - 1) * NUM_COLS then
       (if even b then old
        else if IS_MOUSE_POS t x y \<or> IS_MOUSE_POS t x (y + 1) then COLOR_SWAP old else old)
     else if i < VGA_CHARS then (if even b then 32 else WHITE_ON_BLACK_M t x y)
     else tt_video t b)\<rparr>"

function wrap_cursor :: "tty \<Rightarrow> tty" where
  "wrap_cursor t = (if unat (tt_x t) \<ge> NUM_COLS
     then wrap_cursor (t\<lparr>tt_x := tt_x t - word_of_nat NUM_COLS, tt_y := tt_y t + 1\<rparr>) else t)"
  by pat_completeness auto

termination
proof (relation "measure (\<lambda>t. unat (tt_x t))", goal_cases)
  case (2 t)
  then have "(80 :: u16) \<le> tt_x t" by (simp add: NUM_COLS_def word_le_nat_alt)
  then show ?case by (simp add: NUM_COLS_def unat_sub_le word_le_nat_alt)
qed simp

function scroll_cursor :: "tty \<Rightarrow> tty" where
  "scroll_cursor t = (if unat (tt_y t) \<ge> NUM_ROWS
     then scroll_cursor (scroll_once (t\<lparr>tt_y := tt_y t - 1\<rparr>)) else t)"
  by pat_completeness auto

termination
proof (relation "measure (\<lambda>t. unat (tt_y t))", goal_cases)
  case (2 t)
  then have "tt_y t \<noteq> 0" by (auto simp: NUM_ROWS_def)
  with 2 show ?case by (simp add: scroll_once_def unat_minus_one NUM_ROWS_def)
qed simp

declare wrap_cursor.simps [simp del] scroll_cursor.simps [simp del]

definition tty_fixscroll :: "tty \<Rightarrow> tty" where
  "tty_fixscroll t = scroll_cursor (wrap_cursor t)"

section \<open>Writing\<close>

text \<open>
  Video memory is a page of 4096 bytes; a write elsewhere, like one through \<open>NULL\<close>, is \<open>None\<close>.  The copies
  that \<open>decode_ansi\<close> allocates are taken to be there.
\<close>

definition put_cell :: "nat \<Rightarrow> u8 \<Rightarrow> u8 \<Rightarrow> tty \<Rightarrow> tty option" where
  "put_cell i c attr t =
     (if 2 * i + 1 < 4096 then Some (t\<lparr>tt_video := (tt_video t)(2 * i := c, 2 * i + 1 := attr)\<rparr>) else None)"

definition clear_cells :: "nat \<Rightarrow> nat \<Rightarrow> tty \<Rightarrow> tty option" where
  "clear_cells lo hi t =
     (if lo < hi \<and> 4096 < 2 * hi then None
      else Some (t\<lparr>tt_video := (\<lambda>b. let i = b div 2 in
        if lo \<le> i \<and> i < hi then (if even b then 32 else WHITE_ON_BLACK_M t (i mod NUM_COLS) (i div NUM_COLS))
        else tt_video t b)\<rparr>))"

definition cursor_cell :: "tty \<Rightarrow> nat" where
  "cursor_cell t = NUM_COLS * unat (tt_y t) + unat (tt_x t)"

definition ANSI_TO_VGA :: "u8 \<Rightarrow> u8" where
  "ANSI_TO_VGA v = (if v = 0 then 0 else if v = 1 then 4 else if v = 2 then 2 else if v = 3 then 6
     else if v = 4 then 1 else if v = 5 then 5 else if v = 6 then 3 else if v = 7 then 7 else 0)"

definition set_color :: "u8 \<Rightarrow> u8 \<Rightarrow> u8" where
  "set_color arg color =
     (if 30 \<le> arg \<and> arg \<le> 37 then (color AND 0xF8) OR ANSI_TO_VGA (arg - 30)
      else if 40 \<le> arg \<and> arg \<le> 47 then (color AND 0x8F) OR push_bit 4 (ANSI_TO_VGA (arg - 40))
      else if arg = 0 then WHITE_ON_BLACK
      else if arg = 1 then color OR 0x08
      else color)"

text \<open>A complete sequence, ended by \<open>c\<close>.\<close>

definition move_by :: "(u8 \<Rightarrow> tty \<Rightarrow> tty) \<Rightarrow> tty \<Rightarrow> tty option" where
  "move_by f t = do { (a, _) \<leftarrow> decode_ansi (tt_ansi t) 1 None; Some (f a t) }"

definition erase_display :: "tty \<Rightarrow> tty option" where
  "erase_display t = do {
     (a, _) \<leftarrow> decode_ansi (tt_ansi t) 0 None;
     if a = 0 then clear_cells (cursor_cell t) VGA_CHARS t
     else if a = 1 then clear_cells 0 (cursor_cell t) t
     else if a = 2 then clear_cells 0 VGA_CHARS (t\<lparr>tt_x := 0, tt_y := 0\<rparr>)
     else Some t }"

definition run_ansi :: "u8 \<Rightarrow> tty \<Rightarrow> tty option" where
  "run_ansi c t =
     (if decode_ansi_type (tt_ansi t) \<noteq> 0x5B then Some t
      else if c = 0x48 \<or> c = 0x66 then do {
        (a, b) \<leftarrow> decode_ansi (tt_ansi t) 0 (Some 0);
        Some (t\<lparr>tt_y := ucast a, tt_x := ucast b\<rparr>) }
      else if c = 0x46 then do {
        (a, b) \<leftarrow> decode_ansi (tt_ansi t) (word_of_nat (NUM_ROWS - 1)) (Some (word_of_nat (NUM_COLS - 1)));
        Some (t\<lparr>tt_y := ucast a, tt_x := ucast b\<rparr>) }
      else if c = 0x41 then move_by (\<lambda>a t. t\<lparr>tt_y := tt_y t - ucast a\<rparr>) t
      else if c = 0x42 then move_by (\<lambda>a t. t\<lparr>tt_y := tt_y t + ucast a\<rparr>) t
      else if c = 0x43 then move_by (\<lambda>a t. t\<lparr>tt_x := tt_x t + ucast a\<rparr>) t
      else if c = 0x44 then move_by (\<lambda>a t. t\<lparr>tt_x := tt_x t - ucast a\<rparr>) t
      else if c = 0x4A then erase_display t
      else if c = 0x6D then do {
        (a, b) \<leftarrow> decode_ansi (tt_ansi t) 0 (Some 255);
        Some (t\<lparr>tt_color := set_color b (set_color a (tt_color t))\<rparr>) }
      else Some t)"

definition is_ansi_byte :: "u8 \<Rightarrow> bool" where
  "is_ansi_byte c \<longleftrightarrow> c \<in> {0x5B, 0x3F, 0x28, 0x29, 0x3B, 0x23} \<or> is_digit c"

definition add_ansi :: "u8 \<Rightarrow> tty \<Rightarrow> tty" where
  "add_ansi c t = t\<lparr>tt_ansi := (tt_ansi t)\<lparr>ad_buffer := (ad_buffer (tt_ansi t))[ad_end (tt_ansi t) := c],
     ad_end := ad_end (tt_ansi t) + 1\<rparr>\<rparr>"

definition end_ansi :: "tty \<Rightarrow> tty" where
  "end_ansi t = t\<lparr>tt_ansi := (tt_ansi t)\<lparr>ad_end := 0\<rparr>\<rparr>"

text \<open>A character outside sequences.\<close>

definition put_glyph :: "u8 \<Rightarrow> tty \<Rightarrow> tty option" where
  "put_glyph c t = (let t1 = tty_fixscroll t in do {
     t2 \<leftarrow> put_cell (cursor_cell t1) c (tt_color t1) t1;
     Some (t2\<lparr>tt_x := tt_x t2 + 1\<rparr>) })"

definition step_left :: "tty \<Rightarrow> tty" where
  "step_left t =
     (if tt_x t \<noteq> 0 then t\<lparr>tt_x := tt_x t - 1\<rparr>
      else if tt_y t \<noteq> 0 then t\<lparr>tt_y := tt_y t - 1, tt_x := word_of_nat (NUM_COLS - 1)\<rparr>
      else t)"

definition erase_char :: "tty \<Rightarrow> tty option" where
  "erase_char t = (let t1 = step_left (tty_fixscroll t) in
     if lflag_has t1 ECHOE \<and> lflag_has t1 ICANON
     then put_cell (cursor_cell t1) 32 (WHITE_ON_BLACK_M t1 (unat (tt_x t1)) (unat (tt_y t1))) t1
     else Some t1)"

definition new_line :: "tty \<Rightarrow> tty" where
  "new_line t = (let t1 = (if oflag (tt_termios t) AND OPOST \<noteq> 0 then t\<lparr>tt_x := 0\<rparr> else t) in
     tty_fixscroll (t1\<lparr>tt_y := tt_y t1 + 1\<rparr>))"

definition write_plain :: "u8 \<Rightarrow> tty \<Rightarrow> tty option" where
  "write_plain c t =
     (if c = 13 then Some (t\<lparr>tt_x := 0\<rparr>)
      else if c = 10 then Some (new_line t)
      else if is_cc c VERASE t then erase_char t
      else if c = 9 then (if is_cc 32 VERASE t then erase_char t else put_glyph 32 t)
      else if c = 7 then Some t
      else if c = 27 then Some (add_ansi c t)
      else put_glyph c t)"

definition write_char :: "u8 \<Rightarrow> tty \<Rightarrow> tty option" where
  "write_char c t =
     (if ad_end (tt_ansi t) = 0 then write_plain c t
      else if c = 27 then Some (add_ansi c (end_ansi t))
      else if is_ansi_byte c then Some (if ad_end (tt_ansi t) < 15 then add_ansi c t else t)
      else do { t1 \<leftarrow> run_ansi c t; Some (end_ansi t1) })"

fun write_chars :: "u8 list \<Rightarrow> tty \<Rightarrow> tty option" where
  "write_chars [] t = Some t"
| "write_chars (c # cs) t = do { t1 \<leftarrow> write_char c t; write_chars cs t1 }"

definition raw_tty_write :: "u8 list \<Rightarrow> tty \<Rightarrow> (int \<times> tty) option" where
  "raw_tty_write buf t = do { t1 \<leftarrow> write_chars buf t; Some (int (length buf), t1) }"

section \<open>The mouse\<close>

definition swap_mouse_cell :: "tty \<Rightarrow> tty option" where
  "swap_mouse_cell t =
     (let b = nat ((int NUM_COLS * (tt_mouse_y t div 32) + tt_mouse_x t div 16) * 2 + 1) in
      if b < 4096 then Some (t\<lparr>tt_video := (tt_video t)(b := COLOR_SWAP (tt_video t b))\<rparr>) else None)"

definition clamp :: "int \<Rightarrow> int \<Rightarrow> int" where
  "clamp v hi = (if v < 0 then 0 else if v > hi then hi else v)"

definition tty_foreground_mouse :: "u16 \<Rightarrow> u16 \<Rightarrow> tty \<Rightarrow> tty option" where
  "tty_foreground_mouse dx dy t = do {
     t1 \<leftarrow> (if tt_mouse_shown t then swap_mouse_cell t else Some t);
     swap_mouse_cell (t1\<lparr>tt_mouse_shown := True,
       tt_mouse_x := clamp (wrap16 (tt_mouse_x t1 + int (unat dx))) (int NUM_COLS * 16 - 1),
       tt_mouse_y := clamp (wrap16 (tt_mouse_y t1 - int (unat dy))) (int NUM_ROWS * 32 - 1)\<rparr>) }"

section \<open>The line discipline\<close>

definition tty_should_read :: "tty \<Rightarrow> bool" where
  "tty_should_read t \<longleftrightarrow>
     (if lflag_has t ICANON then tt_end t \<noteq> 0 \<and> tt_buffer t ! (tt_end t - 1) = 10 else tt_end t \<noteq> 0)"

text \<open>Writing a C string to the terminal in the foreground.\<close>

definition tty_foreground_puts :: "u8 list \<Rightarrow> tty \<Rightarrow> tty option" where
  "tty_foreground_puts s t = do { (_, t1) \<leftarrow> raw_tty_write (takeWhile (\<lambda>c. c \<noteq> 0) s) t; Some t1 }"

text \<open>\<open>p\<close> is the address of the foreground terminal, which is not the early console.\<close>

definition tty_foreground_signal :: "ptr \<Rightarrow> u32 \<Rightarrow> kst \<Rightarrow> kst option" where
  "tty_foreground_signal p signum st = do {
     s \<leftarrow> k_ttys st p;
     if s = 0 then Some st
     else do {
       se \<leftarrow> k_sessions st s;
       if se_foreground_pgid se = 0 then Some st
       else do {
         (_, st1) \<leftarrow> send_sig_info_pg (ucast (se_foreground_pgid se)) (kernel_siginfo signum) st;
         Some st1 } } }"

text \<open>A key that goes into the buffer, or edits it.\<close>

definition buffer_key :: "u8 \<Rightarrow> tty \<times> kst \<Rightarrow> (tty \<times> kst) option" where
  "buffer_key chr = (\<lambda>(t, st).
     if lflag_has t ICANON \<and> chr = 8 then
       (if tt_end t = 0 then Some (t, st)
        else do {
          t1 \<leftarrow> (if lflag_has t ECHO then tty_foreground_puts [chr] t else Some t);
          Some (t1\<lparr>tt_end := tt_end t1 - 1\<rparr>, st) })
     else if tt_end t < TTY_BUFFER_SIZE then do {
       let t1 = t\<lparr>tt_buffer := (tt_buffer t)[tt_end t := chr], tt_end := tt_end t + 1\<rparr>;
       t2 \<leftarrow> (if lflag_has t1 ECHO then tty_foreground_puts [chr] t1 else Some t1);
       st1 \<leftarrow> (if tt_task t2 \<noteq> 0 \<and> (\<not> lflag_has t2 ICANON \<or> chr = 10) then wake_up_process (tt_task t2) st else Some st);
       Some (t2, st1) }
     else Some (t, st))"

definition plain_key :: "ptr \<Rightarrow> u8 \<Rightarrow> tty \<times> kst \<Rightarrow> (tty \<times> kst) option" where
  "plain_key p chr = (\<lambda>(t, st).
     if lflag_has t ICANON \<and> chr = 12 then do { t1 \<leftarrow> tty_foreground_puts [27, 0x5B, 0x32, 0x4A] t; Some (t1, st) }
     else if lflag_has t ISIG \<and> chr \<noteq> 0 \<and> is_cc chr VINTR t then do {
       t1 \<leftarrow> (if lflag_has t ECHOCTL then tty_foreground_puts [0x5E, chr + 0x40] t else Some t);
       st1 \<leftarrow> tty_foreground_signal p SIGINT st;
       Some (t1, st1) }
     else if lflag_has t ICANON \<and> tty_should_read t then Some (t, st)
     else buffer_key chr (t, st))"

text \<open>With Ctrl, a letter becomes the control character; other combinations are ignored.\<close>

definition tty_foreground_keyboard :: "ptr \<Rightarrow> u8 \<Rightarrow> bool \<Rightarrow> bool \<Rightarrow> tty \<times> kst \<Rightarrow> (tty \<times> kst) option" where
  "tty_foreground_keyboard p chr has_ctrl has_alt = (\<lambda>(t, st).
     let ctl = (has_ctrl \<and> \<not> has_alt \<and> sint chr \<ge> 0x40);
         chr1 = (if ctl then chr AND NOT 0x60 else chr);
         has_ctrl1 = (has_ctrl \<and> \<not> ctl) in
     if \<not> has_ctrl1 \<and> \<not> has_alt then plain_key p chr1 (t, st) else Some (t, st))"

text \<open>
  A read, from one call of \<open>schedule\<close> to the next.  \<open>read_enter\<close> is the code before the loop, \<open>read_poll\<close> its
  test and what follows when it ends: the bytes, or the error.
\<close>

datatype read_result = ReadWaits | ReadFails int | ReadBytes "u8 list"

definition read_enter :: "tty \<times> kst \<Rightarrow> (bool \<times> tty \<times> kst) option" where
  "read_enter = (\<lambda>(t, st).
     if tt_task t \<noteq> 0 then Some (False, t, st)
     else do {
       x \<leftarrow> current_task st;
       Some (True, t\<lparr>tt_task := k_current st\<rparr>, set_task (k_current st) (x\<lparr>t_state := TASK_INTERRUPTIBLE\<rparr>) st) })"

text \<open>The bytes a reader takes; the difference of the two indexes is an unsigned number where it is compared.\<close>

definition take_bytes :: "u32 \<Rightarrow> tty \<Rightarrow> (u8 list \<times> tty) option" where
  "take_bytes nbytes t =
     (let avail = word_of_int (int (tt_end t) - int (tt_start t)) :: u32;
          n = unat (min nbytes avail) in
      if tt_start t + n > TTY_BUFFER_SIZE then None
      else (let start = tt_start t + n in
        Some (take n (drop (tt_start t) (tt_buffer t)),
          if start = tt_end t then t\<lparr>tt_start := 0, tt_end := 0\<rparr> else t\<lparr>tt_start := start\<rparr>)))"

definition read_poll :: "u32 \<Rightarrow> tty \<times> kst \<Rightarrow> (read_result \<times> tty \<times> kst) option" where
  "read_poll nbytes = (\<lambda>(t, st). do {
     x \<leftarrow> current_task st;
     let sig = signal_pending (t_sigpending x);
     if \<not> tty_should_read t \<and> sig = 0 then do { st1 \<leftarrow> schedule st; Some (ReadWaits, t, st1) }
     else do {
       let t1 = t\<lparr>tt_task := 0\<rparr>;
       let st1 = set_task (k_current st) (x\<lparr>t_state := TASK_RUNNING\<rparr>) st;
       if sig \<noteq> 0 then Some (ReadFails (- EINTR), t1, st1)
       else do { (bs, t2) \<leftarrow> take_bytes nbytes t1; Some (ReadBytes bs, t2, st1) } } })"

text \<open>\<open>poll\<close> of a terminal: the events that hold, and that the reader's place is given back at its end.\<close>

definition tty_poll_cb :: "ptr \<Rightarrow> tty \<Rightarrow> tty" where
  "tty_poll_cb cur t = (if tt_task t = cur then t\<lparr>tt_task := 0\<rparr> else t)"

definition tty_poll :: "ptr \<Rightarrow> u16 \<Rightarrow> u16 \<Rightarrow> tty \<Rightarrow> u16 \<times> bool \<times> tty" where
  "tty_poll cur events revents t =
     (let r1 = (if events AND POLLOUT \<noteq> 0 then revents OR POLLOUT else revents) in
      if events AND POLLIN = 0 then (r1, False, t)
      else (let t1 = (if tt_task t = 0 then t\<lparr>tt_task := cur\<rparr> else t) in
        (if tt_task t1 = cur \<and> tty_should_read t1 then r1 OR POLLIN else r1, True, t1)))"

section \<open>What writing leaves alone\<close>

text \<open>The terminal without its screen, cursor and control sequence.\<close>

definition same_line :: "tty \<Rightarrow> tty \<Rightarrow> bool" where
  "same_line t t1 \<longleftrightarrow> tt_termios t1 = tt_termios t \<and> tt_task t1 = tt_task t \<and> tt_start t1 = tt_start t \<and>
     tt_end t1 = tt_end t \<and> tt_buffer t1 = tt_buffer t"

definition off_screen_same :: "tty \<Rightarrow> tty \<Rightarrow> bool" where
  "off_screen_same t t1 \<longleftrightarrow> (\<forall>b \<ge> 2 * VGA_CHARS. tt_video t1 b = tt_video t b)"

text \<open>What plain text keeps.\<close>

definition plain_same :: "tty \<Rightarrow> tty \<Rightarrow> bool" where
  "plain_same t t1 \<longleftrightarrow> same_line t t1 \<and> off_screen_same t t1 \<and> tt_ansi t1 = tt_ansi t"

lemma plain_same_refl [simp]: "plain_same t t"
  by (simp add: plain_same_def same_line_def off_screen_same_def)

lemma plain_same_trans: "plain_same a b \<Longrightarrow> plain_same b c \<Longrightarrow> plain_same a c"
  by (simp add: plain_same_def same_line_def off_screen_same_def)

lemma plain_same_scroll: "plain_same t (scroll_once t)"
  by (auto simp: plain_same_def same_line_def off_screen_same_def scroll_once_def Let_def VGA_CHARS_def
      NUM_ROWS_def NUM_COLS_def)

lemma plain_same_move:
  "plain_same t (t\<lparr>tt_x := x, tt_y := y\<rparr>)" "plain_same t (t\<lparr>tt_x := x\<rparr>)" "plain_same t (t\<lparr>tt_y := y\<rparr>)"
  by (simp_all add: plain_same_def same_line_def off_screen_same_def)

lemma wrap_cursor_same: "plain_same t (wrap_cursor t) \<and> unat (tt_x (wrap_cursor t)) < NUM_COLS"
proof (induction t rule: wrap_cursor.induct)
  case (1 t)
  show ?case
  proof (cases "unat (tt_x t) \<ge> NUM_COLS")
    case True
    let ?u = "t\<lparr>tt_x := tt_x t - word_of_nat NUM_COLS, tt_y := tt_y t + 1\<rparr>"
    from True have "wrap_cursor t = wrap_cursor ?u" by (simp add: wrap_cursor.simps [of t])
    moreover have "plain_same t ?u" by (rule plain_same_move)
    ultimately show ?thesis using 1 [OF True] plain_same_trans [of t ?u] by simp
  qed (simp add: wrap_cursor.simps [of t])
qed

lemma scroll_once_cursor [simp]: "tt_x (scroll_once t) = tt_x t" "tt_y (scroll_once t) = tt_y t"
  by (simp_all add: scroll_once_def)

lemma scroll_cursor_same:
  "plain_same t (scroll_cursor t) \<and> tt_x (scroll_cursor t) = tt_x t \<and> unat (tt_y (scroll_cursor t)) < NUM_ROWS"
proof (induction t rule: scroll_cursor.induct)
  case (1 t)
  show ?case
  proof (cases "unat (tt_y t) \<ge> NUM_ROWS")
    case True
    let ?u = "t\<lparr>tt_y := tt_y t - 1\<rparr>"
    have "plain_same t (scroll_once ?u)"
      using plain_same_trans [OF plain_same_move(3) plain_same_scroll] .
    moreover from True have "scroll_cursor t = scroll_cursor (scroll_once ?u)" by (simp add: scroll_cursor.simps [of t])
    ultimately show ?thesis using 1 [OF True] plain_same_trans [of t "scroll_once ?u"] by simp
  qed (simp add: scroll_cursor.simps [of t])
qed

lemma tty_fixscroll_same:
  "plain_same t (tty_fixscroll t)" "unat (tt_x (tty_fixscroll t)) < NUM_COLS" "unat (tt_y (tty_fixscroll t)) < NUM_ROWS"
  using wrap_cursor_same [of t] scroll_cursor_same [of "wrap_cursor t"] plain_same_trans [of t "wrap_cursor t"]
  unfolding tty_fixscroll_def by simp_all

lemma put_cell_same:
  assumes "i < VGA_CHARS"
  shows "\<exists>t1. put_cell i c a t = Some t1 \<and> plain_same t t1 \<and> tt_x t1 = tt_x t \<and> tt_y t1 = tt_y t"
  using assms
  by (auto simp: put_cell_def VGA_CHARS_def NUM_ROWS_def NUM_COLS_def plain_same_def same_line_def off_screen_same_def)

lemma cursor_on_screen: "unat (tt_x t) < NUM_COLS \<Longrightarrow> unat (tt_y t) < NUM_ROWS \<Longrightarrow> cursor_cell t < VGA_CHARS"
  by (simp add: cursor_cell_def VGA_CHARS_def NUM_ROWS_def NUM_COLS_def)

lemma put_glyph_same: "\<exists>t1. put_glyph c t = Some t1 \<and> plain_same t t1"
proof -
  let ?f = "tty_fixscroll t"
  have "cursor_cell ?f < VGA_CHARS" by (rule cursor_on_screen) (rule tty_fixscroll_same)+
  from put_cell_same [OF this] obtain t1 where t1: "put_cell (cursor_cell ?f) c (tt_color ?f) ?f = Some t1" "plain_same ?f t1"
    by blast
  then have "plain_same t (t1\<lparr>tt_x := tt_x t1 + 1\<rparr>)"
    using plain_same_trans [OF tty_fixscroll_same(1) plain_same_trans [OF t1(2) plain_same_move(2)]] by simp
  with t1(1) show ?thesis by (simp add: put_glyph_def Let_def)
qed

lemma step_left_screen:
  assumes "unat (tt_x t) < NUM_COLS" and "unat (tt_y t) < NUM_ROWS"
  shows "plain_same t (step_left t) \<and> unat (tt_x (step_left t)) < NUM_COLS \<and> unat (tt_y (step_left t)) < NUM_ROWS"
proof -
  have "unat (tt_x t - 1) < NUM_COLS" if "tt_x t \<noteq> 0" using assms(1) unat_minus_one [OF that] by simp
  moreover have "unat (tt_y t - 1) < NUM_ROWS" if "tt_y t \<noteq> 0" using assms(2) unat_minus_one [OF that] by simp
  moreover have "unat (word_of_nat (NUM_COLS - 1) :: u16) < NUM_COLS" by (simp add: NUM_COLS_def)
  ultimately show ?thesis using assms
    by (auto simp: step_left_def plain_same_def same_line_def off_screen_same_def)
qed

lemma erase_char_same: "\<exists>t1. erase_char t = Some t1 \<and> plain_same t t1"
proof -
  let ?f = "step_left (tty_fixscroll t)"
  have f: "plain_same t ?f" "cursor_cell ?f < VGA_CHARS"
    using step_left_screen [of "tty_fixscroll t"] tty_fixscroll_same [of t] plain_same_trans [of t "tty_fixscroll t" ?f]
      cursor_on_screen [of ?f] by simp_all
  let ?a = "WHITE_ON_BLACK_M ?f (unat (tt_x ?f)) (unat (tt_y ?f))"
  from put_cell_same [OF f(2), of 32 ?a] obtain t1 where "put_cell (cursor_cell ?f) 32 ?a ?f = Some t1" "plain_same ?f t1"
    by blast
  with f(1) plain_same_trans [of t ?f t1] show ?thesis by (simp add: erase_char_def Let_def)
qed

lemma new_line_same: "plain_same t (new_line t)"
proof -
  have "plain_same t (tty_fixscroll (t\<lparr>tt_x := x, tt_y := y\<rparr>))" "plain_same t (tty_fixscroll (t\<lparr>tt_y := y\<rparr>))" for x y
    by (rule plain_same_trans [OF plain_same_move(1) tty_fixscroll_same(1)],
        rule plain_same_trans [OF plain_same_move(3) tty_fixscroll_same(1)])
  then show ?thesis by (simp add: new_line_def Let_def)
qed

lemma write_plain_same: "c \<noteq> 27 \<Longrightarrow> \<exists>t1. write_plain c t = Some t1 \<and> plain_same t t1"
  using put_glyph_same [of _ t] erase_char_same [of t] new_line_same [of t] plain_same_move(2) [of t]
  by (simp add: write_plain_def)

lemma write_chars_same:
  assumes "ad_end (tt_ansi t) = 0" and "27 \<notin> set cs"
  shows "\<exists>t1. write_chars cs t = Some t1 \<and> plain_same t t1"
  using assms
proof (induction cs arbitrary: t)
  case (Cons c cs)
  then obtain t1 where t1: "write_char c t = Some t1" "plain_same t t1"
    using write_plain_same [of c t] by (auto simp: write_char_def)
  then have "ad_end (tt_ansi t1) = 0" using Cons.prems(1) by (simp add: plain_same_def)
  with Cons.IH [of t1] Cons.prems(2) t1 plain_same_trans show ?case by force
qed simp

text \<open>Text without control sequences is always written, wherever the cursor is, and writes to the screen
  only: the rest of the page of video memory, the settings and the input buffer stay as they are.\<close>

theorem plain_text_stays_on_screen:
  assumes "ad_end (tt_ansi t) = 0" and "27 \<notin> set cs"
  shows "\<exists>t1. raw_tty_write cs t = Some (int (length cs), t1) \<and> off_screen_same t t1 \<and> same_line t t1 \<and>
    ad_end (tt_ansi t1) = 0"
  using write_chars_same [OF assms] assms(1) by (auto simp: raw_tty_write_def plain_same_def)

section \<open>Text on the screen\<close>

definition glyph :: "tty \<Rightarrow> u8 \<Rightarrow> bool" where
  "glyph t c \<longleftrightarrow> c \<noteq> 13 \<and> c \<noteq> 10 \<and> c \<noteq> 9 \<and> c \<noteq> 7 \<and> c \<noteq> 27 \<and> \<not> is_cc c VERASE t"

text \<open>The cursor is on the screen or one past the end of a row.\<close>

definition cursor_ok :: "tty \<Rightarrow> bool" where
  "cursor_ok t \<longleftrightarrow> unat (tt_x t) \<le> NUM_COLS \<and> unat (tt_y t) < NUM_ROWS"

lemma fixscroll_in_row:
  assumes "cursor_ok t" and "cursor_cell t < VGA_CHARS"
  shows "\<exists>x y. tty_fixscroll t = t\<lparr>tt_x := x, tt_y := y\<rparr> \<and> NUM_COLS * unat y + unat x = cursor_cell t"
proof (cases "unat (tt_x t) = NUM_COLS")
  case True
  let ?u = "t\<lparr>tt_x := tt_x t - word_of_nat NUM_COLS, tt_y := tt_y t + 1\<rparr>"
  have x: "tt_x t - word_of_nat NUM_COLS = 0"
  proof -
    have "tt_x t = 80" using True by (intro word_unat_eq_iff [THEN iffD2]) (simp add: NUM_COLS_def)
    then show ?thesis by (simp add: NUM_COLS_def)
  qed
  have y: "unat (tt_y t + 1) = Suc (unat (tt_y t))"
    using assms by (intro unat_suc_small) (simp add: cursor_ok_def NUM_ROWS_def)
  have "wrap_cursor t = ?u"
    using True x by (simp add: wrap_cursor.simps [of t] wrap_cursor.simps [of "t\<lparr>tt_x := 0, tt_y := tt_y t + 1\<rparr>"] NUM_COLS_def)
  moreover have "unat (tt_y ?u) < NUM_ROWS"
    using assms(2) True y by (simp add: cursor_cell_def VGA_CHARS_def NUM_COLS_def NUM_ROWS_def)
  then have "scroll_cursor ?u = ?u" by (simp add: scroll_cursor.simps [of ?u])
  ultimately have "tty_fixscroll t = ?u" by (simp add: tty_fixscroll_def)
  moreover have "NUM_COLS * unat (tt_y t + 1) + unat (tt_x t - word_of_nat NUM_COLS) = cursor_cell t"
    using True x y by (simp add: cursor_cell_def)
  ultimately show ?thesis by blast
next
  case False
  with assms(1) have "wrap_cursor t = t" "scroll_cursor t = t"
    by (simp_all add: cursor_ok_def wrap_cursor.simps [of t] scroll_cursor.simps [of t])
  then have "tty_fixscroll t = t\<lparr>tt_x := tt_x t, tt_y := tt_y t\<rparr>" by (simp add: tty_fixscroll_def)
  moreover have "NUM_COLS * unat (tt_y t) + unat (tt_x t) = cursor_cell t" by (simp add: cursor_cell_def)
  ultimately show ?thesis by blast
qed

text \<open>One character: its cell gets it, in the current colour, and the cursor moves on.\<close>

lemma put_glyph_cell:
  assumes "cursor_ok t" and "cursor_cell t < VGA_CHARS"
  shows "\<exists>t1. put_glyph c t = Some t1 \<and> cursor_ok t1 \<and> cursor_cell t1 = cursor_cell t + 1 \<and>
    tt_video t1 = (tt_video t)(2 * cursor_cell t := c, 2 * cursor_cell t + 1 := tt_color t) \<and>
    tt_color t1 = tt_color t \<and> tt_termios t1 = tt_termios t \<and> tt_ansi t1 = tt_ansi t"
proof -
  from fixscroll_in_row [OF assms] obtain x y where f: "tty_fixscroll t = t\<lparr>tt_x := x, tt_y := y\<rparr>"
    and c: "NUM_COLS * unat y + unat x = cursor_cell t" by blast
  from tty_fixscroll_same(2,3) [of t] f have xy: "unat x < NUM_COLS" "unat y < NUM_ROWS" by simp_all
  have x1: "unat (x + 1) = Suc (unat x)" using xy by (intro unat_suc_small) (simp add: NUM_COLS_def)
  have "2 * cursor_cell t + 1 < 4096"
    using assms(2) by (simp add: VGA_CHARS_def NUM_COLS_def NUM_ROWS_def)
  then have "put_glyph c t = Some (t\<lparr>tt_x := x + 1, tt_y := y,
      tt_video := (tt_video t)(2 * cursor_cell t := c, 2 * cursor_cell t + 1 := tt_color t)\<rparr>)"
    using c by (simp add: put_glyph_def Let_def f put_cell_def cursor_cell_def [of "tty_fixscroll t"])
      (simp add: cursor_cell_def)
  with xy x1 c show ?thesis by (auto simp: cursor_ok_def cursor_cell_def [of "_\<lparr>tt_video := _\<rparr>"])
qed

lemma write_char_glyph:
  assumes "glyph t c" and "ad_end (tt_ansi t) = 0"
  shows "write_char c t = put_glyph c t"
  using assms by (simp add: glyph_def write_char_def write_plain_def)

lemma write_chars_cells:
  assumes "cursor_ok t" and "cursor_cell t + length cs \<le> VGA_CHARS" and "\<forall>c \<in> set cs. glyph t c"
    and "ad_end (tt_ansi t) = 0"
  shows "\<exists>t1. write_chars cs t = Some t1 \<and> cursor_ok t1 \<and> cursor_cell t1 = cursor_cell t + length cs \<and>
    (\<forall>k < length cs. tt_video t1 (2 * (cursor_cell t + k)) = cs ! k \<and>
      tt_video t1 (2 * (cursor_cell t + k) + 1) = tt_color t) \<and>
    (\<forall>b. b < 2 * cursor_cell t \<or> 2 * (cursor_cell t + length cs) \<le> b \<longrightarrow> tt_video t1 b = tt_video t b)"
  using assms
proof (induction cs arbitrary: t)
  case (Cons c cs)
  let ?p = "cursor_cell t"
  obtain t1 where t1: "put_glyph c t = Some t1" "cursor_ok t1" "cursor_cell t1 = ?p + 1"
    "tt_video t1 = (tt_video t)(2 * ?p := c, 2 * ?p + 1 := tt_color t)" "tt_color t1 = tt_color t"
    "tt_termios t1 = tt_termios t" "tt_ansi t1 = tt_ansi t"
    using put_glyph_cell [of t c] Cons.prems by auto
  have "\<forall>c \<in> set cs. glyph t1 c" using Cons.prems(3) t1(6) by (simp add: glyph_def is_cc_def)
  with Cons.IH [of t1] Cons.prems t1 obtain t2 where t2: "write_chars cs t1 = Some t2" "cursor_ok t2"
    "cursor_cell t2 = ?p + 1 + length cs"
    "\<forall>k < length cs. tt_video t2 (2 * (?p + 1 + k)) = cs ! k \<and> tt_video t2 (2 * (?p + 1 + k) + 1) = tt_color t"
    "\<forall>b. b < 2 * (?p + 1) \<or> 2 * (?p + 1 + length cs) \<le> b \<longrightarrow> tt_video t2 b = tt_video t1 b"
    by auto
  have "write_chars (c # cs) t = Some t2"
    using Cons.prems t1(1) t2(1) by (simp add: write_char_glyph)
  moreover have "tt_video t2 (2 * (?p + k)) = (c # cs) ! k \<and> tt_video t2 (2 * (?p + k) + 1) = tt_color t"
    if "k < length (c # cs)" for k
  proof (cases k)
    case 0
    have "tt_video t2 (2 * ?p) = tt_video t1 (2 * ?p)" "tt_video t2 (2 * ?p + 1) = tt_video t1 (2 * ?p + 1)"
      using t2(5) by simp_all
    with 0 t1(4) show ?thesis by simp
  next
    case (Suc j)
    with t2(4) that show ?thesis by (auto simp: algebra_simps)
  qed
  moreover have "tt_video t2 b = tt_video t b" if "b < 2 * ?p \<or> 2 * (?p + length (c # cs)) \<le> b" for b
  proof -
    have "b < 2 * (?p + 1) \<or> 2 * (?p + 1 + length cs) \<le> b" using that by auto
    with t2(5) have "tt_video t2 b = tt_video t1 b" by blast
    also have "\<dots> = tt_video t b" using that by (auto simp: t1(4))
    finally show ?thesis .
  qed
  ultimately show ?case using t2(2,3) by auto
qed simp

text \<open>C23: Text that fits on the screen from the cursor on appears there: each cell from the cursor on gets its
  character in the current colour, row after row, no other cell changes, and the cursor is behind the text.\<close>

theorem text_appears:
  assumes "cursor_ok t" and "cursor_cell t + length cs \<le> VGA_CHARS" and "\<forall>c \<in> set cs. glyph t c"
    and "ad_end (tt_ansi t) = 0"
  shows "\<exists>t1. raw_tty_write cs t = Some (int (length cs), t1) \<and> cursor_cell t1 = cursor_cell t + length cs \<and>
    (\<forall>k < length cs. tt_video t1 (2 * (cursor_cell t + k)) = cs ! k \<and>
      tt_video t1 (2 * (cursor_cell t + k) + 1) = tt_color t) \<and>
    (\<forall>b. b < 2 * cursor_cell t \<or> 2 * (cursor_cell t + length cs) \<le> b \<longrightarrow> tt_video t1 b = tt_video t b)"
  using write_chars_cells [OF assms] by (auto simp: raw_tty_write_def)

text \<open>A new terminal, with an empty screen.\<close>

definition sample_tty :: tty where
  "sample_tty = \<lparr>tt_refcount = 1, tt_device = 1025, tt_task = 0, tt_video = (\<lambda>_. 0),
     tt_termios = \<lparr>iflag = 0, oflag = OPOST, cflag = 0, lflag = ECHO OR ECHOE OR ECHOCTL OR ICANON OR ISIG, line = 0,
       cc = (replicate 19 0)[VINTR := 3, VERASE := 8]\<rparr>,
     tt_ansi = \<lparr>ad_end = 0, ad_buffer = replicate 16 0\<rparr>, tt_x = 0, tt_y = 0, tt_color = WHITE_ON_BLACK,
     tt_mouse_shown = False, tt_mouse_x = 0, tt_mouse_y = 0, tt_start = 0, tt_end = 0,
     tt_buffer = replicate 128 0\<rparr>"

lemma sample_tty_simps [simp]:
  "cursor_cell sample_tty = 0" "cursor_ok sample_tty" "ad_end (tt_ansi sample_tty) = 0"
  "tt_color sample_tty = WHITE_ON_BLACK"
  by (simp_all add: sample_tty_def cursor_cell_def cursor_ok_def NUM_ROWS_def)

lemma sample_glyph: "glyph sample_tty c \<longleftrightarrow> c \<notin> {13, 10, 9, 7, 27, 8}"
proof -
  have "c = 8" if "sint c = 8"
  proof -
    have "c = word_of_int (sint c)" by simp
    with that show ?thesis by simp
  qed
  then have "sint c = 8 \<longleftrightarrow> c = 8" by auto
  then show ?thesis by (auto simp: glyph_def is_cc_def sample_tty_def VERASE_def VINTR_def)
qed

lemma plain_text_stays_on_screen_witness:
  "\<exists>t1. raw_tty_write [104, 10, 105] sample_tty = Some (3, t1) \<and> off_screen_same sample_tty t1"
  using plain_text_stays_on_screen [of sample_tty "[104, 10, 105]"] by auto

lemma text_appears_witness:
  "\<exists>t1. raw_tty_write [104, 105] sample_tty = Some (2, t1) \<and> tt_video t1 0 = 104 \<and> tt_video t1 2 = 105"
proof -
  have "\<forall>c \<in> set [104, 105]. glyph sample_tty c" by (simp add: sample_glyph)
  moreover have "cursor_cell sample_tty + length [104 :: u8, 105] \<le> VGA_CHARS"
    by (simp add: VGA_CHARS_def NUM_COLS_def NUM_ROWS_def)
  ultimately obtain t1 where "raw_tty_write [104, 105] sample_tty = Some (int (length [104 :: u8, 105]), t1)"
    "\<forall>k < length [104 :: u8, 105]. tt_video t1 (2 * (cursor_cell sample_tty + k)) = [104, 105] ! k \<and>
      tt_video t1 (2 * (cursor_cell sample_tty + k) + 1) = tt_color sample_tty"
    using text_appears [of sample_tty "[104, 105]"] by auto
  moreover from this(2) [rule_format, of 0] this(2) [rule_format, of 1] have "tt_video t1 0 = 104" "tt_video t1 2 = 105"
    by simp_all
  ultimately show ?thesis by simp
qed

section \<open>Control sequences on a terminal\<close>

text \<open>The bytes of the sequence so far.\<close>

definition ansi_seq :: "ansi_decode \<Rightarrow> u8 list" where
  "ansi_seq ad = take (ad_end ad) (ad_buffer ad)"

lemma add_ansi_seq:
  assumes "ad_end (tt_ansi t) < length (ad_buffer (tt_ansi t))"
  shows "ansi_seq (tt_ansi (add_ansi c t)) = ansi_seq (tt_ansi t) @ [c]"
    "ad_end (tt_ansi (add_ansi c t)) = ad_end (tt_ansi t) + 1"
    "length (ad_buffer (tt_ansi (add_ansi c t))) = length (ad_buffer (tt_ansi t))"
  using assms by (simp_all add: add_ansi_def ansi_seq_def take_Suc_conv_app_nth)

lemma ansi_bytes_collect:
  assumes "\<forall>c \<in> set bs. is_ansi_byte c" and "length (ad_buffer (tt_ansi t)) = 16"
    and "0 < ad_end (tt_ansi t)" and "ad_end (tt_ansi t) + length bs \<le> 15"
  shows "\<exists>ad. write_chars bs t = Some (t\<lparr>tt_ansi := ad\<rparr>) \<and> ansi_seq ad = ansi_seq (tt_ansi t) @ bs \<and>
    ad_end ad = ad_end (tt_ansi t) + length bs \<and> length (ad_buffer ad) = 16 \<and>
    (\<forall>k. ad_end ad \<le> k \<longrightarrow> ad_buffer ad ! k = ad_buffer (tt_ansi t) ! k)"
  using assms
proof (induction bs arbitrary: t)
  case Nil
  show ?case by (rule exI [of _ "tt_ansi t"]) (use Nil in simp)
next
  case (Cons c bs)
  let ?u = "add_ansi c t"
  have "c \<noteq> 27" using Cons.prems(1) by (auto simp: is_ansi_byte_def is_digit_def)
  then have w: "write_char c t = Some ?u" using Cons.prems by (simp add: write_char_def)
  have u: "ansi_seq (tt_ansi ?u) = ansi_seq (tt_ansi t) @ [c]" "ad_end (tt_ansi ?u) = ad_end (tt_ansi t) + 1"
    "length (ad_buffer (tt_ansi ?u)) = 16"
    using add_ansi_seq [of t c] Cons.prems by simp_all
  with Cons.IH [of ?u] Cons.prems obtain ad where ad: "write_chars bs ?u = Some (?u\<lparr>tt_ansi := ad\<rparr>)"
    "ansi_seq ad = ansi_seq (tt_ansi ?u) @ bs" "ad_end ad = ad_end (tt_ansi ?u) + length bs"
    "length (ad_buffer ad) = 16" "\<forall>k. ad_end ad \<le> k \<longrightarrow> ad_buffer ad ! k = ad_buffer (tt_ansi ?u) ! k"
    by auto
  have "?u\<lparr>tt_ansi := ad\<rparr> = t\<lparr>tt_ansi := ad\<rparr>" by (simp add: add_ansi_def)
  moreover have "ad_buffer ad ! k = ad_buffer (tt_ansi t) ! k" if "ad_end ad \<le> k" for k
    using ad(3,5) u(2) that by (simp add: add_ansi_def)
  ultimately show ?case using w ad u by (intro exI [of _ ad]) auto
qed

lemma ansi_collect:
  assumes "\<forall>c \<in> set bs. is_ansi_byte c" and "length (ad_buffer (tt_ansi t)) = 16" and "length bs \<le> 14"
    and "ad_end (tt_ansi t) = 0" and "sint (27 :: u8) \<noteq> int (unat (cc (tt_termios t) ! VERASE))"
  shows "\<exists>ad. write_chars (27 # bs) t = Some (t\<lparr>tt_ansi := ad\<rparr>) \<and> ansi_seq ad = 27 # bs \<and>
    ad_end ad = length bs + 1 \<and> length (ad_buffer ad) = 16 \<and>
    (\<forall>k. ad_end ad \<le> k \<longrightarrow> ad_buffer ad ! k = ad_buffer (tt_ansi t) ! k)"
proof -
  let ?u = "add_ansi 27 t"
  have w: "write_char 27 t = Some ?u" using assms by (simp add: write_char_def write_plain_def is_cc_def)
  have u: "ansi_seq (tt_ansi ?u) = [27]" "ad_end (tt_ansi ?u) = 1" "length (ad_buffer (tt_ansi ?u)) = 16"
    using add_ansi_seq [of t 27] assms by (simp_all add: ansi_seq_def)
  from ansi_bytes_collect [of bs ?u] assms u obtain ad where ad: "write_chars bs ?u = Some (?u\<lparr>tt_ansi := ad\<rparr>)"
    "ansi_seq ad = 27 # bs" "ad_end ad = length bs + 1" "length (ad_buffer ad) = 16"
    "\<forall>k. ad_end ad \<le> k \<longrightarrow> ad_buffer ad ! k = ad_buffer (tt_ansi ?u) ! k" by auto
  have "?u\<lparr>tt_ansi := ad\<rparr> = t\<lparr>tt_ansi := ad\<rparr>" by (simp add: add_ansi_def)
  moreover have "ad_buffer ad ! k = ad_buffer (tt_ansi t) ! k" if "ad_end ad \<le> k" for k
    using ad(3,5) assms(4) that by (simp add: add_ansi_def)
  ultimately show ?thesis using w ad by (intro exI [of _ ad]) auto
qed

lemma write_chars_append: "write_chars (as @ bs) t = do { t1 \<leftarrow> write_chars as t; write_chars bs t1 }"
  by (induction "as" arbitrary: t) (auto split: bind_splits)

text \<open>A sequence of bytes and its final character.\<close>

lemma run_sequence:
  assumes "\<forall>c \<in> set bs. is_ansi_byte c" and "length (ad_buffer (tt_ansi t)) = 16" and "length bs \<le> 14"
    and "ad_end (tt_ansi t) = 0" and "sint (27 :: u8) \<noteq> int (unat (cc (tt_termios t) ! VERASE))"
    and "\<not> is_ansi_byte c" and "c \<noteq> 27"
  obtains ad where "write_chars (27 # bs @ [c]) t = do { t1 \<leftarrow> run_ansi c (t\<lparr>tt_ansi := ad\<rparr>); Some (end_ansi t1) }"
    and "ansi_seq ad = 27 # bs" and "ad_end ad = length bs + 1" and "length (ad_buffer ad) = 16"
    and "\<forall>k. ad_end ad \<le> k \<longrightarrow> ad_buffer ad ! k = ad_buffer (tt_ansi t) ! k"
proof -
  from ansi_collect [OF assms(1-5)] obtain ad where ad: "write_chars (27 # bs) t = Some (t\<lparr>tt_ansi := ad\<rparr>)"
    "ansi_seq ad = 27 # bs" "ad_end ad = length bs + 1" "length (ad_buffer ad) = 16"
    "\<forall>k. ad_end ad \<le> k \<longrightarrow> ad_buffer ad ! k = ad_buffer (tt_ansi t) ! k" by blast
  have "write_char c (t\<lparr>tt_ansi := ad\<rparr>) = do { t1 \<leftarrow> run_ansi c (t\<lparr>tt_ansi := ad\<rparr>); Some (end_ansi t1) }"
    using assms(6,7) ad(3) by (simp add: write_char_def)
  then have "write_chars (27 # bs @ [c]) t = do { t1 \<leftarrow> run_ansi c (t\<lparr>tt_ansi := ad\<rparr>); Some (end_ansi t1) }"
    using write_chars_append [of "27 # bs" "[c]" t] unfolding ad(1)
    by (cases "run_ansi c (t\<lparr>tt_ansi := ad\<rparr>)") simp_all
  with ad show thesis by (intro that [of ad])
qed

lemma ansi_seq_nth: "k < ad_end ad \<Longrightarrow> ad_buffer ad ! k = ansi_seq ad ! k"
  by (simp add: ansi_seq_def)

lemma digits_ansi:
  assumes "\<forall>c \<in> set ds. is_digit c"
  shows "takeWhile is_digit (ds @ 0x3B # r) = ds" "dropWhile is_digit (ds @ 0x3B # r) = 0x3B # r"
    "takeWhile is_digit ds = ds" "dropWhile is_digit ds = []"
proof -
  have n: "\<not> is_digit 0x3B" by (simp add: is_digit_def)
  from assms n show "takeWhile is_digit (ds @ 0x3B # r) = ds" "dropWhile is_digit (ds @ 0x3B # r) = 0x3B # r"
    "takeWhile is_digit ds = ds" "dropWhile is_digit ds = []"
    by (simp_all add: takeWhile_append2 dropWhile_append2)
qed

text \<open>The value the digits stand for, cut to a byte as the terminal does.\<close>

definition digits_value :: "u8 list \<Rightarrow> u8" where
  "digits_value ds = ucast (foldl (\<lambda>r c. r * 10 + ucast (c - 48)) 0 ds :: u32)"

lemma decode_two_args:
  assumes "ansi_seq ad = 27 # 0x5B # ds @ 0x3B # es" and "ad_end ad = length (ansi_seq ad)"
    and "ds \<noteq> []" "\<forall>c \<in> set ds. is_digit c" and "es \<noteq> []" "\<forall>c \<in> set es. is_digit c"
  shows "decode_ansi_type ad = 0x5B"
    "decode_ansi ad a (Some b) = Some (digits_value ds, digits_value es)" "decode_ansi ad a None = None"
proof -
  have "is_digit (hd ds)" using assms(3,4) by simp
  then have q: "hd ds \<noteq> 0x3F" by (auto simp: is_digit_def)
  have "ad_buffer ad ! 1 = 0x5B" "ad_buffer ad ! 2 = hd ds"
    using assms(1-3) ansi_seq_nth [of 1 ad] ansi_seq_nth [of 2 ad] by (auto simp: neq_Nil_conv)
  then show ty: "decode_ansi_type ad = 0x5B" using assms(1,2) q by (simp add: decode_ansi_type_def Let_def)
  have "drop 2 (take (ad_end ad) (ad_buffer ad)) = ds @ 0x3B # es"
    using assms(1) by (simp add: ansi_seq_def)
  then show "decode_ansi ad a (Some b) = Some (digits_value ds, digits_value es)" "decode_ansi ad a None = None"
    using assms(3,5)
    by (simp_all add: decode_ansi_def ty ansi_arg_def digits_value_def Let_def
        digits_ansi(1,2) [OF assms(4), of es] digits_ansi(3,4) [OF assms(6)])
qed

text \<open>A terminal outside a control sequence, whose erase character is not the escape character.\<close>

definition ground :: "tty \<Rightarrow> bool" where
  "ground t \<longleftrightarrow> ad_end (tt_ansi t) = 0 \<and> length (ad_buffer (tt_ansi t)) = 16 \<and> \<not> is_cc 27 VERASE t"

lemma run_two_args:
  assumes "ground t" and "ds \<noteq> []" "\<forall>c \<in> set ds. is_digit c" and "es \<noteq> []" "\<forall>c \<in> set es. is_digit c"
    and "length ds + length es \<le> 12" and "\<not> is_ansi_byte c" and "c \<noteq> 27"
  obtains ad where "write_chars (27 # 0x5B # ds @ 0x3B # es @ [c]) t =
      do { t1 \<leftarrow> run_ansi c (t\<lparr>tt_ansi := ad\<rparr>); Some (end_ansi t1) }"
    and "decode_ansi_type ad = 0x5B" and "length (ad_buffer ad) = 16"
    and "\<And>a b. decode_ansi ad a (Some b) = Some (digits_value ds, digits_value es)" and "\<And>a. decode_ansi ad a None = None"
proof -
  let ?bs = "0x5B # ds @ 0x3B # es"
  have bs: "\<forall>c \<in> set ?bs. is_ansi_byte c" "length ?bs \<le> 14"
    using assms(3,5,6) by (auto simp: is_ansi_byte_def)
  have g: "length (ad_buffer (tt_ansi t)) = 16" "ad_end (tt_ansi t) = 0"
    "sint (27 :: u8) \<noteq> int (unat (cc (tt_termios t) ! VERASE))"
    using assms(1) by (simp_all add: ground_def is_cc_def)
  from run_sequence [OF bs(1) g(1) bs(2) g(2,3) assms(7,8)] obtain ad where
    w: "write_chars (27 # ?bs @ [c]) t = do { t1 \<leftarrow> run_ansi c (t\<lparr>tt_ansi := ad\<rparr>); Some (end_ansi t1) }"
    and s: "ansi_seq ad = 27 # ?bs" and l: "ad_end ad = length ?bs + 1" "length (ad_buffer ad) = 16" by blast
  have l': "ad_end ad = length (ansi_seq ad)" using s l by simp
  show thesis
    by (rule that [of ad]) (use w l(2) decode_two_args [OF s l' assms(2-5)] in \<open>simp_all\<close>)
qed

text \<open>The control sequence with two numbers that ends in \<open>H\<close> puts the cursor in the row and the column
  they give, counted from 0 and cut to a byte, and changes nothing else.\<close>

theorem cursor_addressed:
  assumes "ground t" and "ds \<noteq> []" "\<forall>c \<in> set ds. is_digit c" and "es \<noteq> []" "\<forall>c \<in> set es. is_digit c"
    and "length ds + length es \<le> 12"
  shows "\<exists>t1. write_chars (27 # 0x5B # ds @ 0x3B # es @ [0x48]) t = Some t1 \<and> ground t1 \<and>
    tt_y t1 = ucast (digits_value ds) \<and> tt_x t1 = ucast (digits_value es) \<and> tt_video t1 = tt_video t \<and>
    same_line t t1"
proof -
  have c: "\<not> is_ansi_byte 0x48" "(0x48 :: u8) \<noteq> 27" by (simp_all add: is_ansi_byte_def is_digit_def)
  from run_two_args [OF assms c] obtain ad where
    w: "write_chars (27 # 0x5B # ds @ 0x3B # es @ [0x48]) t = do { t1 \<leftarrow> run_ansi 0x48 (t\<lparr>tt_ansi := ad\<rparr>); Some (end_ansi t1) }"
    and d: "decode_ansi_type ad = 0x5B" "length (ad_buffer ad) = 16"
      "\<And>a b. decode_ansi ad a (Some b) = Some (digits_value ds, digits_value es)" by metis
  show ?thesis using assms(1) unfolding w by (simp add: run_ansi_def d end_ansi_def same_line_def ground_def is_cc_def)
qed

lemma sample_ground: "ground sample_tty"
  by (simp add: ground_def sample_tty_def is_cc_def VERASE_def VINTR_def)

lemma cursor_addressed_witness:
  "\<exists>t1. write_chars [27, 0x5B, 0x31, 0x32, 0x3B, 0x37, 0x48] sample_tty = Some t1 \<and> tt_y t1 = 12 \<and> tt_x t1 = 7"
  using cursor_addressed [OF sample_ground, of "[0x31, 0x32]" "[0x37]"]
  by (auto simp: is_digit_def digits_value_def)

text \<open>A cursor movement or an erase sequence with two numbers makes the kernel write through \<open>NULL\<close>: the
  callers that want one number pass no place for the second, and the decoder stores it all the same.\<close>

theorem second_number_faults:
  assumes "ground t" and "ds \<noteq> []" "\<forall>c \<in> set ds. is_digit c" and "es \<noteq> []" "\<forall>c \<in> set es. is_digit c"
    and "length ds + length es \<le> 12" and "c \<in> {0x41, 0x42, 0x43, 0x44, 0x4A}"
  shows "raw_tty_write (27 # 0x5B # ds @ 0x3B # es @ [c]) t = None"
proof -
  have c: "\<not> is_ansi_byte c" "c \<noteq> 27" using assms(7) by (auto simp: is_ansi_byte_def is_digit_def)
  from run_two_args [OF assms(1-6) c] obtain ad where
    w: "write_chars (27 # 0x5B # ds @ 0x3B # es @ [c]) t = do { t1 \<leftarrow> run_ansi c (t\<lparr>tt_ansi := ad\<rparr>); Some (end_ansi t1) }"
    and d: "decode_ansi_type ad = 0x5B" "\<And>a. decode_ansi ad a None = None" by metis
  have "run_ansi c (t\<lparr>tt_ansi := ad\<rparr>) = None"
    using assms(7) by (auto simp: run_ansi_def d move_by_def erase_display_def)
  with w show ?thesis by (simp add: raw_tty_write_def)
qed

lemma second_number_faults_witness:
  "raw_tty_write [27, 0x5B, 0x31, 0x3B, 0x32, 0x41] sample_tty = None"
  using second_number_faults [OF sample_ground, where ds = "[0x31]" and es = "[0x32]" and c = "0x41"] by (simp add: is_digit_def)

text \<open>
  The byte that tells private sequences apart is read past the end of a short one: after a private sequence,
  \<open>ESC [ H\<close> is taken for private too and ignored.
\<close>

lemma home_ignored_after_private:
  assumes "ground t" and "ad_buffer (tt_ansi t) ! 2 = 0x3F"
  shows "\<exists>t1. write_chars [27, 0x5B, 0x48] t = Some t1 \<and> tt_x t1 = tt_x t \<and> tt_y t1 = tt_y t"
proof -
  have b: "\<forall>c \<in> set [0x5B]. is_ansi_byte c" "length [0x5B :: u8] \<le> 14" "\<not> is_ansi_byte 0x48" "(0x48 :: u8) \<noteq> 27"
    by (simp_all add: is_ansi_byte_def is_digit_def)
  have g: "length (ad_buffer (tt_ansi t)) = 16" "ad_end (tt_ansi t) = 0"
    "sint (27 :: u8) \<noteq> int (unat (cc (tt_termios t) ! VERASE))"
    using assms(1) by (simp_all add: ground_def is_cc_def)
  from run_sequence [OF b(1) g(1) b(2) g(2,3) b(3,4)] obtain ad where
    w: "write_chars (27 # [0x5B] @ [0x48]) t = do { t1 \<leftarrow> run_ansi 0x48 (t\<lparr>tt_ansi := ad\<rparr>); Some (end_ansi t1) }"
    and s: "ansi_seq ad = 27 # [0x5B]" "ad_end ad = length [0x5B :: u8] + 1"
      "\<forall>k. ad_end ad \<le> k \<longrightarrow> ad_buffer ad ! k = ad_buffer (tt_ansi t) ! k" by blast
  have "ad_buffer ad ! 1 = 0x5B" "ad_buffer ad ! 2 = 0x3F"
    using ansi_seq_nth [of 1 ad] s assms(2) by simp_all
  then have "decode_ansi_type ad = 0x3F" using s(2) by (simp add: decode_ansi_type_def)
  with w show ?thesis by (simp add: run_ansi_def end_ansi_def)
qed

text \<open>\<open>ESC [ 1 J\<close> with the cursor far below the screen, where cursor movements may put it, writes outside the page.\<close>

lemma erase_above_off_screen:
  assumes "decode_ansi (tt_ansi t) 0 None = Some (1, 0)" and "2048 < cursor_cell t"
  shows "erase_display t = None"
  using assms by (simp add: erase_display_def clear_cells_def)

section \<open>Editing a line\<close>

text \<open>What the keys of a line mean: a backspace takes the last character back, and past the buffer's end keys are lost.\<close>

fun edit_line :: "u8 list \<Rightarrow> u8 \<Rightarrow> u8 list" where
  "edit_line l c = (if c = 8 then butlast l else if length l < TTY_BUFFER_SIZE then l @ [c] else l)"

definition holds_line :: "tty \<Rightarrow> u8 list \<Rightarrow> bool" where
  "holds_line t l \<longleftrightarrow> lflag_has t ICANON \<and> ad_end (tt_ansi t) = 0 \<and> tt_start t = 0 \<and> tt_end t = length l \<and>
     length (tt_buffer t) = TTY_BUFFER_SIZE \<and> length l \<le> TTY_BUFFER_SIZE \<and> take (length l) (tt_buffer t) = l"

definition edit_key :: "tty \<Rightarrow> u8 \<Rightarrow> bool" where
  "edit_key t c \<longleftrightarrow> c \<noteq> 10 \<and> c \<noteq> 12 \<and> c \<noteq> 27 \<and> \<not> is_cc c VINTR t"

fun type_keys :: "ptr \<Rightarrow> u8 list \<Rightarrow> tty \<times> kst \<Rightarrow> (tty \<times> kst) option" where
  "type_keys p [] s = Some s"
| "type_keys p (c # cs) s = do { s1 \<leftarrow> tty_foreground_keyboard p c False False s; type_keys p cs s1 }"

lemma holds_line_should_read:
  assumes "holds_line t l"
  shows "tty_should_read t \<longleftrightarrow> l \<noteq> [] \<and> last l = 10"
proof (cases "l = []")
  case False
  have "take (length l) (tt_buffer t) = l" using assms by (simp add: holds_line_def)
  with nth_take [of "length l - 1" "length l" "tt_buffer t"] False
  have "tt_buffer t ! (length l - 1) = l ! (length l - 1)" by simp
  then show ?thesis using assms False by (simp add: holds_line_def tty_should_read_def last_conv_nth)
qed (use assms in \<open>simp add: holds_line_def tty_should_read_def\<close>)

lemma puts_same:
  assumes "ad_end (tt_ansi t) = 0" and "c \<noteq> 27"
  shows "\<exists>t1. tty_foreground_puts [c] t = Some t1 \<and> plain_same t t1"
proof -
  have "27 \<notin> set (takeWhile (\<lambda>c. c \<noteq> 0) [c])" using assms(2) by simp
  from write_chars_same [OF assms(1) this] show ?thesis
    by (auto simp: tty_foreground_puts_def raw_tty_write_def simp del: takeWhile.simps)
qed

lemma echo_same:
  assumes "ad_end (tt_ansi t) = 0" and "c \<noteq> 27"
  shows "\<exists>t1. (if e then tty_foreground_puts [c] t else Some t) = Some t1 \<and> plain_same t t1"
  using puts_same [OF assms] by (cases e) auto

lemma keyboard_plain: "tty_foreground_keyboard p c False False = plain_key p c"
  by (auto simp: tty_foreground_keyboard_def fun_eq_iff)

lemma plain_same_holds:
  assumes "plain_same u t" and "holds_line u l"
  shows "holds_line t l" "tt_termios t = tt_termios u" "tt_task t = tt_task u" "lflag_has t ICANON"
  using assms by (simp_all add: plain_same_def same_line_def holds_line_def lflag_has_def)

text \<open>A key that goes into the buffer.\<close>

lemma insert_key:
  assumes h: "holds_line t l" and "length l < TTY_BUFFER_SIZE" and "c \<noteq> 8" and "c \<noteq> 27"
  shows "\<exists>t1. buffer_key c (t, st) = (do { st1 \<leftarrow> (if tt_task t \<noteq> 0 \<and> c = 10 then wake_up_process (tt_task t) st else Some st);
      Some (t1, st1) }) \<and> holds_line t1 (l @ [c]) \<and> tt_termios t1 = tt_termios t \<and> tt_task t1 = tt_task t"
proof -
  let ?u = "t\<lparr>tt_buffer := (tt_buffer t)[tt_end t := c], tt_end := tt_end t + 1\<rparr>"
  have e: "tt_end t = length l" using h by (simp add: holds_line_def)
  have "take (Suc (length l)) ((tt_buffer t)[length l := c]) = l @ [c]"
    using assms by (simp add: holds_line_def take_Suc_conv_app_nth)
  then have u: "holds_line ?u (l @ [c])"
    using assms e by (simp add: holds_line_def lflag_has_def)
  then have "ad_end (tt_ansi ?u) = 0" by (simp only: holds_line_def)
  from echo_same [OF this assms(4)] obtain t1 where
    e: "(if lflag_has ?u ECHO then tty_foreground_puts [c] ?u else Some ?u) = Some t1" "plain_same ?u t1" by blast
  then have r: "holds_line t1 (l @ [c])" "tt_termios t1 = tt_termios t" "tt_task t1 = tt_task t" "lflag_has t1 ICANON"
    using plain_same_holds [OF e(2) u] by simp_all
  have "tt_end t < TTY_BUFFER_SIZE" using assms by (simp add: holds_line_def)
  then have "buffer_key c (t, st) = (if lflag_has ?u ECHO then tty_foreground_puts [c] ?u else Some ?u) \<bind>
      (\<lambda>t2. (if tt_task t2 \<noteq> 0 \<and> (\<not> lflag_has t2 ICANON \<or> c = 10) then wake_up_process (tt_task t2) st else Some st) \<bind>
        (\<lambda>st1. Some (t2, st1)))"
    using assms(3) by (simp only: buffer_key_def Let_def prod.case if_True if_False simp_thms)
  then show ?thesis unfolding e(1) using r by (intro exI [of _ t1]) simp
qed

lemma erase_key:
  assumes "holds_line t l"
  shows "\<exists>t1. buffer_key 8 (t, st) = Some (t1, st) \<and> holds_line t1 (butlast l) \<and> tt_termios t1 = tt_termios t \<and>
    tt_task t1 = tt_task t"
proof (cases "l = []")
  case True
  with assms show ?thesis by (auto simp: buffer_key_def holds_line_def)
next
  case False
  have "ad_end (tt_ansi t) = 0" using assms by (simp only: holds_line_def)
  from echo_same [OF this, of 8] obtain t1 where
    e: "(if lflag_has t ECHO then tty_foreground_puts [8] t else Some t) = Some t1" "plain_same t t1" by auto
  have "butlast (take (length l) (tt_buffer t)) = take (length l - 1) (tt_buffer t)"
    using assms by (intro butlast_take) (simp add: holds_line_def)
  then have "take (length l - 1) (tt_buffer t) = butlast l" using assms by (simp add: holds_line_def)
  then have "holds_line (t1\<lparr>tt_end := tt_end t1 - 1\<rparr>) (butlast l)"
    using assms e(2) by (auto simp: holds_line_def plain_same_def same_line_def lflag_has_def)
  moreover have "tt_termios t1 = tt_termios t" "tt_task t1 = tt_task t"
    using e(2) by (simp_all add: plain_same_def same_line_def)
  moreover have "tt_end t \<noteq> 0" "lflag_has t ICANON" using assms False by (simp_all add: holds_line_def)
  ultimately show ?thesis using e(1)
    by (intro exI [of _ "t1\<lparr>tt_end := tt_end t1 - 1\<rparr>"]) (simp add: buffer_key_def)
qed

lemma edit_line_key:
  assumes h: "holds_line t l" and k: "edit_key t c" and n: "10 \<notin> set l"
  shows "\<exists>t1. tty_foreground_keyboard p c False False (t, st) = Some (t1, st) \<and> holds_line t1 (edit_line l c) \<and>
    tt_termios t1 = tt_termios t \<and> tt_task t1 = tt_task t"
proof -
  have "\<not> tty_should_read t" using holds_line_should_read [OF h] n last_in_set by fastforce
  then have eq: "tty_foreground_keyboard p c False False (t, st) = buffer_key c (t, st)"
    using k by (simp add: keyboard_plain plain_key_def edit_key_def)
  consider "c = 8" | "c \<noteq> 8" "length l < TTY_BUFFER_SIZE" | "c \<noteq> 8" "\<not> length l < TTY_BUFFER_SIZE" by blast
  then show ?thesis
  proof cases
    case 1
    with erase_key [OF h, of st] eq show ?thesis by simp
  next
    case 2
    with insert_key [OF h 2(2,1), of st] k eq show ?thesis by (auto simp: edit_key_def)
  next
    case 3
    with h have "buffer_key c (t, st) = Some (t, st)" by (simp add: buffer_key_def holds_line_def)
    with 3 h eq show ?thesis by simp
  qed
qed

lemma edit_line_chars: "c \<noteq> 10 \<Longrightarrow> 10 \<notin> set l \<Longrightarrow> 10 \<notin> set (edit_line l c)"
  by (auto dest: in_set_butlastD)

lemma type_keys_line:
  assumes "holds_line t l" and "\<forall>c \<in> set ks. edit_key t c" and "10 \<notin> set l"
  shows "\<exists>t1. type_keys p ks (t, st) = Some (t1, st) \<and> holds_line t1 (foldl edit_line l ks) \<and>
    10 \<notin> set (foldl edit_line l ks) \<and> tt_termios t1 = tt_termios t \<and> tt_task t1 = tt_task t"
  using assms
proof (induction ks arbitrary: t l)
  case (Cons c ks)
  from edit_line_key [OF Cons.prems(1), of c p st] Cons.prems obtain t1 where
    t1: "tty_foreground_keyboard p c False False (t, st) = Some (t1, st)" "holds_line t1 (edit_line l c)"
      "tt_termios t1 = tt_termios t" "tt_task t1 = tt_task t" by auto
  have "\<forall>c \<in> set ks. edit_key t1 c" using Cons.prems(2) t1(3) by (simp add: edit_key_def is_cc_def)
  moreover have "10 \<notin> set (edit_line l c)"
    using edit_line_chars [of c l] Cons.prems by (simp add: edit_key_def del: edit_line.simps)
  ultimately obtain t2 where "type_keys p ks (t1, st) = Some (t2, st)" "holds_line t2 (foldl edit_line (edit_line l c) ks)"
    "10 \<notin> set (foldl edit_line (edit_line l c) ks)" "tt_termios t2 = tt_termios t1" "tt_task t2 = tt_task t1"
    using Cons.IH [OF t1(2)] by blast
  with t1 show ?case by (auto simp del: edit_line.simps)
qed simp

lemma type_keys_append: "type_keys p (as @ bs) s = do { s1 \<leftarrow> type_keys p as s; type_keys p bs s1 }"
  by (induction "as" arbitrary: s) (auto split: bind_splits)

lemma take_line:
  assumes "holds_line t l"
  shows "\<exists>t1. take_bytes n t = Some (take (unat n) l, t1) \<and> (length l \<le> unat n \<longrightarrow> holds_line t1 [])"
proof -
  have l: "length l \<le> 128" using assms by (simp add: holds_line_def TTY_BUFFER_SIZE_def)
  have u: "unat (word_of_nat (length l) :: u32) = length l" using l by (simp add: unat_of_nat)
  have m: "unat (min n (word_of_nat (length l))) = min (unat n) (length l)"
    using u by (simp add: min_def word_le_nat_alt)
  have "take (min (unat n) (length l)) (tt_buffer t) = take (unat n) l"
    using assms by (metis holds_line_def take_take)
  then show ?thesis
    using assms l m by (auto simp: take_bytes_def Let_def holds_line_def TTY_BUFFER_SIZE_def lflag_has_def)
qed

text \<open>C24: A line typed at the terminal is what its reader gets: the keys up to Enter edit the line, a backspace
  taking the last character back; Enter wakes the task that waits, and the read that follows returns the edited
  line with its newline, up to the number of bytes asked for, and empties the buffer.\<close>

theorem typed_line_is_read:
  assumes "holds_line t []" and "\<forall>c \<in> set ks. edit_key t c" and "\<not> is_cc 10 VINTR t"
    and "length (foldl edit_line [] ks) < TTY_BUFFER_SIZE"
    and "tt_task t \<noteq> 0" and "tt_task t \<noteq> k_current st" and "k_answers st = []"
  shows "\<exists>t1 st1 t2. type_keys p (ks @ [10]) (t, st) = Some (t1, st1) \<and> tt_task t \<in> set (k_queue st1) \<and>
    tty_should_read t1 \<and> take_bytes n t1 = Some (take (unat n) (foldl edit_line [] ks @ [10]), t2) \<and>
    (length (foldl edit_line [] ks) < unat n \<longrightarrow> holds_line t2 [])"
proof -
  let ?l = "foldl edit_line [] ks"
  from type_keys_line [OF assms(1,2), of p st] obtain t1 where t1: "type_keys p ks (t, st) = Some (t1, st)"
    "holds_line t1 ?l" "10 \<notin> set ?l" "tt_termios t1 = tt_termios t" "tt_task t1 = tt_task t" by auto
  obtain st1 where w: "wake_up_process (tt_task t) st = Some st1" "tt_task t \<in> set (k_queue st1)"
    using assms(6,7) by (cases "tt_task t \<in> set (k_queue st)") (auto simp: wake_up_process_def k_kmalloc_def)
  have "\<not> tty_should_read t1" using holds_line_should_read [OF t1(2)] t1(3) last_in_set by fastforce
  then have eq: "tty_foreground_keyboard p 10 False False (t1, st) = buffer_key 10 (t1, st)"
    using assms(3) t1(4) by (simp add: keyboard_plain plain_key_def is_cc_def)
  from insert_key [OF t1(2) assms(4), of 10 st] t1(5) assms(5) w(1) obtain t2 where
    t2: "buffer_key 10 (t1, st) = Some (t2, st1)" "holds_line t2 (?l @ [10])" by auto
  from take_line [OF t2(2), of n] obtain t3 where
    "take_bytes n t2 = Some (take (unat n) (?l @ [10]), t3)" "length ?l < unat n \<longrightarrow> holds_line t3 []" by auto
  moreover have "type_keys p (ks @ [10]) (t, st) = Some (t2, st1)" using t1(1) eq t2(1) by (simp add: type_keys_append)
  moreover have "tty_should_read t2" using holds_line_should_read [OF t2(2)] by simp
  ultimately show ?thesis using w(2) by blast
qed

lemma typed_line_is_read_witness:
  "\<exists>t1 st1 t2. type_keys 1 [97, 98, 8, 10] (sample_tty\<lparr>tt_task := 96\<rparr>, sample_kst) = Some (t1, st1) \<and>
    take_bytes 100 t1 = Some ([97, 10], t2)"
proof -
  let ?t = "sample_tty\<lparr>tt_task := 96\<rparr>"
  have cc: "is_cc c VINTR ?t \<longleftrightarrow> sint c = 3" for c
    by (simp add: is_cc_def sample_tty_def VINTR_def VERASE_def)
  have h: "holds_line ?t []"
    by (simp add: holds_line_def lflag_has_def sample_tty_def TTY_BUFFER_SIZE_def ICANON_def ECHO_def ECHOE_def
        ECHOCTL_def ISIG_def)
  have k: "\<forall>c \<in> set [97, 98, 8]. edit_key ?t c" unfolding edit_key_def cc by simp
  have v: "\<not> is_cc 10 VINTR ?t" unfolding cc by simp
  have l: "foldl edit_line [] [97, 98, 8] = [97]" by (simp add: TTY_BUFFER_SIZE_def)
  have s: "length (foldl edit_line [] [97, 98, 8]) < TTY_BUFFER_SIZE" by (simp add: TTY_BUFFER_SIZE_def)
  have "tt_task ?t \<noteq> 0" "tt_task ?t \<noteq> k_current sample_kst" "k_answers sample_kst = []" by (simp_all add: sample_kst_def)
  from typed_line_is_read [OF h k v s this, of 1 100] show ?thesis unfolding l by auto
qed

text \<open>A full buffer has no room for Enter: the key is lost and the reader goes on waiting.\<close>

lemma enter_lost_when_full:
  assumes "holds_line t l" and "length l = TTY_BUFFER_SIZE" and "10 \<notin> set l" and "\<not> is_cc 10 VINTR t"
  shows "tty_foreground_keyboard p 10 False False (t, st) = Some (t, st)"
proof -
  have "\<not> tty_should_read t" using holds_line_should_read [OF assms(1)] assms(3) last_in_set by fastforce
  then show ?thesis using assms by (simp add: keyboard_plain plain_key_def buffer_key_def holds_line_def)
qed

end
