(* ===== verification/Packet.thy ===== *)
theory Packet
  imports Signals
begin

text \<open>
  The network formats and the sending half of the network: \<open>net/inet.h\<close>, \<open>net/arp.c\<close>, \<open>net/ethernet.c\<close>,
  \<open>net/ip.c\<close>, \<open>net/udp.c\<close> and the transmit path of \<open>drivers/rtl8139.c\<close>.  A packet is the list of its bytes in
  memory; a 16-bit field is a pair of bytes, the low one first, as the processor stores it.  \<open>None\<close> is a write
  through a null pointer or a read past the end of a packet.
\<close>

section \<open>Byte order\<close>

text \<open>The bytes of a number in memory, the low one first.\<close>

definition byte_at :: "nat \<Rightarrow> 'a::len word \<Rightarrow> 'a word" where
  "byte_at i x = take_bit 8 (drop_bit (8 * i) x)"

definition flip_short :: "u16 \<Rightarrow> u16" where
  "flip_short x = push_bit 8 (byte_at 0 x) OR byte_at 1 x"

definition flip_long :: "u32 \<Rightarrow> u32" where
  "flip_long x = push_bit 24 (byte_at 0 x) OR push_bit 16 (byte_at 1 x) OR push_bit 8 (byte_at 2 x) OR byte_at 3 x"

definition flip_byte :: "u8 \<Rightarrow> nat \<Rightarrow> u8" where
  "flip_byte x n = push_bit (8 - n) x OR drop_bit n x"

definition htonb :: "u8 \<Rightarrow> nat \<Rightarrow> u8" where "htonb x n = flip_byte x n"
definition ntohb :: "u8 \<Rightarrow> nat \<Rightarrow> u8" where "ntohb x n = flip_byte x (8 - n)"
definition htons :: "u16 \<Rightarrow> u16" where "htons x = flip_short x"
definition ntohs :: "u16 \<Rightarrow> u16" where "ntohs x = flip_short x"
definition htonl :: "u32 \<Rightarrow> u32" where "htonl x = flip_long x"
definition ntohl :: "u32 \<Rightarrow> u32" where "ntohl x = flip_long x"

text \<open>A 16-bit number in memory, and reading and writing one at an offset.\<close>

definition short_bytes :: "u16 \<Rightarrow> u8 list" where
  "short_bytes x = [ucast x, ucast (drop_bit 8 x)]"

definition get_short :: "nat \<Rightarrow> u8 list \<Rightarrow> u16" where
  "get_short i bs = ucast (bs ! i) OR push_bit 8 (ucast (bs ! (i + 1)))"

definition put_short :: "nat \<Rightarrow> u16 \<Rightarrow> u8 list \<Rightarrow> u8 list" where
  "put_short i x bs = bs[i := ucast x, i + 1 := ucast (drop_bit 8 x)]"

section \<open>The state of the network\<close>

type_synonym ip_addr = "u8 list"
type_synonym mac_addr = "u8 list"

record arp_table_entry =
  ae_ip :: ip_addr
  ae_mac :: mac_addr

text \<open>\<open>n_tx\<close> are the frames given to the card; \<open>n_busy\<close> says that the last one has not been sent yet.\<close>

record netst =
  n_mac :: mac_addr
  n_arp_table :: "arp_table_entry list"
  n_arp_size :: nat
  n_arp_curr :: nat
  n_busy :: bool
  n_tx :: "u8 list list"
  n_kst :: kst

definition ARP_TABLE_SIZE :: nat where "ARP_TABLE_SIZE = 512"
definition ARP_REQUEST :: u16 where "ARP_REQUEST = 1"
definition ARP_REPLY :: u16 where "ARP_REPLY = 2"
definition ETHERNET_TYPE_ARP :: u16 where "ETHERNET_TYPE_ARP = 0x0806"
definition ETHERNET_TYPE_IP :: u16 where "ETHERNET_TYPE_IP = 0x0800"
definition HARDWARE_TYPE_ETHERNET :: u16 where "HARDWARE_TYPE_ETHERNET = 1"
definition IP_IPV4 :: u8 where "IP_IPV4 = 4"
definition PROTOCOL_UDP :: u8 where "PROTOCOL_UDP = 17"

definition my_ip :: ip_addr where "my_ip = [10, 0, 2, 14]"
definition gateway_addr :: ip_addr where "gateway_addr = [10, 0, 2, 2]"
definition broadcast_mac_address :: mac_addr where "broadcast_mac_address = replicate 6 0xFF"
definition zero_hardware_addr :: mac_addr where "zero_hardware_addr = replicate 6 0"

text \<open>An allocation whose result is used without a check: failure is a write through \<open>NULL\<close>.\<close>

definition net_kmalloc :: "netst \<Rightarrow> netst option" where
  "net_kmalloc st = (let (ok, k) = k_kmalloc (n_kst st) in if ok then Some (st\<lparr>n_kst := k\<rparr>) else None)"

section \<open>The card\<close>

text \<open>A packet is dropped without an error while the card is busy.\<close>

definition rtl8139_send_packet :: "u8 list \<Rightarrow> netst \<Rightarrow> netst option" where
  "rtl8139_send_packet frame st =
     (if n_busy st then Some st
      else do { st1 \<leftarrow> net_kmalloc st; Some (st1\<lparr>n_busy := True, n_tx := n_tx st1 @ [frame]\<rparr>) })"

text \<open>The interrupt that reports a frame as sent.\<close>

definition rtl8139_sent :: "netst \<Rightarrow> netst" where
  "rtl8139_sent st = st\<lparr>n_busy := False\<rparr>"

definition ethernet_send_packet :: "mac_addr \<Rightarrow> u8 list \<Rightarrow> u16 \<Rightarrow> netst \<Rightarrow> netst option" where
  "ethernet_send_packet dst data protocol st = do {
     st1 \<leftarrow> net_kmalloc st;
     rtl8139_send_packet (dst @ n_mac st1 @ short_bytes (htons protocol) @ data) st1 }"

section \<open>Address resolution\<close>

text \<open>Storing an entry.  The index is compared with the size of the table, and never moved.\<close>

definition arp_lookup_add :: "mac_addr \<Rightarrow> ip_addr \<Rightarrow> netst \<Rightarrow> netst" where
  "arp_lookup_add mac ip st =
     st\<lparr>n_arp_table := (n_arp_table st)[n_arp_curr st := \<lparr>ae_ip = ip, ae_mac = mac\<rparr>],
        n_arp_size := (if n_arp_size st < 512 then n_arp_size st + 1 else n_arp_size st),
        n_arp_curr := (if n_arp_curr st \<ge> 512 then 0 else n_arp_curr st)\<rparr>"

definition arp_lookup :: "ip_addr \<Rightarrow> netst \<Rightarrow> mac_addr option" where
  "arp_lookup ip st = map_option ae_mac (List.find (\<lambda>e. ae_ip e = ip) (n_arp_table st))"

definition arp_init :: "netst \<Rightarrow> netst" where
  "arp_init st = arp_lookup_add (replicate 6 0xFF) (replicate 4 0xFF) st"

text \<open>A packet: the types and lengths, the operation, then the two pairs of addresses.\<close>

definition arp_packet :: "u16 \<Rightarrow> mac_addr \<Rightarrow> ip_addr \<Rightarrow> mac_addr \<Rightarrow> ip_addr \<Rightarrow> u8 list" where
  "arp_packet op src_mac src_ip dst_mac dst_ip =
     short_bytes (htons HARDWARE_TYPE_ETHERNET) @ short_bytes (htons ETHERNET_TYPE_IP) @ [6, 4] @
     short_bytes (htons op) @ src_mac @ src_ip @ dst_mac @ dst_ip"

definition arp_send_packet :: "mac_addr \<Rightarrow> ip_addr \<Rightarrow> netst \<Rightarrow> netst option" where
  "arp_send_packet dst_mac dst_ip st = do {
     st1 \<leftarrow> net_kmalloc st;
     ethernet_send_packet broadcast_mac_address (arp_packet ARP_REQUEST (n_mac st1) my_ip dst_mac dst_ip)
       ETHERNET_TYPE_ARP st1 }"

text \<open>
  \<open>memcmp\<close> is not zero when the addresses differ, so a request is answered unless it asks for the address of
  this host.  A packet of another operation is reported and stored.
\<close>

definition arp_handle_packet :: "u8 list \<Rightarrow> netst \<Rightarrow> netst option" where
  "arp_handle_packet p st =
     (if length p < 28 then None
      else (let op = ntohs (get_short 6 p); src_mac = take 6 (drop 8 p); src_ip = take 4 (drop 14 p);
                dst_ip = take 4 (drop 24 p) in
        do {
          st1 \<leftarrow> (if op = ARP_REQUEST \<and> dst_ip \<noteq> my_ip
            then ethernet_send_packet src_mac (arp_packet ARP_REPLY (n_mac st) my_ip src_mac src_ip) ETHERNET_TYPE_ARP st
            else Some st);
          Some (arp_lookup_add src_mac src_ip st1) }))"

section \<open>Internet packets\<close>

text \<open>The sum of the header as big-endian numbers, with the carries added once.\<close>

fun sum_shorts :: "u8 list \<Rightarrow> u32" where
  "sum_shorts (a # b # bs) = ucast (flip_short (get_short 0 [a, b])) + sum_shorts bs"
| "sum_shorts _ = 0"

definition ip_calculate_checksum :: "u8 list \<Rightarrow> u16" where
  "ip_calculate_checksum header =
     (let sum = sum_shorts (take 20 header) in NOT (ucast ((sum AND 0xFFFF) + drop_bit 16 sum)))"

text \<open>
  The header of a packet with \<open>len\<close> bytes of data: version and length of the header share a byte, so do the flags
  and the high part of the fragment offset; \<open>htonb\<close> brings the two fields of a byte in order.
\<close>

definition ip_header_plain :: "ip_addr \<Rightarrow> nat \<Rightarrow> u8 list" where
  "ip_header_plain dst len =
     [htonb (IP_IPV4 OR push_bit 4 5) 4, 0] @ short_bytes (htons (word_of_nat (20 + len))) @ short_bytes 0 @
     [htonb 0 3, 0, 64, PROTOCOL_UDP] @ short_bytes 0 @ my_ip @ dst"

definition ip_header :: "ip_addr \<Rightarrow> nat \<Rightarrow> u8 list" where
  "ip_header dst len =
     (let h = ip_header_plain dst len in put_short 10 (htons (ip_calculate_checksum h)) h)"

text \<open>
  \<open>ip_send_packet\<close> up to its loop makes the packet.  A round of the loop looks the gateway up: it sends the packet, or
  asks for the address if it has not asked three times.  The loop goes on until the answer has come in an interrupt.
\<close>

definition ip_send_enter :: "ip_addr \<Rightarrow> u8 list \<Rightarrow> netst \<Rightarrow> (u8 list \<times> netst) option" where
  "ip_send_enter dst data st = do {
     st1 \<leftarrow> net_kmalloc st;
     Some (ip_header dst (length data) @ data, st1) }"

datatype send_step = Sent | Asked nat | Spins

definition ip_send_round :: "u8 list \<Rightarrow> nat \<Rightarrow> netst \<Rightarrow> (send_step \<times> netst) option" where
  "ip_send_round packet arp_sent st =
     (case arp_lookup gateway_addr st of
       Some mac \<Rightarrow> do {
         st1 \<leftarrow> ethernet_send_packet mac (take (unat (htons (get_short 2 packet))) packet) ETHERNET_TYPE_IP st;
         Some (Sent, st1) }
     | None \<Rightarrow>
         if arp_sent \<noteq> 0 then do {
           st1 \<leftarrow> arp_send_packet zero_hardware_addr gateway_addr st;
           Some (Asked (arp_sent - 1), st1) }
         else Some (Spins, st))"

section \<open>Datagrams\<close>

definition udp_calculate_checksum :: u16 where
  "udp_calculate_checksum = 0"

definition udp_packet :: "u16 \<Rightarrow> u16 \<Rightarrow> u8 list \<Rightarrow> u8 list" where
  "udp_packet src_port dst_port data =
     short_bytes (htons src_port) @ short_bytes (htons dst_port) @
     short_bytes (htons (word_of_nat (8 + length data))) @ short_bytes udp_calculate_checksum @ data"

definition udp_send_packet :: "ip_addr \<Rightarrow> u16 \<Rightarrow> u16 \<Rightarrow> u8 list \<Rightarrow> netst \<Rightarrow> (u8 list \<times> netst) option" where
  "udp_send_packet dst src_port dst_port data st = do {
     st1 \<leftarrow> net_kmalloc st;
     ip_send_enter dst (udp_packet src_port dst_port data) st1 }"

section \<open>Byte order, proved\<close>

lemma flip_short_flip_short [simp]: "flip_short (flip_short x) = x"
  by (rule bit_word_eqI) (auto simp: flip_short_def byte_at_def bit_simps)

lemma bit_flip_long:
  "n < 8 \<Longrightarrow> bit (flip_long x) n = bit x (24 + n)"
  "8 \<le> n \<Longrightarrow> n < 16 \<Longrightarrow> bit (flip_long x) n = bit x (8 + n)"
  "16 \<le> n \<Longrightarrow> n < 24 \<Longrightarrow> bit (flip_long x) n = bit x (n - 8)"
  "24 \<le> n \<Longrightarrow> n < 32 \<Longrightarrow> bit (flip_long x) n = bit x (n - 24)"
  by (auto simp: flip_long_def byte_at_def bit_simps)

lemma flip_long_flip_long [simp]: "flip_long (flip_long x) = x"
proof (rule bit_word_eqI)
  fix n
  assume "n < LENGTH(32)"
  then consider "n < 8" | "8 \<le> n" "n < 16" | "16 \<le> n" "n < 24" | "24 \<le> n" "n < 32" by fastforce
  then show "bit (flip_long (flip_long x)) n = bit x n"
    by cases (simp_all add: bit_flip_long)
qed

lemma ntohs_htons [simp]: "ntohs (htons x) = x"
  by (simp add: ntohs_def htons_def)

lemma get_short_bytes: "get_short 0 (short_bytes x) = x"
  by (rule bit_word_eqI) (auto simp: get_short_def short_bytes_def bit_simps)

lemma ntohb_htonb: "ntohb (htonb x 4) 4 = x"
  by (rule bit_word_eqI) (auto simp: ntohb_def htonb_def flip_byte_def bit_simps)

lemma length_short_bytes [simp]: "length (short_bytes x) = 2"
  by (simp add: short_bytes_def)

lemma get_short_at: "get_short (length xs) (xs @ short_bytes x @ ys) = x"
  using get_short_bytes [of x] by (simp add: get_short_def short_bytes_def nth_append)

lemma get_short_append: "i + 1 < length xs \<Longrightarrow> get_short i (xs @ ys) = get_short i xs"
  by (simp add: get_short_def nth_append)

section \<open>The header of a packet\<close>

lemma length_ip_header: "length dst = 4 \<Longrightarrow> length (ip_header dst n) = 20"
  by (simp add: ip_header_def ip_header_plain_def Let_def put_short_def short_bytes_def my_ip_def)

lemma ip_header_first: "ntohb (ip_header dst n ! 0) 4 AND 0xF = IP_IPV4"
  by (simp add: ip_header_def ip_header_plain_def Let_def put_short_def ntohb_htonb IP_IPV4_def)

lemma ip_header_length: "get_short 2 (ip_header dst n) = htons (word_of_nat (20 + n))"
proof -
  have "get_short 2 (ip_header dst n) = get_short 0 (short_bytes (htons (word_of_nat (20 + n))))"
    by (simp add: ip_header_def ip_header_plain_def Let_def put_short_def get_short_def short_bytes_def)
  then show ?thesis by (simp only: get_short_bytes)
qed

lemma ip_header_protocol: "ip_header dst n ! 9 = PROTOCOL_UDP"
  by (simp add: ip_header_def ip_header_plain_def Let_def put_short_def short_bytes_def)

section \<open>The checksum\<close>

text \<open>The sum a receiver forms over a header: the carries are added until none is left.  All ones is right.\<close>

lemma carries_less:
  fixes n :: nat
  assumes "\<not> n < 65536"
  shows "n mod 65536 + n div 65536 < n" and "n = n div 65536 * 65535 + (n mod 65536 + n div 65536)"
proof -
  define q r where "q = n div 65536" and "r = n mod 65536"
  have n: "n = q * 65536 + r" by (simp add: q_def r_def)
  have "0 < q" using assms by (simp add: q_def div_greater_zero_iff)
  with n show "n mod 65536 + n div 65536 < n" unfolding q_def [symmetric] r_def [symmetric] by linarith
  from n show "n = n div 65536 * 65535 + (n mod 65536 + n div 65536)"
    unfolding q_def [symmetric] r_def [symmetric] by linarith
qed

function fold_carries :: "nat \<Rightarrow> nat" where
  "fold_carries n = (if n < 65536 then n else fold_carries (n mod 65536 + n div 65536))"
  by pat_completeness auto
termination by (relation "measure id") (simp, simp add: carries_less(1))

declare fold_carries.simps [simp del]

definition header_verifies :: "u8 list \<Rightarrow> bool" where
  "header_verifies h \<longleftrightarrow> fold_carries (unat (sum_shorts h)) = 65535"

lemma fold_carries_mod: "fold_carries n mod 65535 = n mod 65535 \<and> fold_carries n < 65536 \<and> (0 < n \<longrightarrow> 0 < fold_carries n)"
proof (induction n rule: fold_carries.induct)
  case (1 n)
  show ?case
  proof (cases "n < 65536")
    case True
    then show ?thesis by (simp add: fold_carries.simps)
  next
    case False
    have "n mod 65535 = (n mod 65536 + n div 65536) mod 65535"
      using carries_less(2) [OF False] by (metis mod_mult_self3)
    moreover have "0 < n mod 65536 + n div 65536" using False by (simp add: div_greater_zero_iff)
    ultimately show ?thesis using 1 False by (subst (1 2 3) fold_carries.simps) simp
  qed
qed

lemma fold_carries_all_ones: "0 < n \<Longrightarrow> fold_carries n = 65535 \<longleftrightarrow> n mod 65535 = 0"
proof -
  assume "0 < n"
  then have f: "fold_carries n mod 65535 = n mod 65535" "fold_carries n < 65536" "0 < fold_carries n"
    using fold_carries_mod [of n] by simp_all
  show ?thesis
  proof (cases "fold_carries n = 65535")
    case True
    then show ?thesis using f(1) by simp
  next
    case False
    then have "fold_carries n mod 65535 = fold_carries n" using f(2) by simp
    then show ?thesis using f(1,3) False by simp
  qed
qed

lemma sum_shorts_bound:
  "length bs \<le> 20 \<Longrightarrow> unat (sum_shorts bs) \<le> 65535 * (length bs div 2)"
proof (induction bs rule: sum_shorts.induct)
  case (1 a b bs)
  let ?x = "ucast (flip_short (get_short 0 [a, b])) :: u32"
  have x: "unat ?x \<le> 65535"
    using unat_lt_size16 [of "flip_short (get_short 0 [a, b])"]
    by (simp add: unsigned_ucast_eq unsigned_take_bit_eq take_bit_nat_eq_self)
  have ih: "unat (sum_shorts bs) \<le> 65535 * (length bs div 2)" using 1 by simp
  have "length bs div 2 \<le> 9" using 1(2) by simp
  then have "unat ?x + unat (sum_shorts bs) < 2 ^ 32" using x ih by simp
  then have "unat (?x + sum_shorts bs) = unat ?x + unat (sum_shorts bs)" by (intro unat_add_small) simp
  then show ?case using x ih by simp
qed simp_all

lemma sum_shorts_append: "even (length xs) \<Longrightarrow> sum_shorts (xs @ ys) = sum_shorts xs + sum_shorts ys"
  by (induction xs rule: sum_shorts.induct) (simp_all add: add.assoc)

lemma sum_shorts_short_bytes: "sum_shorts (short_bytes (htons c)) = ucast c"
  using get_short_bytes [of "htons c"] by (simp add: short_bytes_def htons_def)

lemma sum_shorts_put:
  assumes "length dst = 4"
  shows "sum_shorts (put_short 10 (htons c) (ip_header_plain dst n)) = sum_shorts (ip_header_plain dst n) + ucast c"
proof -
  define xs where "xs = [htonb (IP_IPV4 OR push_bit 4 5) 4, 0] @ short_bytes (htons (word_of_nat (20 + n))) @ short_bytes 0 @
     [htonb 0 3, 0, 64, PROTOCOL_UDP]"
  have h: "ip_header_plain dst n = xs @ short_bytes (htons 0) @ my_ip @ dst"
    by (simp add: ip_header_plain_def xs_def short_bytes_def htons_def flip_short_def byte_at_def)
  have l: "length xs = 10" by (simp add: xs_def)
  then have p: "put_short 10 (htons c) (ip_header_plain dst n) = xs @ short_bytes (htons c) @ my_ip @ dst"
    unfolding h by (simp add: put_short_def short_bytes_def list_update_append)
  show ?thesis
    unfolding p unfolding h by (simp add: sum_shorts_append sum_shorts_short_bytes l)
qed

lemma unat_not16: "unat (NOT x :: u16) = 65535 - unat x"
proof -
  have "NOT x = - 1 - x" by (simp add: not_eq_complement)
  then have "unat (NOT x) = unat (- 1 :: u16) - unat x" by (simp add: unat_sub_le)
  moreover have "unat (- 1 :: u16) = 65535" by (simp add: unsigned_minus_1_eq_mask mask_eq_exp_minus_1)
  ultimately show ?thesis by (simp only:)
qed

lemma checksum_unat:
  assumes "length h = 20"
  defines "S \<equiv> unat (sum_shorts h)"
  shows "unat (ip_calculate_checksum h) = 65535 - (S mod 65536 + S div 65536) mod 65536"
proof -
  let ?s = "sum_shorts h"
  have m: "unat (?s AND 0xFFFF) = S mod 65536"
  proof -
    have "?s AND 0xFFFF = take_bit 16 ?s" by (simp add: take_bit_eq_mask mask_eq_exp_minus_1)
    then show ?thesis by (simp add: S_def take_bit_eq_mod unat_mod)
  qed
  have d: "unat (drop_bit 16 ?s) = S div 65536" by (simp add: S_def drop_bit_eq_div unat_div)
  have "S mod 65536 < 65536" "S div 65536 < 65536"
    using unat_lt_size32 [of ?s] by (simp_all add: S_def less_mult_imp_div_less)
  then have "unat ((?s AND 0xFFFF) + drop_bit 16 ?s) = S mod 65536 + S div 65536"
    using m d by (subst unat_add_small) simp_all
  then have "unat (ucast ((?s AND 0xFFFF) + drop_bit 16 ?s) :: u16) = (S mod 65536 + S div 65536) mod 65536"
    by (simp add: unsigned_ucast_eq unsigned_take_bit_eq take_bit_eq_mod)
  then show ?thesis by (simp add: ip_calculate_checksum_def Let_def unat_not16 assms(1))
qed

text \<open>C29: The checksum is right exactly when adding the carries gives no carry again: then a receiver's sum over
  the header is all ones.  The carries are added once only, so the other headers go out with a wrong checksum.\<close>

theorem ip_checksum_verifies:
  assumes "length dst = 4"
  shows "header_verifies (ip_header dst n) \<longleftrightarrow>
    (let S = unat (sum_shorts (ip_header_plain dst n)) in S mod 65536 + S div 65536 < 65536)"
proof -
  let ?h = "ip_header_plain dst n"
  define S where "S = unat (sum_shorts ?h)"
  define q r where "q = S div 65536" and "r = S mod 65536"
  have len: "length ?h = 20" using assms by (simp add: ip_header_plain_def short_bytes_def my_ip_def)
  have S: "S = q * 65536 + r" "r < 65536" "q \<le> 9"
    using sum_shorts_bound [of ?h] len by (simp_all add: S_def q_def r_def div_le_mono)
  have c: "unat (ip_calculate_checksum ?h) = 65535 - (r + q) mod 65536"
    using checksum_unat [OF len] by (simp add: q_def r_def S_def)
  have "unat (sum_shorts (ip_header dst n)) = S + unat (ip_calculate_checksum ?h)"
  proof -
    have "unat (ucast (ip_calculate_checksum ?h) :: u32) = unat (ip_calculate_checksum ?h)"
      using unat_lt_size16 [of "ip_calculate_checksum ?h"]
      by (simp add: unsigned_ucast_eq unsigned_take_bit_eq take_bit_nat_eq_self)
    moreover have "S + unat (ip_calculate_checksum ?h) < 2 ^ 32"
      using S unat_lt_size16 [of "ip_calculate_checksum ?h"] by simp
    ultimately show ?thesis
      unfolding ip_header_def Let_def sum_shorts_put [OF assms] S_def by (subst unat_add_small) simp_all
  qed
  then have s: "unat (sum_shorts (ip_header dst n)) = q * 65536 + r + (65535 - (r + q) mod 65536)" using S(1) c by simp
  have "header_verifies (ip_header dst n) \<longleftrightarrow> r + q < 65536"
  proof (cases "r + q < 65536")
    case True
    then have m: "(r + q) mod 65536 = r + q" by (rule mod_less)
    have "unat (sum_shorts (ip_header dst n)) = (q + 1) * 65535" unfolding s m add_mult_distrib using True by linarith
    then show ?thesis using True by (simp add: header_verifies_def fold_carries_all_ones del: add_mult_distrib)
  next
    case False
    have "r + q - 65536 < 65536" using S(2,3) by linarith
    then have m: "(r + q) mod 65536 = r + q - 65536" using False by (metis mod_if)
    have e: "unat (sum_shorts (ip_header dst n)) = (q + 2) * 65535 + 1" unfolding s m add_mult_distrib using False S(2,3) by linarith
    have "((q + 2) * 65535 + 1) mod 65535 = (1 :: nat)" unfolding mod_mult_self3 by simp
    then show ?thesis using False e by (simp add: header_verifies_def fold_carries_all_ones del: add_mult_distrib)
  qed
  then show ?thesis by (simp add: Let_def S_def q_def r_def)
qed

lemma ip_checksum_verifies_witness:
  "header_verifies (ip_header [10, 0, 2, 2] 30)"
  using ip_checksum_verifies [of "[10, 0, 2, 2]" 30]
  by (simp add: ip_header_plain_def short_bytes_def my_ip_def htons_def flip_short_def byte_at_def get_short_def
      htonb_def flip_byte_def IP_IPV4_def PROTOCOL_UDP_def)

text \<open>A header whose carries carry again: the sum is \<open>0x1FFFF\<close>.\<close>

lemma ip_checksum_wrong: "\<not> header_verifies (ip_header [0x6E, 0xC8, 0xFF, 0xF0] 20)"
  using ip_checksum_verifies [of "[0x6E, 0xC8, 0xFF, 0xF0]" 20]
  by (simp add: ip_header_plain_def short_bytes_def my_ip_def htons_def flip_short_def byte_at_def get_short_def
      htonb_def flip_byte_def IP_IPV4_def PROTOCOL_UDP_def)

section \<open>Address resolution, proved\<close>

text \<open>The table never holds more than its last entry: an address that was added is gone after the next one.\<close>

lemma arp_curr_stays: "n_arp_curr st = 0 \<Longrightarrow> n_arp_curr (arp_lookup_add mac ip st) = 0"
  by (simp add: arp_lookup_add_def)

lemma arp_lookup_last:
  assumes "n_arp_curr st = 0" and "n_arp_table st \<noteq> []"
  shows "arp_lookup ip (arp_lookup_add mac ip st) = Some mac"
  using assms by (cases "n_arp_table st") (simp_all add: arp_lookup_def arp_lookup_add_def)

lemma arp_only_last:
  assumes "n_arp_curr st = 0" and "n_arp_table st = e # replicate n \<lparr>ae_ip = replicate 4 0, ae_mac = zero_hardware_addr\<rparr>"
    and "ip1 \<noteq> ip2" and "ip1 \<noteq> replicate 4 0"
  shows "arp_lookup ip1 (arp_lookup_add mac2 ip2 (arp_lookup_add mac1 ip1 st)) = None"
proof -
  have "List.find (\<lambda>e. ae_ip e = ip1) (replicate n \<lparr>ae_ip = replicate 4 0, ae_mac = zero_hardware_addr\<rparr>) = None"
    using assms(4) by (simp add: find_None_iff)
  then show ?thesis using assms by (simp add: arp_lookup_def arp_lookup_add_def)
qed

text \<open>A request for the address of this host is stored, and not answered.\<close>

lemma arp_request_not_answered:
  assumes "length src_mac = 6" and "length src_ip = 4" and "length dst_mac = 6"
  shows "arp_handle_packet (arp_packet ARP_REQUEST src_mac src_ip dst_mac my_ip) st = Some (arp_lookup_add src_mac src_ip st)"
proof -
  have l: "length my_ip = 4" by (simp add: my_ip_def)
  have "get_short 6 (arp_packet ARP_REQUEST src_mac src_ip dst_mac my_ip) = htons ARP_REQUEST"
    using get_short_bytes [of "htons ARP_REQUEST"]
    by (simp add: arp_packet_def get_short_def short_bytes_def)
  then show ?thesis using assms l
    by (simp add: arp_handle_packet_def Let_def) (simp add: arp_packet_def short_bytes_def)
qed

end
