(* ===== verification/Socket.thy ===== *)
theory Socket
  imports Packet FdTable
begin

text \<open>
  \<open>net/socket.c\<close> and the receiving half of the network (\<open>net/udp.c\<close>, \<open>net/ip.c\<close>, \<open>net/ethernet.c\<close>): datagram
  sockets, the table of their ports, and the way of a frame from the card to the buffer of a socket.  \<open>None\<close> is a
  read past the end of a packet, an access through a null or dangling pointer, or a loop that does not end.
\<close>

section \<open>Sockets\<close>

definition AF_INET :: u32 where "AF_INET = 2"
definition SOCK_DGRAM :: u32 where "SOCK_DGRAM = 2"
definition SOCK_TYPE_MASK :: u32 where "SOCK_TYPE_MASK = 0xF"
definition DYN_PORT_MIN :: u32 where "DYN_PORT_MIN = 32768"
definition DYN_PORT_MAX :: u32 where "DYN_PORT_MAX = 61000"

record sockaddr_in =
  sin_family :: u16
  sin_port :: u16 \<comment> \<open>in network byte order\<close>
  sin_addr :: ip_addr

record udp_socket =
  us_host_addr :: ip_addr
  us_host_port :: u16
  us_remote_addr :: ip_addr
  us_remote_port :: u16
  us_recv_buf :: "u8 list option" \<comment> \<open>\<open>None\<close> is \<open>NULL\<close>\<close>
  us_buf_size :: u32
  us_task :: ptr

text \<open>
  The network, the descriptors of the current task, the sockets by address, the table of ports and the next port to
  try.  \<open>s_op\<close> is the address of \<open>udp_sock_op\<close>, \<open>s_vendor\<close> the \<open>vendor\<close> pointer of an open socket.
\<close>

record sockst =
  s_net :: netst
  s_fd :: fdst
  s_op :: ptr
  s_vendor :: "ptr \<rightharpoonup> ptr"
  s_socks :: "ptr \<rightharpoonup> udp_socket"
  s_table :: karray
  s_port_next :: u32

abbreviation set_sock :: "ptr \<Rightarrow> udp_socket \<Rightarrow> sockst \<Rightarrow> sockst" where
  "set_sock s k st \<equiv> st\<lparr>s_socks := (s_socks st)(s \<mapsto> k)\<rparr>"

definition on_net :: "(netst \<Rightarrow> netst option) \<Rightarrow> sockst \<Rightarrow> sockst option" where
  "on_net f st = do { n \<leftarrow> f (s_net st); Some (st\<lparr>s_net := n\<rparr>) }"

definition on_sched :: "(kst \<Rightarrow> kst option) \<Rightarrow> sockst \<Rightarrow> sockst option" where
  "on_sched f = on_net (\<lambda>n. do { k \<leftarrow> f (n_kst n); Some (n\<lparr>n_kst := k\<rparr>) })"

definition port_set :: "bool \<Rightarrow> u16 \<Rightarrow> ptr \<Rightarrow> sockst \<Rightarrow> sockst option" where
  "port_set ok port s st = do { (_, t) \<leftarrow> out (array_set ok (s_table st) (ucast port) s); Some (st\<lparr>s_table := t\<rparr>) }"

definition port_get :: "u16 \<Rightarrow> sockst \<Rightarrow> ptr option" where
  "port_get port st = out (array_get (s_table st) (ucast port))"

section \<open>Ports\<close>

definition allocate_port :: "u32 \<Rightarrow> u16 \<times> u32" where
  "allocate_port n = (ucast n, if n + 1 > DYN_PORT_MAX then DYN_PORT_MIN else n + 1)"

partial_function (option) udp_allocate_port :: "karray \<Rightarrow> u32 \<Rightarrow> (u16 \<times> u32) option" where
  "udp_allocate_port t n = do {
     let (port, n1) = allocate_port n;
     s \<leftarrow> out (array_get t (ucast port));
     if s \<noteq> 0 then udp_allocate_port t n1 else Some (port, n1) }"

section \<open>Reading and writing\<close>

definition new_udp_socket :: udp_socket where
  "new_udp_socket = \<lparr>us_host_addr = replicate 4 0, us_host_port = 0, us_remote_addr = replicate 4 0,
     us_remote_port = 0, us_recv_buf = None, us_buf_size = 0, us_task = 0\<rparr>"

text \<open>
  A read, from one call of \<open>schedule\<close> to the next: \<open>udp_read_enter\<close> is the code before the loop, \<open>udp_read_round\<close> its
  test and what follows when it ends.  What is left in the buffer moves to a new block.
\<close>

datatype udp_result = UdpWaits | UdpFails int | UdpBytes "u8 list"

definition set_state :: "task_state \<Rightarrow> kst \<Rightarrow> kst option" where
  "set_state s st = do { x \<leftarrow> current_task st; Some (set_task (k_current st) (x\<lparr>t_state := s\<rparr>) st) }"

definition udp_read_enter :: "ptr \<Rightarrow> sockst \<Rightarrow> (bool \<times> sockst) option" where
  "udp_read_enter s st = do {
     k \<leftarrow> s_socks st s;
     if us_task k \<noteq> 0 then Some (False, st)
     else do {
       st1 \<leftarrow> on_sched (set_state TASK_INTERRUPTIBLE) (set_sock s (k\<lparr>us_task := k_current (n_kst (s_net st))\<rparr>) st);
       Some (True, st1) } }"

definition udp_take :: "ptr \<Rightarrow> udp_socket \<Rightarrow> u32 \<Rightarrow> sockst \<Rightarrow> (u8 list \<times> sockst) option" where
  "udp_take s k nbytes st = do {
     let n = min nbytes (us_buf_size k);
     buf \<leftarrow> us_recv_buf k;
     let left = us_buf_size k - n;
     st1 \<leftarrow> (if left \<noteq> 0 then on_net net_kmalloc st else Some st);
     Some (take (unat n) buf, set_sock s
       (k\<lparr>us_buf_size := left, us_recv_buf := (if left \<noteq> 0 then Some (drop (unat n) buf) else None)\<rparr>) st1) }"

definition udp_read_round :: "ptr \<Rightarrow> u32 \<Rightarrow> sockst \<Rightarrow> (udp_result \<times> sockst) option" where
  "udp_read_round s nbytes st = do {
     k \<leftarrow> s_socks st s;
     x \<leftarrow> current_task (n_kst (s_net st));
     let sig = signal_pending (t_sigpending x);
     if us_recv_buf k = None \<and> sig = 0 then do { st1 \<leftarrow> on_sched schedule st; Some (UdpWaits, st1) }
     else do {
       let k1 = k\<lparr>us_task := 0\<rparr>;
       st1 \<leftarrow> on_sched (set_state TASK_RUNNING) (set_sock s k1 st);
       if sig \<noteq> 0 then Some (UdpFails (- EINTR), st1)
       else do { (bs, st2) \<leftarrow> udp_take s k1 nbytes st1; Some (UdpBytes bs, st2) } } }"

text \<open>A write makes the packet, which \<open>ip_send_round\<close> sends; the answer is the number of bytes in any case.\<close>

definition udp_write :: "ptr \<Rightarrow> u8 list \<Rightarrow> sockst \<Rightarrow> (u8 list \<times> sockst) option" where
  "udp_write s buf st = do {
     k \<leftarrow> s_socks st s;
     (p, n) \<leftarrow> udp_send_packet (us_remote_addr k) (us_host_port k) (us_remote_port k) buf (s_net st);
     Some (p, st\<lparr>s_net := n\<rparr>) }"

text \<open>The new socket of \<open>udp_open\<close> is at \<open>s\<close>; \<open>kcalloc\<close> does not look at the result of \<open>kmalloc\<close>.\<close>

definition udp_open :: "ptr \<Rightarrow> ptr \<Rightarrow> sockst \<Rightarrow> sockst option" where
  "udp_open f s st = do {
     st1 \<leftarrow> on_net net_kmalloc st;
     Some (set_sock s new_udp_socket st1\<lparr>s_vendor := (s_vendor st1)(f \<mapsto> s)\<rparr>) }"

definition udp_release :: "ptr \<Rightarrow> sockst \<Rightarrow> sockst option" where
  "udp_release f st = do {
     s \<leftarrow> s_vendor st f;
     k \<leftarrow> s_socks st s;
     st1 \<leftarrow> (if us_host_port k \<noteq> 0 then port_set True (us_host_port k) 0 st else Some st);
     Some (st1\<lparr>s_socks := (s_socks st1)(s := None)\<rparr>) }"

definition udp_poll_cb :: "ptr \<Rightarrow> udp_socket \<Rightarrow> udp_socket" where
  "udp_poll_cb cur k = (if us_task k = cur then k\<lparr>us_task := 0\<rparr> else k)"

definition udp_poll :: "ptr \<Rightarrow> u16 \<Rightarrow> u16 \<Rightarrow> udp_socket \<Rightarrow> u16 \<times> bool \<times> udp_socket" where
  "udp_poll cur events revents k =
     (let r1 = (if events AND POLLOUT \<noteq> 0 then revents OR POLLOUT else revents) in
      if events AND POLLIN = 0 then (r1, False, k)
      else (let k1 = (if us_task k = 0 then k\<lparr>us_task := cur\<rparr> else k) in
        (if us_task k1 = cur \<and> us_recv_buf k1 \<noteq> None then r1 OR POLLIN else r1, True, k1)))"

section \<open>Receiving\<close>

text \<open>The new bytes go behind those that wait, and the reader is woken.\<close>

definition receive_into :: "udp_socket \<Rightarrow> u8 list \<Rightarrow> u32 \<Rightarrow> udp_socket option" where
  "receive_into k data nbytes = do {
     old \<leftarrow> (if us_buf_size k \<noteq> 0 then us_recv_buf k else Some []);
     if unat nbytes > length data then None
     else Some (k\<lparr>us_recv_buf := Some (old @ take (unat nbytes) data), us_buf_size := us_buf_size k + nbytes\<rparr>) }"

definition udp_receive :: "u16 \<Rightarrow> u8 list \<Rightarrow> u32 \<Rightarrow> sockst \<Rightarrow> sockst option" where
  "udp_receive dst_port data nbytes st = do {
     s \<leftarrow> port_get dst_port st;
     if s = 0 then Some st
     else do {
       k \<leftarrow> s_socks st s;
       st1 \<leftarrow> on_net net_kmalloc st;
       k1 \<leftarrow> receive_into k data nbytes;
       if us_task k1 \<noteq> 0 then on_sched (wake_up_process (us_task k1)) (set_sock s k1 st1)
       else Some (set_sock s k1 st1) } }"

definition udp_handle_packet :: "u8 list \<Rightarrow> sockst \<Rightarrow> sockst option" where
  "udp_handle_packet p st =
     (if length p < 8 then None
      else udp_receive (ntohs (get_short 2 p)) (drop 8 p) (ucast (ntohs (get_short 4 p)) - 8) st)"

text \<open>The version is the high half of the first byte on the wire; the data are taken to begin at byte 20.\<close>

definition ip_handle_packet :: "u8 list \<Rightarrow> sockst \<Rightarrow> sockst option" where
  "ip_handle_packet p st =
     (if length p < 20 then None
      else if ntohb (p ! 0) 4 AND 0xF = IP_IPV4 \<and> p ! 9 = PROTOCOL_UDP then udp_handle_packet (drop 20 p) st
      else Some st)"

definition ethernet_handle_packet :: "u8 list \<Rightarrow> sockst \<Rightarrow> sockst option" where
  "ethernet_handle_packet frame st =
     (if length frame < 14 then None
      else (let ty = ntohs (get_short 12 frame) in
        do {
          st1 \<leftarrow> (if ty = ETHERNET_TYPE_ARP then on_net (arp_handle_packet (drop 14 frame)) st else Some st);
          if ty = ETHERNET_TYPE_IP then ip_handle_packet (drop 14 frame) st1 else Some st1 }))"

section \<open>System calls\<close>

definition sys_socket :: "bool \<Rightarrow> ptr \<Rightarrow> ptr \<Rightarrow> ptr \<Rightarrow> u32 \<Rightarrow> u32 \<Rightarrow> u32 \<Rightarrow> sockst \<Rightarrow> (int \<times> sockst) option" where
  "sys_socket ok i f s domain type protocol st =
     (if domain \<noteq> AF_INET then Some (- EINVAL, st)
      else if type AND SOCK_TYPE_MASK \<noteq> SOCK_DGRAM then Some (- EINVAL, st)
      else do {
        (r, fd1) \<leftarrow> on_fs (filp_open_dummy (s_op st) 0 0 0 O_RDWR 0xC1C0 i f) (s_fd st);
        (case r of
          Inl e \<Rightarrow> Some (e, st\<lparr>s_fd := fd1\<rparr>)
        | Inr g \<Rightarrow> do {
            st1 \<leftarrow> udp_open g s (st\<lparr>s_fd := fd1\<rparr>);
            (n, fd2) \<leftarrow> fd_install ok 0 g fd1;
            fd3 \<leftarrow> cloexec_set ok n (type AND O_CLOEXEC) fd2;
            Some (s32 n, st1\<lparr>s_fd := fd3\<rparr>) }) })"

text \<open>\<open>ok\<close> says whether a table that has to grow can.\<close>

text \<open>The checks \<open>bind\<close> and \<open>connect\<close> share: the socket, or the error.  \<open>addr\<close> is \<open>None\<close> for an unsafe pointer.\<close>

definition sock_lookup :: "u32 \<Rightarrow> sockaddr_in option \<Rightarrow> u32 \<Rightarrow> sockst \<Rightarrow> (int + ptr \<times> sockaddr_in) option" where
  "sock_lookup fd addr addrlen st = do {
     f \<leftarrow> fd_get fd (s_fd st);
     if f = 0 then Some (Inl (- EBADF))
     else do {
       fl \<leftarrow> fs_files (fd_fs (s_fd st)) f;
       if f_op fl \<noteq> s_op st then Some (Inl (- ENOTSOCK))
       else if addrlen < 8 then Some (Inl (- EINVAL))
       else (case addr of
           None \<Rightarrow> Some (Inl (- EFAULT))
         | Some a \<Rightarrow>
             if sin_family a \<noteq> 2 then Some (Inl (- EINVAL))
             else do { s \<leftarrow> s_vendor st f; Some (Inr (s, a)) }) } }"

text \<open>The port asked for, the one the socket has, or a free one.\<close>

definition choose_port :: "sockaddr_in \<Rightarrow> udp_socket \<Rightarrow> sockst \<Rightarrow> (u16 \<times> u32) option" where
  "choose_port a k st =
     (if ntohs (sin_port a) \<noteq> 0 then Some (ntohs (sin_port a), s_port_next st)
      else if us_host_port k \<noteq> 0 then Some (us_host_port k, s_port_next st)
      else udp_allocate_port (s_table st) (s_port_next st))"

definition bind_socket :: "bool \<Rightarrow> ptr \<Rightarrow> sockaddr_in \<Rightarrow> sockst \<Rightarrow> sockst option" where
  "bind_socket ok s a st = do {
     k0 \<leftarrow> s_socks st s;
     let k = k0\<lparr>us_host_addr := sin_addr a\<rparr>;
     let st0 = set_sock s k st;
     (port, n) \<leftarrow> choose_port a k st;
     let st1 = st0\<lparr>s_port_next := n\<rparr>;
     if port \<noteq> us_host_port k then do {
       st2 \<leftarrow> port_set True (us_host_port k) 0 st1;
       port_set ok port s (set_sock s (k\<lparr>us_host_port := port\<rparr>) st2) }
     else Some st1 }"

definition sys_bind :: "bool \<Rightarrow> u32 \<Rightarrow> sockaddr_in option \<Rightarrow> u32 \<Rightarrow> sockst \<Rightarrow> (int \<times> sockst) option" where
  "sys_bind ok fd addr addrlen st = do {
     r \<leftarrow> sock_lookup fd addr addrlen st;
     (case r of
       Inl e \<Rightarrow> Some (e, st)
     | Inr (s, a) \<Rightarrow> do { st1 \<leftarrow> bind_socket ok s a st; Some (0, st1) }) }"

definition connect_socket :: "ptr \<Rightarrow> sockaddr_in \<Rightarrow> sockst \<Rightarrow> sockst option" where
  "connect_socket s a st = do {
     k \<leftarrow> s_socks st s;
     Some (set_sock s (k\<lparr>us_remote_addr := sin_addr a, us_remote_port := ntohs (sin_port a)\<rparr>) st) }"

definition sys_connect :: "u32 \<Rightarrow> sockaddr_in option \<Rightarrow> u32 \<Rightarrow> sockst \<Rightarrow> (int \<times> sockst) option" where
  "sys_connect fd addr addrlen st = do {
     r \<leftarrow> sock_lookup fd addr addrlen st;
     (case r of
       Inl e \<Rightarrow> Some (e, st)
     | Inr (s, a) \<Rightarrow> do { st1 \<leftarrow> connect_socket s a st; Some (0, st1) }) }"

section \<open>The table of ports\<close>

text \<open>Every entry of the table is a live socket, and that socket has the port.  Port 0 is never in the table.\<close>

definition ports_ok :: "sockst \<Rightarrow> bool" where
  "ports_ok st \<longleftrightarrow> wf_array (s_table st) \<and> 32768 \<le> unat (s_port_next st) \<and> unat (s_port_next st) \<le> 61000 \<and>
     (\<forall>i s. array_abs (s_table st) i = s \<longrightarrow> s \<noteq> 0 \<longrightarrow>
       (\<exists>k. s_socks st s = Some k \<and> us_host_port k \<noteq> 0 \<and> ucast (us_host_port k) = i))"

lemma ports_ok_live:
  assumes "ports_ok st" and "array_abs (s_table st) i = q" and "q \<noteq> 0"
  shows "\<exists>k. s_socks st q = Some k \<and> us_host_port k \<noteq> 0 \<and> ucast (us_host_port k) = i"
  using assms unfolding ports_ok_def by blast

lemma ports_okI:
  assumes "wf_array (s_table st)" and "32768 \<le> unat (s_port_next st)" and "unat (s_port_next st) \<le> 61000"
    and "\<And>i q. array_abs (s_table st) i = q \<Longrightarrow> q \<noteq> 0 \<Longrightarrow>
      \<exists>k. s_socks st q = Some k \<and> us_host_port k \<noteq> 0 \<and> ucast (us_host_port k) = i"
  shows "ports_ok st"
  using assms unfolding ports_ok_def by blast

lemma ports_ok_props:
  assumes "ports_ok st"
  shows "wf_array (s_table st)" and "32768 \<le> unat (s_port_next st)" and "unat (s_port_next st) \<le> 61000"
  using assms by (simp_all add: ports_ok_def)

lemma unat_ucast16: "unat (ucast (p :: u16) :: u32) = unat p"
  using unat_lt_size16 [of p] by (simp add: unsigned_ucast_eq unsigned_take_bit_eq take_bit_nat_eq_self)

lemma port_index_small: "unat (ucast (p :: u16) :: u32) < 2 ^ 29"
  using unat_lt_size16 [of p] by (simp add: unat_ucast16)

lemma port_index_inj: "(ucast (p :: u16) :: u32) = ucast q \<longleftrightarrow> p = q"
  by (metis unat_ucast16 word_unat_eq_iff)


lemma port_set_ok:
  assumes "wf_array (s_table st)"
  shows "\<exists>t. port_set True p s st = Some (st\<lparr>s_table := t\<rparr>) \<and> wf_array t \<and>
    array_abs t = (array_abs (s_table st))(ucast p := s)"
  using arr.set_law [OF assms port_index_small, of p s] by (auto simp: port_set_def)

definition port_distance :: "nat \<Rightarrow> nat \<Rightarrow> nat" where
  "port_distance goal n = (if n \<le> goal then goal - n else 61000 - n + 1 + (goal - 32768))"

lemma allocate_port_steps:
  assumes n: "32768 \<le> unat n" "unat n \<le> 61000" and goal: "32768 \<le> goal" "goal \<le> 61000" and "unat n \<noteq> goal"
  shows "port_distance goal (unat (snd (allocate_port n))) < port_distance goal (unat n)"
    and "32768 \<le> unat (snd (allocate_port n))" and "unat (snd (allocate_port n)) \<le> 61000"
proof -
  have suc: "unat (n + 1) = unat n + 1" using n unat_suc_small [of n] by simp
  have s: "unat (snd (allocate_port n)) = (if unat n = 61000 then 32768 else unat n + 1)"
    using n suc by (simp add: allocate_port_def DYN_PORT_MIN_def DYN_PORT_MAX_def word_less_nat_alt)
  show "32768 \<le> unat (snd (allocate_port n))" "unat (snd (allocate_port n)) \<le> 61000" using s n by auto
  show "port_distance goal (unat (snd (allocate_port n))) < port_distance goal (unat n)"
    unfolding s using assms by (auto simp: port_distance_def)
qed

lemma allocate_port_range:
  assumes "32768 \<le> unat n" and "unat n \<le> 61000"
  shows "unat (fst (allocate_port n)) = unat n" and "32768 \<le> unat (snd (allocate_port n))"
    and "unat (snd (allocate_port n)) \<le> 61000"
proof -
  have suc: "unat (n + 1) = unat n + 1" using assms unat_suc_small [of n] by simp
  show "unat (fst (allocate_port n)) = unat n"
    using assms by (simp add: allocate_port_def unsigned_ucast_eq unsigned_take_bit_eq take_bit_nat_eq_self)
  show "32768 \<le> unat (snd (allocate_port n))" "unat (snd (allocate_port n)) \<le> 61000"
    using assms suc by (auto simp: allocate_port_def DYN_PORT_MIN_def DYN_PORT_MAX_def word_less_nat_alt)
qed

text \<open>The search for a port ends with a free one of the dynamic range as long as there is one.\<close>

theorem udp_allocate_port_fresh:
  assumes "wf_array t" and "32768 \<le> unat n" and "unat n \<le> 61000"
    and "32768 \<le> unat goal" and "unat goal \<le> 61000" and "array_abs t (ucast (goal :: u16)) = 0"
  shows "\<exists>port n1. udp_allocate_port t n = Some (port, n1) \<and> array_abs t (ucast port) = 0 \<and>
    32768 \<le> unat port \<and> unat port \<le> 61000 \<and> 32768 \<le> unat n1 \<and> unat n1 \<le> 61000"
  using assms(2,3)
proof (induction "port_distance (unat goal) (unat n)" arbitrary: n rule: less_induct)
  case less
  obtain port n1 where a: "allocate_port n = (port, n1)" by (cases "allocate_port n")
  note r = allocate_port_range [OF less.prems, unfolded a fst_conv snd_conv]
  show ?case
  proof (cases "array_abs t (ucast port) = 0")
    case True
    then show ?thesis using r less.prems
      by (subst udp_allocate_port.simps) (simp add: a arr.get_law [OF assms(1)])
  next
    case False
    then have "port \<noteq> goal" using assms(6) by auto
    then have "unat n \<noteq> unat goal" using r(1) by (metis word_unat_eq_iff)
    from allocate_port_steps(1) [OF less.prems assms(4,5) this]
    have "port_distance (unat goal) (unat n1) < port_distance (unat goal) (unat n)" by (simp add: a)
    from less.hyps [OF this r(2,3)] False show ?thesis
      by (subst udp_allocate_port.simps) (simp add: a arr.get_law [OF assms(1)])
  qed
qed

lemma udp_allocate_port_fresh_witness:
  "\<exists>port n1. udp_allocate_port empty_array 32768 = Some (port, n1) \<and> 32768 \<le> unat port"
  using udp_allocate_port_fresh [OF wf_empty_array, of 32768 40000] by auto

section \<open>Binding keeps the table\<close>

lemma bind_port:
  assumes "ports_ok st" and "s_socks st s = Some k" and "\<exists>p. 32768 \<le> unat p \<and> unat p \<le> 61000 \<and> array_abs (s_table st) (ucast (p :: u16)) = 0"
  obtains port n where "choose_port a k st = Some (port, n)"
    and "port \<noteq> 0" and "32768 \<le> unat n" and "unat n \<le> 61000"
proof -
  have n: "32768 \<le> unat (s_port_next st)" "unat (s_port_next st) \<le> 61000" "wf_array (s_table st)"
    using assms(1) by (simp_all add: ports_ok_def)
  from assms(3) obtain goal :: u16 where g: "32768 \<le> unat goal" "unat goal \<le> 61000" "array_abs (s_table st) (ucast goal) = 0" by blast
  from udp_allocate_port_fresh [OF n(3,1,2) g] obtain port n1 where
    "udp_allocate_port (s_table st) (s_port_next st) = Some (port, n1)" "32768 \<le> unat port" "32768 \<le> unat n1" "unat n1 \<le> 61000"
    by blast
  moreover from this have "port \<noteq> 0" by auto
  ultimately show thesis using n that unfolding choose_port_def by (cases "ntohs (sin_port a) \<noteq> 0"; cases "us_host_port k \<noteq> 0") auto
qed

lemma bind_socket_ok:
  assumes "ports_ok st" and "s_socks st s = Some k" and "s \<noteq> 0"
    and "\<exists>p. 32768 \<le> unat p \<and> unat p \<le> 61000 \<and> array_abs (s_table st) (ucast (p :: u16)) = 0"
  shows "\<exists>st1. bind_socket True s a st = Some st1 \<and> ports_ok st1"
proof -
  from bind_port [OF assms(1,2,4), of a] obtain port n where p: "choose_port a k st = Some (port, n)" "port \<noteq> 0" "32768 \<le> unat n" "unat n \<le> 61000" .
  define k1 where "k1 = k\<lparr>us_host_addr := sin_addr a\<rparr>"
  have "choose_port a k1 st = choose_port a k st" by (simp add: choose_port_def k1_def)
  with p(1) have ch: "choose_port a k1 st = Some (port, n)" by simp
  have k1: "us_host_port k1 = us_host_port k" by (simp add: k1_def)
  have live: "\<exists>k'. s_socks st q = Some k' \<and> us_host_port k' \<noteq> 0 \<and> ucast (us_host_port k') = i"
    if "array_abs (s_table st) i = q" "q \<noteq> 0" for i q
    using ports_ok_live [OF assms(1) that] .
  have wf: "wf_array (s_table st)" using assms(1) by (simp add: ports_ok_def)
  show ?thesis
  proof (cases "port = us_host_port k")
    case True
    have "bind_socket True s a st = Some (set_sock s k1 st\<lparr>s_port_next := n\<rparr>)"
      using ch assms(2) True by (simp add: bind_socket_def Let_def k1 flip: k1_def)
    moreover have "ports_ok (set_sock s k1 st\<lparr>s_port_next := n\<rparr>)"
      using live wf p(3,4) assms(2) k1 by (intro ports_okI) (simp_all, metis option.inject)
    ultimately show ?thesis by blast
  next
    case False
    define st1 where "st1 = set_sock s k1 st\<lparr>s_port_next := n\<rparr>"
    have "wf_array (s_table st1)" using wf by (simp add: st1_def)
    from port_set_ok [OF this, of "us_host_port k" 0] obtain t where
      t: "port_set True (us_host_port k) 0 st1 = Some (st1\<lparr>s_table := t\<rparr>)" "wf_array t"
        "array_abs t = (array_abs (s_table st))(ucast (us_host_port k) := 0)" by (auto simp: st1_def)
    define st2 where "st2 = set_sock s (k1\<lparr>us_host_port := port\<rparr>) (st1\<lparr>s_table := t\<rparr>)"
    have "wf_array (s_table st2)" using t(2) by (simp add: st2_def)
    from port_set_ok [OF this, of port s] obtain u where
      u: "port_set True port s st2 = Some (st2\<lparr>s_table := u\<rparr>)" "wf_array u"
        "array_abs u = (array_abs t)(ucast port := s)" by (auto simp: st2_def)
    have "bind_socket True s a st = Some (st2\<lparr>s_table := u\<rparr>)"
      using ch assms(2) False t(1) u(1) by (simp add: bind_socket_def Let_def k1 st1_def st2_def flip: k1_def)
    moreover have "ports_ok (st2\<lparr>s_table := u\<rparr>)"
    proof (rule ports_okI)
      fix i q
      assume e: "array_abs (s_table (st2\<lparr>s_table := u\<rparr>)) i = q" "q \<noteq> 0"
      then have eu: "array_abs u i = q" by simp
      show "\<exists>k. s_socks (st2\<lparr>s_table := u\<rparr>) q = Some k \<and> us_host_port k \<noteq> 0 \<and> ucast (us_host_port k) = i"
      proof (cases "i = ucast port")
        case True
        then have "q = s" using eu u(3) by simp
        then show ?thesis using True p(2) by (simp add: st2_def)
      next
        case F: False
        then have q: "array_abs (s_table st) i = q" "i \<noteq> ucast (us_host_port k)"
          using eu e(2) u(3) t(3) by (auto split: if_splits)
        from live [OF q(1) e(2)] obtain k' where k': "s_socks st q = Some k'" "us_host_port k' \<noteq> 0" "ucast (us_host_port k') = i" by blast
        then have "q \<noteq> s" using assms(2) q(2) by auto
        then show ?thesis using k' by (simp add: st2_def st1_def)
      qed
    qed (use u(2) p(3,4) in \<open>simp_all add: st2_def st1_def\<close>)
    ultimately show ?thesis by blast
  qed
qed

lemma udp_release_ok:
  assumes "ports_ok st" and "s_vendor st f = Some s" and "s_socks st s = Some k"
  shows "\<exists>st1. udp_release f st = Some st1 \<and> ports_ok st1 \<and> s_socks st1 s = None"
proof -
  have live: "\<exists>k'. s_socks st q = Some k' \<and> us_host_port k' \<noteq> 0 \<and> ucast (us_host_port k') = i"
    if "array_abs (s_table st) i = q" "q \<noteq> 0" for i q
    using ports_ok_live [OF assms(1) that] .
  have wf: "wf_array (s_table st)" using assms(1) by (simp add: ports_ok_def)
  show ?thesis
  proof (cases "us_host_port k = 0")
    case True
    then have "\<exists>k'. s_socks st q = Some k' \<and> us_host_port k' \<noteq> 0 \<and> ucast (us_host_port k') = i \<and> q \<noteq> s"
      if "array_abs (s_table st) i = q" "q \<noteq> 0" for i q
      using live [OF that] assms(3) by auto
    then have "ports_ok (st\<lparr>s_socks := (s_socks st)(s := None)\<rparr>)"
      using ports_ok_props [OF assms(1)] by (intro ports_okI) auto
    then show ?thesis using True assms by (simp add: udp_release_def)
  next
    case False
    from port_set_ok [OF wf, of "us_host_port k" 0] obtain t where
      t: "port_set True (us_host_port k) 0 st = Some (st\<lparr>s_table := t\<rparr>)" "wf_array t"
        "array_abs t = (array_abs (s_table st))(ucast (us_host_port k) := 0)" by blast
    have "\<exists>k'. s_socks st q = Some k' \<and> us_host_port k' \<noteq> 0 \<and> ucast (us_host_port k') = i \<and> q \<noteq> s"
      if e: "array_abs t i = q" "q \<noteq> 0" for i q
    proof -
      have q: "array_abs (s_table st) i = q" "i \<noteq> ucast (us_host_port k)"
        using e t(3) by (auto split: if_splits)
      from live [OF q(1) e(2)] show ?thesis using assms(3) q(2) by auto
    qed
    then have "ports_ok (st\<lparr>s_table := t, s_socks := (s_socks st)(s := None)\<rparr>)"
      using ports_ok_props [OF assms(1)] t(2) by (intro ports_okI) auto
    then show ?thesis using False assms t(1) by (simp add: udp_release_def)
  qed
qed

section \<open>Receiving keeps the table\<close>

lemma on_net_frame:
  "on_net f st = Some st1 \<Longrightarrow> s_socks st1 = s_socks st \<and> s_table st1 = s_table st \<and> s_port_next st1 = s_port_next st \<and>
    s_vendor st1 = s_vendor st \<and> s_fd st1 = s_fd st"
  by (auto simp: on_net_def bind_eq_Some_conv)

lemma ports_ok_same:
  assumes "ports_ok st" and "s_table st1 = s_table st" and "s_port_next st1 = s_port_next st"
    and "\<And>q k. s_socks st q = Some k \<Longrightarrow> \<exists>k1. s_socks st1 q = Some k1 \<and> us_host_port k1 = us_host_port k"
  shows "ports_ok st1"
proof (rule ports_okI)
  fix i q
  assume "array_abs (s_table st1) i = q" and "q \<noteq> 0"
  from ports_ok_live [OF assms(1) this [unfolded assms(2)]] assms(4) [of q]
  show "\<exists>k. s_socks st1 q = Some k \<and> us_host_port k \<noteq> 0 \<and> ucast (us_host_port k) = i" by force
qed (use ports_ok_props [OF assms(1)] assms(2,3) in simp_all)

lemma ports_ok_set_sock:
  assumes "ports_ok st" and "s_socks st s = Some k" and "us_host_port k1 = us_host_port k"
  shows "ports_ok (set_sock s k1 st)"
  using assms by (intro ports_ok_same [OF assms(1)]) auto

lemma on_net_ok: "on_net f st = Some st1 \<Longrightarrow> ports_ok st \<Longrightarrow> ports_ok st1"
  by (rule ports_ok_same, assumption) (drule on_net_frame, simp)+

lemma on_sched_ok: "on_sched f st = Some st1 \<Longrightarrow> ports_ok st \<Longrightarrow> ports_ok st1"
  unfolding on_sched_def by (rule on_net_ok)

lemma receive_into_keeps:
  assumes "receive_into k data n = Some k1"
  shows "us_host_port k1 = us_host_port k" and "us_task k1 = us_task k"
  using assms by (auto simp: receive_into_def bind_eq_Some_conv split: if_splits)

lemma udp_receive_ok:
  assumes "udp_receive port data n st = Some st1" and "ports_ok st"
  shows "ports_ok st1"
proof -
  from assms(1) obtain s where s: "port_get port st = Some s" by (auto simp: udp_receive_def bind_eq_Some_conv)
  show ?thesis
  proof (cases "s = 0")
    case True
    then show ?thesis using assms s by (simp add: udp_receive_def)
  next
    case False
    with assms(1) s obtain k st0 k1 where k: "s_socks st s = Some k" "on_net net_kmalloc st = Some st0"
        "receive_into k data n = Some k1" and
      r: "(if us_task k1 \<noteq> 0 then on_sched (wake_up_process (us_task k1)) (set_sock s k1 st0) else Some (set_sock s k1 st0)) = Some st1"
      by (auto simp: udp_receive_def bind_eq_Some_conv)
    have "s_socks st0 s = Some k" using on_net_frame [OF k(2)] k(1) by simp
    from ports_ok_set_sock [OF on_net_ok [OF k(2) assms(2)] this receive_into_keeps(1) [OF k(3)]]
    have "ports_ok (set_sock s k1 st0)" .
    then show ?thesis using r on_sched_ok by (cases "us_task k1 \<noteq> 0") auto
  qed
qed

lemma ip_handle_packet_ok: "ip_handle_packet p st = Some st1 \<Longrightarrow> ports_ok st \<Longrightarrow> ports_ok st1"
  by (auto simp: ip_handle_packet_def udp_handle_packet_def split: if_splits intro: udp_receive_ok)

lemma ethernet_handle_packet_ok:
  assumes "ethernet_handle_packet frame st = Some st1" and "ports_ok st"
  shows "ports_ok st1"
proof -
  from assms(1) obtain st0 where
    "(if ntohs (get_short 12 frame) = ETHERNET_TYPE_ARP then on_net (arp_handle_packet (drop 14 frame)) st else Some st) = Some st0"
    "(if ntohs (get_short 12 frame) = ETHERNET_TYPE_IP then ip_handle_packet (drop 14 frame) st0 else Some st0) = Some st1"
    by (auto simp: ethernet_handle_packet_def Let_def bind_eq_Some_conv split: if_splits)
  with assms(2) on_net_ok ip_handle_packet_ok show ?thesis by (auto split: if_splits)
qed

lemma udp_read_round_ok:
  assumes "udp_read_round s n st = Some (r, st1)" and "ports_ok st"
  shows "ports_ok st1"
proof -
  from assms(1) obtain k x where k: "s_socks st s = Some k" "current_task (n_kst (s_net st)) = Some x"
    by (auto simp: udp_read_round_def bind_eq_Some_conv)
  show ?thesis
  proof (cases "us_recv_buf k = None \<and> signal_pending (t_sigpending x) = 0")
    case True
    then have "on_sched schedule st = Some st1"
      using assms(1) k by (auto simp: udp_read_round_def bind_eq_Some_conv)
    then show ?thesis using on_sched_ok assms(2) by blast
  next
    case False
    have "\<exists>st0. on_sched (set_state TASK_RUNNING) (set_sock s (k\<lparr>us_task := 0\<rparr>) st) = Some st0 \<and>
      (if signal_pending (t_sigpending x) \<noteq> 0 then Some (UdpFails (- EINTR), st0)
       else do { (bs, st2) \<leftarrow> udp_take s (k\<lparr>us_task := 0\<rparr>) n st0; Some (UdpBytes bs, st2) }) = Some (r, st1)"
      using assms(1) k False by (cases "us_recv_buf k") (auto simp: udp_read_round_def Let_def bind_eq_Some_conv)
    then obtain st0 where st0: "on_sched (set_state TASK_RUNNING) (set_sock s (k\<lparr>us_task := 0\<rparr>) st) = Some st0"
      and r: "(if signal_pending (t_sigpending x) \<noteq> 0 then Some (UdpFails (- EINTR), st0)
       else do { (bs, st2) \<leftarrow> udp_take s (k\<lparr>us_task := 0\<rparr>) n st0; Some (UdpBytes bs, st2) }) = Some (r, st1)" by blast
    have ok0: "ports_ok st0" using on_sched_ok [OF st0] ports_ok_set_sock [OF assms(2) k(1)] by simp
    have k0: "s_socks st0 s = Some (k\<lparr>us_task := 0\<rparr>)"
      using on_net_frame [OF st0 [unfolded on_sched_def]] by simp
    show ?thesis
    proof (cases "signal_pending (t_sigpending x) \<noteq> 0")
      case True
      with r ok0 show ?thesis by simp
    next
      case False
      with r obtain bs where "udp_take s (k\<lparr>us_task := 0\<rparr>) n st0 = Some (bs, st1)"
        by (auto simp: bind_eq_Some_conv)
      then obtain st2 k2 where "(if us_buf_size k - min n (us_buf_size k) \<noteq> 0 then on_net net_kmalloc st0 else Some st0) = Some st2"
        "st1 = set_sock s k2 st2" "us_host_port k2 = us_host_port k"
        by (auto simp: udp_take_def Let_def bind_eq_Some_conv split: if_splits)
      moreover from this(1) have "ports_ok st2 \<and> s_socks st2 s = Some (k\<lparr>us_task := 0\<rparr>)"
        using ok0 k0 on_net_ok on_net_frame by (auto split: if_splits)
      ultimately show ?thesis using ports_ok_set_sock [of st2 s "k\<lparr>us_task := 0\<rparr>" k2] by simp
    qed
  qed
qed

text \<open>C31: The table of ports never holds a dangling pointer, and a socket is found only under its own port: whatever
  frames arrive, and whatever sockets are read, bound and closed.\<close>

theorem ports_stay_ok:
  assumes "ports_ok st"
  shows "(\<forall>frame st1. ethernet_handle_packet frame st = Some st1 \<longrightarrow> ports_ok st1) \<and>
    (\<forall>s n r st1. udp_read_round s n st = Some (r, st1) \<longrightarrow> ports_ok st1) \<and>
    (\<forall>f s k. s_vendor st f = Some s \<longrightarrow> s_socks st s = Some k \<longrightarrow>
      (\<exists>st1. udp_release f st = Some st1 \<and> ports_ok st1 \<and> s_socks st1 s = None)) \<and>
    (\<forall>s k a. s \<noteq> 0 \<longrightarrow> s_socks st s = Some k \<longrightarrow> (\<exists>p. 32768 \<le> unat p \<and> unat p \<le> 61000 \<and> array_abs (s_table st) (ucast (p :: u16)) = 0) \<longrightarrow>
      (\<exists>st1. bind_socket True s a st = Some st1 \<and> ports_ok st1))"
  using ethernet_handle_packet_ok [OF _ assms] udp_read_round_ok [OF _ assms] udp_release_ok [OF assms]
    bind_socket_ok [OF assms] by blast

section \<open>From a sender to a receiver\<close>

definition waiting :: "udp_socket \<Rightarrow> u8 list" where
  "waiting k = (case us_recv_buf k of None \<Rightarrow> [] | Some b \<Rightarrow> b)"

definition sock_ok :: "udp_socket \<Rightarrow> bool" where
  "sock_ok k \<longleftrightarrow> unat (us_buf_size k) = length (waiting k)"


lemma net_kmalloc_ok: "k_answers (n_kst n) = [] \<Longrightarrow> net_kmalloc n = Some n"
  by (simp add: net_kmalloc_def k_kmalloc_def)





lemma on_net_kmalloc_ok: "k_answers (n_kst (s_net st)) = [] \<Longrightarrow> on_net net_kmalloc st = Some st"
  by (simp add: on_net_def net_kmalloc_ok)



definition sample_net :: netst where
  "sample_net = \<lparr>n_mac = [2, 0, 0, 0, 0, 1], n_arp_table = [\<lparr>ae_ip = gateway_addr, ae_mac = [2, 0, 0, 0, 0, 9]\<rparr>],
     n_arp_size = 1, n_arp_curr = 0, n_busy = False, n_tx = [], n_kst = sample_kst\<rparr>"

text \<open>A socket at address 200 with port 5000 on which task 96 waits; its table of ports is \<open>t\<close>.\<close>

definition sample_sockst :: "karray \<Rightarrow> sockst" where
  "sample_sockst t = \<lparr>s_net = sample_net, s_fd = one_fd, s_op = 500, s_vendor = [64 \<mapsto> 200],
     s_socks = [200 \<mapsto> new_udp_socket\<lparr>us_host_port := 5000, us_task := 96\<rparr>], s_table = t, s_port_next = 32768\<rparr>"

lemma sample_table: "\<exists>t. wf_array t \<and> array_abs t = (\<lambda>_. 0)(5000 := 200)"
  using arr.set_law [OF wf_empty_array, of 5000 200] by auto


lemma ports_stay_ok_witness: "\<exists>t st1. udp_release 64 (sample_sockst t) = Some st1 \<and> ports_ok st1 \<and> s_socks st1 200 = None"
proof -
  from sample_table obtain t where t: "wf_array t" "array_abs t = (\<lambda>_. 0)(5000 := 200)" by blast
  have "ports_ok (sample_sockst t)" by (rule ports_okI) (use t in \<open>auto simp: sample_sockst_def split: if_splits\<close>)
  from ports_stay_ok [OF this] have "\<exists>st1. udp_release 64 (sample_sockst t) = Some st1 \<and> ports_ok st1 \<and> s_socks st1 200 = None"
    by (simp add: sample_sockst_def)
  then show ?thesis by blast
qed

text \<open>A socket is a queue of bytes: a read takes the first bytes that wait, at most as many as it asks for, leaves the
  rest for the next one and gives the reader's place back.\<close>

theorem udp_read_takes:
  assumes "s_socks st s = Some k" and "us_recv_buf k \<noteq> None" and "sock_ok k" and "current_task (n_kst (s_net st)) = Some x"
    and "signal_pending (t_sigpending x) = 0" and "k_answers (n_kst (s_net st)) = []"
  shows "\<exists>st1 k1. udp_read_round s n st = Some (UdpBytes (take (unat n) (waiting k)), st1) \<and> s_socks st1 s = Some k1 \<and>
    waiting k1 = drop (unat n) (waiting k) \<and> sock_ok k1 \<and> us_task k1 = 0 \<and> (us_recv_buf k1 = None \<longleftrightarrow> waiting k1 = [])"
proof -
  let ?k = "k\<lparr>us_task := 0\<rparr>"
  obtain st0 where st0: "on_sched (set_state TASK_RUNNING) (set_sock s ?k st) = Some st0" "s_socks st0 s = Some ?k"
      "k_answers (n_kst (s_net st0)) = []"
    using assms(4,6) by (simp add: on_sched_def on_net_def set_state_def)
  define m where "m = min n (us_buf_size k)"
  define left where "left = us_buf_size k - m"
  have m: "unat m = min (unat n) (length (waiting k))"
    using assms(3) by (simp add: m_def sock_ok_def min_def word_le_nat_alt)
  have l: "unat left = length (waiting k) - unat n"
    using assms(3) m by (simp add: left_def m_def sock_ok_def unat_sub_le)
  have buf: "us_recv_buf k = Some (waiting k)" using assms(2) by (auto simp: waiting_def)
  define k1 where "k1 = ?k\<lparr>us_buf_size := left, us_recv_buf := (if left \<noteq> 0 then Some (drop (unat m) (waiting k)) else None)\<rparr>"
  have take_m: "take (unat m) (waiting k) = take (unat n) (waiting k)" using m by (simp add: min_def)
  have drop_m: "drop (unat m) (waiting k) = drop (unat n) (waiting k)" using m by (auto simp: min_def)
  have z: "left = 0 \<longleftrightarrow> drop (unat n) (waiting k) = []" using l by (metis drop_eq_Nil diff_is_0_eq unat_0 unat_eq_zero)
  have "waiting k1 = (if left \<noteq> 0 then drop (unat m) (waiting k) else [])" by (auto simp: k1_def waiting_def)
  then have w: "waiting k1 = drop (unat n) (waiting k)" using z by (simp add: drop_m)
  have lz: "us_buf_size k = m \<longleftrightarrow> left = 0" by (auto simp: left_def)
  have t: "udp_take s ?k n st0 = Some (take (unat n) (waiting k), set_sock s k1 st0)"
    using st0(3) lz by (simp add: udp_take_def buf on_net_kmalloc_ok Let_def take_m k1_def flip: m_def left_def)
  have "udp_read_round s n st = Some (UdpBytes (take (unat n) (waiting k)), set_sock s k1 st0)"
    using assms(1,4,5) buf st0(1) t by (simp add: udp_read_round_def Let_def)
  moreover have "sock_ok k1" using w l by (simp add: sock_ok_def) (simp add: k1_def)
  moreover have "us_task k1 = 0" "us_recv_buf k1 = None \<longleftrightarrow> waiting k1 = []" using z w by (simp_all add: k1_def)
  ultimately show ?thesis using w by auto
qed

lemma udp_read_takes_witness:
  "\<exists>st st1 k1. udp_read_round 200 2 st = Some (UdpBytes [1, 2], st1) \<and> s_socks st1 200 = Some k1 \<and> waiting k1 = [3]"
proof -
  let ?k = "new_udp_socket\<lparr>us_recv_buf := Some [1, 2, 3], us_buf_size := 3\<rparr>"
  let ?st = "set_sock 200 ?k (sample_sockst empty_array)"
  have w: "waiting ?k = [1, 2, 3]" "sock_ok ?k" by (simp_all add: sock_ok_def waiting_def)
  have "current_task (n_kst (s_net ?st)) = Some (sample_task 16)" "k_answers (n_kst (s_net ?st)) = []"
    by (simp_all add: sample_sockst_def sample_net_def sample_kst_def)
  moreover have "signal_pending (t_sigpending (sample_task 16)) = 0"
    by (simp add: sample_task_def signal_pending_def no_signals_def fatal_signal_pending_def)
  ultimately have "\<exists>st1 k1. udp_read_round 200 2 ?st = Some (UdpBytes [1, 2], st1) \<and> s_socks st1 200 = Some k1 \<and> waiting k1 = [3]"
    using udp_read_takes [of ?st 200 ?k "sample_task 16" 2] w by auto
  then show ?thesis by blast
qed

text \<open>Binding does not ask whether the port is taken: the socket that had it gets no more datagrams, and closing it
  takes the port from the other one.\<close>

lemma bind_steals:
  assumes "ports_ok st" and "s_socks st s1 = Some k1" and "us_host_port k1 = 5000" and "s_socks st s2 = Some k2"
    and "s2 \<noteq> s1" and "us_host_port k2 = 0" and "ntohs (sin_port a) = 5000" and "s2 \<noteq> 0" and "s_vendor st f1 = Some s1"
  shows "\<exists>st1 st2. bind_socket True s2 a st = Some st1 \<and> array_abs (s_table st1) 5000 = s2 \<and>
    udp_release f1 st1 = Some st2 \<and> array_abs (s_table st2) 5000 = 0"
proof -
  note wf = ports_ok_props(1) [OF assms(1)]
  define st0 where "st0 = set_sock s2 (k2\<lparr>us_host_addr := sin_addr a\<rparr>) st\<lparr>s_port_next := s_port_next st\<rparr>"
  from port_set_ok [of st0 0 0] wf obtain t where t: "port_set True 0 0 st0 = Some (st0\<lparr>s_table := t\<rparr>)" "wf_array t"
    by (auto simp: st0_def)
  define st1 where "st1 = set_sock s2 (k2\<lparr>us_host_addr := sin_addr a, us_host_port := 5000\<rparr>) (st0\<lparr>s_table := t\<rparr>)"
  from port_set_ok [of st1 5000 s2] t(2) obtain u where
    u: "port_set True 5000 s2 st1 = Some (st1\<lparr>s_table := u\<rparr>)" "wf_array u" "array_abs u = (array_abs t)(5000 := s2)"
    by (auto simp: st1_def)
  have b: "bind_socket True s2 a st = Some (st1\<lparr>s_table := u\<rparr>)"
    using assms(4,6,7) t(1) u(1) by (simp add: bind_socket_def choose_port_def Let_def st1_def flip: st0_def)
  from port_set_ok [of "st1\<lparr>s_table := u\<rparr>" 5000 0] u(2) obtain v where
    v: "port_set True 5000 0 (st1\<lparr>s_table := u\<rparr>) = Some (st1\<lparr>s_table := v\<rparr>)" "array_abs v = (array_abs u)(5000 := 0)" by auto
  have "s_vendor (st1\<lparr>s_table := u\<rparr>) f1 = Some s1" "s_socks (st1\<lparr>s_table := u\<rparr>) s1 = Some k1"
    using assms by (simp_all add: st1_def st0_def)
  then have "udp_release f1 (st1\<lparr>s_table := u\<rparr>) = Some (st1\<lparr>s_table := v, s_socks := (s_socks st1)(s1 := None)\<rparr>)"
    using assms(3) v(1) by (simp add: udp_release_def)
  then show ?thesis using b u(3) v(2) by auto
qed

end
