(* ===== verification/Poll.thy ===== *)
theory Poll
  imports FdTable Clock Terminal Socket
begin

text \<open>
  Waiting for several files at once: \<open>vfs/poll.c\<close>, with the contract that the \<open>poll\<close> operations of the
  terminal and of sockets keep.
\<close>

section \<open>What a file promises\<close>

text \<open>
  \<open>poll\<close> takes the events that are asked for and those reported so far and gives the new ones, whether the
  callback \<open>cleanup\<close> has to be run at the end, and the new state; \<open>held\<close> says that the file is reserved for
  the task that polls.
\<close>

locale pollable =
  fixes poll :: "u16 \<Rightarrow> u16 \<Rightarrow> 's \<Rightarrow> u16 \<times> bool \<times> 's"
    and cleanup :: "'s \<Rightarrow> 's"
    and held :: "'s \<Rightarrow> bool"
  assumes only_asked: "poll ev old s = (r, c, s1) \<Longrightarrow> r AND NOT ev = old AND NOT ev"
    and not_lost: "poll ev old s = (r, c, s1) \<Longrightarrow> old AND r = old"
    and reserved: "poll ev old s = (r, c, s1) \<Longrightarrow> held s1 \<Longrightarrow> c \<or> held s"
    and released: "\<not> held (cleanup s)"

fun poll_times :: "(u16 \<Rightarrow> u16 \<Rightarrow> 's \<Rightarrow> u16 \<times> bool \<times> 's) \<Rightarrow> u16 \<Rightarrow> nat \<Rightarrow> u16 \<times> bool \<times> 's \<Rightarrow> u16 \<times> bool \<times> 's" where
  "poll_times poll ev 0 x = x"
| "poll_times poll ev (Suc n) (old, c, s) = (let (r, c1, s1) = poll ev old s in poll_times poll ev n (r, c \<or> c1, s1))"

context pollable
begin

text \<open>However often a task looks, it gets only what it asked for and leaves no reservation behind.\<close>

lemma looks_end:
  assumes "poll_times poll ev n (0, False, s) = (r, c, s1)" and "\<not> held s"
  shows "r AND NOT ev = 0 \<and> \<not> held (if c then cleanup s1 else s1)"
proof -
  have "old AND NOT ev = 0 \<Longrightarrow> (held s \<Longrightarrow> c0) \<Longrightarrow> poll_times poll ev n (old, c0, s) = (r, c, s1) \<Longrightarrow>
      r AND NOT ev = 0 \<and> (held s1 \<longrightarrow> c)" for old c0 s
  proof (induction n arbitrary: old c0 s)
    case (Suc n)
    obtain r1 c1 s2 where p: "poll ev old s = (r1, c1, s2)" by (metis prod_cases3)
    with Suc.prems(3) have "poll_times poll ev n (r1, c0 \<or> c1, s2) = (r, c, s1)" by simp
    with Suc.IH [of r1 s2 "c0 \<or> c1"] only_asked [OF p] reserved [OF p] Suc.prems(1,2) show ?case by auto
  qed auto
  from this [OF _ _ assms(1)] assms(2) released show ?thesis by auto
qed

end

lemma or_and_not: "((r :: u16) OR b) AND NOT e = r AND NOT e" if "e AND b = b"
  using that by (auto simp: bit_eq_iff bit_simps)

lemma and_single: "(e :: u16) AND 2 ^ k \<noteq> 0 \<Longrightarrow> e AND 2 ^ k = 2 ^ k"
proof -
  assume "e AND 2 ^ k \<noteq> 0"
  then have "bit e k" by (simp add: and_exp_eq_0_iff_not_bit)
  then show ?thesis by (intro bit_word_eqI) (auto simp: bit_simps)
qed

lemma asked_in:
  "e AND POLLIN \<noteq> 0 \<Longrightarrow> ((r :: u16) OR POLLIN) AND NOT e = r AND NOT e"
  "e AND POLLOUT \<noteq> 0 \<Longrightarrow> (r OR POLLOUT) AND NOT e = r AND NOT e"
  using and_single [of e 0] and_single [of e 2] or_and_not [of e POLLIN r] or_and_not [of e POLLOUT r]
  by (simp_all add: POLLIN_def POLLOUT_def)

lemma and_or_keep: "(r :: u16) AND (r OR b) = r" "(r :: u16) AND ((r OR b) OR d) = r"
  by (auto simp: bit_eq_iff bit_simps)

interpretation tty_file: pollable "tty_poll cur" "tty_poll_cb cur" "\<lambda>t. cur \<noteq> 0 \<and> tt_task t = cur"
proof
  fix ev old t r c t1
  assume "tty_poll cur ev old t = (r, c, t1)"
  note p = this [unfolded tty_poll_def Let_def]
  show "r AND NOT ev = old AND NOT ev" using p by (auto simp: asked_in split: if_splits)
  show "old AND r = old" using p by (auto simp: and_or_keep split: if_splits)
  show "c \<or> cur \<noteq> 0 \<and> tt_task t = cur" if "cur \<noteq> 0 \<and> tt_task t1 = cur" using p that by (auto split: if_splits)
qed (simp add: tty_poll_cb_def)

interpretation udp_file: pollable "udp_poll cur" "udp_poll_cb cur" "\<lambda>k. cur \<noteq> 0 \<and> us_task k = cur"
proof
  fix ev old k r c k1
  assume "udp_poll cur ev old k = (r, c, k1)"
  note p = this [unfolded udp_poll_def Let_def]
  show "r AND NOT ev = old AND NOT ev" using p by (auto simp: asked_in split: if_splits)
  show "old AND r = old" using p by (auto simp: and_or_keep split: if_splits)
  show "c \<or> cur \<noteq> 0 \<and> us_task k = cur" if "cur \<noteq> 0 \<and> us_task k1 = cur" using p that by (auto split: if_splits)
qed (simp add: udp_poll_cb_def)

section \<open>The system call\<close>

record pollfd =
  pf_fd :: u32
  pf_events :: u16
  pf_revents :: u16

text \<open>
  A \<open>poll_entry\<close>; its task is the current one, and \<open>cleanup_cb\<close> holds the callback of the file or nothing.
\<close>

record poll_entry =
  pe_file :: ptr
  pe_events :: u16
  pe_revents :: u16
  pe_cleanup :: bool

text \<open>The operations of an open file that \<open>poll\<close> looks at, over the state \<open>'s\<close> of the drivers.\<close>

record 's file_poll =
  fp_poll :: "(u16 \<Rightarrow> u16 \<Rightarrow> 's \<Rightarrow> u16 \<times> bool \<times> 's) option"
  fp_cleanup :: "'s \<Rightarrow> 's"
  fp_read :: bool
  fp_write :: bool

record 's pollst =
  p_fd :: fdst
  p_clk :: clk
  p_dev :: 's

text \<open>The table is filled: every file found gets a reference.\<close>

definition poll_entry_of :: "pollfd \<Rightarrow> fdst \<Rightarrow> (poll_entry \<times> fdst) option" where
  "poll_entry_of x st = do {
     f \<leftarrow> fd_get (pf_fd x) st;
     if f = 0 then Some (\<lparr>pe_file = 0, pe_events = pf_events x, pe_revents = POLLNVAL, pe_cleanup = False\<rparr>, st)
     else do {
       st1 \<leftarrow> on_file (get_file f) st;
       Some (\<lparr>pe_file = f, pe_events = pf_events x, pe_revents = 0, pe_cleanup = False\<rparr>, st1) } }"

fun poll_setup :: "pollfd list \<Rightarrow> fdst \<Rightarrow> (poll_entry list \<times> fdst) option" where
  "poll_setup [] st = Some ([], st)"
| "poll_setup (x # xs) st = do {
     (e, st1) \<leftarrow> poll_entry_of x st;
     (es, st2) \<leftarrow> poll_setup xs st1;
     Some (e # es, st2) }"

text \<open>The time to wait: the milliseconds below a second are multiplied by \<open>1000\<close> only.\<close>

definition poll_timespec :: "u32 \<Rightarrow> timespec" where
  "poll_timespec timeout = Timespec (timeout div 1000) (timeout mod 1000 * 1000)"

text \<open>
  The code before the loop.  \<open>fits\<close> is the check of the user's array, \<open>p\<close> the address of the record of the
  sleep.  When that cannot be made the call returns with the references it has taken.
\<close>

definition poll_enter ::
    "bool \<Rightarrow> ptr \<Rightarrow> pollfd list \<Rightarrow> int \<Rightarrow> 's pollst \<Rightarrow> ((int + poll_entry list \<times> ptr) \<times> 's pollst) option" where
  "poll_enter fits p fds timeout s =
     (if \<not> fits then Some (Inl (- EFAULT), s)
      else (let (ok, st) = k_kmalloc (c_kst (p_clk s)); c1 = (p_clk s)\<lparr>c_kst := st\<rparr> in
        if \<not> ok then Some (Inl (- ENOMEM), s\<lparr>p_clk := c1\<rparr>)
        else do {
          (es, fd1) \<leftarrow> poll_setup fds (p_fd s);
          let s1 = s\<lparr>p_fd := fd1, p_clk := c1\<rparr>;
          if timeout > 0 then
            (case sleep_add p (poll_timespec (word_of_int timeout)) c1 of
              (Inl e, c2) \<Rightarrow> Some (Inl e, s1\<lparr>p_clk := c2\<rparr>)
            | (Inr q, c2) \<Rightarrow> Some (Inr (es, q), s1\<lparr>p_clk := c2\<rparr>))
          else Some (Inr (es, 0), s1) }))"

text \<open>One look at a file.  A file without a \<open>poll\<close> operation is always ready for what it can do.\<close>

definition poll_look :: "'s file_poll \<Rightarrow> poll_entry \<Rightarrow> 's \<Rightarrow> poll_entry \<times> 's" where
  "poll_look op e d =
     (case fp_poll op of
       Some poll \<Rightarrow> (let (r, c, d1) = poll (pe_events e) (pe_revents e) d in
         (e\<lparr>pe_revents := r, pe_cleanup := pe_cleanup e \<or> c\<rparr>, d1))
     | None \<Rightarrow>
         (let r1 = (if fp_read op \<and> pe_events e AND POLLIN \<noteq> 0 then pe_revents e OR POLLIN else pe_revents e);
              r2 = (if fp_write op \<and> pe_events e AND POLLOUT \<noteq> 0 then r1 OR POLLOUT else r1) in
          (e\<lparr>pe_revents := r2\<rparr>, d)))"

fun poll_pass :: "(ptr \<Rightarrow> 's file_poll) \<Rightarrow> poll_entry list \<Rightarrow> 's \<Rightarrow> poll_entry list \<times> 's" where
  "poll_pass ops [] d = ([], d)"
| "poll_pass ops (e # es) d =
     (let (e1, d1) = (if pe_file e = 0 then (e, d) else poll_look (ops (pe_file e)) e d);
          (es1, d2) = poll_pass ops es d1 in (e1 # es1, d2))"

definition poll_ready :: "poll_entry list \<Rightarrow> int" where
  "poll_ready es = int (length (filter (\<lambda>e. pe_revents e \<noteq> 0) es))"

text \<open>One round of the loop, up to the call of \<open>schedule\<close>, and what follows when the task runs again.\<close>

datatype poll_result = PollWaits "poll_entry list" | PollEnds int "poll_entry list"

definition poll_round ::
    "(ptr \<Rightarrow> 's file_poll) \<Rightarrow> int \<Rightarrow> ptr \<Rightarrow> poll_entry list \<Rightarrow> 's pollst \<Rightarrow> (poll_result \<times> 's pollst) option" where
  "poll_round ops timeout spec es s = do {
     x \<leftarrow> current_task (c_kst (p_clk s));
     if signal_pending (t_sigpending x) \<noteq> 0 then Some (PollEnds (- EINTR) es, s)
     else do {
       let (es1, d1) = poll_pass ops es (p_dev s);
       let s1 = s\<lparr>p_dev := d1\<rparr>;
       if poll_ready es1 \<noteq> 0 \<or> timeout = 0 then Some (PollEnds (poll_ready es1) es1, s1)
       else do {
         hit \<leftarrow> (if spec = 0 then Some False else sleep_hashit spec (p_clk s1));
         if hit then Some (PollEnds 0 es1, s1)
         else do {
           st1 \<leftarrow> set_current_state TASK_INTERRUPTIBLE (c_kst (p_clk s1));
           st2 \<leftarrow> schedule st1;
           Some (PollWaits es1, s1\<lparr>p_clk := (p_clk s1)\<lparr>c_kst := st2\<rparr>\<rparr>) } } } }"

definition poll_resume ::
    "(ptr \<Rightarrow> 's file_poll) \<Rightarrow> int \<Rightarrow> ptr \<Rightarrow> poll_entry list \<Rightarrow> 's pollst \<Rightarrow> (poll_result \<times> 's pollst) option" where
  "poll_resume ops timeout spec es s = do {
     st \<leftarrow> set_current_state TASK_RUNNING (c_kst (p_clk s));
     poll_round ops timeout spec es (s\<lparr>p_clk := (p_clk s)\<lparr>c_kst := st\<rparr>\<rparr>) }"

text \<open>At the end the callbacks run, the references are given back and the events are reported.\<close>

fun poll_finish :: "(ptr \<Rightarrow> 's file_poll) \<Rightarrow> poll_entry list \<Rightarrow> 's pollst \<Rightarrow> (u16 list \<times> 's pollst) option" where
  "poll_finish ops [] s = Some ([], s)"
| "poll_finish ops (e # es) s = do {
     let s1 = (if pe_cleanup e then s\<lparr>p_dev := fp_cleanup (ops (pe_file e)) (p_dev s)\<rparr> else s);
     s2 \<leftarrow> (if pe_file e = 0 then Some s1
       else do { (_, fd1) \<leftarrow> on_fs (filp_close (pe_file e)) (p_fd s1); Some (s1\<lparr>p_fd := fd1\<rparr>) });
     (rs, s3) \<leftarrow> poll_finish ops es s2;
     Some (pe_revents e # rs, s3) }"

definition poll_leave ::
    "(ptr \<Rightarrow> 's file_poll) \<Rightarrow> ptr \<Rightarrow> poll_entry list \<Rightarrow> 's pollst \<Rightarrow> (u16 list \<times> 's pollst) option" where
  "poll_leave ops spec es s = do {
     (rs, s1) \<leftarrow> poll_finish ops es s;
     Some (rs, if spec = 0 then s1 else s1\<lparr>p_clk := sleep_finalize spec (p_clk s1)\<rparr>) }"

text \<open>Half a second is waited for as half a millisecond.\<close>

lemma poll_waits_too_short: "poll_timespec 500 = Timespec 0 500000"
  by (simp add: poll_timespec_def)

section \<open>The run of a call\<close>

text \<open>From one state of the table to the next; while the task waits the others may change everything else.\<close>

inductive poll_run ::
    "(ptr \<Rightarrow> 's file_poll) \<Rightarrow> int \<Rightarrow> ptr \<Rightarrow> poll_entry list \<times> 's pollst \<Rightarrow> int \<times> poll_entry list \<times> 's pollst \<Rightarrow> bool"
  for ops timeout spec where
  Ends: "poll_round ops timeout spec es s = Some (PollEnds r es1, s1) \<Longrightarrow> poll_run ops timeout spec (es, s) (r, es1, s1)"
| Waits: "poll_round ops timeout spec es s = Some (PollWaits es1, s1) \<Longrightarrow>
    set_current_state TASK_RUNNING (c_kst (p_clk s2)) = Some st \<Longrightarrow>
    poll_run ops timeout spec (es1, s2\<lparr>p_clk := (p_clk s2)\<lparr>c_kst := st\<rparr>\<rparr>) x \<Longrightarrow> poll_run ops timeout spec (es, s) x"

text \<open>The files of the entries, each as often as it is there, and what an entry may report.\<close>

definition entry_files :: "poll_entry list \<Rightarrow> ptr \<Rightarrow> int" where
  "entry_files es f = int (length (filter (\<lambda>e. pe_file e = f \<and> f \<noteq> 0) es))"

definition entry_asked :: "poll_entry \<Rightarrow> bool" where
  "entry_asked e \<longleftrightarrow> (if pe_file e = 0 then pe_revents e = POLLNVAL else pe_revents e AND NOT (pe_events e) = 0)"

definition ops_ok :: "(ptr \<Rightarrow> 's file_poll) \<Rightarrow> bool" where
  "ops_ok ops \<longleftrightarrow> (\<forall>f poll. fp_poll (ops f) = Some poll \<longrightarrow>
     (\<forall>ev old d. fst (poll ev old d) AND NOT ev = old AND NOT ev))"

lemma poll_look_entry:
  assumes "ops_ok ops" and "poll_look (ops f) e d = (e1, d1)"
  shows "pe_file e1 = pe_file e \<and> pe_events e1 = pe_events e \<and>
    pe_revents e1 AND NOT (pe_events e) = pe_revents e AND NOT (pe_events e)"
proof (cases "fp_poll (ops f)")
  case None
  then show ?thesis using assms(2) by (auto simp: poll_look_def Let_def asked_in split: if_splits)
next
  case (Some poll)
  obtain r c d2 where p: "poll (pe_events e) (pe_revents e) d = (r, c, d2)" by (metis prod_cases3)
  have "fst (poll (pe_events e) (pe_revents e) d) AND NOT (pe_events e) = pe_revents e AND NOT (pe_events e)"
    using assms(1) Some by (simp add: ops_ok_def)
  with Some p assms(2) show ?thesis by (auto simp: poll_look_def)
qed

lemma poll_pass_entries:
  assumes "ops_ok ops" and "poll_pass ops es d = (es1, d1)" and "\<forall>e \<in> set es. entry_asked e"
  shows "map pe_file es1 = map pe_file es \<and> map pe_events es1 = map pe_events es \<and> (\<forall>e \<in> set es1. entry_asked e)"
  using assms(2,3)
proof (induction es arbitrary: d es1 d1)
  case (Cons e es)
  obtain e1 d2 where e: "(if pe_file e = 0 then (e, d) else poll_look (ops (pe_file e)) e d) = (e1, d2)" by force
  obtain es2 d3 where es: "poll_pass ops es d2 = (es2, d3)" by force
  have "pe_file e1 = pe_file e \<and> pe_events e1 = pe_events e \<and> entry_asked e1"
    using e poll_look_entry [OF assms(1), of "pe_file e" e d e1 d2] Cons.prems(2)
    by (auto simp: entry_asked_def split: if_splits)
  with Cons.IH [OF es] Cons.prems e es show ?case by auto
qed simp

lemma poll_round_entries:
  assumes "ops_ok ops" and "\<forall>e \<in> set es. entry_asked e" and "poll_round ops timeout spec es s = Some (res, s1)"
  shows "p_fd s1 = p_fd s \<and> (\<exists>es1. map pe_file es1 = map pe_file es \<and> map pe_events es1 = map pe_events es \<and>
    (\<forall>e \<in> set es1. entry_asked e) \<and>
    (res = PollWaits es1 \<or> (\<exists>r. res = PollEnds r es1 \<and> (r = poll_ready es1 \<or> r = - EINTR \<or> r = 0))))"
proof -
  obtain es1 d1 where p: "poll_pass ops es (p_dev s) = (es1, d1)" by force
  note e1 = poll_pass_entries [OF assms(1) p assms(2)]
  from assms(3) obtain x where x: "current_task (c_kst (p_clk s)) = Some x" by (auto simp: poll_round_def bind_eq_Some_conv)
  show ?thesis
  proof (cases "signal_pending (t_sigpending x) = 0")
    case False
    then have "res = PollEnds (- EINTR) es \<and> s1 = s" using assms(3) x by (simp add: poll_round_def)
    then show ?thesis using assms(2) by blast
  next
    case True
    let ?s1 = "s\<lparr>p_dev := d1\<rparr>"
    from True have "(if poll_ready es1 \<noteq> 0 \<or> timeout = 0 then Some (PollEnds (poll_ready es1) es1, ?s1)
        else do {
          hit \<leftarrow> (if spec = 0 then Some False else sleep_hashit spec (p_clk ?s1));
          if hit then Some (PollEnds 0 es1, ?s1)
          else do {
            st1 \<leftarrow> set_current_state TASK_INTERRUPTIBLE (c_kst (p_clk ?s1));
            st2 \<leftarrow> schedule st1;
            Some (PollWaits es1, ?s1\<lparr>p_clk := (p_clk ?s1)\<lparr>c_kst := st2\<rparr>\<rparr>) } }) = Some (res, s1)"
      using assms(3) x p by (auto simp: poll_round_def Let_def bind_eq_Some_conv)
    then show ?thesis using e1 by (auto simp: bind_eq_Some_conv split: if_splits)
  qed
qed

lemma poll_run_entries:
  assumes "poll_run ops timeout spec (es, s) (r, es2, s2)" and "ops_ok ops" and "\<forall>e \<in> set es. entry_asked e"
  shows "map pe_file es2 = map pe_file es \<and> map pe_events es2 = map pe_events es \<and> (\<forall>e \<in> set es2. entry_asked e) \<and>
    (r = poll_ready es2 \<or> r = - EINTR \<or> r = 0)"
  using assms
proof (induction "(es, s)" "(r, es2, s2)" arbitrary: es s rule: poll_run.induct)
  case (Ends es s)
  from poll_round_entries [OF Ends(2,3,1)] show ?case by auto
next
  case (Waits es s es1 s1 s2 st)
  from poll_round_entries [OF Waits(5,6,1)] Waits(4) [OF Waits(5)] show ?case by auto
qed

section \<open>References\<close>

lemma entry_files_Cons:
  "entry_files (e # es) f = entry_files es f + (if pe_file e = f \<and> f \<noteq> 0 then 1 else 0)"
  by (simp add: entry_files_def)

lemma entry_files_map: "map pe_file es1 = map pe_file es \<Longrightarrow> entry_files es1 f = entry_files es f"
proof -
  have "entry_files es f = int (length (filter (\<lambda>g. g = f \<and> f \<noteq> 0) (map pe_file es)))" for es
    by (simp add: entry_files_def filter_map comp_def)
  then show "map pe_file es1 = map pe_file es \<Longrightarrow> entry_files es1 f = entry_files es f"
    by (simp only:)
qed

lemma poll_setup_refs:
  assumes "poll_setup xs st = Some (es, st1)"
  shows "(\<forall>f. file_refs (fd_fs st1) f = file_refs (fd_fs st) f + entry_files es f) \<and>
    map pe_events es = map pf_events xs \<and> (\<forall>e \<in> set es. entry_asked e)"
  using assms
proof (induction xs arbitrary: st es)
  case Nil
  then show ?case by (simp add: entry_files_def)
next
  case (Cons x xs)
  from Cons.prems obtain e st2 es2 where e: "poll_entry_of x st = Some (e, st2)"
    and es: "poll_setup xs st2 = Some (es2, st1)" "es = e # es2" by (auto simp: bind_eq_Some_conv)
  from e have "(\<forall>f. file_refs (fd_fs st2) f = file_refs (fd_fs st) f + (if pe_file e = f \<and> f \<noteq> 0 then 1 else 0)) \<and>
      pe_events e = pf_events x \<and> entry_asked e"
    using get_file_refs by (auto simp: poll_entry_of_def bind_eq_Some_conv on_file_def entry_asked_def split: if_splits)
  with Cons.IH [OF es(1)] es(2) show ?case by (auto simp: entry_files_Cons)
qed

lemma poll_finish_refs:
  assumes "poll_finish ops es s = Some (rs, s1)"
  shows "(\<forall>f. file_refs (fd_fs (p_fd s1)) f = file_refs (fd_fs (p_fd s)) f - entry_files es f) \<and> rs = map pe_revents es"
  using assms
proof (induction es arbitrary: s rs)
  case Nil
  then show ?case by (simp add: entry_files_def)
next
  case (Cons e es)
  let ?s1 = "if pe_cleanup e then s\<lparr>p_dev := fp_cleanup (ops (pe_file e)) (p_dev s)\<rparr> else s"
  from Cons.prems obtain s2 rs2 where s2: "(if pe_file e = 0 then Some ?s1
       else do { (_, fd1) \<leftarrow> on_fs (filp_close (pe_file e)) (p_fd ?s1); Some (?s1\<lparr>p_fd := fd1\<rparr>) }) = Some s2"
    and f: "poll_finish ops es s2 = Some (rs2, s1)" "rs = pe_revents e # rs2" by (auto simp: Let_def bind_eq_Some_conv)
  have p: "p_fd ?s1 = p_fd s" by simp
  have "\<forall>f. file_refs (fd_fs (p_fd s2)) f = file_refs (fd_fs (p_fd s)) f - (if pe_file e = f \<and> f \<noteq> 0 then 1 else 0)"
  proof (cases "pe_file e = 0")
    case True
    with s2 p show ?thesis by auto
  next
    case False
    with s2 obtain r fs1 where "filp_close (pe_file e) (fd_fs (p_fd s)) = Some (r, fs1)" "fd_fs (p_fd s2) = fs1"
      unfolding p by (auto simp: on_fs_def bind_eq_Some_conv)
    with filp_close_refs False show ?thesis by fastforce
  qed
  with Cons.IH [OF f(1)] f(2) show ?case by (simp add: entry_files_Cons)
qed

lemma poll_enter_setup:
  assumes "poll_enter fits p fds timeout s = Some (Inr (es, spec), s1)"
  shows "poll_setup fds (p_fd s) = Some (es, p_fd s1)"
proof -
  obtain ok st where k: "k_kmalloc (c_kst (p_clk s)) = (ok, st)" by force
  obtain r c2 where sl: "sleep_add p (poll_timespec (word_of_int timeout)) ((p_clk s)\<lparr>c_kst := st\<rparr>) = (r, c2)" by force
  have "fits" "ok" using assms k by (auto simp: poll_enter_def Let_def split: if_splits)
  with assms k sl obtain es1 fd1 where "poll_setup fds (p_fd s) = Some (es1, fd1)" "es1 = es" "p_fd s1 = fd1"
    by (cases r) (auto simp: poll_enter_def Let_def bind_eq_Some_conv split: if_splits)
  then show ?thesis by simp
qed

text \<open>C38: A call of \<open>poll\<close> that goes through gives back exactly the references to files it took, however long it
  waited and whatever the other tasks did in between; what it reports for a descriptor are events that were
  asked for, or that the descriptor is not open; and its result is the number of descriptors with a report,
  or that a signal came, or zero.\<close>

theorem poll_balanced:
  assumes "ops_ok ops" and "poll_enter fits p fds timeout s = Some (Inr (es, spec), s1)"
    and "poll_run ops timeout spec (es, s2) (r, es3, s3)" and "poll_leave ops spec es3 s3 = Some (rs, s4)"
  shows "(\<forall>f. file_refs (fd_fs (p_fd s3)) f - file_refs (fd_fs (p_fd s4)) f =
      file_refs (fd_fs (p_fd s1)) f - file_refs (fd_fs (p_fd s)) f) \<and>
    length rs = length fds \<and>
    (\<forall>i < length fds. rs ! i AND NOT (pf_events (fds ! i)) = 0 \<or> rs ! i = POLLNVAL) \<and>
    (r = int (length (filter (\<lambda>x. x \<noteq> 0) rs)) \<or> r = - EINTR \<or> r = 0)"
proof -
  note st = poll_setup_refs [OF poll_enter_setup [OF assms(2)]]
  with poll_run_entries [OF assms(3,1)] have run: "map pe_file es3 = map pe_file es" "map pe_events es3 = map pe_events es"
    "\<forall>e \<in> set es3. entry_asked e" "r = poll_ready es3 \<or> r = - EINTR \<or> r = 0" by blast+
  from assms(4) obtain s5 where f: "poll_finish ops es3 s3 = Some (rs, s5)" "p_fd s4 = p_fd s5"
    by (auto simp: poll_leave_def bind_eq_Some_conv split: if_splits)
  note fin = poll_finish_refs [OF f(1)]
  have rs: "rs = map pe_revents es3" using fin by blast
  have ev: "map pe_events es3 = map pf_events fds" using run(2) st by simp
  then have len: "length es3 = length fds" by (metis length_map)
  have "rs ! i AND NOT (pf_events (fds ! i)) = 0 \<or> rs ! i = POLLNVAL" if "i < length fds" for i
  proof -
    have "entry_asked (es3 ! i)" using run(3) that len by simp
    moreover have "pe_events (es3 ! i) = pf_events (fds ! i)" using ev that len by (metis nth_map)
    ultimately show ?thesis using that len rs by (auto simp: entry_asked_def split: if_splits)
  qed
  moreover have "poll_ready es3 = int (length (filter (\<lambda>x. x \<noteq> 0) rs))" by (simp add: rs poll_ready_def filter_map comp_def)
  ultimately show ?thesis using st fin f(2) run(4) len rs entry_files_map [OF run(1)] by auto
qed

text \<open>Two descriptors: the first is open, the second is not.\<close>

definition sample_fds :: "pollfd list" where
  "sample_fds = [\<lparr>pf_fd = 0, pf_events = POLLIN, pf_revents = 0\<rparr>, \<lparr>pf_fd = 1, pf_events = POLLIN, pf_revents = 0\<rparr>]"

definition sample_ops :: "ptr \<Rightarrow> unit file_poll" where
  "sample_ops = (\<lambda>_. \<lparr>fp_poll = None, fp_cleanup = id, fp_read = True, fp_write = False\<rparr>)"

definition sample_pollst :: "unit pollst" where
  "sample_pollst = \<lparr>p_fd = one_fd, p_clk = sample_clk, p_dev = ()\<rparr>"

definition sample_entries :: "u16 \<Rightarrow> poll_entry list" where
  "sample_entries r = [\<lparr>pe_file = 64, pe_events = POLLIN, pe_revents = r, pe_cleanup = False\<rparr>,
     \<lparr>pe_file = 0, pe_events = POLLIN, pe_revents = POLLNVAL, pe_cleanup = False\<rparr>]"

lemma sample_poll_enter: "\<exists>s1. poll_enter True 400 sample_fds 0 sample_pollst = Some (Inr (sample_entries 0, 0), s1) \<and>
    fs_files (fd_fs (p_fd s1)) 64 = Some (sample_file\<lparr>f_refcount := 2\<rparr>) \<and> c_kst (p_clk s1) = sample_kst"
  by (simp add: poll_enter_def sample_fds_def sample_pollst_def k_kmalloc_def sample_kst_def poll_entry_of_def
      fd_get_def one_fd_def array_get_def read_slot_def on_file_def get_file_def sample_file_def sample_entries_def Let_def)

lemma poll_balanced_witness:
  "\<exists>s1 rs s4. poll_leave sample_ops 0 (sample_entries POLLIN) s1 = Some (rs, s4) \<and>
    rs ! 1 = POLLNVAL \<and> length rs = 2"
proof -
  obtain s1 where e: "poll_enter True 400 sample_fds 0 sample_pollst = Some (Inr (sample_entries 0, 0), s1)"
      "fs_files (fd_fs (p_fd s1)) 64 = Some (sample_file\<lparr>f_refcount := 2\<rparr>)" "c_kst (p_clk s1) = sample_kst"
    using sample_poll_enter by blast
  have "poll_round sample_ops 0 0 (sample_entries 0) s1 = Some (PollEnds 2 (sample_entries POLLIN), s1)"
    by (simp add: poll_round_def e(3) sample_kst_def no_signals_def sample_entries_def poll_look_def sample_ops_def
        poll_ready_def POLLIN_def POLLNVAL_def signal_pending_def fatal_signal_pending_def)
  then have run: "poll_run sample_ops 0 0 (sample_entries 0, s1) (2, sample_entries POLLIN, s1)" by (rule Ends)
  obtain rs s4 where l: "poll_leave sample_ops 0 (sample_entries POLLIN) s1 = Some (rs, s4)"
    by (simp add: poll_leave_def sample_entries_def e(2) on_fs_def filp_close_def sample_file_def)
  have "ops_ok sample_ops" by (simp add: ops_ok_def sample_ops_def)
  from poll_balanced [OF this e(1) run l] have "length rs = 2" by (simp add: sample_fds_def)
  have "rs = [POLLIN, POLLNVAL]" using l
    by (auto simp: poll_leave_def sample_entries_def bind_eq_Some_conv)
  then have "rs ! 1 = POLLNVAL" by simp
  with l \<open>length rs = 2\<close> show ?thesis by blast
qed

text \<open>
  When the record of the sleep cannot be made the references stay: the files cannot be released any more.
\<close>

lemma poll_error_leaks:
  assumes "poll_setup fds (p_fd s) = Some (es, fd1)" and "k_answers (c_kst (p_clk s)) = [True, False]" and "timeout > 0"
  shows "\<exists>s1. poll_enter True p fds timeout s = Some (Inl (- ENOMEM), s1) \<and> p_fd s1 = fd1"
  using assms by (simp add: poll_enter_def k_kmalloc_def sleep_add_def Let_def)

end
