(* ===== verification/Ata.thy ===== *)
theory Ata
  imports Sched
begin

text \<open>
  The disk driver \<open>block/ata.c\<close>: what it writes to the registers of a drive, how it waits, and reading
  through its cache of sectors.  A drive is a function from what has been written to its registers to what
  it answers: the values of the status register, one per look at it, the sector, and the last status.
  A read holds \<open>ata_mutex\<close> from its first register to its last, so the writes of two reads do not mix.
\<close>

section \<open>The registers\<close>

definition SECTOR_SIZE :: nat where "SECTOR_SIZE = 512"

definition ERROR_FEAT_OFF :: u16 where "ERROR_FEAT_OFF = 1"
definition SEC_COUNT_OFF :: u16 where "SEC_COUNT_OFF = 2"
definition SECTOR_NUM_OFF :: u16 where "SECTOR_NUM_OFF = 3"
definition LBA_LO_OFF :: u16 where "LBA_LO_OFF = 3"
definition LBA_MID_OFF :: u16 where "LBA_MID_OFF = 4"
definition LBA_HI_OFF :: u16 where "LBA_HI_OFF = 5"
definition DRIVE_HEAD_OFF :: u16 where "DRIVE_HEAD_OFF = 6"
definition COMMAND_OFF :: u16 where "COMMAND_OFF = 7"

definition STAT_ERR :: u8 where "STAT_ERR = 0x01"
definition STAT_DRQ :: u8 where "STAT_DRQ = 0x08"
definition STAT_DF :: u8 where "STAT_DF = 0x20"
definition STAT_BSY :: u8 where "STAT_BSY = 0x80"

definition CMD_READ_SEC :: u8 where "CMD_READ_SEC = 0x20"
definition CMD_ID :: u8 where "CMD_ID = 0xEC"

text \<open>A drive; \<open>disk_cache\<close> finds the copy of a sector.  Only sectors below \<open>2^23\<close> are asked for.\<close>

record ata_data =
  slave_bit :: u8
  ata_base_reg :: u16
  prt_size :: u32
  disk_cache :: "u32 \<rightharpoonup> u8 list"

record drive_answer =
  da_status :: "u8 list"
  da_data :: "u8 list"
  da_last :: u8

type_synonym drive = "(u16 \<times> u8) list \<Rightarrow> drive_answer"

definition read_command :: "u32 \<Rightarrow> ata_data \<Rightarrow> (u16 \<times> u8) list" where
  "read_command lba dev = (let base = ata_base_reg dev in
     [(base + DRIVE_HEAD_OFF, 0xE0 OR push_bit 4 (slave_bit dev) OR (ucast (drop_bit 24 lba) AND 0x0F)),
      (base + ERROR_FEAT_OFF, 0),
      (base + SEC_COUNT_OFF, 1),
      (base + LBA_LO_OFF, ucast lba),
      (base + LBA_MID_OFF, ucast (drop_bit 8 lba)),
      (base + LBA_HI_OFF, ucast (drop_bit 16 lba)),
      (base + COMMAND_OFF, CMD_READ_SEC)])"

definition ata_should_read :: "u8 \<Rightarrow> int" where
  "ata_should_read status =
     (if status AND STAT_DF \<noteq> 0 \<or> status AND STAT_ERR \<noteq> 0 then - EIO
      else if status AND STAT_BSY = 0 \<and> status AND STAT_DRQ \<noteq> 0 then 1 else 0)"

text \<open>Waiting for a drive: it is looked at once, and again after each interrupt; \<open>None\<close> sleeps for ever.\<close>

fun ata_wait :: "u8 list \<Rightarrow> int option" where
  "ata_wait [] = None"
| "ata_wait (s # ss) = (if ata_should_read s \<noteq> 0 then Some (ata_should_read s) else ata_wait ss)"

definition ata_read_28 :: "u32 \<Rightarrow> ata_data \<Rightarrow> drive \<Rightarrow> (int \<times> u8 list) option" where
  "ata_read_28 lba dev drive =
     (let a = drive (read_command lba dev) in do {
        r \<leftarrow> ata_wait (da_status a);
        if r < 0 then Some (r, [])
        else if da_last a AND STAT_DF \<noteq> 0 \<or> da_last a AND STAT_ERR \<noteq> 0 then Some (- EIO, da_data a)
        else Some (0, da_data a) })"

text \<open>The interrupt wakes the task whose read is in service.\<close>

definition ata_handler :: "ptr \<Rightarrow> kst \<Rightarrow> kst option" where
  "ata_handler in_service st = (if in_service = 0 then Some st else wake_up_process in_service st)"

section \<open>Reading\<close>

text \<open>
  A sector from the cache or the drive.  A failure of \<open>array_set\<close> (the second answer) is not noticed: the
  sector is used and not kept.
\<close>

definition get_sector :: "drive \<Rightarrow> u32 \<Rightarrow> ata_data \<times> answers \<Rightarrow> (int \<times> u8 list \<times> ata_data \<times> answers) option" where
  "get_sector drive n = (\<lambda>(ata, ans).
     case disk_cache ata n of
       Some buf \<Rightarrow> Some (0, buf, ata, ans)
     | None \<Rightarrow> (let (ok, ans1) = kmalloc ans in
         if \<not> ok then Some (- ENOMEM, [], ata, ans1)
         else do {
           (r, buf) \<leftarrow> ata_read_28 n ata drive;
           if r \<noteq> 0 then Some (r, [], ata, ans1)
           else (let (kept, ans2) = kmalloc ans1 in
             Some (0, buf, if kept then ata\<lparr>disk_cache := (disk_cache ata)(n \<mapsto> buf)\<rparr> else ata, ans2)) }))"

definition inner_nbytes :: "u32 \<Rightarrow> u32 \<Rightarrow> u32" where
  "inner_nbytes pos nbytes = (let off = pos mod 512; n = 512 - off in if n > nbytes then nbytes else n)"

lemma inner_nbytes_bounds:
  "unat (inner_nbytes pos nbytes) = min (512 - unat pos mod 512) (unat nbytes)"
proof -
  have "unat (pos mod 512) = unat pos mod 512" by (simp add: unat_mod)
  moreover have "unat pos mod 512 < 512" by simp
  ultimately have "unat (512 - pos mod 512) = 512 - unat pos mod 512"
    by (subst unat_sub_le) (simp_all add: word_le_nat_alt)
  then show ?thesis by (simp add: inner_nbytes_def Let_def word_less_nat_alt min_def)
qed

lemma inner_nbytes_less:
  assumes "nbytes \<noteq> 0"
  shows "unat (nbytes - inner_nbytes pos nbytes) < unat nbytes"
proof -
  have "unat nbytes \<noteq> 0" using assms by (simp add: unat_eq_0)
  moreover have "unat pos mod 512 < 512" by simp
  ultimately have "0 < unat (inner_nbytes pos nbytes)" "unat (inner_nbytes pos nbytes) \<le> unat nbytes"
    unfolding inner_nbytes_bounds by linarith+
  then show ?thesis by (simp add: unat_sub_le word_le_nat_alt)
qed

text \<open>The loop of \<open>ata_read\<close>: its status, the bytes, and the position it has come to.\<close>

function ata_read_loop ::
    "drive \<Rightarrow> u32 \<Rightarrow> u32 \<Rightarrow> ata_data \<times> answers \<Rightarrow> (int \<times> u8 list \<times> u32 \<times> ata_data \<times> answers) option" where
  "ata_read_loop drive pos nbytes s =
     (if nbytes = 0 then Some (0, [], pos, s)
      else do {
        (r, buf, s1) \<leftarrow> get_sector drive (pos div 512) s;
        if r \<noteq> 0 then Some (r, [], pos, s1)
        else do {
          let n = inner_nbytes pos nbytes;
          (r2, rest, pos2, s2) \<leftarrow> ata_read_loop drive (pos + n) (nbytes - n) s1;
          Some (r2, take (unat n) (drop (unat (pos mod 512)) buf) @ rest, pos2, s2) } })"
  by pat_completeness auto

termination
  by (relation "measure (\<lambda>(drive, pos, nbytes, s). unat nbytes)") (auto simp: inner_nbytes_less)

declare ata_read_loop.simps [simp del]

definition ata_read ::
    "drive \<Rightarrow> u32 \<Rightarrow> u32 \<Rightarrow> ata_data \<times> answers \<Rightarrow> (int \<times> u8 list \<times> u32 \<times> ata_data \<times> answers) option" where
  "ata_read drive pos nbytes s =
     (let left = prt_size (fst s) - pos; n = (if nbytes > left then left else nbytes) in
      if n = 0 then Some (0, [], pos, s)
      else do {
        (r, bs, pos1, s1) \<leftarrow> ata_read_loop drive pos n s;
        Some (if r \<noteq> 0 then r else s32 n, bs, pos1, s1) })"

definition ata_seek :: "u32 \<Rightarrow> u32 \<Rightarrow> int \<Rightarrow> ata_data \<Rightarrow> int \<times> u32" where
  "ata_seek pos offset whence ata =
     (if whence \<notin> {0, 1, 2} then (- EINVAL, pos)
      else (let new_pos = (if whence = 0 then offset else if whence = 1 then pos + offset else prt_size ata + offset) in
        if new_pos \<ge> prt_size ata \<or> s32 new_pos < 0 then (- EINVAL, pos) else (s32 new_pos, new_pos)))"

section \<open>Finding the drives\<close>

text \<open>The drive that is asked is always the first one of the bus: \<open>slave_bit\<close> is not looked at.\<close>

definition identify_command :: "ata_data \<Rightarrow> (u16 \<times> u8) list" where
  "identify_command ata = (let base = ata_base_reg ata in
     [(base + DRIVE_HEAD_OFF, 0xA0), (base + SEC_COUNT_OFF, 0), (base + SECTOR_NUM_OFF, 0),
      (base + LBA_MID_OFF, 0), (base + LBA_HI_OFF, 0), (base + COMMAND_OFF, CMD_ID)])"

fun skip_busy :: "u8 \<Rightarrow> u8 list \<Rightarrow> (u8 \<times> u8 list) option" where
  "skip_busy s ss = (if s AND STAT_BSY = 0 then Some (s, ss)
     else case ss of [] \<Rightarrow> None | s1 # ss1 \<Rightarrow> skip_busy s1 ss1)"

fun await_data :: "u8 \<Rightarrow> u8 list \<Rightarrow> int option" where
  "await_data s ss = (if s AND STAT_DRQ \<noteq> 0 then Some 0
     else if s AND STAT_ERR \<noteq> 0 then Some (- EIO)
     else case ss of [] \<Rightarrow> None | s1 # ss1 \<Rightarrow> await_data s1 ss1)"

text \<open>Word \<open>k\<close> of the 256 words a drive identifies itself with.\<close>

definition id_word :: "u8 list \<Rightarrow> nat \<Rightarrow> u32" where
  "id_word bs k = ucast (bs ! (2 * k)) OR push_bit 8 (ucast (bs ! (2 * k + 1)))"

definition ata_identify :: "drive \<Rightarrow> ata_data \<Rightarrow> (int \<times> ata_data) option" where
  "ata_identify drive ata =
     (if prt_size ata \<noteq> 0 then Some (s32 (prt_size ata), ata)
      else (let a = drive (identify_command ata) in
        case da_status a of
          [] \<Rightarrow> None
        | stat # stats \<Rightarrow>
            if stat = 0 then Some (- ENXIO, ata)
            else do {
              (s1, ss1) \<leftarrow> skip_busy stat stats;
              r \<leftarrow> await_data s1 ss1;
              if r < 0 then Some (r, ata)
              else (let size = (push_bit 16 (id_word (da_data a) 61) OR id_word (da_data a) 60) * 512 in
                Some (s32 size, ata\<lparr>prt_size := size\<rparr>)) }))"

text \<open>The four drives of the two buses by minor number; the result has the one that was opened.\<close>

definition drive_of :: "u32 \<Rightarrow> nat option" where
  "drive_of rdev = (let m = rdev AND 255 in if m < 4 then Some (unat m) else None)"

definition ata_open :: "drive \<Rightarrow> u32 \<Rightarrow> (nat \<Rightarrow> ata_data) \<Rightarrow> (int \<times> nat option \<times> (nat \<Rightarrow> ata_data)) option" where
  "ata_open drive rdev atas =
     (case drive_of rdev of
       None \<Rightarrow> Some (- ENXIO, None, atas)
     | Some i \<Rightarrow> do {
         (r, ata) \<leftarrow> ata_identify drive (atas i);
         Some (if r = 0 then - ENXIO else 0, Some i, atas(i := ata)) })"

definition ata_drives :: "nat \<Rightarrow> ata_data" where
  "ata_drives i = \<lparr>slave_bit = (if i mod 2 = 1 then 1 else 0), ata_base_reg = (if i < 2 then 0x1F0 else 0x170),
     prt_size = 0, disk_cache = Map.empty\<rparr>"

text \<open>A drive that is not there answers zero: the error is not zero, so the drive is opened, with size zero.\<close>

lemma open_missing_drive:
  assumes "drive_of rdev = Some i" and "prt_size (atas i) = 0"
    and "da_status (drive (identify_command (atas i))) = 0 # stats"
  shows "ata_open drive rdev atas = Some (0, Some i, atas)"
  using assms by (simp add: ata_open_def ata_identify_def Let_def)

text \<open>Both drives of a bus are asked by the same command, so the second is taken to have the size of the first.\<close>

lemma identify_ignores_slave: "identify_command (ata\<lparr>slave_bit := 1\<rparr>) = identify_command ata"
  by (simp add: identify_command_def)

section \<open>What a drive does\<close>

text \<open>The sector that the registers name: the last value written to each.\<close>

definition register :: "(u16 \<times> u8) list \<Rightarrow> u16 \<Rightarrow> u8" where
  "register cs r = (case map_of (rev cs) r of None \<Rightarrow> 0 | Some v \<Rightarrow> v)"

definition selected_lba :: "(u16 \<times> u8) list \<Rightarrow> u16 \<Rightarrow> nat" where
  "selected_lba cs base =
     unat (register cs (base + LBA_LO_OFF)) + 2 ^ 8 * unat (register cs (base + LBA_MID_OFF)) +
     2 ^ 16 * unat (register cs (base + LBA_HI_OFF)) + 2 ^ 24 * (unat (register cs (base + DRIVE_HEAD_OFF)) mod 16)"

definition selected_slave :: "(u16 \<times> u8) list \<Rightarrow> u16 \<Rightarrow> bool" where
  "selected_slave cs base \<longleftrightarrow> bit (register cs (base + DRIVE_HEAD_OFF)) 4"

text \<open>
  A drive with the sectors \<open>disk\<close>: a command to read one sector in the addressing mode of 28 bits is answered,
  after some time, with the sector and no error.
\<close>

definition reads_sectors :: "u8 list list \<Rightarrow> u16 \<Rightarrow> bool \<Rightarrow> drive \<Rightarrow> bool" where
  "reads_sectors disk base slave drive \<longleftrightarrow>
     (\<forall>cs. register cs (base + COMMAND_OFF) = CMD_READ_SEC \<longrightarrow> register cs (base + SEC_COUNT_OFF) = 1 \<longrightarrow>
       bit (register cs (base + DRIVE_HEAD_OFF)) 6 \<longrightarrow> selected_slave cs base = slave \<longrightarrow>
       selected_lba cs base < length disk \<longrightarrow>
       ata_wait (da_status (drive cs)) = Some 1 \<and> da_data (drive cs) = disk ! selected_lba cs base \<and>
       da_last (drive cs) AND STAT_DF = 0 \<and> da_last (drive cs) AND STAT_ERR = 0)"

section \<open>The address of a sector\<close>

lemma four_bytes:
  fixes n :: nat
  shows "n mod 256 + 256 * (n div 256 mod 256) + 65536 * (n div 256 div 256 mod 256) +
    16777216 * (n div 256 div 256 div 256) = n"
proof -
  have "n = 256 * (n div 256) + n mod 256" for n :: nat by simp
  from this [of n] this [of "n div 256"] this [of "n div 256 div 256"] show ?thesis by linarith
qed

lemma bytes_of_lba:
  fixes lba :: u32
  assumes "unat lba < 2 ^ 28"
  shows "unat lba mod 2 ^ 8 + 2 ^ 8 * (unat lba div 2 ^ 8 mod 2 ^ 8) + 2 ^ 16 * (unat lba div 2 ^ 16 mod 2 ^ 8) +
    2 ^ 24 * (unat lba div 2 ^ 24 mod 16) = unat lba"
proof -
  have "unat lba div 2 ^ 24 mod 16 = unat lba div 2 ^ 24" using assms by (simp add: div_less_iff_less_mult mod_less)
  moreover have "unat lba div 2 ^ 16 = unat lba div 2 ^ 8 div 2 ^ 8" "unat lba div 2 ^ 24 = unat lba div 2 ^ 8 div 2 ^ 8 div 2 ^ 8"
    by (simp_all add: div_mult2_eq [symmetric])
  ultimately show ?thesis using four_bytes [of "unat lba"] by simp
qed

lemma command_registers:
  "register (read_command lba dev) (ata_base_reg dev + LBA_LO_OFF) = ucast lba"
  "register (read_command lba dev) (ata_base_reg dev + LBA_MID_OFF) = ucast (drop_bit 8 lba)"
  "register (read_command lba dev) (ata_base_reg dev + LBA_HI_OFF) = ucast (drop_bit 16 lba)"
  "register (read_command lba dev) (ata_base_reg dev + COMMAND_OFF) = CMD_READ_SEC"
  "register (read_command lba dev) (ata_base_reg dev + SEC_COUNT_OFF) = 1"
  "register (read_command lba dev) (ata_base_reg dev + DRIVE_HEAD_OFF) =
    0xE0 OR push_bit 4 (slave_bit dev) OR (ucast (drop_bit 24 lba) AND 0x0F)"
  by (simp_all add: register_def read_command_def Let_def LBA_LO_OFF_def LBA_MID_OFF_def LBA_HI_OFF_def COMMAND_OFF_def
      SEC_COUNT_OFF_def DRIVE_HEAD_OFF_def ERROR_FEAT_OFF_def)

text \<open>The registers name the sector that was asked for, on the right drive of the bus.\<close>

lemma command_selects:
  assumes "unat lba < 2 ^ 28" and "slave_bit dev = (if slave then 1 else 0)"
  shows "selected_lba (read_command lba dev) (ata_base_reg dev) = unat lba"
    and "selected_slave (read_command lba dev) (ata_base_reg dev) = slave"
    and "bit (register (read_command lba dev) (ata_base_reg dev + DRIVE_HEAD_OFF)) 6"
proof -
  let ?h = "0xE0 OR push_bit 4 (slave_bit dev) OR (ucast (drop_bit 24 lba) AND 0x0F) :: u8"
  have "?h AND 0x0F = ucast (drop_bit 24 lba) AND 0x0F"
    using assms(2) by (simp add: bit.conj_disj_distrib2 and.assoc)
  then have "unat ?h mod 16 = unat (ucast (drop_bit 24 lba) :: u8) mod 16" by (simp flip: and_low_mask)
  also have "\<dots> = unat lba div 2 ^ 24 mod 16"
    by (simp add: unsigned_ucast_eq unsigned_drop_bit_eq drop_bit_eq_div take_bit_eq_mod mod_mod_cancel unat_div)
  finally have h: "unat ?h mod 16 = unat lba div 2 ^ 24 mod 16" .
  have b: "unat (ucast lba :: u8) = unat lba mod 2 ^ 8" "unat (ucast (drop_bit 8 lba) :: u8) = unat lba div 2 ^ 8 mod 2 ^ 8"
    "unat (ucast (drop_bit 16 lba) :: u8) = unat lba div 2 ^ 16 mod 2 ^ 8"
    by (simp_all add: unsigned_ucast_eq unsigned_drop_bit_eq drop_bit_eq_div take_bit_eq_mod unat_div)
  show "selected_lba (read_command lba dev) (ata_base_reg dev) = unat lba"
    unfolding selected_lba_def command_registers h b by (rule bytes_of_lba [OF assms(1)])
  show "selected_slave (read_command lba dev) (ata_base_reg dev) = slave"
    unfolding selected_slave_def command_registers using assms(2) by (simp add: bit_simps)
  show "bit (register (read_command lba dev) (ata_base_reg dev + DRIVE_HEAD_OFF)) 6"
    unfolding command_registers by (simp add: bit_simps)
qed

lemma ata_read_28_sector:
  assumes "reads_sectors disk (ata_base_reg dev) slave drive" and "slave_bit dev = (if slave then 1 else 0)"
    and "unat lba < length disk" and "length disk \<le> 2 ^ 28"
  shows "ata_read_28 lba dev drive = Some (0, disk ! unat lba)"
proof -
  have "unat lba < 2 ^ 28" using assms(3,4) by linarith
  note sel = command_selects [OF this assms(2)]
  let ?cs = "read_command lba dev"
  have "ata_wait (da_status (drive ?cs)) = Some 1 \<and> da_data (drive ?cs) = disk ! unat lba \<and>
      da_last (drive ?cs) AND STAT_DF = 0 \<and> da_last (drive ?cs) AND STAT_ERR = 0"
    using assms(1,3) sel command_registers(4,5) [of lba dev] unfolding reads_sectors_def by metis
  then show ?thesis by (simp add: ata_read_28_def Let_def)
qed

section \<open>Reading through the cache\<close>

definition cache_ok :: "u8 list list \<Rightarrow> ata_data \<Rightarrow> bool" where
  "cache_ok disk ata \<longleftrightarrow> (\<forall>n buf. disk_cache ata n = Some buf \<longrightarrow> unat n < length disk \<and> buf = disk ! unat n)"

text \<open>A drive of whole sectors that has been identified, with copies of its sectors in the cache.\<close>

definition disk_ok :: "u8 list list \<Rightarrow> bool \<Rightarrow> drive \<Rightarrow> ata_data \<Rightarrow> bool" where
  "disk_ok disk slave drive ata \<longleftrightarrow> reads_sectors disk (ata_base_reg ata) slave drive \<and>
     slave_bit ata = (if slave then 1 else 0) \<and> length disk * 512 < 2 ^ 31 \<and> (\<forall>s \<in> set disk. length s = 512) \<and>
     unat (prt_size ata) = length disk * 512 \<and> cache_ok disk ata"

lemma disk_ok_cache:
  "disk_ok disk slave drive ata \<Longrightarrow> cache_ok disk (ata\<lparr>disk_cache := c\<rparr>) \<Longrightarrow>
    disk_ok disk slave drive (ata\<lparr>disk_cache := c\<rparr>)"
  by (simp add: disk_ok_def)

lemma get_sector_ok:
  assumes "disk_ok disk slave drive ata" and "unat n < length disk"
  shows "\<exists>r buf ata1 ans1. get_sector drive n (ata, ans) = Some (r, buf, ata1, ans1) \<and> disk_ok disk slave drive ata1 \<and>
    prt_size ata1 = prt_size ata \<and> (r = 0 \<and> buf = disk ! unat n \<or> r = - ENOMEM \<and> ans \<noteq> []) \<and> (ans = [] \<longrightarrow> ans1 = [])"
proof (cases "disk_cache ata n")
  case (Some buf)
  then have "buf = disk ! unat n" using assms(1) unfolding disk_ok_def cache_ok_def by blast
  then show ?thesis using Some assms(1) by (simp add: get_sector_def)
next
  case None
  obtain ok ans1 where k1: "kmalloc ans = (ok, ans1)" by force
  obtain kept ans2 where k2: "kmalloc ans1 = (kept, ans2)" by force
  have e: "ok \<and> ans1 = [] \<and> ans2 = []" if "ans = []" using that k1 k2 by auto
  show ?thesis
  proof (cases ok)
    case False
    then show ?thesis using None k1 e assms(1) by (auto simp: get_sector_def)
  next
    case True
    have "reads_sectors disk (ata_base_reg ata) slave drive" "slave_bit ata = (if slave then 1 else 0)" "length disk \<le> 2 ^ 28"
      using assms(1) by (simp_all add: disk_ok_def)
    with ata_read_28_sector [OF _ _ assms(2)] have rd: "ata_read_28 n ata drive = Some (0, disk ! unat n)" by blast
    let ?c = "(disk_cache ata)(n \<mapsto> disk ! unat n)"
    have "cache_ok disk (ata\<lparr>disk_cache := ?c\<rparr>)" using assms by (simp add: disk_ok_def cache_ok_def)
    note d = disk_ok_cache [OF assms(1) this]
    have "get_sector drive n (ata, ans) =
        Some (0, disk ! unat n, if kept then ata\<lparr>disk_cache := ?c\<rparr> else ata, ans2)"
      using None k1 k2 True rd by (simp add: get_sector_def)
    then show ?thesis using d assms(1) e by simp
  qed
qed

text \<open>A piece of a sector is a piece of the disk.\<close>

lemma piece_of_concat:
  assumes "\<forall>s \<in> set ss. length s = 512" and "k < length ss" and "off + m \<le> 512"
  shows "take m (drop off (ss ! k)) = take m (drop (512 * k + off) (concat ss))"
  using assms
proof (induction ss arbitrary: k)
  case (Cons s ss)
  then show ?case by (cases k) simp_all
qed simp

lemma take_split: "m \<le> n \<Longrightarrow> take n (drop p xs) = take m (drop p xs) @ take (n - m) (drop (p + m) xs)"
  using take_add [of m "n - m" "drop p xs"] by (simp add: add.commute)

lemma ata_read_loop_ok:
  assumes "disk_ok disk slave drive ata" and "unat pos + unat nbytes \<le> length disk * 512"
  shows "\<exists>r bs pos1 ata1 ans1. ata_read_loop drive pos nbytes (ata, ans) = Some (r, bs, pos1, ata1, ans1) \<and>
    disk_ok disk slave drive ata1 \<and> prt_size ata1 = prt_size ata \<and>
    (r = 0 \<and> pos1 = pos + nbytes \<and> bs = take (unat nbytes) (drop (unat pos) (concat disk)) \<or> r = - ENOMEM \<and> ans \<noteq> [])"
  using assms
proof (induction "unat nbytes" arbitrary: pos nbytes ata ans rule: less_induct)
  case less
  show ?case
  proof (cases "nbytes = 0")
    case True
    then show ?thesis using less.prems(1) by (subst ata_read_loop.simps) simp
  next
    case False
    let ?n = "inner_nbytes pos nbytes"
    have nz: "0 < unat nbytes" using False by (simp add: unat_gt_0)
    have n: "unat ?n = min (512 - unat pos mod 512) (unat nbytes)" by (rule inner_nbytes_bounds)
    have sz: "length disk * 512 < 2 ^ 31" using less.prems(1) by (simp add: disk_ok_def)
    have "unat pos < length disk * 512" using nz less.prems(2) by linarith
    then have k: "unat (pos div 512) < length disk" by (simp add: unat_div div_less_iff_less_mult)
    from get_sector_ok [OF less.prems(1) k] obtain r buf ata1 ans1 where
      g: "get_sector drive (pos div 512) (ata, ans) = Some (r, buf, ata1, ans1)" and d1: "disk_ok disk slave drive ata1"
        "prt_size ata1 = prt_size ata" and r: "r = 0 \<and> buf = disk ! unat (pos div 512) \<or> r = - ENOMEM \<and> ans \<noteq> []"
        and e: "ans = [] \<longrightarrow> ans1 = []" by blast
    show ?thesis
    proof (cases "r = 0")
      case False
      then show ?thesis using \<open>nbytes \<noteq> 0\<close> g d1 r by (subst ata_read_loop.simps) simp
    next
      case True
      with r have buf: "buf = disk ! unat (pos div 512)" by simp
      have le: "unat ?n \<le> unat nbytes" using n by simp
      have up: "unat (pos + ?n) = unat pos + unat ?n" using less.prems(2) sz le by (intro unat_add_small) simp
      have un: "unat (nbytes - ?n) = unat nbytes - unat ?n" using le by (simp add: unat_sub_le word_le_nat_alt)
      have "unat (pos + ?n) + unat (nbytes - ?n) \<le> length disk * 512" using up un le less.prems(2) by linarith
      from less.hyps [OF inner_nbytes_less [OF \<open>nbytes \<noteq> 0\<close>] d1(1) this, of ans1] obtain r2 rest pos2 ata2 ans2 where
        l: "ata_read_loop drive (pos + ?n) (nbytes - ?n) (ata1, ans1) = Some (r2, rest, pos2, ata2, ans2)"
          "disk_ok disk slave drive ata2" "prt_size ata2 = prt_size ata1"
          "r2 = 0 \<and> pos2 = pos + ?n + (nbytes - ?n) \<and> rest = take (unat (nbytes - ?n)) (drop (unat (pos + ?n)) (concat disk)) \<or>
            r2 = - ENOMEM \<and> ans1 \<noteq> []" by blast
      have "unat pos mod 512 + unat ?n \<le> 512"
        using n min.cobounded1 [of "512 - unat pos mod 512" "unat nbytes"] mod_less_divisor [of 512 "unat pos"] by linarith
      then have "take (unat ?n) (drop (unat pos mod 512) buf) = take (unat ?n) (drop (512 * (unat pos div 512) + unat pos mod 512) (concat disk))"
        using less.prems(1) k unfolding buf by (simp add: disk_ok_def unat_div piece_of_concat)
      then have piece: "take (unat ?n) (drop (unat (pos mod 512)) buf) = take (unat ?n) (drop (unat pos) (concat disk))"
        by (simp add: unat_mod)
      have "take (unat nbytes) (drop (unat pos) (concat disk)) = take (unat ?n) (drop (unat pos) (concat disk)) @
          take (unat (nbytes - ?n)) (drop (unat (pos + ?n)) (concat disk))"
        unfolding up un by (rule take_split [OF le])
      with piece l(4) have bs: "r2 = 0 \<and> pos2 = pos + nbytes \<and>
          take (unat ?n) (drop (unat (pos mod 512)) buf) @ rest = take (unat nbytes) (drop (unat pos) (concat disk)) \<or>
          r2 = - ENOMEM \<and> ans \<noteq> []" using e by auto
      have "ata_read_loop drive pos nbytes (ata, ans) =
          Some (r2, take (unat ?n) (drop (unat (pos mod 512)) buf) @ rest, pos2, ata2, ans2)"
        by (subst ata_read_loop.simps) (simp add: \<open>nbytes \<noteq> 0\<close> g True l(1) Let_def)
      then show ?thesis using l(2,3) d1(2) bs by (intro exI conjI) (assumption | simp)+
    qed
  qed
qed

text \<open>C37: Reading the disk gives its bytes from the position on, as many as were asked for and are there, whatever
  was read before: a sector that comes from the cache is the drive's, and stays so.  The only error of a drive
  that answers is that memory has run out.\<close>

theorem ata_read_contents:
  assumes "disk_ok disk slave drive ata" and "unat pos \<le> length disk * 512"
  shows "\<exists>r bs pos1 ata1 ans1. ata_read drive pos nbytes (ata, ans) = Some (r, bs, pos1, ata1, ans1) \<and>
    disk_ok disk slave drive ata1 \<and>
    (r = int (length bs) \<and> bs = take (unat nbytes) (drop (unat pos) (concat disk)) \<and> pos1 = pos + word_of_nat (length bs) \<or>
     r = - ENOMEM \<and> ans \<noteq> [])"
proof -
  let ?left = "prt_size ata - pos"
  let ?n = "if nbytes > ?left then ?left else nbytes"
  have size: "unat (prt_size ata) = length disk * 512" "length disk * 512 < 2 ^ 31" "\<forall>s \<in> set disk. length s = 512"
    using assms(1) by (simp_all add: disk_ok_def)
  have len: "length (concat disk) = length disk * 512" using size(3) by (induction disk) auto
  have left: "unat ?left = length disk * 512 - unat pos" using assms(2) size(1) by (simp add: unat_sub_le word_le_nat_alt)
  then have n: "unat ?n = min (unat nbytes) (length disk * 512 - unat pos)" by (auto simp: word_less_nat_alt min_def)
  then have t: "take (unat ?n) (drop (unat pos) (concat disk)) = take (unat nbytes) (drop (unat pos) (concat disk))"
    using len by (simp add: min_def)
  have lt: "length (take (unat nbytes) (drop (unat pos) (concat disk))) = unat ?n" using n len by simp
  show ?thesis
  proof (cases "?n = 0")
    case True
    then have "ata_read drive pos nbytes (ata, ans) = Some (0, [], pos, ata, ans)" by (simp add: ata_read_def Let_def)
    then show ?thesis using assms(1) True t lt by simp
  next
    case False
    have "unat pos + unat ?n \<le> length disk * 512" using n assms(2) by simp
    from ata_read_loop_ok [OF assms(1) this, of ans] obtain r bs pos1 ata1 ans1 where
      l: "ata_read_loop drive pos ?n (ata, ans) = Some (r, bs, pos1, ata1, ans1)" "disk_ok disk slave drive ata1"
        "r = 0 \<and> pos1 = pos + ?n \<and> bs = take (unat ?n) (drop (unat pos) (concat disk)) \<or> r = - ENOMEM \<and> ans \<noteq> []"
      by blast
    have rd: "ata_read drive pos nbytes (ata, ans) = Some (if r \<noteq> 0 then r else s32 ?n, bs, pos1, ata1, ans1)"
      using False l(1) by (simp add: ata_read_def Let_def)
    have "unat ?n < 2 ^ 31" using n size(2) by linarith
    then have "s32 ?n = int (unat ?n)" using s32_of_nat [of "unat ?n"] by simp
    then show ?thesis using rd l(2,3) t lt by auto
  qed
qed

text \<open>A drive of two sectors.\<close>

definition sample_disk :: "u8 list list" where
  "sample_disk = [replicate 512 1, replicate 512 2]"

definition sample_drive :: drive where
  "sample_drive cs = \<lparr>da_status = [STAT_BSY, STAT_DRQ], da_data = sample_disk ! selected_lba cs 0x1F0, da_last = 0\<rparr>"

definition sample_ata :: ata_data where
  "sample_ata = \<lparr>slave_bit = 0, ata_base_reg = 0x1F0, prt_size = 1024, disk_cache = Map.empty\<rparr>"

lemma sample_disk_ok: "disk_ok sample_disk False sample_drive sample_ata"
  by (simp add: disk_ok_def reads_sectors_def cache_ok_def sample_disk_def sample_drive_def sample_ata_def
      ata_should_read_def STAT_BSY_def STAT_DRQ_def STAT_DF_def STAT_ERR_def)

lemma ata_read_contents_witness:
  "\<exists>pos1 ata1 ans1. ata_read sample_drive 511 2 (sample_ata, []) = Some (2, [1, 2], pos1, ata1, ans1)"
proof -
  have "unat (511 :: u32) \<le> length sample_disk * 512" by (simp add: sample_disk_def)
  from ata_read_contents [OF sample_disk_ok this, of 2 "[]"] obtain r bs pos1 ata1 ans1 where
    r: "ata_read sample_drive 511 2 (sample_ata, []) = Some (r, bs, pos1, ata1, ans1)"
      "r = int (length bs)" "bs = take 2 (drop 511 (concat sample_disk))" by auto
  have "bs = [1, 2]" unfolding r(3) by (simp add: sample_disk_def numeral_2_eq_2)
  with r(1,2) show ?thesis by auto
qed

text \<open>
  A read that fails in a later sector has already moved the position: the bytes before it are lost to the
  caller.  The sizes of disks of 4 GB and more are cut to 32 bits.
\<close>

lemma failed_read_moves_position:
  assumes "disk_cache ata (pos div 512) = Some buf" and "pos mod 512 = 0" and "disk_cache ata ((pos + 512) div 512) = None"
  shows "ata_read_loop drive pos 1024 (ata, [False]) = Some (- ENOMEM, take 512 buf, pos + 512, ata, [])"
proof -
  have n: "inner_nbytes pos 1024 = 512" using assms(2) by (simp add: inner_nbytes_def)
  have "ata_read_loop drive (pos + 512) 512 (ata, [False]) = Some (- ENOMEM, [], pos + 512, ata, [])"
    using assms(3) by (subst ata_read_loop.simps) (simp add: get_sector_def)
  then show ?thesis using assms(1,2) n by (subst ata_read_loop.simps) (simp add: get_sector_def Let_def)
qed

end
