(* ===== verification/Printf.thy ===== *)
theory Printf
  imports Strings "HOL-Library.Monad_Syntax"
begin

text \<open>
  Formatted output: \<open>lib/stdio.c\<close> and \<open>printk.c\<close>.  Strings are lists of bytes without the terminating zero;
  \<open>numeral_chars\<close> is what \<open>itoa\<close> writes (\<open>itoa_cstr\<close>).  A format is cut into the pieces that \<open>printf_emit\<close> is called
  with, which are then written to the target.  \<open>None\<close> is a read past the end of the format, an argument of the wrong
  kind, or a loop that does not end.
\<close>

section \<open>Format specifications\<close>

datatype printf_arg = PNum u32 | PStr "u8 list"

record printf_spec =
  sp_alternate :: bool
  sp_zero_pad :: bool
  sp_left_adjust :: bool
  sp_space :: bool
  sp_always_sign :: bool
  sp_width :: u32
  sp_given :: bool
  sp_precision :: u32
  sp_size :: nat

definition no_spec :: printf_spec where
  "no_spec = \<lparr>sp_alternate = False, sp_zero_pad = False, sp_left_adjust = False, sp_space = False,
     sp_always_sign = False, sp_width = 0, sp_given = False, sp_precision = 0, sp_size = 32\<rparr>"

text \<open>
  The flags: \<open>#\<close>, \<open>0\<close>, \<open>-\<close>, space and \<open>+\<close>.  The two lines that resolve conflicts are jumped over unless the
  format ends in the flags.
\<close>

fun parse_flags :: "printf_spec \<Rightarrow> u8 list \<Rightarrow> printf_spec \<times> u8 list" where
  "parse_flags sp [] = (sp\<lparr>sp_zero_pad := sp_zero_pad sp \<and> \<not> sp_left_adjust sp, sp_space := sp_space sp \<and> \<not> sp_always_sign sp\<rparr>, [])"
| "parse_flags sp (c # cs) =
     (if c = 35 then parse_flags (sp\<lparr>sp_alternate := True\<rparr>) cs
      else if c = 48 then parse_flags (sp\<lparr>sp_zero_pad := True\<rparr>) cs
      else if c = 45 then parse_flags (sp\<lparr>sp_left_adjust := True\<rparr>) cs
      else if c = 32 then parse_flags (sp\<lparr>sp_space := True\<rparr>) cs
      else if c = 43 then parse_flags (sp\<lparr>sp_always_sign := True\<rparr>) cs
      else (sp, c # cs))"

text \<open>\<open>atoi\<close> on the rest of the format.\<close>

fun atoi_chars :: "u32 \<Rightarrow> u8 list \<Rightarrow> u32 \<times> u8 list" where
  "atoi_chars r [] = (r, [])"
| "atoi_chars r (c # cs) =
     (if sint c < 48 \<or> sint c > 57 then (r, c # cs) else atoi_chars (r * 10 + of_s32 (sint c - 48)) cs)"

text \<open>The precision; without one, a width with leading zeros becomes the precision.\<close>

definition parse_precision :: "printf_spec \<Rightarrow> u8 list \<Rightarrow> printf_spec \<times> u8 list" where
  "parse_precision sp cs =
     (if cs \<noteq> [] \<and> hd cs = 46 then
        (let (p, cs1) = atoi_chars 0 (tl cs) in (sp\<lparr>sp_precision := p, sp_given := True\<rparr>, cs1))
      else if sp_zero_pad sp then (sp\<lparr>sp_precision := sp_width sp, sp_width := 0, sp_given := True\<rparr>, cs)
      else (sp, cs))"

text \<open>\<open>hh\<close>, \<open>h\<close>, and the lengths that are 32 bits.\<close>

definition parse_length :: "u8 list \<Rightarrow> nat \<times> u8 list" where
  "parse_length cs =
     (if take 2 cs = [104, 104] then (8, drop 2 cs)
      else if take 1 cs = [104] then (16, drop 1 cs)
      else if take 1 cs \<in> {[108], [106], [122], [116]} then (32, drop 1 cs)
      else (32, cs))"

definition parse_spec :: "u8 list \<Rightarrow> printf_spec \<times> u8 list" where
  "parse_spec cs =
     (let (sp, cs1) = parse_flags no_spec cs;
          (width, cs2) = atoi_chars 0 cs1;
          (sp1, cs3) = parse_precision (sp\<lparr>sp_width := width\<rparr>) cs2;
          (sz, cs4) = parse_length cs3 in
      (sp1\<lparr>sp_zero_pad := False, sp_size := sz\<rparr>, cs4))"

section \<open>Conversions\<close>

text \<open>A count kept in a signed variable and set to zero when it is negative.\<close>

definition pad_count :: "u32 \<Rightarrow> nat" where
  "pad_count n = (if s32 n < 0 then 0 else nat (s32 n))"

definition field :: "bool \<Rightarrow> nat \<Rightarrow> u8 list list \<Rightarrow> u8 list list" where
  "field left n body = (if left then body @ replicate n [32] else replicate n [32] @ body)"

definition signed_value :: "nat \<Rightarrow> u32 \<Rightarrow> int" where
  "signed_value sz w = (if sz = 8 then sint (ucast w :: u8) else if sz = 16 then sint (ucast w :: u16) else sint w)"

definition unsigned_value :: "nat \<Rightarrow> u32 \<Rightarrow> u32" where
  "unsigned_value sz w = (if sz = 8 then ucast (ucast w :: u8) else if sz = 16 then ucast (ucast w :: u16) else w)"

definition conv_decimal :: "printf_spec \<Rightarrow> u32 \<Rightarrow> u8 list list" where
  "conv_decimal sp w =
     (let v = signed_value (sp_size sp) w;
          precision = (if sp_given sp then sp_precision sp else 1);
          digits = (if v = 0 \<and> precision = 0 then [] else numeral_chars 10 (nat \<bar>v\<bar>));
          num_len = word_of_nat (length digits);
          zeros = pad_count (precision - num_len);
          sign = (if v < 0 then [[45]] else if sp_always_sign sp then [[43]] else if sp_space sp then [[32]] else []);
          spaces = pad_count (sp_width sp - num_len - word_of_nat zeros - word_of_nat (length sign)) in
      field (sp_left_adjust sp) spaces (sign @ replicate zeros [48] @ [digits]))"

definition to_lower :: "u8 \<Rightarrow> u8" where
  "to_lower c = (if 65 \<le> c \<and> c \<le> 70 then c + 32 else c)"

text \<open>\<open>o\<close>, \<open>u\<close>, \<open>p\<close>, \<open>x\<close> and \<open>X\<close> are 111, 117, 112, 120 and 88.\<close>

definition conv_unsigned :: "printf_spec \<Rightarrow> u8 \<Rightarrow> u32 \<Rightarrow> u8 list list" where
  "conv_unsigned sp0 c w =
     (let sp1 = (if c = 112 then sp0\<lparr>sp_alternate := True, sp_size := 32\<rparr> else sp0);
          v = unsigned_value (sp_size sp1) w;
          pre = (if sp_alternate sp1 \<and> c = 111 then [48] else []);
          sp = (if sp_alternate sp1 \<and> c \<in> {112, 120, 88} then sp1\<lparr>sp_given := True, sp_precision := 8\<rparr> else sp1);
          radix = (if c = 111 then 8 else if c = 117 then 10 else 16);
          precision = (if sp_given sp then sp_precision sp else 1);
          chars = (if v = 0 \<and> precision = 0 then [] else numeral_chars radix (unat v));
          num_len = word_of_nat (length chars);
          zeros = pad_count (precision - num_len);
          spaces = pad_count (sp_width sp - num_len - word_of_nat zeros - word_of_nat (length pre));
          digits = (if c = 120 \<or> c = 112 then map to_lower chars else chars) in
      field (sp_left_adjust sp) spaces ([pre] @ replicate zeros [48] @ [digits]))"

definition conv_string :: "printf_spec \<Rightarrow> u8 list \<Rightarrow> u8 list list" where
  "conv_string sp s =
     (let len = word_of_nat (length s);
          num_len = (if len > sp_precision sp \<and> sp_given sp then sp_precision sp else len);
          spaces = pad_count (sp_width sp - num_len) in
      field (sp_left_adjust sp) spaces
        (if \<not> sp_given sp \<or> sp_precision sp \<ge> len then [s]
         else map (\<lambda>c. [c]) (take (unat (sp_precision sp)) s)))"

text \<open>The pieces of one conversion and the arguments that are left.  An unknown conversion prints nothing.\<close>

definition convert :: "printf_spec \<Rightarrow> u8 \<Rightarrow> printf_arg list \<Rightarrow> (u8 list list \<times> printf_arg list) option" where
  "convert sp c args =
     (if c = 100 \<or> c = 105 then
        (case args of PNum w # as \<Rightarrow> Some (conv_decimal sp w, as) | _ \<Rightarrow> None)
      else if c \<in> {111, 117, 112, 120, 88} then
        (case args of PNum w # as \<Rightarrow> Some (conv_unsigned sp c w, as) | _ \<Rightarrow> None)
      else if c = 99 then
        (case args of PNum w # as \<Rightarrow> Some ([if (ucast w :: u8) = 0 then [] else [ucast w]], as) | _ \<Rightarrow> None)
      else if c = 115 then
        (case args of PStr s # as \<Rightarrow> Some (conv_string sp s, as) | _ \<Rightarrow> None)
      else if c = 37 then Some ([[37]], args)
      else Some ([], args))"

lemma parse_flags_length: "length (snd (parse_flags sp cs)) \<le> length cs"
  by (induction sp cs rule: parse_flags.induct) auto

lemma atoi_chars_length: "length (snd (atoi_chars r cs)) \<le> length cs"
  by (induction r cs rule: atoi_chars.induct) auto

lemma parse_precision_length: "length (snd (parse_precision sp cs)) \<le> length cs"
  using atoi_chars_length [of 0 "tl cs"] by (auto simp: parse_precision_def split: prod.splits)

lemma parse_length_length: "length (snd (parse_length cs)) \<le> length cs"
  by (simp add: parse_length_def)

lemma parse_spec_length: "length (snd (parse_spec cs)) \<le> length cs"
proof -
  obtain sp cs1 where 1: "parse_flags no_spec cs = (sp, cs1)" by fastforce
  obtain width cs2 where 2: "atoi_chars 0 cs1 = (width, cs2)" by fastforce
  obtain sp1 cs3 where 3: "parse_precision (sp\<lparr>sp_width := width\<rparr>) cs2 = (sp1, cs3)" by fastforce
  obtain sz cs4 where 4: "parse_length cs3 = (sz, cs4)" by fastforce
  show ?thesis
    using parse_flags_length [of no_spec cs] atoi_chars_length [of 0 cs1] parse_length_length [of cs3]
      parse_precision_length [of "sp\<lparr>sp_width := width\<rparr>" cs2]
    by (simp add: parse_spec_def 1 2 3 4)
qed

text \<open>
  The pieces of a format.  A format that ends inside a specification is read on behind its terminator.
\<close>

function printf_pieces :: "u8 list \<Rightarrow> printf_arg list \<Rightarrow> (u8 list list) option" where
  "printf_pieces [] args = Some []"
| "printf_pieces (c # cs) args =
     (if c \<noteq> 37 then do { ps \<leftarrow> printf_pieces cs args; Some ([c] # ps) }
      else (case parse_spec cs of
          (sp, []) \<Rightarrow> None
        | (sp, conv # rest) \<Rightarrow> do {
            (qs, args1) \<leftarrow> convert sp conv args;
            ps \<leftarrow> printf_pieces rest args1;
            Some (qs @ ps) }))"
  by pat_completeness auto
termination
proof (relation "measure (\<lambda>(cs, _). length cs)")
  fix c :: u8 and cs args sp ys conv rest a b
  assume "(sp, ys) = parse_spec cs" and "ys = conv # rest"
  then have "parse_spec cs = (sp, conv # rest)" by simp
  then show "((rest, b), (c # cs, args)) \<in> measure (\<lambda>(cs, _). length cs)"
    using parse_spec_length [of cs] by simp
qed auto

section \<open>Where the text goes\<close>

text \<open>
  A string buffer with the room that is left, an open file, or the terminal.  In a full buffer the loop of
  \<open>printf_emit\<close> does not move on.  \<open>write\<close> is the result of \<open>filp_write\<close>.
\<close>

datatype printf_dest = ToString "u8 list" int | ToFile "u8 list list" | ToTty "u8 list list"

record printf_target =
  pt_len :: int
  pt_dest :: printf_dest

fun emit_string :: "u8 list \<Rightarrow> u8 list \<Rightarrow> int \<Rightarrow> (u8 list \<times> int) option" where
  "emit_string [] buf room = Some (buf, room)"
| "emit_string (c # cs) buf room = (if room \<noteq> 0 then emit_string cs (buf @ [c]) (room - 1) else None)"

definition printf_emit :: "(u8 list \<Rightarrow> int) \<Rightarrow> u8 list \<Rightarrow> printf_target \<Rightarrow> printf_target option" where
  "printf_emit filp_write s t =
     (case pt_dest t of
       ToString buf room \<Rightarrow> do {
         (buf1, room1) \<leftarrow> emit_string s buf room;
         Some (t\<lparr>pt_len := pt_len t + int (length s), pt_dest := ToString buf1 room1\<rparr>) }
     | ToFile ss \<Rightarrow> Some (t\<lparr>pt_len := pt_len t + filp_write s, pt_dest := ToFile (ss @ [s])\<rparr>)
     | ToTty ss \<Rightarrow> Some (t\<lparr>pt_len := pt_len t + int (length s), pt_dest := ToTty (ss @ [s])\<rparr>))"

fun emit_all :: "(u8 list \<Rightarrow> int) \<Rightarrow> u8 list list \<Rightarrow> printf_target \<Rightarrow> printf_target option" where
  "emit_all w [] t = Some t"
| "emit_all w (s # ss) t = do { t1 \<leftarrow> printf_emit w s t; emit_all w ss t1 }"

definition do_printf :: "(u8 list \<Rightarrow> int) \<Rightarrow> u8 list \<Rightarrow> printf_arg list \<Rightarrow> printf_target \<Rightarrow> (int \<times> printf_target) option" where
  "do_printf w format args t = do {
     ps \<leftarrow> printf_pieces format args;
     t1 \<leftarrow> emit_all w ps t;
     Some (pt_len t1, t1) }"

definition vprintf :: "u8 list \<Rightarrow> printf_arg list \<Rightarrow> (int \<times> printf_target) option" where
  "vprintf format args = do_printf (\<lambda>_. 0) format args \<lparr>pt_len = 0, pt_dest = ToTty []\<rparr>"

definition vfprintf :: "(u8 list \<Rightarrow> int) \<Rightarrow> u8 list \<Rightarrow> printf_arg list \<Rightarrow> (int \<times> printf_target) option" where
  "vfprintf w format args = do_printf w format args \<lparr>pt_len = 0, pt_dest = ToFile []\<rparr>"

text \<open>The length and the bytes that were written to the buffer, with a zero when there is room for it.\<close>

definition vsnprintf :: "u32 \<Rightarrow> u8 list \<Rightarrow> printf_arg list \<Rightarrow> (int \<times> u8 list) option" where
  "vsnprintf bufsize format args = do {
     (res, t) \<leftarrow> do_printf (\<lambda>_. 0) format args \<lparr>pt_len = 0, pt_dest = ToString [] (s32 bufsize)\<rparr>;
     (case pt_dest t of
       ToString buf _ \<Rightarrow> Some (res, if of_s32 res < bufsize then buf @ [0] else buf)
     | _ \<Rightarrow> None) }"

section \<open>Kernel messages\<close>

text \<open>
  \<open>printk\<close> keeps an unfinished line (\<open>pending\<close>) in a buffer of 1024 bytes, of which the last stays zero.  \<open>split_lines\<close> is
  the loop over the line breaks: the lines and what is left.
\<close>

fun split_lines :: "u8 list \<Rightarrow> u8 list \<Rightarrow> u8 list list \<times> u8 list" where
  "split_lines line [] = ([], line)"
| "split_lines line (c # cs) =
     (if c = 10 then (let (ls, rest) = split_lines [] cs in (line # ls, rest)) else split_lines (line @ [c]) cs)"

definition printk :: "u8 list \<Rightarrow> u8 list \<Rightarrow> printf_arg list \<Rightarrow> (u8 list list \<times> u8 list) option" where
  "printk pending format args = do {
     (res, buf) \<leftarrow> vsnprintf (word_of_nat (1024 - length pending - 1)) format args;
     Some (split_lines [] (pending @ take (nat res) buf)) }"

text \<open>\<open>"[%d.%03d] %s\n"\<close> with the seconds and milliseconds since the start.\<close>

definition do_printk_line :: "u32 \<Rightarrow> u32 \<Rightarrow> u8 list \<Rightarrow> (u8 list list) option" where
  "do_printk_line sec nsec line =
     printf_pieces [91, 37, 100, 46, 37, 48, 51, 100, 93, 32, 37, 115, 10] [PNum sec, PNum (nsec div 1000000), PStr line]"

section \<open>Writing to a buffer\<close>

lemma emit_string_room:
  "0 \<le> room \<Longrightarrow> emit_string s buf room =
    (if int (length s) \<le> room then Some (buf @ s, room - int (length s)) else None)"
  by (induction s buf room rule: emit_string.induct) auto

lemma emit_all_room:
  "0 \<le> room \<Longrightarrow> emit_all w ss \<lparr>pt_len = n, pt_dest = ToString buf room\<rparr> =
    (if int (length (concat ss)) \<le> room
     then Some \<lparr>pt_len = n + int (length (concat ss)), pt_dest = ToString (buf @ concat ss) (room - int (length (concat ss)))\<rparr>
     else None)"
proof (induction ss arbitrary: n buf room)
  case Nil
  then show ?case by simp
next
  case (Cons s ss)
  show ?case
  proof (cases "int (length s) \<le> room")
    case True
    then have "printf_emit w s \<lparr>pt_len = n, pt_dest = ToString buf room\<rparr> =
        Some \<lparr>pt_len = n + int (length s), pt_dest = ToString (buf @ s) (room - int (length s))\<rparr>"
      using Cons.prems by (simp add: printf_emit_def emit_string_room)
    with True Cons.IH [of "room - int (length s)" "n + int (length s)" "buf @ s"] show ?thesis by simp
  next
    case False
    then show ?thesis using Cons.prems by (simp add: printf_emit_def emit_string_room)
  qed
qed

lemma vsnprintf_spec:
  assumes "printf_pieces format args = Some ps" and "unat bufsize < 2147483648"
  shows "vsnprintf bufsize format args =
    (let text = concat ps in
     if length text < unat bufsize then Some (int (length text), text @ [0])
     else if length text = unat bufsize then Some (int (length text), text)
     else None)"
proof -
  have s: "s32 bufsize = int (unat bufsize)" using s32_of_nat [OF assms(2)] by simp
  have e: "emit_all (\<lambda>_. 0) ps \<lparr>pt_len = 0, pt_dest = ToString [] (s32 bufsize)\<rparr> =
    (if length (concat ps) \<le> unat bufsize
     then Some \<lparr>pt_len = int (length (concat ps)), pt_dest = ToString (concat ps) (s32 bufsize - int (length (concat ps)))\<rparr>
     else None)"
    using emit_all_room [of "s32 bufsize" "\<lambda>_. 0" ps 0 "[]"] unfolding s by (simp del: of_nat_unat)
  show ?thesis
  proof (cases "length (concat ps) \<le> unat bufsize")
    case True
    have "(of_s32 (int (length (concat ps))) :: u32) < bufsize \<longleftrightarrow> length (concat ps) < unat bufsize"
      using True assms(2) by (simp add: of_s32_def word_less_nat_alt unat_word_small)
    then show ?thesis using True assms(1) e by (simp add: vsnprintf_def do_printf_def Let_def)
  next
    case False
    then show ?thesis using assms(1) e by (simp add: vsnprintf_def do_printf_def Let_def)
  qed
qed

text \<open>C33: \<open>vsnprintf\<close> returns exactly when the text fits in the buffer: then the buffer holds the text, with a terminating
  zero if there is room for one, and the result is its length.  With a longer text the call never returns.\<close>

theorem vsnprintf_returns_iff:
  assumes "printf_pieces format args = Some ps" and "unat bufsize < 2147483648"
  shows "vsnprintf bufsize format args =
    (let text = concat ps in
     if length text < unat bufsize then Some (int (length text), text @ [0])
     else if length text = unat bufsize then Some (int (length text), text)
     else None)"
  by (rule vsnprintf_spec [OF assms])

lemma printf_pieces_plain: "\<forall>c \<in> set s. c \<noteq> 37 \<Longrightarrow> printf_pieces s args = Some (map (\<lambda>c. [c]) s)"
  by (induction s) auto

lemma vsnprintf_returns_iff_witness:
  "vsnprintf 3 [104, 105] [] = Some (2, [104, 105, 0]) \<and> vsnprintf 1 [104, 105] [] = None"
proof -
  have "printf_pieces [104, 105] [] = Some [[104], [105]]" by simp
  from vsnprintf_returns_iff [OF this, of 3] vsnprintf_returns_iff [OF this, of 1] show ?thesis by (simp add: Let_def)
qed

section \<open>Decimal numbers\<close>

lemma numeral_chars_short: "n < 2 ^ 32 \<Longrightarrow> 0 < length (numeral_chars 10 n) \<and> length (numeral_chars 10 n) \<le> 32"
proof (cases "n = 0")
  case False
  assume "n < 2 ^ 32"
  then have "length (digits_rev 10 n) \<le> 32" using digits_rev_length [of 10 n 32] by simp
  moreover have "digits_rev 10 n \<noteq> []" using False by (subst digits_rev.simps) simp
  ultimately show ?thesis using False by (simp add: numeral_chars_def)
qed (simp add: numeral_chars_def)

lemma pad_count_diff:
  assumes "w < 2147483648" and "k < 2147483648"
  shows "pad_count (word_of_nat w - word_of_nat k) = w - k"
proof (cases "k \<le> w")
  case True
  then have "(word_of_nat w - word_of_nat k :: u32) = word_of_nat (w - k)" by (simp add: of_nat_diff)
  then show ?thesis using assms(1) s32_of_nat [of "w - k"] by (simp add: pad_count_def)
next
  case False
  define d where "d = k - w"
  have "(word_of_nat w - word_of_nat k :: u32) = word_of_int (- int d)"
    using False by (simp add: d_def of_nat_diff)
  moreover have "s32 (word_of_int (- int d)) = - int d"
  proof -
    have "s32 (word_of_int (- int d)) = signed_take_bit (LENGTH(32) - 1) (- int d)"
      unfolding s32_def by (rule sint_sbintrunc')
    also have "\<dots> = - int d" using assms(2) by (intro signed_take_bit_int_eq_self) (simp_all add: d_def)
    finally show ?thesis .
  qed
  ultimately show ?thesis using False by (simp add: pad_count_def d_def)
qed

lemma replicate_two: "replicate 2 x = [x, x]"
  by (simp add: numeral_2_eq_2)

lemma conv_decimal_plain:
  assumes "\<not> sp_given sp" and "sp_size sp = 32" and "\<not> sp_always_sign sp" and "\<not> sp_space sp"
  shows "conv_decimal sp w =
    (let digits = numeral_chars 10 (nat \<bar>sint w\<bar>); sign = (if sint w < 0 then [[45]] else []);
         zeros = pad_count (1 - word_of_nat (length digits)) in
     field (sp_left_adjust sp) (pad_count (sp_width sp - word_of_nat (length digits) - word_of_nat zeros - word_of_nat (length sign)))
       (sign @ replicate zeros [48] @ [digits]))"
  using assms by (simp add: conv_decimal_def signed_value_def Let_def)

text \<open>\<open>%d\<close> prints the value: a sign for a negative number and its decimal digits, which \<open>atoi\<close> reads back, filled up with
  spaces to the width on the left, or on the right with the flag \<open>-\<close>; numbers that are longer are not cut.\<close>

theorem decimal_field:
  assumes "\<not> sp_given sp" and "unat (sp_width sp) < 2147483648" and "sp_size sp = 32"
    and "\<not> sp_always_sign sp" and "\<not> sp_space sp"
  shows "concat (conv_decimal sp w) =
    (let body = (if sint w < 0 then [45] else []) @ numeral_chars 10 (nat \<bar>sint w\<bar>);
         fill = replicate (unat (sp_width sp) - length body) 32 in
     if sp_left_adjust sp then body @ fill else fill @ body)"
proof -
  define digits where "digits = numeral_chars 10 (nat \<bar>sint w\<bar>)"
  define sign :: "u8 list list" where "sign = (if sint w < 0 then [[45]] else [])"
  define n where "n = unat (sp_width sp)"
  have "\<bar>sint w\<bar> \<le> 2147483648" using sint_ge [of w] sint_lt [of w] by (auto simp: abs_if)
  then have "nat \<bar>sint w\<bar> < 2 ^ 32" by simp
  from numeral_chars_short [OF this] have len: "0 < length digits" "length digits \<le> 32" by (simp_all add: digits_def)
  have zeros: "pad_count (1 - word_of_nat (length digits)) = 0"
    using pad_count_diff [of 1 "length digits"] len by simp
  have sl: "length (concat sign) = length sign" "length sign \<le> 1" by (simp_all add: sign_def)
  have e: "sp_width sp - word_of_nat (length digits) - word_of_nat (length sign) = word_of_nat n - word_of_nat (length sign + length digits)"
    by (simp add: n_def)
  have "pad_count (sp_width sp - word_of_nat (length digits) - word_of_nat (length sign)) = n - (length sign + length digits)"
    unfolding e using len sl assms(2) by (intro pad_count_diff) (simp_all add: n_def)
  then have spaces: "pad_count (sp_width sp - word_of_nat (length digits) - word_of_nat (length sign)) = n - length (concat sign @ digits)"
    using sl(1) by (simp only: length_append)
  have "conv_decimal sp w = field (sp_left_adjust sp) (n - length (concat sign @ digits)) (sign @ [digits])"
    unfolding conv_decimal_plain [OF assms(1,3-5)] Let_def digits_def [symmetric] sign_def [symmetric] zeros
    using spaces by simp
  moreover have "concat sign = (if sint w < 0 then [45] else [])" by (simp add: sign_def)
  ultimately show ?thesis by (simp add: field_def Let_def n_def flip: digits_def)
qed

lemma decimal_field_witness:
  "concat (conv_decimal (no_spec\<lparr>sp_width := 5\<rparr>) (- 42)) = [32, 32, 45, 52, 50]"
proof -
  have "digits_rev 10 42 = [2, 4]"
    by (subst digits_rev.simps, simp, subst digits_rev.simps, simp, subst digits_rev.simps, simp)
  then have "numeral_chars 10 42 = [52, 50]" by (simp add: numeral_chars_def digit_char_def)
  then show ?thesis using decimal_field [of "no_spec\<lparr>sp_width := 5\<rparr>" "- 42"] by (simp add: no_spec_def Let_def replicate_two)
qed

section \<open>Lines\<close>

text \<open>Cutting a text into lines does not depend on how it arrives.\<close>

lemma split_lines_append:
  "split_lines line (a @ b) =
    (let (ls, rest) = split_lines line a; (ls2, rest2) = split_lines rest b in (ls @ ls2, rest2))"
proof (induction line a rule: split_lines.induct)
  case (1 line)
  then show ?case by (simp split: prod.splits)
next
  case (2 line c cs)
  then show ?case by (simp add: Let_def split: prod.splits)
qed

lemma split_lines_no_break: "10 \<notin> set a \<Longrightarrow> split_lines line a = ([], line @ a)"
  by (induction line a rule: split_lines.induct) auto

lemma split_lines_rest: "10 \<notin> set line \<Longrightarrow> 10 \<notin> set (snd (split_lines line a))"
  by (induction line a rule: split_lines.induct) (auto simp: Let_def split: prod.splits)

lemma split_lines_length: "length (snd (split_lines line a)) \<le> length line + length a"
proof (induction line a rule: split_lines.induct)
  case (2 line c cs)
  then show ?case by (cases "c = 10") (auto simp: Let_def split: prod.splits)
qed simp

lemma split_lines_pending: "10 \<notin> set line \<Longrightarrow> split_lines [] (line @ a) = split_lines line a"
  by (simp add: split_lines_append split_lines_no_break)

lemma printk_fits:
  assumes "printf_pieces format args = Some ps" and "length pending + length (concat ps) < 1024"
  shows "printk pending format args = Some (split_lines [] (pending @ concat ps))"
proof -
  have n: "unat (word_of_nat (1024 - length pending - 1) :: u32) = 1024 - length pending - 1"
    by (intro unat_word_small) simp
  have "\<exists>buf. vsnprintf (word_of_nat (1024 - length pending - 1)) format args = Some (int (length (concat ps)), buf) \<and>
      take (length (concat ps)) buf = concat ps"
    using vsnprintf_spec [OF assms(1), of "word_of_nat (1024 - length pending - 1)"] assms(2) n
    by (cases "length (concat ps) < 1024 - length pending - 1") (auto simp: Let_def)
  then show ?thesis by (auto simp: printk_def)
qed

text \<open>Messages may be printed in pieces: two calls of \<open>printk\<close> print the same lines, and leave the same unfinished line,
  as one call with the texts joined.\<close>

theorem printk_in_pieces:
  assumes "printf_pieces f1 a1 = Some p1" and "printf_pieces f2 a2 = Some p2" and "printf_pieces f a = Some (p1 @ p2)"
    and "10 \<notin> set pending" and "length pending + length (concat p1) + length (concat p2) < 1024"
  shows "\<exists>l1 r1 l2 r2. printk pending f1 a1 = Some (l1, r1) \<and> printk r1 f2 a2 = Some (l2, r2) \<and>
    printk pending f a = Some (l1 @ l2, r2) \<and> 10 \<notin> set r2"
proof -
  obtain l1 r1 where s1: "split_lines pending (concat p1) = (l1, r1)" by fastforce
  obtain l2 r2 where s2: "split_lines r1 (concat p2) = (l2, r2)" by fastforce
  have r1: "10 \<notin> set r1" using split_lines_rest [OF assms(4), of "concat p1"] s1 by simp
  have r2: "10 \<notin> set r2" using split_lines_rest [OF r1, of "concat p2"] s2 by simp
  have "length r1 \<le> length pending + length (concat p1)"
    using split_lines_length [of pending "concat p1"] s1 by simp
  then have "printk r1 f2 a2 = Some (l2, r2)"
    using printk_fits [OF assms(2), of r1] assms(5) r1 s2 by (simp add: split_lines_pending)
  moreover have "printk pending f1 a1 = Some (l1, r1)"
    using printk_fits [OF assms(1), of pending] assms(4,5) s1 by (simp add: split_lines_pending)
  moreover have "printk pending f a = Some (l1 @ l2, r2)"
  proof -
    have "split_lines pending (concat (p1 @ p2)) = (l1 @ l2, r2)"
      using split_lines_append [of pending "concat p1" "concat p2"] s1 s2 by simp
    then show ?thesis using printk_fits [OF assms(3), of pending] assms(4,5) by (simp add: split_lines_pending)
  qed
  ultimately show ?thesis using r2 by blast
qed

lemma printk_in_pieces_witness:
  "\<exists>l1 r1 l2 r2. printk [] [97, 10, 98] [] = Some (l1, r1) \<and> printk r1 [99, 10] [] = Some (l2, r2) \<and>
    printk [] [97, 10, 98, 99, 10] [] = Some (l1 @ l2, r2)"
  using printk_in_pieces [of "[97, 10, 98]" "[]" "[[97], [10], [98]]" "[99, 10]" "[]" "[[99], [10]]" "[97, 10, 98, 99, 10]" "[]" "[]"]
  by auto

text \<open>The line that is printed: seconds, milliseconds with three digits, and the text.\<close>

lemma do_printk_line_example:
  "map_option concat (do_printk_line 12 5000000 [111, 107]) =
    Some ([91, 49, 50, 46, 48, 48, 53, 93, 32] @ [111, 107, 10])"
proof -
  have "digits_rev 10 12 = [2, 1]" "digits_rev 10 5 = [5]"
    by (subst digits_rev.simps, simp, subst digits_rev.simps, simp, subst digits_rev.simps, simp)
      (subst digits_rev.simps, simp, subst digits_rev.simps, simp)
  then have "numeral_chars 10 12 = [49, 50]" "numeral_chars 10 5 = [53]" by (simp_all add: numeral_chars_def digit_char_def)
  then show ?thesis
    by (simp add: do_printk_line_def parse_spec_def parse_precision_def parse_length_def no_spec_def of_s32_def
        convert_def conv_decimal_def conv_string_def signed_value_def field_def pad_count_def s32_def Let_def replicate_two)
qed

text \<open>With \<open>0\<close> and \<open>-\<close> the zeros win, against the comment that cites the standard.\<close>

lemma zero_pad_beats_left_adjust:
  "map_option concat (printf_pieces [37, 45, 48, 51, 100] [PNum 5]) = Some [48, 48, 53]"
proof -
  have "digits_rev 10 5 = [5]" by (subst digits_rev.simps, simp, subst digits_rev.simps, simp)
  then have "numeral_chars 10 5 = [53]" by (simp add: numeral_chars_def digit_char_def)
  then show ?thesis
    by (simp add: parse_spec_def parse_precision_def parse_length_def no_spec_def of_s32_def
        convert_def conv_decimal_def signed_value_def field_def pad_count_def s32_def Let_def replicate_two)
qed

text \<open>A format that ends in the middle of a specification is read past its end.\<close>

lemma printf_reads_past_format: "printf_pieces [37] args = None"
  by (simp add: parse_spec_def parse_precision_def parse_length_def Let_def)

end
