(* ===== verification/Ece391fs.thy ===== *)
theory Ece391fs
  imports Ustar
begin

text \<open>
  \<open>fs/ece391fs.c\<close>, the read-only file system of the course, and \<open>block/initrd.c\<close>, the memory disk it lies on.
  The disk is a list of bytes.  The file system is a boot block with the names, then a block per inode with the numbers
  of its data blocks, then the data blocks.  A result of \<open>None\<close> is an access outside the boot block or through
  \<open>NULL\<close>, a variable that was not set, or a loop that does not end.
\<close>

section \<open>The disk\<close>

definition initrd_read :: "u8 list \<Rightarrow> u32 \<Rightarrow> u32 \<Rightarrow> u8 list \<times> u32" where
  "initrd_read img pos nbytes =
     (let max_nbytes = word_of_nat (length img) - pos;
          n = (if nbytes > max_nbytes then max_nbytes else nbytes) in
      (take (unat n) (drop (unat pos) img), pos + n))"

text \<open>\<open>SEEK_SET\<close>, \<open>SEEK_CUR\<close> and \<open>SEEK_END\<close> are 0, 1 and 2.  The end of the disk cannot be sought.\<close>

definition initrd_seek :: "u8 list \<Rightarrow> u32 \<Rightarrow> u32 \<Rightarrow> int \<Rightarrow> int + u32" where
  "initrd_seek img pos offset whence =
     (if whence \<notin> {0, 1, 2} then Inl (- EINVAL)
      else (let new_pos = (if whence = 0 then offset else if whence = 1 then pos + offset
                           else word_of_nat (length img) + offset) in
        if new_pos \<ge> word_of_nat (length img) \<or> s32 new_pos < 0 then Inl (- EINVAL) else Inr new_pos))"

text \<open>A seek to an offset and a read there, as the file system uses the disk: the result and the bytes.\<close>

definition initrd_dev :: "u8 list \<Rightarrow> u32 \<Rightarrow> u32 \<Rightarrow> int \<times> u8 list" where
  "initrd_dev img offset nbytes =
     (case initrd_seek img 0 offset 0 of
       Inl e \<Rightarrow> (e, [])
     | Inr pos \<Rightarrow> (let bs = fst (initrd_read img pos nbytes) in (int (length bs), bs)))"

section \<open>The boot block\<close>

definition BLOCK_SIZE :: nat where "BLOCK_SIZE = 4096"

definition get_long :: "nat \<Rightarrow> u8 list \<Rightarrow> u32" where
  "get_long i bs = word_of_nat (unat (bs ! i) + 256 * (unat (bs ! (i + 1)) + 256 * (unat (bs ! (i + 2)) + 256 * unat (bs ! (i + 3)))))"

definition num_dentry :: "u8 list \<Rightarrow> u32" where "num_dentry bb = get_long 0 bb"
definition num_inode :: "u8 list \<Rightarrow> u32" where "num_inode bb = get_long 4 bb"

record ece391fs_dentry =
  fd_name :: "u8 list" \<comment> \<open>32 bytes\<close>
  fd_type :: u32
  fd_inode_num :: u32

definition dentry_off :: "nat \<Rightarrow> nat" where
  "dentry_off i = 64 + 64 * i"

definition dentry_at :: "u8 list \<Rightarrow> nat \<Rightarrow> ece391fs_dentry option" where
  "dentry_at bb i =
     (if dentry_off i + 64 > length bb then None
      else Some \<lparr>fd_name = take 32 (drop (dentry_off i) bb), fd_type = get_long (dentry_off i + 32) bb,
        fd_inode_num = get_long (dentry_off i + 36) bb\<rparr>)"

text \<open>
  \<open>strncmp\<close> of the 32 bytes with a name that has no zero and at most 32 bytes is equality up to the first zero.
  The scan starts at entry \<open>i\<close> with \<open>n\<close> entries to go.
\<close>

fun read_dentry_by_name :: "u8 list \<Rightarrow> name \<Rightarrow> nat \<Rightarrow> nat \<Rightarrow> (int + nat) option" where
  "read_dentry_by_name bb fname i 0 = Some (Inl (- ENOENT))"
| "read_dentry_by_name bb fname i (Suc n) =
     (if length fname > 32 then Some (Inl (- ENOENT))
      else do {
        d \<leftarrow> dentry_at bb i;
        if takeWhile (\<lambda>c. c \<noteq> 0) (fd_name d) = fname then Some (Inr i)
        else read_dentry_by_name bb fname (Suc i) n })"

definition ece391fs_read_dentry_by_name :: "u8 list \<Rightarrow> name \<Rightarrow> (int + nat) option" where
  "ece391fs_read_dentry_by_name bb fname = read_dentry_by_name bb fname 0 (unat (num_dentry bb))"

definition ece391fs_read_dentry_by_index :: "u8 list \<Rightarrow> u32 \<Rightarrow> (nat option) option" where
  "ece391fs_read_dentry_by_index bb index =
     (if index \<ge> num_dentry bb then Some None else do { _ \<leftarrow> dentry_at bb (unat index); Some (Some (unat index)) })"

section \<open>Reading\<close>

text \<open>At most one block: its number is read from the block of the inode, then the data from there.\<close>

definition ece391fs_read_data ::
    "(u32 \<Rightarrow> u32 \<Rightarrow> int \<times> u8 list) \<Rightarrow> u32 \<Rightarrow> u32 \<Rightarrow> u32 \<Rightarrow> u32 \<Rightarrow> (int \<times> u8 list) option" where
  "ece391fs_read_data dev n_inode inode offset len =
     (let (res, bs) = dev ((inode + 1) * 4096 + (offset div 4096 + 1) * 4) 4 in
      if res < 0 then Some (res, [])
      else if length bs < 4 then None
      else (let block_id = get_long 0 bs; left = 4096 - offset mod 4096 in
        Some (dev ((n_inode + block_id + 1) * 4096 + offset mod 4096) (if len > left then left else len))))"

text \<open>The loop over the blocks: the result, the bytes and the new position.\<close>

partial_function (option) ece391fs_read_loop ::
    "(u32 \<Rightarrow> u32 \<Rightarrow> int \<times> u8 list) \<Rightarrow> u32 \<Rightarrow> u32 \<Rightarrow> u32 \<Rightarrow> u32 \<Rightarrow> (int \<times> u8 list \<times> u32) option" where
  "ece391fs_read_loop dev n_inode ino pos nbytes =
     (if nbytes = 0 then Some (0, [], pos)
      else do {
        (res, bs) \<leftarrow> ece391fs_read_data dev n_inode ino pos nbytes;
        if res < 0 then Some (res, [], pos)
        else do {
          (r, rest, pos1) \<leftarrow> ece391fs_read_loop dev n_inode ino (pos + of_s32 res) (nbytes - of_s32 res);
          Some (r, bs @ rest, pos1) } })"

definition ece391fs_read ::
    "(u32 \<Rightarrow> u32 \<Rightarrow> int \<times> u8 list) \<Rightarrow> u32 \<Rightarrow> inode \<Rightarrow> u32 \<Rightarrow> u32 \<Rightarrow> (int \<times> u8 list \<times> u32) option" where
  "ece391fs_read dev n_inode ino pos nbytes =
     (let left = i_size ino - pos; n = (if nbytes > left then left else nbytes) in
      do {
        (r, bs, pos1) \<leftarrow> ece391fs_read_loop dev n_inode (i_ino ino) pos n;
        Some (if r < 0 then r else s32 n, bs, pos1) })"

text \<open>The type of an entry; \<open>uninit\<close> is what the variable holds when there is no case.\<close>

definition ece391fs_dtype :: "u32 \<Rightarrow> u32 \<Rightarrow> u32" where
  "ece391fs_dtype ty uninit =
     (if ty = 0 then 0x2000 else if ty = 1 then 0x4000 else if ty = 2 then 0x8000 else uninit)"

text \<open>The length of a name: \<open>strlen\<close> runs on behind the field, its result is cut to a byte, then to 32.\<close>

definition dentry_name_len :: "u8 list \<Rightarrow> nat \<Rightarrow> nat option" where
  "dentry_name_len bb i =
     (let rest = drop (dentry_off i) bb in
      if 0 \<notin> set rest then None
      else Some (min 32 (unat (word_of_nat (length (takeWhile (\<lambda>c. c \<noteq> 0) rest)) :: u8))))"

function ece391fs_readdir :: "u8 list \<Rightarrow> u32 \<Rightarrow> 'd filldir \<Rightarrow> u32 \<Rightarrow> int \<Rightarrow> 'd \<Rightarrow> (int \<times> u32 \<times> 'd) option" where
  "ece391fs_readdir bb uninit filldir pos i d =
     (if pos \<ge> num_dentry bb then Some (i, pos, d)
      else do {
        e \<leftarrow> dentry_at bb (unat pos);
        len \<leftarrow> dentry_name_len bb (unat pos);
        let (res, d1) = filldir d (take len (fd_name e)) (word_of_nat len) pos (fd_inode_num e) (ece391fs_dtype (fd_type e) uninit);
        if res < 0 then Some (i, pos, d1)
        else if res > 0 then Some (i + 1, pos + 1, d1)
        else ece391fs_readdir bb uninit filldir (pos + 1) (i + 1) d1 })"
  by pat_completeness auto
termination
  by (relation "measure (\<lambda>(bb, _, _, pos, _). unat (num_dentry bb - pos))") (auto simp: not_le intro: word_up_measure)

section \<open>Inodes\<close>

definition ece391fs_read_inode :: "u8 list \<Rightarrow> (u32 \<Rightarrow> u32 \<Rightarrow> int \<times> u8 list) \<Rightarrow> nat \<Rightarrow> inode \<Rightarrow> (int \<times> inode) option" where
  "ece391fs_read_inode bb dev i ino = do {
     d \<leftarrow> dentry_at bb i;
     let ino1 = ino\<lparr>i_ino := fd_inode_num d, i_nlink := 1\<rparr>;
     if fd_type d = 0 then Some (0, ino1\<lparr>i_rdev := 0xA87, i_mode := S_IFCHR OR 0x124\<rparr>)
     else if fd_type d = 1 then Some (0, ino1\<lparr>i_mode := S_IFDIR OR 0x16D\<rparr>)
     else if fd_type d = 2 then
       (let (res, bs) = dev ((fd_inode_num d + 1) * 4096) 4 in
        if res < 0 then Some (res, ino1)
        else if length bs < 4 then None
        else Some (0, ino1\<lparr>i_size := get_long 0 bs, i_mode := S_IFREG OR 0x16D\<rparr>))
     else Some (0, ino1) }"

text \<open>
  \<open>bb_addr\<close> is the address of the boot block, \<open>addr\<close> that of a new inode.  The result of \<open>kmalloc\<close> is compared
  wrongly, so failure is a write through \<open>NULL\<close>.
\<close>

definition ece391fs_ino_lookup ::
    "u8 list \<Rightarrow> ptr \<Rightarrow> (u32 \<Rightarrow> u32 \<Rightarrow> int \<times> u8 list) \<Rightarrow> (fsys \<Rightarrow> ptr) \<Rightarrow> ptr \<Rightarrow> name \<Rightarrow> u32 \<Rightarrow> fsys
       \<Rightarrow> (int \<times> ptr \<times> fsys) option" where
  "ece391fs_ino_lookup bb bb_addr dev addr inode nm flags st = do {
     ino \<leftarrow> fs_inodes st inode;
     r \<leftarrow> ece391fs_read_dentry_by_name bb nm;
     (case r of
       Inl e \<Rightarrow> Some (e, 0, st)
     | Inr k \<Rightarrow>
         let (ok, st1) = fs_kmalloc st; i = addr st1 in
         if \<not> ok \<or> fs_inodes st1 i \<noteq> None then None
         else do {
           (res, new) \<leftarrow> ece391fs_read_inode bb dev k
             \<lparr>i_refcount = 1, i_ino = 0, i_nlink = 0, i_uid = 0, i_gid = 0, i_rdev = 0, i_size = 0, i_time = 0,
               i_mode = 0, i_vendor = bb_addr + word_of_nat (dentry_off k), i_sb = i_sb ino\<rparr>;
           if res < 0 then Some (res, i, st1)
           else Some (0, i, set_inode i (Some new) st1) }) }"

text \<open>\<open>init\<close> copies the boot block; the answer is the boot block, or the error.\<close>

definition ece391fs_init :: "(u32 \<Rightarrow> u32 \<Rightarrow> int \<times> u8 list) \<Rightarrow> bool \<Rightarrow> int + u8 list" where
  "ece391fs_init dev ok =
     (if \<not> ok then Inl (- ENOMEM)
      else (let (res, bs) = dev 0 4096 in if res < 0 then Inl res else Inr bs))"

section \<open>The promises of the file system\<close>

lemma read_inode_refcount: "ece391fs_read_inode bb dev k ino = Some (res, new) \<Longrightarrow> i_refcount new = i_refcount ino"
  by (auto simp: ece391fs_read_inode_def bind_eq_Some_conv Let_def split: if_splits prod.splits)

lemma read_dentry_err: "read_dentry_by_name bb nm i n = Some (Inl e) \<Longrightarrow> e < 0"
  by (induction bb nm i n rule: read_dentry_by_name.induct) (auto simp: bind_eq_Some_conv split: if_splits)

lemma ece391fs_lookup_cases:
  assumes "ece391fs_ino_lookup bb bb_addr dev addr inode nm flags st = Some (res, nxt, st')"
  obtains (fails) "res < 0" and "inode_refs st' = inode_refs st" and "fs_files st' = fs_files st"
  | (found) new st1 where "res = 0" and "st' = set_inode nxt (Some new) st1" and "i_refcount new = 1" and "fs_inodes st1 nxt = None"
      and "inode_refs st1 = inode_refs st" and "fs_files st1 = fs_files st"
proof -
  from assms obtain ino r where r: "fs_inodes st inode = Some ino" "ece391fs_read_dentry_by_name bb nm = Some r"
    by (auto simp: ece391fs_ino_lookup_def bind_eq_Some_conv)
  obtain ok st1 where k: "fs_kmalloc st = (ok, st1)" by (cases "fs_kmalloc st")
  note frame = fs_kmalloc_refs [of st] fs_kmalloc_files [OF k]
  show thesis
  proof (cases r)
    case (Inl e)
    then have "e < 0" using read_dentry_err r(2) by (auto simp: ece391fs_read_dentry_by_name_def)
    with fails show thesis using assms r Inl by (simp add: ece391fs_ino_lookup_def)
  next
    case (Inr i)
    let ?blank = "\<lparr>i_refcount = 1, i_ino = 0, i_nlink = 0, i_uid = 0, i_gid = 0, i_rdev = 0, i_size = 0, i_time = 0,
        i_mode = 0, i_vendor = bb_addr + word_of_nat (dentry_off i), i_sb = i_sb ino\<rparr>"
    from assms r k Inr have ok: "ok" "fs_inodes st1 (addr st1) = None"
      by (auto simp: ece391fs_ino_lookup_def Let_def split: if_splits)
    with assms r k Inr obtain e new where e: "ece391fs_read_inode bb dev i ?blank = Some (e, new)"
      by (auto simp: ece391fs_ino_lookup_def Let_def bind_eq_Some_conv)
    with assms r k Inr ok have new: "nxt = addr st1" "if e < 0 then res = e \<and> st' = st1 else res = 0 \<and> st' = set_inode nxt (Some new) st1"
      by (auto simp: ece391fs_ino_lookup_def Let_def split: if_splits)
    have ref: "i_refcount new = 1" using read_inode_refcount [OF e] by simp
    show thesis
    proof (cases "e < 0")
      case True
      with new frame k fails show thesis by simp
    next
      case False
      with new ref ok frame k show thesis by (intro found [of st1 new]) simp_all
    qed
  qed
qed

interpretation ece391fs: file_system "ece391fs_ino_lookup bb bb_addr dev addr" default_ino_create for bb bb_addr dev addr
proof unfold_locales
  fix i c flags st res nxt st'
  assume "ece391fs_ino_lookup bb bb_addr dev addr i c flags st = Some (res, nxt, st')"
  then show "inode_refs st' = (if res < 0 then inode_refs st else (inode_refs st)(nxt := inode_refs st nxt + 1))"
  proof (cases rule: ece391fs_lookup_cases)
    case (found new st1)
    have "inode_refs st1 nxt = 0" using found(4) by (simp add: inode_refs_def)
    then have z: "inode_refs st nxt = 0" using found(5) by simp
    have "inode_refs (set_inode nxt (Some new) st1) = (inode_refs st1)(nxt := 1)"
      using found(3) by (simp add: inode_refs_def fun_eq_iff)
    then show ?thesis using z found(1,2,5) by simp
  qed simp
next
  fix i c flags mode st res nxt st'
  assume "default_ino_create i c flags mode st = Some (res, nxt, st')"
  then show "inode_refs st' = (if res < 0 then inode_refs st else (inode_refs st)(nxt := inode_refs st nxt + 1))"
    by (auto simp: default_ino_create_def)
next
  fix i c flags st res nxt st'
  assume "ece391fs_ino_lookup bb bb_addr dev addr i c flags st = Some (res, nxt, st')"
  then show "fs_files st' = fs_files st" by (cases rule: ece391fs_lookup_cases) simp_all
next
  fix i c flags mode st res nxt st'
  assume "default_ino_create i c flags mode st = Some (res, nxt, st')"
  then show "fs_files st' = fs_files st" by (auto simp: default_ino_create_def)
qed

section \<open>The contents of a file\<close>

text \<open>Where the bytes of a file are: the number of a block is in the block of the inode.\<close>

definition block_number :: "u8 list \<Rightarrow> nat \<Rightarrow> nat \<Rightarrow> nat" where
  "block_number img ino k = unat (get_long ((ino + 1) * 4096 + (k + 1) * 4) img)"

definition byte_place :: "u8 list \<Rightarrow> nat \<Rightarrow> nat \<Rightarrow> nat \<Rightarrow> nat" where
  "byte_place img n_inode ino off = (n_inode + block_number img ino (off div 4096) + 1) * 4096 + off mod 4096"

definition file_content :: "u8 list \<Rightarrow> nat \<Rightarrow> nat \<Rightarrow> nat \<Rightarrow> u8 list" where
  "file_content img n_inode ino sz = map (\<lambda>off. img ! byte_place img n_inode ino off) [0..<sz]"

text \<open>The image holds the whole file: the numbers of its blocks, and the blocks.\<close>

definition file_ok :: "u8 list \<Rightarrow> nat \<Rightarrow> nat \<Rightarrow> nat \<Rightarrow> bool" where
  "file_ok img n_inode ino sz \<longleftrightarrow> length img < 2 ^ 31 \<and> (\<forall>k. k * 4096 < sz \<longrightarrow>
     (ino + 1) * 4096 + (k + 1) * 4 + 4 \<le> length img \<and> (n_inode + block_number img ino k + 2) * 4096 \<le> length img)"

lemma initrd_dev_ok:
  assumes "a < length img" and "length img < 2 ^ 31" and "n < 2 ^ 32"
  shows "initrd_dev img (word_of_nat a) (word_of_nat n) = (int (min n (length img - a)), take n (drop a img))"
proof -
  have ua: "unat (word_of_nat a :: u32) = a" and ul: "unat (word_of_nat (length img) :: u32) = length img"
    and un: "unat (word_of_nat n :: u32) = n" using assms by (simp_all add: unat_of_nat)
  have lt: "(word_of_nat a :: u32) < word_of_nat (length img)" using assms(1) ua ul by (simp add: word_less_nat_alt)
  have "s32 (word_of_nat a) = int a" using assms by (intro s32_of_nat) simp
  then have seek: "initrd_seek img 0 (word_of_nat a) 0 = Inr (word_of_nat a)"
    using lt by (simp add: initrd_seek_def Let_def not_le)
  have d: "unat (word_of_nat (length img) - word_of_nat a :: u32) = length img - a"
    using lt ua ul by (simp add: unat_sub_le)
  have "unat (if word_of_nat n > (word_of_nat (length img) - word_of_nat a :: u32) then word_of_nat (length img) - word_of_nat a else word_of_nat n :: u32)
      = min n (length img - a)"
    using d un by (auto simp: word_less_nat_alt min_def)
  then have "fst (initrd_read img (word_of_nat a) (word_of_nat n)) = take (min n (length img - a)) (drop a img)"
    by (simp add: initrd_read_def Let_def ua)
  moreover have "take (min n (length img - a)) (drop a img) = take n (drop a img)" by (auto simp: min_def)
  ultimately show ?thesis using seek by (simp add: initrd_dev_def Let_def)
qed

lemma take_drop_map:
  assumes "p + m \<le> sz" and "b + m \<le> length img" and "\<And>j. j < m \<Longrightarrow> f (p + j) = b + j"
  shows "take m (drop p (map (\<lambda>off. img ! f off) [0..<sz])) = take m (drop b img)"
  by (rule nth_equalityI) (use assms in auto)

lemma div_mod_inside:
  fixes p j :: nat
  assumes "p mod 4096 + j < 4096"
  shows "(p + j) div 4096 = p div 4096" and "(p + j) mod 4096 = p mod 4096 + j"
proof -
  have e: "p + j = (p mod 4096 + j) + (p div 4096) * 4096" by simp
  show "(p + j) div 4096 = p div 4096" unfolding e using assms by (subst div_mult_self1) simp_all
  show "(p + j) mod 4096 = p mod 4096 + j" unfolding e mod_mult_self1 using assms by simp
qed

lemma get_long_take: "get_long 0 (take 4 (drop a img)) = get_long a img" if "a + 4 \<le> length img"
  using that by (simp add: get_long_def nth_take nth_drop)

lemma read_data_ok:
  assumes "file_ok img n_inode ino sz" and "p < sz" and "0 < n" and "p + n \<le> sz" and "sz < 2 ^ 32"
  shows "\<exists>m. ece391fs_read_data (initrd_dev img) (word_of_nat n_inode) (word_of_nat ino) (word_of_nat p) (word_of_nat n) =
    Some (int m, take m (drop p (file_content img n_inode ino sz))) \<and> 0 < m \<and> m \<le> n"
proof -
  define k where "k = p div 4096"
  define a where "a = (ino + 1) * 4096 + (k + 1) * 4"
  define b where "b = byte_place img n_inode ino p"
  define m where "m = min n (4096 - p mod 4096)"
  have "k * 4096 \<le> p" by (simp add: k_def)
  then have "k * 4096 < sz" using assms(2) by linarith
  then have img: "length img < 2 ^ 31" "a + 4 \<le> length img" "(n_inode + block_number img ino k + 2) * 4096 \<le> length img"
    using assms(1) by (simp_all add: file_ok_def a_def)
  have p32: "p < 2 ^ 32" "n < 2 ^ 32" using assms(2,4,5) by simp_all
  have up: "unat (word_of_nat p :: u32) = p" using p32(1) by (simp add: unat_of_nat)
  have bl: "b + (4096 - p mod 4096) \<le> length img"
  proof -
    have "b = (n_inode + block_number img ino k + 1) * 4096 + p mod 4096" by (simp add: b_def byte_place_def k_def)
    moreover have "p mod 4096 < 4096" by simp
    ultimately show ?thesis using img(3) by (simp add: algebra_simps)
  qed
  have m: "0 < m" "m \<le> n" "b + m \<le> length img" using assms(3) bl by (simp_all add: m_def)
  have first: "initrd_dev img ((word_of_nat ino + 1) * 4096 + (word_of_nat p div 4096 + 1) * 4) 4 = (4, take 4 (drop a img))"
  proof -
    have "(word_of_nat p div 4096 :: u32) = word_of_nat k" using u32_div_word [of p 4096] p32(1) by (simp add: k_def)
    then have "((word_of_nat ino + 1) * 4096 + (word_of_nat p div 4096 + 1) * 4 :: u32) = word_of_nat a" by (simp add: a_def)
    moreover have "initrd_dev img (word_of_nat a) (word_of_nat 4) = (4, take 4 (drop a img))"
      using initrd_dev_ok [of a img 4] img(1,2) by simp
    ultimately show ?thesis by simp
  qed
  have second: "initrd_dev img ((word_of_nat n_inode + get_long a img + 1) * 4096 + word_of_nat p mod 4096) (word_of_nat m) =
      (int m, take m (drop b img))"
  proof -
    have "(word_of_nat p mod 4096 :: u32) = word_of_nat (p mod 4096)"
      using unat_word_small [of "p mod 4096"] by (intro word_unat_eq_iff [THEN iffD2]) (simp add: unat_mod up)
    then have "(word_of_nat n_inode + get_long a img + 1) * 4096 + word_of_nat p mod 4096 = (word_of_nat b :: u32)"
      by (simp add: b_def byte_place_def block_number_def a_def k_def)
    moreover have "initrd_dev img (word_of_nat b) (word_of_nat m) = (int m, take m (drop b img))"
      using initrd_dev_ok [of b img m] img(1) m p32(2) by simp
    ultimately show ?thesis by simp
  qed
  have len: "(if word_of_nat n > (4096 - word_of_nat p mod 4096 :: u32) then 4096 - word_of_nat p mod 4096 else word_of_nat n) = (word_of_nat m :: u32)"
  proof -
    have "unat (4096 - word_of_nat p mod 4096 :: u32) = 4096 - p mod 4096"
      by (subst unat_sub_le) (simp_all add: word_le_nat_alt unat_mod up)
    then show ?thesis using p32(2)
      by (intro word_unat_eq_iff [THEN iffD2]) (auto simp: m_def min_def word_less_nat_alt unat_of_nat)
  qed
  have "take m (drop p (file_content img n_inode ino sz)) = take m (drop b img)"
    unfolding file_content_def
  proof (rule take_drop_map)
    show "p + m \<le> sz" "b + m \<le> length img" using m assms(4) by simp_all
    fix j
    assume "j < m"
    then have "p mod 4096 + j < 4096" unfolding m_def by linarith
    from div_mod_inside [OF this] show "byte_place img n_inode ino (p + j) = b + j"
      by (simp add: b_def byte_place_def)
  qed
  moreover have "length (take 4 (drop a img)) = 4" using img(2) by simp
  ultimately show ?thesis
    using m(1,2) first second len img(2)
    by (intro exI [of _ m]) (simp add: ece391fs_read_data_def get_long_take Let_def)
qed

lemma read_loop_ok:
  assumes "file_ok img n_inode ino sz" and "sz < 2 ^ 32" and "p + n \<le> sz"
  shows "ece391fs_read_loop (initrd_dev img) (word_of_nat n_inode) (word_of_nat ino) (word_of_nat p) (word_of_nat n) =
    Some (0, take n (drop p (file_content img n_inode ino sz)), word_of_nat (p + n))"
  using assms(3)
proof (induction n arbitrary: p rule: less_induct)
  case (less n)
  show ?case
  proof (cases "n = 0")
    case True
    then show ?thesis by (subst ece391fs_read_loop.simps) simp
  next
    case False
    from read_data_ok [OF assms(1) _ _ less.prems assms(2)] less.prems False obtain m where
      m: "ece391fs_read_data (initrd_dev img) (word_of_nat n_inode) (word_of_nat ino) (word_of_nat p) (word_of_nat n) =
        Some (int m, take m (drop p (file_content img n_inode ino sz)))" "0 < m" "m \<le> n" by auto
    have w: "(word_of_nat n :: u32) \<noteq> 0"
    proof -
      have "unat (word_of_nat n :: u32) = n" using less.prems assms(2) by (simp add: unat_of_nat)
      then show ?thesis using False by auto
    qed
    have step: "(word_of_nat p + of_s32 (int m) :: u32) = word_of_nat (p + m)"
      "(word_of_nat n - of_s32 (int m) :: u32) = word_of_nat (n - m)"
      using m(3) by (simp_all add: of_s32_def of_nat_diff)
    have "ece391fs_read_loop (initrd_dev img) (word_of_nat n_inode) (word_of_nat ino) (word_of_nat (p + m)) (word_of_nat (n - m)) =
      Some (0, take (n - m) (drop (p + m) (file_content img n_inode ino sz)), word_of_nat (p + m + (n - m)))"
      using less m by (intro less.IH) simp_all
    moreover have "take m (drop p (file_content img n_inode ino sz)) @ take (n - m) (drop (p + m) (file_content img n_inode ino sz)) =
        take n (drop p (file_content img n_inode ino sz))"
      using m(3) by (metis (no_types) add.commute drop_drop le_add_diff_inverse take_add)
    ultimately show ?thesis
      using w m by (subst ece391fs_read_loop.simps) (simp add: step)
  qed
qed

text \<open>C32: Reading a file gives its contents: from any position, whatever the blocks the bytes are spread over and however
  the request is cut, a read returns the next bytes of the file, as many as were asked for or are left, and moves
  the position behind them.\<close>

theorem ece391fs_read_contents:
  assumes "file_ok img n_inode (unat (i_ino ino)) (unat (i_size ino))" and "unat pos \<le> unat (i_size ino)"
    and "unat (i_size ino) < 2 ^ 31"
  shows "ece391fs_read (initrd_dev img) (word_of_nat n_inode) ino pos nbytes =
    (let n = min (unat nbytes) (unat (i_size ino) - unat pos) in
     Some (int n, take n (drop (unat pos) (file_content img n_inode (unat (i_ino ino)) (unat (i_size ino)))), pos + word_of_nat n))"
proof -
  let ?n = "min (unat nbytes) (unat (i_size ino) - unat pos)"
  have "unat (i_size ino - pos) = unat (i_size ino) - unat pos" using assms(2) by (simp add: unat_sub_le word_le_nat_alt)
  moreover have "unat (word_of_nat ?n :: u32) = ?n"
    using unat_lt_size32 [of nbytes] by (intro unat_word_small) simp
  ultimately have n: "(if nbytes > i_size ino - pos then i_size ino - pos else nbytes) = word_of_nat ?n"
    by (intro word_unat_eq_iff [THEN iffD2]) (auto simp: word_less_nat_alt min_def)
  have "unat pos + ?n \<le> unat (i_size ino)" using assms(2) by simp
  from read_loop_ok [OF assms(1) _ this] unat_lt_size32 [of "i_size ino"]
  have "ece391fs_read_loop (initrd_dev img) (word_of_nat n_inode) (i_ino ino) pos (word_of_nat ?n) =
    Some (0, take ?n (drop (unat pos) (file_content img n_inode (unat (i_ino ino)) (unat (i_size ino)))), pos + word_of_nat ?n)"
    by simp
  moreover have "s32 (word_of_nat ?n) = int ?n" using assms(3) by (intro s32_of_nat) simp
  ultimately show ?thesis by (simp only: ece391fs_read_def Let_def n) simp
qed

text \<open>An image with one inode block and one data block; the file has three bytes.\<close>

definition sample_image :: "u8 list" where
  "sample_image = replicate 4096 0 @ (3 # replicate 4095 0) @ ([1, 2, 3] @ replicate 4093 0)"

lemma sample_image_simps:
  "length sample_image = 12288" "block_number sample_image 0 0 = 0"
  "sample_image ! 8192 = 1" "sample_image ! 8193 = 2" "sample_image ! 8194 = 3"
  by (simp_all add: sample_image_def block_number_def get_long_def nth_append nth_Cons')

lemma sample_file: "file_ok sample_image 1 0 3" "file_content sample_image 1 0 3 = [1, 2, 3]"
proof -
  have "(0 + 1) * 4096 + (k + 1) * 4 + 4 \<le> length sample_image \<and> (1 + block_number sample_image 0 k + 2) * 4096 \<le> length sample_image"
    if "k * 4096 < 3" for k :: nat
  proof -
    have "k = 0" using that by simp
    then show ?thesis by (simp add: sample_image_simps)
  qed
  moreover have "length sample_image < 2 ^ 31" by (simp add: sample_image_simps)
  ultimately show "file_ok sample_image 1 0 3" unfolding file_ok_def by blast
  show "file_content sample_image 1 0 3 = [1, 2, 3]"
    by (simp add: file_content_def byte_place_def sample_image_simps upt_rec)
qed

lemma ece391fs_read_contents_witness:
  "ece391fs_read (initrd_dev sample_image) 1 (dummy_inode 0 0\<lparr>i_size := 3\<rparr>) 1 100 = Some (2, [2, 3], 3)"
proof -
  have "unat (i_size (dummy_inode 0 0\<lparr>i_size := 3\<rparr>)) = 3" "unat (i_ino (dummy_inode 0 0\<lparr>i_size := 3\<rparr>)) = 0"
    by (simp_all add: dummy_inode_def)
  then show ?thesis
    using ece391fs_read_contents [of sample_image 1 "dummy_inode 0 0\<lparr>i_size := 3\<rparr>" 1 100] sample_file
    by (simp add: Let_def)
qed

text \<open>A device that has no more bytes makes the read run for ever.\<close>

lemma ece391fs_read_hangs:
  assumes "ece391fs_read_data dev n_inode ino pos nbytes = Some (0, [])" and "nbytes \<noteq> 0"
  shows "ece391fs_read_loop dev n_inode ino pos nbytes = None"
proof (rule ccontr)
  assume "ece391fs_read_loop dev n_inode ino pos nbytes \<noteq> None"
  then obtain x where x: "ece391fs_read_loop dev n_inode ino pos nbytes = Some x" by auto
  have "\<not> (dev = d \<and> n_inode = i \<and> ino = j \<and> pos = p \<and> nbytes = n)"
    if "ece391fs_read_loop d i j p n = Some y" for d i j p n y
  proof (rule ece391fs_read_loop.raw_induct [where
      P = "\<lambda>d i j p n y. \<not> (dev = d \<and> n_inode = i \<and> ino = j \<and> pos = p \<and> nbytes = n)", OF _ that])
    fix rec d i j p n y
    assume IH: "\<And>d i j p n y. rec d i j p n = Some y \<Longrightarrow> \<not> (dev = d \<and> n_inode = i \<and> ino = j \<and> pos = p \<and> nbytes = n)"
      and body: "(if n = 0 then Some (0, [], p)
        else do {
          (res, bs) \<leftarrow> ece391fs_read_data d i j p n;
          if res < 0 then Some (res, [], p)
          else do {
            (r, rest, pos1) \<leftarrow> rec d i j (p + of_s32 res) (n - of_s32 res);
            Some (r, bs @ rest, pos1) } }) = Some y"
    show "\<not> (dev = d \<and> n_inode = i \<and> ino = j \<and> pos = p \<and> nbytes = n)"
    proof
      assume e: "dev = d \<and> n_inode = i \<and> ino = j \<and> pos = p \<and> nbytes = n"
      with body assms obtain z where "rec d i j p n = Some z"
        by (auto simp: of_s32_def bind_eq_Some_conv)
      from IH [OF this] e show False by blast
    qed
  qed
  from this [OF x] show False by simp
qed

text \<open>Opening by path balances the references over this file system as well.\<close>

lemma ece391fs_open_balances:
  assumes "inode_open (ece391fs_ino_lookup bb bb_addr dev addr) default_ino_create readlink base path flags
    mode want st = Some (r, st')"
  shows "inode_refs st' = (case r of Inl e \<Rightarrow> inode_refs st
    | Inr (i, p) \<Rightarrow> (inode_refs st)(i := inode_refs st i + 1))"
  using ece391fs.inode_open_refs [OF assms] by (auto simp: open_refs_def split: sum.splits prod.splits)

text \<open>A listing goes through the entries in order: every entry is passed once when the callback always accepts.\<close>

lemma readdir_accepts:
  assumes "\<forall>d nm len off ino ty. fst (filldir d nm len off ino ty) = 0"
    and "\<forall>k < unat (num_dentry bb). dentry_at bb k \<noteq> None \<and> dentry_name_len bb k \<noteq> None" and "pos \<le> num_dentry bb"
  shows "\<exists>d1. ece391fs_readdir bb uninit filldir pos i d = Some (i + int (unat (num_dentry bb) - unat pos), num_dentry bb, d1)"
  using assms(3)
proof (induction "unat (num_dentry bb) - unat pos" arbitrary: pos i d)
  case 0
  then have "pos = num_dentry bb" by (simp add: word_le_nat_alt word_unat_eq_iff)
  then show ?case by (subst ece391fs_readdir.simps) simp
next
  case (Suc n)
  then have lt: "unat pos < unat (num_dentry bb)" by simp
  then have suc: "unat (pos + 1) = unat pos + 1"
    using unat_lt_size32 [of "num_dentry bb"] unat_suc_small [of pos] by simp
  from assms(2) lt obtain e l where e: "dentry_at bb (unat pos) = Some e" "dentry_name_len bb (unat pos) = Some l" by blast
  obtain res d1 where f: "filldir d (take l (fd_name e)) (word_of_nat l) pos (fd_inode_num e) (ece391fs_dtype (fd_type e) uninit) = (res, d1)"
    by fastforce
  with assms(1) have "res = 0" by (metis fst_conv)
  have "\<exists>d2. ece391fs_readdir bb uninit filldir (pos + 1) (i + 1) d1 =
      Some (i + 1 + int (unat (num_dentry bb) - unat (pos + 1)), num_dentry bb, d2)"
    using Suc lt suc by (intro Suc.hyps(1)) (simp_all add: word_le_nat_alt)
  then show ?case using lt suc e f \<open>res = 0\<close>
    by (subst ece391fs_readdir.simps) (auto simp: word_le_nat_alt)
qed

end
