(* ===== verification/Mutex.thy ===== *)
theory Mutex
  imports Signals
begin

text \<open>
  \<open>mutex.c\<close>: a mutex is a queue of tasks whose front holds it.  The lock operations are modelled from one
  call of \<open>schedule\<close> to the next; a system of tasks that use one mutex is run by lists of steps.
\<close>

section \<open>The operations\<close>

type_synonym mutex = "ptr list"

text \<open>\<open>None\<close> is \<open>BUG\<close>: the task already is in the queue.  The answer is whether there was memory.\<close>

definition mutex_enter :: "bool \<Rightarrow> mutex \<times> kst \<Rightarrow> (bool \<times> mutex \<times> kst) option" where
  "mutex_enter intr = (\<lambda>(q, st).
     if k_current st \<in> set q then None
     else do {
       x \<leftarrow> current_task st;
       let (ok, st1) = k_kmalloc st;
       if \<not> ok then Some (False, q, st1)
       else Some (True, q @ [k_current st1], set_task (k_current st1)
         (x\<lparr>t_state := (if intr then TASK_INTERRUPTIBLE else TASK_UNINTERRUPTIBLE)\<rparr>) st1) })"

datatype lock_result = Acquired | Interrupted | MustWait

text \<open>The test of the loop and, when it ends, what follows; \<open>MustWait\<close> is the call of \<open>schedule\<close>.\<close>

definition mutex_poll :: "bool \<Rightarrow> mutex \<times> kst \<Rightarrow> (lock_result \<times> mutex \<times> kst) option" where
  "mutex_poll intr = (\<lambda>(q, st). do {
     x \<leftarrow> current_task st;
     let sig = (intr \<and> signal_pending (t_sigpending x) \<noteq> 0);
     let st1 = set_task (k_current st) (x\<lparr>t_state := TASK_RUNNING\<rparr>) st;
     if (case q of [] \<Rightarrow> True | t # _ \<Rightarrow> t \<noteq> k_current st) \<and> \<not> sig then do {
       st2 \<leftarrow> schedule st; Some (MustWait, q, st2) }
     else if \<not> sig then Some (Acquired, q, st1)
     else Some (Interrupted, filter (\<lambda>t. t \<noteq> k_current st) q, st1) })"

text \<open>\<open>None\<close> is \<open>BUG\<close>: the current task does not hold the mutex.\<close>

definition mutex_unlock :: "mutex \<times> kst \<Rightarrow> (mutex \<times> kst) option" where
  "mutex_unlock = (\<lambda>(q, st).
     case q of
       [] \<Rightarrow> None
     | t # q1 \<Rightarrow>
         if t \<noteq> k_current st then None
         else (case q1 of
           [] \<Rightarrow> Some ([], st)
         | u # _ \<Rightarrow> do { st1 \<leftarrow> wake_up_process u st; Some (q1, st1) }))"

section \<open>Tasks that share a mutex\<close>

text \<open>
  Beside the queue and the kernel, the tasks that are inside a lock operation, with its kind, and those
  that have returned from it with success and not unlocked.
\<close>

record msys =
  m_queue :: mutex
  m_kernel :: kst
  m_waiting :: "ptr \<rightharpoonup> bool"
  m_held :: "ptr set"

datatype mstep = Lock bool | Poll | Unlock | KYield | KWake ptr | KSignal ptr u32

text \<open>
  A step of the current task, or (\<open>KWake\<close>, \<open>KSignal\<close>) of an interrupt handler or another system call.  A
  task locks only if it does not hold the mutex, and unlocks only if it does.
\<close>

fun mutex_step :: "mstep \<Rightarrow> msys \<Rightarrow> msys option" where
  "mutex_step (Lock intr) s = (let c = k_current (m_kernel s) in
     if m_waiting s c \<noteq> None \<or> c \<in> m_held s then Some s
     else do {
       (ok, q, k) \<leftarrow> mutex_enter intr (m_queue s, m_kernel s);
       Some (s\<lparr>m_queue := q, m_kernel := k,
         m_waiting := (if ok then (m_waiting s)(c \<mapsto> intr) else m_waiting s)\<rparr>) })"
| "mutex_step Poll s = (let c = k_current (m_kernel s) in
     case m_waiting s c of
       None \<Rightarrow> Some s
     | Some intr \<Rightarrow> do {
         (r, q, k) \<leftarrow> mutex_poll intr (m_queue s, m_kernel s);
         Some (case r of
           MustWait \<Rightarrow> s\<lparr>m_queue := q, m_kernel := k\<rparr>
         | Acquired \<Rightarrow> s\<lparr>m_queue := q, m_kernel := k, m_waiting := (m_waiting s)(c := None),
             m_held := insert c (m_held s)\<rparr>
         | Interrupted \<Rightarrow> s\<lparr>m_queue := q, m_kernel := k, m_waiting := (m_waiting s)(c := None)\<rparr>) })"
| "mutex_step Unlock s = (let c = k_current (m_kernel s) in
     if c \<notin> m_held s then Some s
     else do {
       (q, k) \<leftarrow> mutex_unlock (m_queue s, m_kernel s);
       Some (s\<lparr>m_queue := q, m_kernel := k, m_held := m_held s - {c}\<rparr>) })"
| "mutex_step KYield s = do { k \<leftarrow> schedule (m_kernel s); Some (s\<lparr>m_kernel := k\<rparr>) }"
| "mutex_step (KWake t) s = do { k \<leftarrow> wake_up_process t (m_kernel s); Some (s\<lparr>m_kernel := k\<rparr>) }"
| "mutex_step (KSignal t n) s = do { k \<leftarrow> send_sig t n (m_kernel s); Some (s\<lparr>m_kernel := k\<rparr>) }"

fun mutex_run :: "mstep list \<Rightarrow> msys \<Rightarrow> msys option" where
  "mutex_run [] s = Some s"
| "mutex_run (a # as) s = do { s1 \<leftarrow> mutex_step a s; mutex_run as s1 }"

section \<open>The holder is the front\<close>

definition mutex_inv :: "msys \<Rightarrow> bool" where
  "mutex_inv s \<longleftrightarrow> distinct (m_queue s) \<and> set (m_queue s) = dom (m_waiting s) \<union> m_held s \<and>
     dom (m_waiting s) \<inter> m_held s = {} \<and> (\<forall>c \<in> m_held s. \<exists>q. m_queue s = c # q)"

lemma mutex_enter_queue:
  "mutex_enter intr (q, st) = Some (ok, q', st') \<Longrightarrow>
     k_current st \<notin> set q \<and> q' = (if ok then q @ [k_current st] else q)"
  by (cases "k_kmalloc st") (auto simp: mutex_enter_def bind_eq_Some_conv split: if_splits)

lemma mutex_poll_queue:
  "mutex_poll intr (q, st) = Some (r, q', st') \<Longrightarrow>
     (case r of MustWait \<Rightarrow> q' = q
      | Acquired \<Rightarrow> q' = q \<and> (\<exists>q1. q = k_current st # q1)
      | Interrupted \<Rightarrow> q' = filter (\<lambda>t. t \<noteq> k_current st) q)"
  by (auto simp: mutex_poll_def bind_eq_Some_conv Let_def split: if_splits list.splits)

lemma mutex_unlock_queue:
  "mutex_unlock (q, st) = Some (q', st') \<Longrightarrow> q = k_current st # q'"
  by (auto simp: mutex_unlock_def bind_eq_Some_conv split: list.splits if_splits)

lemma mutex_inv_kernel: "mutex_inv (s\<lparr>m_kernel := k\<rparr>) \<longleftrightarrow> mutex_inv s"
  by (simp add: mutex_inv_def)

lemma mutex_step_inv:
  assumes inv: "mutex_inv s" and run: "mutex_step a s = Some s'"
  shows "mutex_inv s'"
proof (cases a)
  case (Lock intr)
  let ?c = "k_current (m_kernel s)"
  show ?thesis
  proof (cases "m_waiting s ?c \<noteq> None \<or> ?c \<in> m_held s")
    case True
    with run Lock inv show ?thesis by (simp add: Let_def split: if_splits)
  next
    case False
    with run Lock obtain ok q k where e: "mutex_enter intr (m_queue s, m_kernel s) = Some (ok, q, k)"
      and s': "s' = s\<lparr>m_queue := q, m_kernel := k,
        m_waiting := (if ok then (m_waiting s)(?c \<mapsto> intr) else m_waiting s)\<rparr>"
      by (auto simp: Let_def bind_eq_Some_conv split: if_splits)
    from mutex_enter_queue [OF e] False inv show ?thesis
      by (cases ok) (auto simp: s' mutex_inv_def)
  qed
next
  case Poll
  let ?c = "k_current (m_kernel s)"
  show ?thesis
  proof (cases "m_waiting s ?c")
    case None
    with run inv Poll show ?thesis by simp
  next
    case (Some intr)
    with run Poll obtain r q k where p: "mutex_poll intr (m_queue s, m_kernel s) = Some (r, q, k)"
      by (auto simp: Let_def bind_eq_Some_conv)
    from Some inv have w: "?c \<in> set (m_queue s)" "?c \<notin> m_held s" by (auto simp: mutex_inv_def)
    show ?thesis
    proof (cases r)
      case Acquired
      with mutex_poll_queue [OF p] obtain q1 where q: "q = m_queue s" "m_queue s = ?c # q1" by auto
      with inv w have "m_held s = {}" by (auto simp: mutex_inv_def)
      with run Poll Some p Acquired q inv show ?thesis by (auto simp: Let_def mutex_inv_def)
    next
      case Interrupted
      with mutex_poll_queue [OF p] have q: "q = filter (\<lambda>t. t \<noteq> ?c) (m_queue s)" by simp
      have s': "s' = s\<lparr>m_queue := q, m_kernel := k, m_waiting := (m_waiting s)(?c := None)\<rparr>"
        using run Poll Some p Interrupted by (simp add: Let_def)
      have "\<exists>q'. q = c # q'" if "c \<in> m_held s" for c
        using that inv w(2) by (auto simp: mutex_inv_def q)
      with inv w show ?thesis by (auto simp: mutex_inv_def s' q)
    next
      case MustWait
      with mutex_poll_queue [OF p] run Poll Some p have "s' = s\<lparr>m_kernel := k\<rparr>" by (simp add: Let_def)
      with inv show ?thesis by (simp add: mutex_inv_def)
    qed
  qed
next
  case Unlock
  let ?c = "k_current (m_kernel s)"
  show ?thesis
  proof (cases "?c \<in> m_held s")
    case False
    with run Unlock inv show ?thesis by (simp add: Let_def)
  next
    case True
    with run Unlock obtain q k where u: "mutex_unlock (m_queue s, m_kernel s) = Some (q, k)"
      and s': "s' = s\<lparr>m_queue := q, m_kernel := k, m_held := m_held s - {?c}\<rparr>"
      by (auto simp: Let_def bind_eq_Some_conv)
    have q: "m_queue s = ?c # q" using mutex_unlock_queue [OF u] by simp
    have only: "m_held s = {?c}"
    proof (rule equalityI)
      show "m_held s \<subseteq> {?c}"
      proof
        fix c
        assume "c \<in> m_held s"
        with inv obtain q1 where "m_queue s = c # q1" by (auto simp only: mutex_inv_def)
        with q show "c \<in> {?c}" by simp
      qed
    qed (use True in simp)
    have all: "insert ?c (set q) = insert ?c (dom (m_waiting s))" "?c \<notin> dom (m_waiting s)"
      and dist: "distinct q" "?c \<notin> set q"
      using inv unfolding mutex_inv_def only q by simp_all
    from all dist have "set q = dom (m_waiting s)" by (metis insert_ident)
    with dist show ?thesis by (simp add: s' mutex_inv_def only)
  qed
qed (use run inv in \<open>auto simp: bind_eq_Some_conv mutex_inv_kernel\<close>)

lemma mutex_run_inv: "mutex_inv s \<Longrightarrow> mutex_run as s = Some s' \<Longrightarrow> mutex_inv s'"
  by (induction as arbitrary: s) (auto simp: bind_eq_Some_conv dest: mutex_step_inv)

section \<open>Properties\<close>

text \<open>Three tasks and a free mutex.\<close>

definition three_tasks :: msys where
  "three_tasks = \<lparr>m_queue = [],
     m_kernel = sample_kst\<lparr>k_objs := [32 \<mapsto> sample_task 0, 64 \<mapsto> sample_task 16, 96 \<mapsto> sample_task 17,
       160 \<mapsto> sample_task 18], k_tasks := [64, 96, 160], k_queue := [96, 160]\<rparr>,
     m_waiting = Map.empty, m_held = {}\<rparr>"

text \<open>C16: mutual exclusion.  Whatever the tasks and interrupt handlers do, at most one task holds the mutex,
  it is the front of the queue, and unlocking does not reach \<open>BUG\<close>.\<close>

theorem mutex_exclusive:
  assumes "mutex_run as s = Some s'" and "m_queue s = []" "m_waiting s = Map.empty" "m_held s = {}"
  shows "(\<forall>c \<in> m_held s'. \<forall>d \<in> m_held s'. c = d) \<and>
    (\<forall>c \<in> m_held s'. \<exists>q. m_queue s' = c # q \<and>
      (\<forall>st. k_current st = c \<longrightarrow> (\<forall>u \<in> set q. u \<noteq> c) \<and> mutex_unlock (m_queue s', st) \<noteq> None))"
proof -
  have "mutex_inv s" using assms(2-4) by (simp add: mutex_inv_def)
  then have inv: "mutex_inv s'" by (rule mutex_run_inv) (rule assms(1))
  have unlock: "mutex_unlock (c # q, st) \<noteq> None" if "k_current st = c" "c \<notin> set q" for c q st
    using that by (cases q; cases "k_kmalloc st") (auto simp: mutex_unlock_def wake_up_process_def)
  have front: "\<exists>q. m_queue s' = c # q" if "c \<in> m_held s'" for c
    using that inv by (simp add: mutex_inv_def)
  have dist: "distinct (m_queue s')" using inv by (simp add: mutex_inv_def)
  show ?thesis
  proof (intro conjI ballI)
    fix c d
    assume "c \<in> m_held s'" "d \<in> m_held s'"
    with front [of c] front [of d] show "c = d" by auto
  next
    fix c
    assume "c \<in> m_held s'"
    with front obtain q where q: "m_queue s' = c # q" by blast
    with dist have "c \<notin> set q" by simp
    with q unlock show "\<exists>q. m_queue s' = c # q \<and>
      (\<forall>st. k_current st = c \<longrightarrow> (\<forall>u \<in> set q. u \<noteq> c) \<and> mutex_unlock (m_queue s', st) \<noteq> None)"
      by (intro exI [of _ q]) auto
  qed
qed

theorem mutex_exclusive_witness:
  "\<exists>s'. mutex_run [Lock True, Poll] three_tasks = Some s' \<and> m_held s' = {64} \<and>
    (\<forall>c \<in> m_held s'. \<forall>d \<in> m_held s'. c = d)"
proof -
  have "\<exists>s'. mutex_run [Lock True, Poll] three_tasks = Some s' \<and> m_held s' = {64}"
    by (simp add: three_tasks_def mutex_enter_def mutex_poll_def sample_kst_def k_kmalloc_def Let_def
        no_signals_def signal_pending_def fatal_signal_pending_def)
  then obtain s' where s': "mutex_run [Lock True, Poll] three_tasks = Some s'" "m_held s' = {64}" by blast
  from mutex_exclusive [OF s'(1)] have "\<forall>c \<in> m_held s'. \<forall>d \<in> m_held s'. c = d"
    by (simp add: three_tasks_def)
  with s' show ?thesis by blast
qed

text \<open>An interrupted lock operation loses a wake-up.  There is a run of three tasks after which nobody
  holds the mutex, its only waiter sleeps, and it is neither in the run queue nor about to be woken: the
  task that was woken by the unlocking took a signal instead and left without waking the next one.\<close>

theorem mutex_wakeup_lost:
  "\<exists>s x. mutex_run [Lock True, Poll, KYield, Lock True, Poll, Lock False, Poll, Unlock, KSignal 96 10,
      KYield, Poll] three_tasks = Some s \<and>
    m_held s = {} \<and> m_queue s = [160] \<and> m_waiting s 160 = Some False \<and>
    k_current (m_kernel s) = 96 \<and> k_queue (m_kernel s) = [64] \<and>
    k_objs (m_kernel s) 160 = Some x \<and> t_state x = TASK_UNINTERRUPTIBLE \<and> \<not> t_wakeup_current x"
  by (simp add: three_tasks_def mutex_enter_def mutex_poll_def mutex_unlock_def sample_kst_def k_kmalloc_def Let_def
      no_signals_def signal_pending_def fatal_signal_pending_def schedule_def requeue_def wake_up_process_def
      send_sig_def send_sig_info_def kernel_siginfo_def NSIG_def MASKVAL_def SIG_UNMASKABLE_def)

end
