(* ===== verification/Lifecycle.thy ===== *)
theory Lifecycle
  imports Signals
begin

text \<open>
  \<open>task/exit.c\<close> and the task structures of \<open>task/clone.c\<close>: how tasks come and go.  What leaving does to
  files and memory belongs to other components and is an argument, as are the addresses that allocation
  returns.
\<close>

section \<open>Cloning\<close>

definition CLONE_PARENT :: u32 where "CLONE_PARENT = 0x8000"
definition CLONE_SIGHAND :: u32 where "CLONE_SIGHAND = 0x800"

definition share_session :: "ptr \<Rightarrow> kst \<Rightarrow> kst option" where
  "share_session s st =
     (if s = 0 then Some st
      else do {
        se \<leftarrow> k_sessions st s;
        Some (st\<lparr>k_sessions := (k_sessions st)(s \<mapsto> se\<lparr>se_refcount := se_refcount se + 1\<rparr>)\<rparr>) })"

text \<open>
  The table of actions of the child: shared, or a copy at \<open>sa\<close>, whose allocation is not checked (no memory
  is a fault).
\<close>

definition clone_actions :: "bool \<Rightarrow> ptr \<Rightarrow> ptr \<Rightarrow> kst \<Rightarrow> (ptr \<times> kst) option" where
  "clone_actions share old sa st = do {
     acts \<leftarrow> k_actions st old;
     if share then
       Some (old, st\<lparr>k_actions := (k_actions st)(old \<mapsto> acts\<lparr>sas_refcount := sas_refcount acts + 1\<rparr>)\<rparr>)
     else
       (let (ok, st1) = k_kmalloc st in
        if ok then Some (sa, st1\<lparr>k_actions := (k_actions st1)(sa \<mapsto> acts\<lparr>sas_refcount := 1\<rparr>)\<rparr>) else None) }"

text \<open>
  \<open>do_clone\<close>: \<open>t\<close> is the address of the new kernel stack (\<open>0\<close>: none), \<open>mem\<close> copies or shares memory, files
  and floating-point state.  The new task is in the list of tasks, but not in the run queue.
\<close>

definition do_clone :: "(kst \<Rightarrow> kst option) \<Rightarrow> u32 \<Rightarrow> ptr \<Rightarrow> ptr \<Rightarrow> kst \<Rightarrow> ((int + ptr) \<times> kst) option" where
  "do_clone mem flags t sa st =
     (if t = 0 then Some (Inl (- ENOMEM), st)
      else do {
        x \<leftarrow> current_task st;
        st1 \<leftarrow> share_session (t_session x) st;
        (pid, st2) \<leftarrow> next_pid st1;
        st3 \<leftarrow> mem st2;
        (acts, st4) \<leftarrow> clone_actions (flags AND CLONE_SIGHAND \<noteq> 0) (t_sigactions x) sa st3;
        let child = \<lparr>t_pid = pid,
          t_ppid = (if flags AND CLONE_PARENT \<noteq> 0 then t_ppid x else t_pid x),
          t_session = t_session x, t_pgid = t_pgid x,
          t_sigpending = \<lparr>blocked_mask = 0, pending_mask = 0, forced_mask = 0, siginfos = Map.empty\<rparr>,
          t_sigactions = acts, t_state = TASK_RUNNING, t_wakeup_current = False, t_stopped = False,
          t_subsystem = t_subsystem x, t_exitcode = 0\<rparr>;
        let (ok, st5) = k_kmalloc (set_task t child st4);
        Some (Inr t, if ok then st5\<lparr>k_tasks := k_tasks st5 @ [t]\<rparr> else st5) })"

text \<open>\<open>clone\<close> and \<open>vfork\<close> (after their checks): the child is woken up; the status goes to \<open>eax\<close>.\<close>

definition sys_clone :: "(kst \<Rightarrow> kst option) \<Rightarrow> u32 \<Rightarrow> ptr \<Rightarrow> ptr \<Rightarrow> kst \<Rightarrow> (int \<times> kst) option" where
  "sys_clone mem flags t sa st =
     (let (ok, st0) = k_kmalloc st in
      if \<not> ok then Some (- ENOMEM, st0)
      else do {
        (r, st1) \<leftarrow> do_clone mem flags t sa st0;
        (case r of
          Inl e \<Rightarrow> Some (e, st1)
        | Inr c \<Rightarrow> do {
            y \<leftarrow> k_objs st1 c;
            st2 \<leftarrow> wake_up_process c st1;
            Some (int (unat (t_pid y)), st2) }) })"

section \<open>Exiting\<close>

text \<open>\<open>_do_wait\<close>.\<close>

definition reap :: "ptr \<Rightarrow> kst \<Rightarrow> (int \<times> kst) option" where
  "reap t st = do {
     x \<leftarrow> k_objs st t;
     let (ok, st1) = k_kmalloc (set_task t (x\<lparr>t_state := TASK_DEAD\<rparr>) st);
     Some (t_exitcode x, st1\<lparr>k_tasks := filter (\<lambda>u. u \<noteq> t) (k_tasks st1),
       k_free := (if ok then k_free st1 @ [t] else k_free st1)\<rparr>) }"

definition drop_actions :: "ptr \<Rightarrow> kst \<Rightarrow> kst option" where
  "drop_actions a st = do {
     acts \<leftarrow> k_actions st a;
     Some (st\<lparr>k_actions := (k_actions st)(a :=
       (if sas_refcount acts - 1 = 0 then None else Some (acts\<lparr>sas_refcount := sas_refcount acts - 1\<rparr>)))\<rparr>) }"

definition reparent :: "u16 \<Rightarrow> kst \<Rightarrow> kst" where
  "reparent pid st = st\<lparr>k_objs := (\<lambda>t. if t \<in> set (k_tasks st)
     then map_option (\<lambda>x. if t_ppid x = pid then x\<lparr>t_ppid := 1\<rparr> else x) (k_objs st t) else k_objs st t)\<rparr>"

text \<open>\<open>CLD_EXITED\<close> is \<open>1\<close>.\<close>

definition exit_siginfo :: "u16 \<Rightarrow> int \<Rightarrow> siginfo" where
  "exit_siginfo pid code = \<lparr>si_signo = SIGCHLD, si_code = 1, si_pid = ucast pid, si_status = code\<rparr>"

text \<open>
  The parent is told, or, if it ignores \<open>SIGCHLD\<close>, the task is reaped at once.  A task without a parent
  number halts the kernel, and a parent that does not exist is an error pointer that is read.
\<close>

definition tell_parent :: "int \<Rightarrow> kst \<Rightarrow> kst option" where
  "tell_parent code st = do {
     x \<leftarrow> current_task st;
     if t_ppid x = 0 then None
     else do {
       r \<leftarrow> get_task_from_pid (t_ppid x) st;
       (case r of
         Inl _ \<Rightarrow> None
       | Inr parent \<Rightarrow> do {
           p \<leftarrow> k_objs st parent;
           acts \<leftarrow> k_actions st (t_sigactions p);
           if sa_sigaction (sas_actions acts SIGCHLD) = SIG_IGN
           then do { (_, st1) \<leftarrow> reap (k_current st) st; Some st1 }
           else send_sig_info parent (exit_siginfo (t_pid x) code) st }) } }"

text \<open>
  \<open>do_exit\<close> up to the task that runs next.  \<open>rel1\<close> closes the working directory and the executable, \<open>rel2\<close>
  the descriptors and the memory, \<open>put\<close> is \<open>tty_put\<close>.  The task that runs again behind \<open>schedule\<close> reaches
  \<open>BUG\<close>.
\<close>

definition do_exit ::
    "(ptr \<Rightarrow> kst \<Rightarrow> kst option) \<Rightarrow> (kst \<Rightarrow> kst option) \<Rightarrow> (kst \<Rightarrow> kst option) \<Rightarrow> int \<Rightarrow> kst \<Rightarrow> kst option" where
  "do_exit put rel1 rel2 code st = do {
     x \<leftarrow> current_task st;
     st1 \<leftarrow> rel1 (set_task (k_current st) (x\<lparr>t_exitcode := code, t_state := TASK_ZOMBIE\<rparr>) st);
     st2 \<leftarrow> (if t_session x = 0 then Some st1 else put_session put st1);
     st3 \<leftarrow> rel2 st2;
     st4 \<leftarrow> drop_actions (t_sigactions x) st3;
     st5 \<leftarrow> tell_parent code st4;
     st6 \<leftarrow> schedule (reparent (t_pid x) st5);
     if k_current st6 = k_current st then None else Some st6 }"

text \<open>The status the callers pass: \<open>halt\<close> of ECE391, \<open>exit\<close> of Linux.\<close>

definition halt_status :: "u8 \<Rightarrow> int" where
  "halt_status status = int (unat status)"

definition exit_status :: "int \<Rightarrow> int" where
  "exit_status status = (if status < 0 \<or> status > 255 then 255 else status) * 256"

section \<open>Waiting\<close>

text \<open>A wait returns a status, or is asleep in \<open>schedule\<close>.\<close>

datatype wait_result = Returned int | Asleep

definition sleep_in_wait :: "kst \<Rightarrow> kst option" where
  "sleep_in_wait st = do {
     x \<leftarrow> current_task st;
     schedule (set_task (k_current st) (x\<lparr>t_state := TASK_INTERRUPTIBLE\<rparr>) st) }"

text \<open>The start of \<open>do_wait\<close>: \<open>SIGCHLD\<close> gets its default action while the task waits.\<close>

definition dfl_action :: sigaction where
  "dfl_action = \<lparr>sa_sigaction = SIG_DFL, sa_mask = 0, sa_flags = 0, sa_restorer = 0\<rparr>"

definition do_wait :: "ptr \<Rightarrow> kst \<Rightarrow> (wait_result \<times> kst) option" where
  "do_wait t st = do {
     me \<leftarrow> current_task st;
     x \<leftarrow> k_objs st t;
     if t_ppid x \<noteq> t_pid me then Some (Returned (- ECHILD), st)
     else if t_state x = TASK_ZOMBIE then do { (r, st1) \<leftarrow> reap t st; Some (Returned r, st1) }
     else do {
       st1 \<leftarrow> set_sigaction SIGCHLD (\<lambda>_. dfl_action) st;
       st2 \<leftarrow> sleep_in_wait st1;
       Some (Asleep, st2) } }"

text \<open>The rest of an iteration; \<open>old\<close> is the action to restore.\<close>

definition do_wait_resume :: "ptr \<Rightarrow> sigaction \<Rightarrow> kst \<Rightarrow> (wait_result \<times> kst) option" where
  "do_wait_resume t old st = do {
     me \<leftarrow> current_task st;
     let st1 = set_task (k_current st) (me\<lparr>t_state := TASK_RUNNING\<rparr>) st;
     if signal_pending (t_sigpending me) = 0 then do { st2 \<leftarrow> sleep_in_wait st1; Some (Asleep, st2) }
     else do {
       r \<leftarrow> kernel_peek_pending_sig SIGCHLD (t_sigpending me);
       (case r of
         None \<Rightarrow> do { st2 \<leftarrow> set_sigaction SIGCHLD (\<lambda>_. old) st1; Some (Returned (- EINTR), st2) }
       | Some info \<Rightarrow> do {
           x \<leftarrow> k_objs st1 t;
           if si_code info = 1 \<and> si_pid info = ucast (t_pid x) then do {
             (_, st2) \<leftarrow> kernel_get_pending_sig SIGCHLD st1;
             st3 \<leftarrow> set_sigaction SIGCHLD (\<lambda>_. old) st2;
             (code, st4) \<leftarrow> reap t st3;
             Some (Returned code, st4) }
           else do { st2 \<leftarrow> set_sigaction SIGCHLD (\<lambda>_. old) st1; Some (Returned (- EINTR), st2) } }) } }"

text \<open>\<open>do_waitpg\<close>: the first zombie among the children of the group (any child for \<open>0\<close>), and whether there is a child.\<close>

fun find_zombie :: "(ptr \<rightharpoonup> task_struct) \<Rightarrow> u16 \<Rightarrow> u32 \<Rightarrow> ptr list \<Rightarrow> (bool \<times> ptr option) option" where
  "find_zombie objs ppid pgid [] = Some (False, None)"
| "find_zombie objs ppid pgid (t # ts) = do {
     x \<leftarrow> objs t;
     if t_ppid x = ppid \<and> (pgid = 0 \<or> t_pgid x = pgid) then
       (if t_state x = TASK_ZOMBIE then Some (True, Some t)
        else do { (_, z) \<leftarrow> find_zombie objs ppid pgid ts; Some (True, z) })
     else find_zombie objs ppid pgid ts }"

definition do_waitpg :: "u32 \<Rightarrow> bool \<Rightarrow> kst \<Rightarrow> (wait_result \<times> u16 \<times> kst) option" where
  "do_waitpg pgid block st = do {
     me \<leftarrow> current_task st;
     (haschild, z) \<leftarrow> find_zombie (k_objs st) (t_pid me) pgid (k_tasks st);
     (case z of
       Some t \<Rightarrow> do { x \<leftarrow> k_objs st t; (code, st1) \<leftarrow> reap t st; Some (Returned code, t_pid x, st1) }
     | None \<Rightarrow>
         if \<not> haschild then Some (Returned (- ECHILD), 0, st)
         else if \<not> block then Some (Returned 0, 0, st)
         else do {
           st1 \<leftarrow> set_sigaction SIGCHLD (\<lambda>_. dfl_action) st;
           st2 \<leftarrow> sleep_in_wait st1;
           Some (Asleep, 0, st2) }) }"

text \<open>The number in the signal's record is looked up without looking at the result.\<close>

definition do_waitpg_resume :: "u32 \<Rightarrow> sigaction \<Rightarrow> kst \<Rightarrow> (wait_result \<times> u16 \<times> kst) option" where
  "do_waitpg_resume pgid old st = do {
     me \<leftarrow> current_task st;
     let st1 = set_task (k_current st) (me\<lparr>t_state := TASK_RUNNING\<rparr>) st;
     let interrupted = do { st2 \<leftarrow> set_sigaction SIGCHLD (\<lambda>_. old) st1; Some (Returned (- EINTR), 0, st2) };
     if signal_pending (t_sigpending me) = 0 then do { st2 \<leftarrow> sleep_in_wait st1; Some (Asleep, 0, st2) }
     else do {
       r \<leftarrow> kernel_peek_pending_sig SIGCHLD (t_sigpending me);
       (case r of
         None \<Rightarrow> interrupted
       | Some info \<Rightarrow>
           if si_code info \<noteq> 1 then interrupted
           else do {
             r \<leftarrow> get_task_from_pid (ucast (si_pid info)) st1;
             (case r of
               Inl _ \<Rightarrow> None
             | Inr t \<Rightarrow> do {
                 x \<leftarrow> k_objs st1 t;
                 if pgid = 0 \<or> t_pgid x = pgid then do {
                   (_, st2) \<leftarrow> kernel_get_pending_sig SIGCHLD st1;
                   st3 \<leftarrow> set_sigaction SIGCHLD (\<lambda>_. old) st2;
                   (code, st4) \<leftarrow> reap t st3;
                   Some (Returned code, t_pid x, st4) }
                 else interrupted }) }) } }"

text \<open>\<open>do_sys_waitpid\<close>: the status goes to \<open>wstatus\<close>; \<open>WNOHANG\<close> is bit \<open>0\<close> of the options.\<close>

definition do_sys_waitpid :: "int \<Rightarrow> u32 \<Rightarrow> kst \<Rightarrow> (wait_result \<times> int option \<times> kst) option" where
  "do_sys_waitpid pid options st =
     (if pid < 1 then do {
        me \<leftarrow> current_task st;
        (r, p, st1) \<leftarrow> do_waitpg (ucast (kill_group pid me)) (options AND 1 = 0) st;
        Some (case r of
          Asleep \<Rightarrow> (Asleep, None, st1)
        | Returned c \<Rightarrow> if c < 0 then (Returned c, None, st1) else (Returned (int (unat p)), Some c, st1)) }
      else do {
        r \<leftarrow> get_task_from_pid (word_of_int pid) st;
        (case r of
          Inl e \<Rightarrow> Some (Returned e, None, st)
        | Inr t \<Rightarrow> do {
            x \<leftarrow> k_objs st t;
            if t_state x \<noteq> TASK_ZOMBIE \<and> options AND 1 \<noteq> 0 then Some (Returned 0, None, st)
            else do {
              (r, st1) \<leftarrow> do_wait t st;
              Some (case r of
                Asleep \<Rightarrow> (Asleep, None, st1)
              | Returned c \<Rightarrow> if c < 0 then (Returned c, None, st1) else (Returned pid, Some c, st1)) } }) })"

section \<open>Frames\<close>

text \<open>Numbers and the list of tasks stay: lookups give the same task.\<close>

definition same_pids :: "kst \<Rightarrow> kst \<Rightarrow> bool" where
  "same_pids st st' \<longleftrightarrow> k_tasks st' = k_tasks st \<and>
     (\<forall>t. map_option t_pid (k_objs st' t) = map_option t_pid (k_objs st t))"

lemma find_task_cong:
  assumes "\<And>t. map_option t_pid (objs' t) = map_option t_pid (objs t)"
  shows "find_task objs' pid ts = find_task objs pid ts"
proof (induction ts)
  case (Cons t ts)
  show ?case
  proof (cases "objs t")
    case None
    with assms [of t] show ?thesis by simp
  next
    case (Some x)
    with assms [of t] obtain x' where "objs' t = Some x'" "t_pid x' = t_pid x" by auto
    with Some Cons show ?thesis by simp
  qed
qed simp

lemma same_pids_lookup: "same_pids st st' \<Longrightarrow> get_task_from_pid pid st' = get_task_from_pid pid st"
  using find_task_cong [of "k_objs st'" "k_objs st" pid "k_tasks st"]
  by (simp add: get_task_from_pid_def same_pids_def)

lemma same_pids_refl: "same_pids st st"
  by (simp add: same_pids_def)

lemma same_pids_trans: "same_pids st st1 \<Longrightarrow> same_pids st1 st2 \<Longrightarrow> same_pids st st2"
  by (simp add: same_pids_def)

lemma same_pids_set: "k_objs st t = Some x \<Longrightarrow> t_pid x' = t_pid x \<Longrightarrow> same_pids st (set_task t x' st)"
  by (simp add: same_pids_def)

lemma same_pids_kmalloc: "k_kmalloc st = (ok, st1) \<Longrightarrow> same_pids st st1"
  using k_kmalloc_frame [of st ok st1] by (simp add: same_pids_def)

lemma wake_up_process_others:
  "wake_up_process t st = Some st' \<Longrightarrow> u \<noteq> t \<Longrightarrow> k_objs st' u = k_objs st u"
  by (erule wake_up_process_cases) auto

lemma same_pids_wake: "wake_up_process t st = Some st' \<Longrightarrow> same_pids st st'"
  by (erule wake_up_process_cases) (auto simp: same_pids_def)

lemma send_sig_info_cases:
  assumes "send_sig_info t info st = Some st'"
  obtains m x x1 where "k_objs st t = Some x" and "k_objs m = (k_objs st)(t \<mapsto> x1)" and "t_pid x1 = t_pid x"
    and "k_queue m = k_queue st" and "k_current m = k_current st" and "k_swapper m = k_swapper st"
    and "k_tasks m = k_tasks st" and "st' = m \<or> wake_up_process t m = Some st'"
proof -
  obtain ok st1 where k: "k_kmalloc st = (ok, st1)" by fastforce
  note f = k_kmalloc_frame [OF k]
  from assms obtain x where x: "k_objs st t = Some x" by (auto simp: send_sig_info_def bind_eq_Some_conv)
  let ?cont = "set_task t (x\<lparr>t_stopped := False\<rparr>) st"
  let ?x1 = "upd_pending (\<lambda>p. p\<lparr>pending_mask := pending_mask p OR MASKVAL (si_signo info),
                siginfos := (siginfos p)(si_signo info \<mapsto> info)\<rparr>) x"
  let ?st2 = "set_task t ?x1 st1"
  have "st' = st \<or> wake_up_process t ?cont = Some st' \<or> st' = ?st2 \<or> wake_up_process t ?st2 = Some st'"
    using assms k x by (auto simp: send_sig_info_def bind_eq_Some_conv Let_def split: if_splits)
  then consider "st' = st" | "wake_up_process t ?cont = Some st'" | "st' = ?st2 \<or> wake_up_process t ?st2 = Some st'"
    by blast
  then show thesis
  proof cases
    case 1
    with x show thesis by (intro that [of x st x]) auto
  next
    case 2
    with x show thesis by (intro that [of x ?cont "x\<lparr>t_stopped := False\<rparr>"]) auto
  next
    case 3
    with x f show thesis by (intro that [of x ?st2 ?x1]) auto
  qed
qed

lemma send_sig_info_others:
  assumes "send_sig_info t info st = Some st'"
  shows "u \<noteq> t \<Longrightarrow> k_objs st' u = k_objs st u" and "same_pids st st'"
proof -
  obtain m x x1 where m: "k_objs st t = Some x" "k_objs m = (k_objs st)(t \<mapsto> x1)" "t_pid x1 = t_pid x"
    "k_tasks m = k_tasks st" "st' = m \<or> wake_up_process t m = Some st'"
    by (rule send_sig_info_cases [OF assms])
  have "same_pids st m" using m(1-4) by (simp add: same_pids_def)
  then show "same_pids st st'" using m(5) same_pids_trans same_pids_wake by blast
  show "k_objs st' u = k_objs st u" if "u \<noteq> t"
    using m(2,5) that wake_up_process_others [OF _ that, of m st'] by auto
qed

lemma schedule_frame:
  assumes "schedule st = Some st'"
  shows "k_tasks st' = k_tasks st" and "k_actions st' = k_actions st" and "k_free st' = k_free st"
    and "u \<noteq> k_current st \<Longrightarrow> k_objs st' u = k_objs st u"
    and "map_option (t_wakeup_current_update (\<lambda>_. False)) (k_objs st' u) =
      map_option (t_wakeup_current_update (\<lambda>_. False)) (k_objs st u)"
proof -
  obtain ok st0 where k: "k_kmalloc st = (ok, st0)" by fastforce
  note f = k_kmalloc_frame [OF k]
  from assms obtain st1 where r: "requeue st = Some st1" and "st' = (case k_queue st1 of
       [] \<Rightarrow> st1\<lparr>k_current := k_swapper st1\<rparr> | t # ts \<Rightarrow> st1\<lparr>k_queue := ts, k_current := t\<rparr>)"
    by (auto simp: schedule_def bind_eq_Some_conv)
  then have objs: "k_objs st' = k_objs st1" "k_tasks st' = k_tasks st1" "k_actions st' = k_actions st1"
    "k_free st' = k_free st1" by (simp_all split: list.split)
  from r obtain x where x: "current_task st = Some x" by (auto simp: requeue_def bind_eq_Some_conv)
  have cases: "k_objs st1 = k_objs st \<or> k_objs st1 = (k_objs st)(k_current st \<mapsto> x\<lparr>t_wakeup_current := False\<rparr>)"
    "k_tasks st1 = k_tasks st" "k_actions st1 = k_actions st" "k_free st1 = k_free st"
    using r x k f by (auto simp: requeue_def split: if_splits)
  show "k_tasks st' = k_tasks st" "k_actions st' = k_actions st" "k_free st' = k_free st"
    using cases objs by simp_all
  show "k_objs st' u = k_objs st u" if "u \<noteq> k_current st"
    using cases objs that by auto
  show "map_option (t_wakeup_current_update (\<lambda>_. False)) (k_objs st' u) =
      map_option (t_wakeup_current_update (\<lambda>_. False)) (k_objs st u)"
    using cases objs x by auto
qed

section \<open>From exit to wait\<close>

lemma schedule_requeues:
  assumes x: "current_task st = Some x" "t_state x \<noteq> TASK_RUNNING" and c: "k_current st \<notin> set (k_queue st)"
    and run: "schedule st = Some st'" and ne: "k_current st' \<noteq> k_current st"
  shows "\<not> t_wakeup_current x \<Longrightarrow> k_current st \<notin> set (k_queue st')"
    and "t_wakeup_current x \<Longrightarrow> \<not> t_stopped x \<Longrightarrow> k_current st \<noteq> k_swapper st \<Longrightarrow> k_answers st = [] \<Longrightarrow>
      k_current st \<in> set (k_queue st')"
proof -
  show "k_current st \<notin> set (k_queue st')" if "\<not> t_wakeup_current x"
    using that x c run by (auto simp: schedule_def requeue_def split: list.splits)
  show "k_current st \<in> set (k_queue st')"
    if "t_wakeup_current x" "\<not> t_stopped x" "k_current st \<noteq> k_swapper st" "k_answers st = []"
    using that x c run ne by (cases "k_queue st") (auto simp: schedule_def requeue_def k_kmalloc_def)
qed

lemma wake_frame:
  "wake_up_process t st = Some st' \<Longrightarrow> k_swapper st' = k_swapper st"
  by (erule wake_up_process_cases) auto

lemma send_sig_info_queue:
  assumes "send_sig_info t info st = Some st'" and "t \<noteq> k_current st" and "k_current st \<notin> set (k_queue st)"
  shows "k_current st' = k_current st" and "k_current st \<notin> set (k_queue st')" and "k_swapper st' = k_swapper st"
proof -
  obtain m where m: "k_queue m = k_queue st" "k_current m = k_current st" "k_swapper m = k_swapper st"
    "st' = m \<or> wake_up_process t m = Some st'"
    by (rule send_sig_info_cases [OF assms(1)])
  show "k_current st' = k_current st" "k_current st \<notin> set (k_queue st')" "k_swapper st' = k_swapper st"
    using m assms(2,3) wake_queue [of t m st'] wake_frame [of t m st'] by auto
qed

text \<open>
  What \<open>do_exit\<close> leaves, when the parent is told: the task is a zombie with its exit code, and the parent
  and the numbers of all tasks are as before.
\<close>

lemma schedule_same_pids: "schedule st = Some st' \<Longrightarrow> same_pids st st'"
proof -
  assume s: "schedule st = Some st'"
  have "map_option t_pid (k_objs st' u) = map_option t_pid (k_objs st u)" for u
    using schedule_frame(5) [OF s, of u] by (cases "k_objs st' u"; cases "k_objs st u") (auto dest: arg_cong [of _ _ t_pid])
  then show ?thesis using schedule_frame(1) [OF s] by (simp add: same_pids_def)
qed

lemma reparent_same_pids: "same_pids st (reparent pid st)"
  by (auto simp: same_pids_def reparent_def option.map_comp o_def intro!: option.map_cong0)

text \<open>What \<open>tty_put\<close> does to the state of tasks: a terminal may go.\<close>

definition only_ttys :: "(ptr \<Rightarrow> kst \<Rightarrow> kst option) \<Rightarrow> bool" where
  "only_ttys put \<longleftrightarrow> (\<forall>t st st1. put t st = Some st1 \<longrightarrow> (\<exists>tt. st1 = st\<lparr>k_ttys := tt\<rparr>))"

definition leaving :: "int \<Rightarrow> task_struct \<Rightarrow> task_struct" where
  "leaving code x = x\<lparr>t_exitcode := code, t_state := TASK_ZOMBIE\<rparr>"

text \<open>Leaving the session touches the task itself, the session and its terminal.\<close>

lemma leave_session:
  assumes "(if t_session x = 0 then Some (set_task (k_current st) (leaving code x) st)
      else put_session put (set_task (k_current st) (leaving code x) st)) = Some st2" and "only_ttys put"
  shows "\<exists>ss tt sid pg. st2 = (set_task (k_current st) (leaving code x\<lparr>t_session := sid, t_pgid := pg\<rparr>) st)\<lparr>k_sessions := ss, k_ttys := tt\<rparr>"
proof (cases "t_session x = 0")
  case True
  then have "st2 = set_task (k_current st) (leaving code x) st" using assms(1) by simp
  moreover have "leaving code x = leaving code x\<lparr>t_session := t_session x, t_pgid := t_pgid x\<rparr>" by (simp add: leaving_def)
  ultimately have "st2 = (set_task (k_current st) (leaving code x\<lparr>t_session := t_session x, t_pgid := t_pgid x\<rparr>) st)
      \<lparr>k_sessions := k_sessions st, k_ttys := k_ttys st\<rparr>" by simp
  then show ?thesis by blast
next
  case False
  let ?z = "leaving code x\<lparr>t_session := 0, t_pgid := 0\<rparr>"
  let ?st1 = "set_task (k_current st) ?z st"
  let ?st0 = "set_task (k_current st) (leaving code x) st"
  have sx: "t_session (leaving code x) = t_session x" by (simp add: leaving_def)
  from False assms(1) have run: "put_session put ?st0 = Some st2" by simp
  then obtain se where se: "k_sessions st (t_session x) = Some se"
    using False sx by (cases "k_sessions st (t_session x)") (simp_all add: put_session_def Let_def)
  have st2: "(if se_refcount se - 1 \<noteq> 0
      then Some (?st1\<lparr>k_sessions := (k_sessions st)(t_session x \<mapsto> se\<lparr>se_refcount := se_refcount se - 1\<rparr>)\<rparr>)
      else do {
        st3 \<leftarrow> (if se_tty se = 0 then Some ?st1 else do {
          owner \<leftarrow> k_ttys st (se_tty se);
          put (se_tty se) (if owner = t_session x then ?st1\<lparr>k_ttys := (k_ttys st)(se_tty se \<mapsto> 0)\<rparr> else ?st1) });
        Some (st3\<lparr>k_sessions := (k_sessions st3)(t_session x := None)\<rparr>) }) = Some st2"
    using run by (simp add: put_session_def Let_def sx se False cong: if_cong)
  show ?thesis
  proof (cases "se_refcount se - 1 = 0")
    case False
    with st2 have "st2 = ?st1\<lparr>k_sessions := (k_sessions st)(t_session x \<mapsto> se\<lparr>se_refcount := se_refcount se - 1\<rparr>)\<rparr>"
      by simp
    also have "\<dots> = ?st1\<lparr>k_sessions := (k_sessions st)(t_session x \<mapsto> se\<lparr>se_refcount := se_refcount se - 1\<rparr>), k_ttys := k_ttys st\<rparr>"
      by simp
    finally show ?thesis by blast
  next
    case True
    have "\<exists>tt. st2 = ?st1\<lparr>k_sessions := (k_sessions st)(t_session x := None), k_ttys := tt\<rparr>"
    proof (cases "se_tty se = 0")
      case True
      with st2 \<open>se_refcount se - 1 = 0\<close> have "st2 = ?st1\<lparr>k_sessions := (k_sessions st)(t_session x := None)\<rparr>" by simp
      also have "\<dots> = ?st1\<lparr>k_sessions := (k_sessions st)(t_session x := None), k_ttys := k_ttys st\<rparr>" by simp
      finally show ?thesis by blast
    next
      case False
      with st2 \<open>se_refcount se - 1 = 0\<close> obtain owner st3 where
        p: "put (se_tty se) (if owner = t_session x then ?st1\<lparr>k_ttys := (k_ttys st)(se_tty se \<mapsto> 0)\<rparr> else ?st1) = Some st3"
        and e: "st2 = st3\<lparr>k_sessions := (k_sessions st3)(t_session x := None)\<rparr>"
        by (auto simp: bind_eq_Some_conv)
      from p assms(2) obtain tt where "st3 = (if owner = t_session x then ?st1\<lparr>k_ttys := (k_ttys st)(se_tty se \<mapsto> 0)\<rparr> else ?st1)\<lparr>k_ttys := tt\<rparr>"
        unfolding only_ttys_def by blast
      then have "st3 = ?st1\<lparr>k_ttys := tt\<rparr>" by (simp split: if_splits)
      then show ?thesis using e by (intro exI [of _ tt]) simp
    qed
    then show ?thesis by blast
  qed
qed

lemma do_exit_zombie:
  assumes x: "current_task st = Some x" and put: "only_ttys put" and pp: "t_ppid x \<noteq> t_pid x"
    and parent: "get_task_from_pid (t_ppid x) st = Some (Inr p)" and other: "p \<noteq> k_current st"
    and y: "k_objs st p = Some y"
    and acts: "k_actions st (t_sigactions y) = Some acts" "sa_sigaction (sas_actions acts SIGCHLD) \<noteq> SIG_IGN"
    and run: "do_exit put Some Some code st = Some st'"
  obtains x' y' where "k_objs st' (k_current st) = Some x'" and "t_state x' = TASK_ZOMBIE"
    and "t_exitcode x' = code" and "t_ppid x' = t_ppid x" and "t_pid x' = t_pid x"
    and "t_sigactions x' = t_sigactions x" and "t_sigpending x' = t_sigpending x"
    and "k_objs st' p = Some y'" and "t_pid y' = t_pid y" and "same_pids st st'"
    and "run_inv st \<longrightarrow> (\<not> t_wakeup_current x \<longrightarrow> k_current st \<notin> set (k_queue st')) \<and>
      (t_wakeup_current x \<longrightarrow> k_answers st = [] \<longrightarrow> \<not> t_stopped x \<longrightarrow> k_current st \<noteq> k_swapper st \<longrightarrow>
        k_current st \<in> set (k_queue st'))"
    and "signalled st st' p SIGCHLD" and "k_actions st' (t_sigactions x) = None \<or>
      (\<exists>a. k_actions st (t_sigactions x) = Some a \<and> sas_refcount a \<noteq> 1)"
proof -
  let ?c = "k_current st"
  from run x obtain st2 st4 st5 st6 where se: "(if t_session x = 0 then Some (set_task ?c (leaving code x) st)
      else put_session put (set_task ?c (leaving code x) st)) = Some st2" and d: "drop_actions (t_sigactions x) st2 = Some st4"
    and tell: "tell_parent code st4 = Some st5" and sch: "schedule (reparent (t_pid x) st5) = Some st6"
    and st': "st' = st6" and ran: "k_current st' \<noteq> ?c"
    by (auto simp: do_exit_def bind_eq_Some_conv leaving_def [symmetric] split: if_splits)
  from leave_session [OF se put] obtain ss tt sid pg where
    "st2 = (set_task ?c (leaving code x\<lparr>t_session := sid, t_pgid := pg\<rparr>) st)\<lparr>k_sessions := ss, k_ttys := tt\<rparr>" by blast
  moreover define z where "z = leaving code x\<lparr>t_session := sid, t_pgid := pg\<rparr>"
  ultimately have st2: "st2 = (set_task ?c z st)\<lparr>k_sessions := ss, k_ttys := tt\<rparr>" by simp
  let ?st1 = "(set_task ?c z st)\<lparr>k_sessions := ss, k_ttys := tt\<rparr>"
  note z_def = z_def [unfolded leaving_def]
  note d = d [unfolded st2]
  from d obtain a where a: "k_actions st (t_sigactions x) = Some a"
    and st4: "st4 = ?st1\<lparr>k_actions := (k_actions st)(t_sigactions x :=
       (if sas_refcount a - 1 = 0 then None else Some (a\<lparr>sas_refcount := sas_refcount a - 1\<rparr>)))\<rparr>"
    by (auto simp: drop_actions_def bind_eq_Some_conv)
  have pids4: "same_pids st st4" using x by (simp add: same_pids_def st4 z_def)
  have lookup: "get_task_from_pid (t_ppid x) st4 = Some (Inr p)"
    using parent same_pids_lookup [OF pids4] by simp
  have y4: "k_objs st4 p = Some y" using y other by (simp add: st4)
  from tell lookup y4 obtain acts4 where acts4: "k_actions st4 (t_sigactions y) = Some acts4"
    by (auto simp: tell_parent_def bind_eq_Some_conv st4 z_def split: if_splits)
  have same: "sas_actions acts4 = sas_actions acts"
    using acts4 acts(1) a by (auto simp: st4 split: if_splits)
  have send: "send_sig_info p (exit_siginfo (t_pid x) code) st4 = Some st5"
    using tell lookup y4 acts4 same acts(2)
    by (auto simp: tell_parent_def bind_eq_Some_conv st4 z_def split: if_splits)
  note others = send_sig_info_others [OF send] and keeps = send_sig_info_keeps [OF send]
  have c5: "k_objs st5 ?c = Some z" using others(1) [of ?c] other by (simp add: st4)
  from keeps_signals_task [OF keeps(1) y4] obtain y5 where y5: "k_objs st5 p = Some y5" "task_keeps y y5" by blast
  let ?st5 = "reparent (t_pid x) st5"
  have c5': "k_objs ?st5 ?c = Some z" using c5 pp by (auto simp: reparent_def z_def)
  define y6 where "y6 = (if p \<in> set (k_tasks st5) \<and> t_ppid y5 = t_pid x then y5\<lparr>t_ppid := 1\<rparr> else y5)"
  have y6: "k_objs ?st5 p = Some y6" "t_pid y6 = t_pid y5" "t_sigpending y6 = t_sigpending y5"
    using y5(1) by (simp_all add: reparent_def y6_def)
  have upd: "t_wakeup_current_update (\<lambda>_. False) u = t_wakeup_current_update (\<lambda>_. False) v \<Longrightarrow>
    t_state u = t_state v \<and> t_exitcode u = t_exitcode v \<and> t_ppid u = t_ppid v \<and> t_pid u = t_pid v \<and>
    t_sigpending u = t_sigpending v \<and> t_sigactions u = t_sigactions v" for u v :: task_struct
    by (cases u; cases v) simp
  obtain x' where x': "k_objs st' ?c = Some x'" "t_state x' = TASK_ZOMBIE" "t_exitcode x' = code"
    "t_ppid x' = t_ppid x" "t_pid x' = t_pid x" "t_sigactions x' = t_sigactions x" "t_sigpending x' = t_sigpending x"
    using schedule_frame(5) [OF sch, of ?c] c5' st' by (auto simp: z_def dest!: upd)
  obtain y' where y': "k_objs st' p = Some y'" "t_pid y' = t_pid y" "t_sigpending y' = t_sigpending y5"
    using schedule_frame(5) [OF sch, of p] y6 st' y5(2) by (auto simp: task_keeps_def dest!: upd)
  have "same_pids st4 st5" by (rule others(2))
  then have pids: "same_pids st st'"
    using pids4 reparent_same_pids schedule_same_pids [OF sch] same_pids_trans st' by blast
  have "is_pending st5 p SIGCHLD"
    using keeps(2) y4 acts4 same acts(2) by (auto simp: exit_siginfo_def ignores_def)
  then have "signalled st st' p SIGCHLD" using y5(1) y' by (simp add: signalled_def is_pending_def)
  moreover have "k_actions st' = k_actions st4"
    using schedule_frame(2) [OF sch] keeps(1) st' by (simp add: reparent_def keeps_signals_def)
  then have "k_actions st' (t_sigactions x) = None \<or>
      (\<exists>a. k_actions st (t_sigactions x) = Some a \<and> sas_refcount a \<noteq> 1)"
    using a by (auto simp: st4)
  moreover have "(\<not> t_wakeup_current x \<longrightarrow> ?c \<notin> set (k_queue st')) \<and> (t_wakeup_current x \<longrightarrow> k_answers st = [] \<longrightarrow>
      \<not> t_stopped x \<longrightarrow> ?c \<noteq> k_swapper st \<longrightarrow> ?c \<in> set (k_queue st'))" if inv: "run_inv st"
  proof -
    have q4: "p \<noteq> k_current st4" "k_current st4 \<notin> set (k_queue st4)" "k_current st4 = ?c" "k_swapper st4 = k_swapper st"
      using inv other by (simp_all add: run_inv_def st4)
    from send_sig_info_queue [OF send q4(1,2)] q4 have q5: "k_current st5 = ?c" "?c \<notin> set (k_queue st5)"
      "k_swapper st5 = k_swapper st" by simp_all
    have cur: "current_task ?st5 = Some z" "t_state z \<noteq> TASK_RUNNING" "k_current ?st5 \<notin> set (k_queue ?st5)"
      "k_current st6 \<noteq> k_current ?st5" "k_answers ?st5 = k_answers st5"
      using c5' q5 ran st' by (simp_all add: z_def reparent_def)
    have "k_answers st = [] \<longrightarrow> k_answers st5 = []" using keeps(1) by (simp add: keeps_signals_def st4)
    with schedule_requeues [OF cur(1-3) sch cur(4)] q5 st' show ?thesis by (simp add: z_def reparent_def)
  qed
  ultimately show thesis using that x' y' pids by blast
qed

text \<open>Waiting for a zombie.\<close>

lemma find_task_removed:
  assumes "\<forall>t \<in> set ts. objs t \<noteq> None" and "\<forall>u \<in> set ts. \<forall>x. objs u = Some x \<longrightarrow> t_pid x = pid \<longrightarrow> u = t"
  shows "find_task objs pid (filter (\<lambda>u. u \<noteq> t) ts) = Some (Inl (- ESRCH))"
  using assms by (induction ts) auto

lemma waitpid_zombie:
  assumes inv: "tasks_inv st" and uniq: "inj_on (pid_of st) (set (k_tasks st))"
    and me: "current_task st = Some me" and t: "get_task_from_pid pid st = Some (Inr t)"
    and x: "k_objs st t = Some x" "t_state x = TASK_ZOMBIE" "t_ppid x = t_pid me" "0 \<le> t_exitcode x"
    and pid: "0 < pid" and mem: "k_answers st = []"
  shows "\<exists>st'. do_sys_waitpid (uint pid) opts st = Some (Returned (uint pid), Some (t_exitcode x), st') \<and>
    get_task_from_pid pid st' = Some (Inl (- ESRCH)) \<and> t \<in> set (k_free st')"
proof -
  from pid have "0 < uint pid" by (simp add: word_less_def)
  then have "\<not> uint pid < 1" by simp
  define st' where "st' = (set_task t (x\<lparr>t_state := TASK_DEAD\<rparr>) st)\<lparr>k_tasks := filter (\<lambda>u. u \<noteq> t) (k_tasks st),
    k_free := k_free st @ [t]\<rparr>"
  have "reap t st = Some (t_exitcode x, st')"
    using x mem by (simp add: reap_def k_kmalloc_def st'_def)
  then have "do_sys_waitpid (uint pid) opts st = Some (Returned (uint pid), Some (t_exitcode x), st')"
    using \<open>\<not> uint pid < 1\<close> t x me by (simp add: do_sys_waitpid_def do_wait_def)
  moreover have "get_task_from_pid pid st' = Some (Inl (- ESRCH))"
  proof -
    note found = get_task_found [OF inv t]
    have le: "\<not> pid > MAXPID" using t by (simp add: get_task_from_pid_def split: if_splits)
    have "u = t" if "u \<in> set (k_tasks st)" "k_objs st u = Some z" "t_pid z = pid" for u z
    proof (rule inj_onD [OF uniq _ that(1) found(1)])
      show "pid_of st u = pid_of st t" using that found(2) by (auto simp: pid_of_def)
    qed
    then have "find_task (k_objs st') pid (filter (\<lambda>u. u \<noteq> t) (k_tasks st)) = Some (Inl (- ESRCH))"
      using inv by (intro find_task_removed) (auto simp: tasks_inv_def st'_def)
    with le show ?thesis by (simp add: get_task_from_pid_def st'_def)
  qed
  ultimately show ?thesis by (intro exI [of _ st']) (simp add: st'_def)
qed

section \<open>Properties\<close>

text \<open>C17: What a task exits with is what its parent gets.  A task, in a session or in none, exits with a code that
  is not negative; its parent exists, is not the task itself, and does not ignore \<open>SIGCHLD\<close>; closing the task's
  files and freeing its memory leave the tasks alone, and giving back the session's terminal changes only
  terminals.  Then the parent is sent \<open>SIGCHLD\<close>; when it runs, \<open>waitpid\<close> with the number of the task returns that
  number and stores that code, and after it the number names no task, and the task's memory is to be freed.\<close>

theorem exit_wait_roundtrip:
  assumes "tasks_inv st" and "inj_on (pid_of st) (set (k_tasks st))"
    and "current_task st = Some x" and "get_task_from_pid (t_pid x) st = Some (Inr (k_current st))"
    and "only_ttys put" and "t_ppid x \<noteq> t_pid x" and "0 < t_pid x"
    and "get_task_from_pid (t_ppid x) st = Some (Inr p)" and "p \<noteq> k_current st" and "k_objs st p = Some y"
    and "k_actions st (t_sigactions y) = Some acts" and "sa_sigaction (sas_actions acts SIGCHLD) \<noteq> SIG_IGN"
    and "do_exit put Some Some code st = Some st1" and "0 \<le> code"
  shows "signalled st st1 p SIGCHLD \<and>
    (\<exists>st2. do_sys_waitpid (uint (t_pid x)) opts (st1\<lparr>k_current := p, k_answers := []\<rparr>) =
      Some (Returned (uint (t_pid x)), Some code, st2) \<and>
      get_task_from_pid (t_pid x) st2 = Some (Inl (- ESRCH)) \<and> k_current st \<in> set (k_free st2))"
proof -
  obtain x' y' where x': "k_objs st1 (k_current st) = Some x'" "t_state x' = TASK_ZOMBIE"
      "t_exitcode x' = code" "t_ppid x' = t_ppid x" "t_pid x' = t_pid x"
    and y': "k_objs st1 p = Some y'" "t_pid y' = t_pid y" and pids: "same_pids st st1"
    and sig: "signalled st st1 p SIGCHLD"
    by (rule do_exit_zombie [OF assms(3,5,6,8-13)])
  let ?st1 = "st1\<lparr>k_current := p, k_answers := []\<rparr>"
  have pids1: "same_pids st ?st1" using pids by (simp add: same_pids_def)
  have "k_objs ?st1 t \<noteq> None" if "k_objs st t \<noteq> None" for t
    using that pids by (metis (no_types, lifting) kst.select_convs(1) kst.surjective kst.update_convs(5,11)
        map_option_is_None same_pids_def)
  then have inv1: "tasks_inv ?st1" using assms(1) pids by (simp add: tasks_inv_def same_pids_def)
  have "pid_of ?st1 t = pid_of st t" if t: "t \<in> set (k_tasks st)" for t
  proof -
    obtain z where "k_objs st t = Some z" using t assms(1) by (auto simp: tasks_inv_def)
    moreover from this pids have "map_option t_pid (k_objs st1 t) = Some (t_pid z)" by (simp add: same_pids_def)
    ultimately show ?thesis by (auto simp: pid_of_def)
  qed
  then have inj1: "inj_on (pid_of ?st1) (set (k_tasks ?st1))"
    using assms(2) pids by (simp add: inj_on_def same_pids_def)
  have pp: "t_ppid x' = t_pid y'"
    using get_task_found(2) [OF assms(1,8)] assms(10) x' y' by auto
  have "get_task_from_pid (t_pid x) ?st1 = Some (Inr (k_current st))"
    using assms(4) same_pids_lookup [OF pids1] by simp
  from waitpid_zombie [OF inv1 inj1 _ this, of y' x' opts] x' y' pp assms(7,14) sig show ?thesis by simp
qed

text \<open>The second task of the sample kernel is a child of the first, and runs.\<close>

definition exit_kst :: "bool \<Rightarrow> kst" where
  "exit_kst woken = sample_kst\<lparr>k_objs := [32 \<mapsto> sample_task 0, 64 \<mapsto> sample_task 16,
     96 \<mapsto> (sample_task 17)\<lparr>t_ppid := 16, t_session := 384, t_sigactions := 256, t_wakeup_current := woken\<rparr>],
     k_sessions := [384 \<mapsto> \<lparr>se_refcount = 2, se_sid = 16, se_tty = 0, se_foreground_pgid = 16\<rparr>],
     k_actions := (k_actions sample_kst)(256 \<mapsto> \<lparr>sas_refcount = 1, sas_actions = (\<lambda>_. dfl_action)\<rparr>),
     k_current := 96, k_queue := [64]\<rparr>"

lemma put_nothing: "only_ttys (\<lambda>_. Some)"
  unfolding only_ttys_def
proof (intro allI impI)
  fix st st1 :: kst
  assume "Some st = Some st1"
  then show "\<exists>tt. st1 = st\<lparr>k_ttys := tt\<rparr>" by (intro exI [of _ "k_ttys st"]) simp
qed

lemma exit_kst_runs: "\<exists>st1. do_exit (\<lambda>_. Some) Some Some 768 (exit_kst w) = Some st1"
proof -
  define x where "x = (sample_task 17)\<lparr>t_ppid := 16, t_session := 384, t_sigactions := 256, t_wakeup_current := w\<rparr>"
  define z where "z = x\<lparr>t_exitcode := 768, t_state := TASK_ZOMBIE, t_session := 0, t_pgid := 0\<rparr>"
  let ?s = "exit_kst w"
  let ?s2 = "(set_task 96 z ?s)\<lparr>k_sessions := [384 \<mapsto> \<lparr>se_refcount = 1, se_sid = 16, se_tty = 0, se_foreground_pgid = 16\<rparr>]\<rparr>"
  let ?s4 = "?s2\<lparr>k_actions := (k_actions ?s)(256 := None)\<rparr>"
  have x: "k_current ?s = 96" "k_objs ?s 96 = Some x" "t_session x = 384" "t_sigactions x = 256" "t_pid x = 17"
    by (simp_all add: exit_kst_def x_def)
  have p: "put_session (\<lambda>_. Some) (set_task 96 (x\<lparr>t_exitcode := 768, t_state := TASK_ZOMBIE\<rparr>) ?s) = Some ?s2"
    using x(1,3) by (simp add: put_session_def z_def) (simp add: exit_kst_def)
  have z: "t_ppid z = 16" "t_pid z = 17" "t_state z = TASK_ZOMBIE" "t_wakeup_current z = w" "t_stopped z = False"
    by (simp_all add: z_def x_def)
  have d: "drop_actions 256 ?s2 = Some ?s4"
    by (simp add: drop_actions_def exit_kst_def)
  have "get_task_from_pid 16 ?s4 = Some (Inr 64)"
    by (simp add: get_task_from_pid_def MAXPID_def exit_kst_def sample_kst_def)
  moreover have "k_actions ?s4 128 = k_actions sample_kst 128" "k_objs ?s4 64 = Some (sample_task 16)"
    "k_current ?s4 = 96" "k_objs ?s4 96 = Some z" "k_answers ?s4 = []"
    by (simp_all add: exit_kst_def sample_kst_def)
  ultimately have "\<exists>s5. tell_parent 768 ?s4 = Some s5 \<and> k_current s5 = 96 \<and> k_queue s5 = [64] \<and> k_objs s5 96 = Some z
    \<and> k_answers s5 = []"
    using z by (simp add: tell_parent_def send_sig_info_def exit_siginfo_def NSIG_def k_kmalloc_def Let_def
        sample_kst_def no_signals_def) (simp add: exit_kst_def)
  then obtain s5 where tell: "tell_parent 768 ?s4 = Some s5"
    and s5: "k_current s5 = 96" "k_queue s5 = [64]" "k_objs s5 96 = Some z" "k_answers s5 = []" by blast
  have "k_objs (reparent 17 s5) 96 = Some z" using s5(3) z by (simp add: reparent_def)
  then have "\<exists>s6. schedule (reparent 17 s5) = Some s6 \<and> k_current s6 = 64"
    using s5 z by (simp add: schedule_def requeue_def reparent_def k_kmalloc_def)
  then obtain s6 where s6: "schedule (reparent 17 s5) = Some s6" "k_current s6 = 64" by blast
  show ?thesis using x p d tell s6 by (simp add: do_exit_def)
qed

theorem exit_wait_roundtrip_witness:
  "\<exists>st1 st2. do_exit (\<lambda>_. Some) Some Some 768 (exit_kst False) = Some st1 \<and>
    do_sys_waitpid 17 0 (st1\<lparr>k_current := 64, k_answers := []\<rparr>) = Some (Returned 17, Some 768, st2)"
proof -
  let ?s = "exit_kst False"
  let ?x = "(sample_task 17)\<lparr>t_ppid := 16, t_session := 384, t_sigactions := 256, t_wakeup_current := False\<rparr>"
  let ?acts = "\<lparr>sas_refcount = 3, sas_actions = (\<lambda>_. \<lparr>sa_sigaction = 0, sa_mask = 0, sa_flags = 0, sa_restorer = 0\<rparr>)\<rparr>"
  obtain st1 where st1: "do_exit (\<lambda>_. Some) Some Some 768 ?s = Some st1" using exit_kst_runs by blast
  have facts: "k_current ?s = 96" "k_objs ?s 96 = Some ?x" "k_objs ?s 64 = Some (sample_task 16)"
    "k_tasks ?s = [64, 96]" "k_actions ?s 128 = Some ?acts"
    by (simp_all add: exit_kst_def sample_kst_def)
  have look: "get_task_from_pid 17 ?s = Some (Inr 96)" "get_task_from_pid 16 ?s = Some (Inr 64)"
    by (simp_all add: get_task_from_pid_def MAXPID_def facts)
  have "tasks_inv ?s" "inj_on (pid_of ?s) (set (k_tasks ?s))"
    by (simp_all add: tasks_inv_def pid_of_def facts)
  from exit_wait_roundtrip [OF this _ _ put_nothing, of ?x 64 "sample_task 16" ?acts 768 st1 0] st1 look
  show ?thesis by (auto simp: facts sample_task_def)
qed

text \<open>C18: A zombie cannot be signalled.  When an exiting task, in a session or in none, was the only user of its
  table of actions, the table is freed; its parent, if it exists and does not ignore \<open>SIGCHLD\<close>, has to wait for it,
  and until then the task stays in the list: sending it a signal that was not pending for it, which any task can do
  with \<open>kill\<close>, reads the freed table.\<close>

theorem zombie_signal_faults:
  assumes "current_task st = Some x" and "only_ttys put" and "t_ppid x \<noteq> t_pid x"
    and "get_task_from_pid (t_ppid x) st = Some (Inr p)" and "p \<noteq> k_current st" and "k_objs st p = Some y"
    and "k_actions st (t_sigactions y) = Some acts" and "sa_sigaction (sas_actions acts SIGCHLD) \<noteq> SIG_IGN"
    and "do_exit put Some Some code st = Some st1"
    and "k_actions st (t_sigactions x) = Some own" and "sas_refcount own = 1"
    and "pending_mask (t_sigpending x) AND MASKVAL n = 0"
  shows "send_sig_info (k_current st) (user_siginfo n pid) st1 = None"
proof -
  obtain z where "k_objs st1 (k_current st) = Some z" "t_sigactions z = t_sigactions x"
    "t_sigpending z = t_sigpending x" "k_actions st1 (t_sigactions x) = None"
    by (rule do_exit_zombie [OF assms(1-9)]) (use assms(10,11) in auto)
  with assms(12) show ?thesis by (simp add: send_sig_info_def user_siginfo_def)
qed

theorem zombie_signal_faults_witness:
  "\<exists>st1. do_exit (\<lambda>_. Some) Some Some 768 (exit_kst False) = Some st1 \<and>
    send_sig_info 96 (user_siginfo 10 16) st1 = None"
proof -
  let ?s = "exit_kst False"
  let ?x = "(sample_task 17)\<lparr>t_ppid := 16, t_session := 384, t_sigactions := 256, t_wakeup_current := False\<rparr>"
  let ?acts = "\<lparr>sas_refcount = 3, sas_actions = (\<lambda>_. \<lparr>sa_sigaction = 0, sa_mask = 0, sa_flags = 0, sa_restorer = 0\<rparr>)\<rparr>"
  let ?own = "\<lparr>sas_refcount = 1, sas_actions = (\<lambda>_. dfl_action)\<rparr>"
  obtain st1 where st1: "do_exit (\<lambda>_. Some) Some Some 768 ?s = Some st1" using exit_kst_runs by blast
  have facts: "k_current ?s = 96" "k_objs ?s 96 = Some ?x" "k_objs ?s 64 = Some (sample_task 16)"
    "k_tasks ?s = [64, 96]" "k_actions ?s 128 = Some ?acts" "k_actions ?s 256 = Some ?own"
    by (simp_all add: exit_kst_def sample_kst_def)
  have "get_task_from_pid 16 ?s = Some (Inr 64)" by (simp add: get_task_from_pid_def MAXPID_def facts)
  with zombie_signal_faults [OF _ put_nothing, of ?s ?x 64 "sample_task 16" ?acts 768 st1 ?own 10 16] st1
  show ?thesis by (auto simp: facts sample_task_def no_signals_def)
qed

text \<open>Exiting with a wake-up pending.  A task whose parent is told leaves the run queue for good when it
  exits, unless its \<open>wakeup_current\<close> flag is set, which an interrupt handler may have done while it ran:
  then the zombie is queued again, and when it runs it reaches \<open>BUG\<close>.\<close>

theorem exit_requeues_woken:
  assumes "current_task st = Some x" and "only_ttys put" and "t_ppid x \<noteq> t_pid x"
    and "get_task_from_pid (t_ppid x) st = Some (Inr p)" and "p \<noteq> k_current st" and "k_objs st p = Some y"
    and "k_actions st (t_sigactions y) = Some acts" and "sa_sigaction (sas_actions acts SIGCHLD) \<noteq> SIG_IGN"
    and "do_exit put Some Some code st = Some st1"
    and "run_inv st" and "k_answers st = []" and "\<not> t_stopped x" and "k_current st \<noteq> k_swapper st"
  shows "(k_current st \<in> set (k_queue st1) \<longleftrightarrow> t_wakeup_current x) \<and>
    map_option t_state (k_objs st1 (k_current st)) = Some TASK_ZOMBIE"
proof -
  obtain z where "k_objs st1 (k_current st) = Some z" "t_state z = TASK_ZOMBIE"
    and "run_inv st \<longrightarrow> (\<not> t_wakeup_current x \<longrightarrow> k_current st \<notin> set (k_queue st1)) \<and>
      (t_wakeup_current x \<longrightarrow> k_answers st = [] \<longrightarrow> \<not> t_stopped x \<longrightarrow> k_current st \<noteq> k_swapper st \<longrightarrow>
        k_current st \<in> set (k_queue st1))"
    by (rule do_exit_zombie [OF assms(1-9)])
  with assms(10-13) show ?thesis by auto
qed

theorem exit_requeues_woken_witness:
  "\<exists>st1. do_exit (\<lambda>_. Some) Some Some 768 (exit_kst True) = Some st1 \<and> 96 \<in> set (k_queue st1)"
proof -
  let ?s = "exit_kst True"
  let ?x = "(sample_task 17)\<lparr>t_ppid := 16, t_session := 384, t_sigactions := 256, t_wakeup_current := True\<rparr>"
  let ?acts = "\<lparr>sas_refcount = 3, sas_actions = (\<lambda>_. \<lparr>sa_sigaction = 0, sa_mask = 0, sa_flags = 0, sa_restorer = 0\<rparr>)\<rparr>"
  obtain st1 where st1: "do_exit (\<lambda>_. Some) Some Some 768 ?s = Some st1" using exit_kst_runs by blast
  have facts: "k_current ?s = 96" "k_objs ?s 96 = Some ?x" "k_objs ?s 64 = Some (sample_task 16)"
    "k_tasks ?s = [64, 96]" "k_actions ?s 128 = Some ?acts" "k_swapper ?s = 32" "k_answers ?s = []" "k_queue ?s = [64]"
    by (simp_all add: exit_kst_def sample_kst_def)
  have "get_task_from_pid 16 ?s = Some (Inr 64)" by (simp add: get_task_from_pid_def MAXPID_def facts)
  with exit_requeues_woken [OF _ put_nothing, of ?s ?x 64 "sample_task 16" ?acts 768 st1] st1
  show ?thesis by (auto simp: facts sample_task_def run_inv_def)
qed

text \<open>C19: A new task has a number of its own.  While some number of the range that is reused is free, memory is
  there, and copying memory and files has succeeded, cloning returns and adds one task to the list, which is not
  yet in the run queue; it is in the session of the task that is cloned, which counts it; and the numbers of all
  tasks stay distinct.\<close>

theorem clone_pids_distinct:
  assumes inv: "tasks_inv st" and uniq: "inj_on (pid_of st) (set (k_tasks st))"
    and x: "current_task st = Some x" and se: "t_session x \<noteq> 0 \<Longrightarrow> k_sessions st (t_session x) = Some se"
    and acts: "k_actions st (t_sigactions x) = Some acts"
    and pid: "k_pid st \<le> MAXPID" "LOOPPID \<le> goal" "goal \<le> MAXPID" "\<forall>t \<in> set (k_tasks st). pid_of st t \<noteq> goal"
    and new: "t \<noteq> 0" "t \<notin> set (k_tasks st)" and mem: "k_answers st = []"
  shows "\<exists>st'. do_clone Some flags t sa st = Some (Inr t, st') \<and> k_tasks st' = k_tasks st @ [t] \<and>
    k_queue st' = k_queue st \<and> tasks_inv st' \<and> inj_on (pid_of st') (set (k_tasks st')) \<and>
    map_option t_session (k_objs st' t) = Some (t_session x) \<and>
    k_sessions st' = (if t_session x = 0 then k_sessions st
      else (k_sessions st)(t_session x \<mapsto> se\<lparr>se_refcount := se_refcount se + 1\<rparr>))"
proof -
  let ?ss = "if t_session x = 0 then k_sessions st
      else (k_sessions st)(t_session x \<mapsto> se\<lparr>se_refcount := se_refcount se + 1\<rparr>)"
  let ?st1 = "st\<lparr>k_sessions := ?ss\<rparr>"
  have sh: "share_session (t_session x) st = Some ?st1" using se by (simp add: share_session_def)
  have goal: "16 \<le> unat goal" using pid(2) by (simp add: LOOPPID_def word_le_nat_alt)
  have po: "pid_of ?st1 = pid_of st" by (simp add: pid_of_def fun_eq_iff)
  have "tasks_inv ?st1" using inv by (simp add: tasks_inv_def)
  from next_pid_terminates [OF this _ goal pid(3)] pid(1,4) obtain p n where
    p: "next_pid ?st1 = Some (p, ?st1\<lparr>k_pid := n\<rparr>)" "\<forall>t \<in> set (k_tasks st). pid_of st t \<noteq> p" by (auto simp: po)
  let ?st2 = "?st1\<lparr>k_pid := n\<rparr>"
  obtain a st4 where c: "clone_actions (flags AND CLONE_SIGHAND \<noteq> 0) (t_sigactions x) sa ?st2 = Some (a, st4)"
    and st4: "k_tasks st4 = k_tasks st" "k_queue st4 = k_queue st" "k_objs st4 = k_objs st" "k_answers st4 = []"
      "k_sessions st4 = ?ss"
    using acts mem by (cases "flags AND CLONE_SIGHAND \<noteq> 0") (auto simp: clone_actions_def k_kmalloc_def)
  define child where "child = \<lparr>t_pid = p, t_ppid = (if flags AND CLONE_PARENT \<noteq> 0 then t_ppid x else t_pid x),
          t_session = t_session x, t_pgid = t_pgid x,
          t_sigpending = \<lparr>blocked_mask = 0, pending_mask = 0, forced_mask = 0, siginfos = Map.empty\<rparr>,
          t_sigactions = a, t_state = TASK_RUNNING, t_wakeup_current = False, t_stopped = False,
          t_subsystem = t_subsystem x, t_exitcode = 0\<rparr>"
  let ?st' = "(set_task t child st4)\<lparr>k_tasks := k_tasks st @ [t], k_answers := []\<rparr>"
  have "do_clone Some flags t sa st = Some (Inr t, ?st')"
    using new(1) x sh p(1) c st4
    by (simp add: do_clone_def child_def Let_def k_kmalloc_def)
  moreover have "tasks_inv ?st'" using inv st4 by (auto simp: tasks_inv_def)
  moreover have "inj_on (pid_of ?st') (set (k_tasks ?st'))"
  proof -
    have old: "pid_of ?st' u = pid_of st u" if "u \<in> set (k_tasks st)" for u
      using that new(2) st4(3) by (auto simp: pid_of_def)
    have t: "pid_of ?st' t = p" by (simp add: pid_of_def child_def)
    have "inj_on (pid_of ?st') (set (k_tasks st)) \<longleftrightarrow> inj_on (pid_of st) (set (k_tasks st))"
      by (rule inj_on_cong) (rule old)
    then have "inj_on (pid_of ?st') (set (k_tasks st))" using uniq by (rule iffD2)
    moreover have "pid_of ?st' t \<notin> pid_of ?st' ` set (k_tasks st)"
    proof
      assume "pid_of ?st' t \<in> pid_of ?st' ` set (k_tasks st)"
      then obtain u where u: "u \<in> set (k_tasks st)" "pid_of ?st' t = pid_of ?st' u" by (rule imageE)
      from u(2) have "pid_of st u = p" unfolding t old [OF u(1)] by (rule sym)
      with p(2) u(1) show False by blast
    qed
    moreover have "set (k_tasks ?st') = insert t (set (k_tasks st))" by simp
    moreover have "set (k_tasks st) - {t} = set (k_tasks st)" using new(2) by blast
    ultimately show ?thesis by (simp only: inj_on_insert simp_thms not_False_eq_True)
  qed
  ultimately show ?thesis using st4(2,5) by (intro exI [of _ ?st']) (simp add: child_def)
qed

text \<open>The task that runs is in a session.\<close>

definition clone_kst :: kst where
  "clone_kst = sample_kst\<lparr>k_objs := (k_objs sample_kst)(64 \<mapsto> (sample_task 16)\<lparr>t_session := 384\<rparr>),
     k_sessions := [384 \<mapsto> \<lparr>se_refcount = 1, se_sid = 16, se_tty = 0, se_foreground_pgid = 16\<rparr>]\<rparr>"

theorem clone_pids_distinct_witness:
  "\<exists>st'. do_clone Some 17 160 512 clone_kst = Some (Inr 160, st') \<and> k_tasks st' = [64, 96, 160] \<and>
    map_option t_session (k_objs st' 160) = Some 384 \<and> map_option se_refcount (k_sessions st' 384) = Some 2"
  using clone_pids_distinct [of clone_kst "(sample_task 16)\<lparr>t_session := 384\<rparr>"
      "\<lparr>se_refcount = 1, se_sid = 16, se_tty = 0, se_foreground_pgid = 16\<rparr>" "the (k_actions sample_kst 128)" 20 160 17 512]
  by (auto simp: clone_kst_def sample_kst_def sample_task_def tasks_inv_def pid_of_def MAXPID_def LOOPPID_def)

end
