(* ===== verification/Paging.thy ===== *)
theory Paging
  imports Prelude "HOL-Library.Monad_Syntax"
begin

text \<open>
  \<open>mm/paging.c\<close> and \<open>mm/brk.c\<close>: the table of physical pages, the page tables of the kernel heap and of
  user spaces and the program break; theory \<open>Cow\<close> goes on with address spaces.  The contents of kernel
  pages other than page tables, the flush of the TLB and the bits only the processor sets are left
  out.  \<open>None\<close> is a panic or an access through \<open>NULL\<close>.
\<close>

section \<open>Page sizes and entries\<close>

definition PAGE_IDX :: "u32 \<Rightarrow> nat" where "PAGE_IDX val = unat val div 4096"
definition PAGE_DIR_IDX :: "u32 \<Rightarrow> nat" where "PAGE_DIR_IDX val = unat val div 4194304"
definition PAGE_TABLE_IDX :: "u32 \<Rightarrow> nat" where "PAGE_TABLE_IDX val = unat val div 4096 mod 1024"
definition PAGE_IDX_ADDR :: "nat \<Rightarrow> u32" where "PAGE_IDX_ADDR idx = word_of_nat (idx * 4096)"

definition GFP_USER :: u32 where "GFP_USER = 1"
definition GFP_LARGE :: u32 where "GFP_LARGE = 2"
definition GFP_RO :: u32 where "GFP_RO = 4"
definition GFP_CONS :: u32 where "GFP_CONS = 8"

definition gfp_has :: "u32 \<Rightarrow> u32 \<Rightarrow> bool" where
  "gfp_has flags bits \<longleftrightarrow> flags AND bits \<noteq> 0"

definition page_size :: "u32 \<Rightarrow> nat" where
  "page_size flags = (if gfp_has flags GFP_LARGE then 4194304 else 4096)"

definition PAGE_COW_RO :: u8 where "PAGE_COW_RO = 1"
definition PAGE_SHARED :: u8 where "PAGE_SHARED = 2"

text \<open>\<open>addr\<close> is the number of a 4 KB page.\<close>

record page_directory_entry =
  pd_present :: bool
  pd_rw :: bool
  pd_user :: bool
  pd_size :: bool
  pd_global :: bool
  pd_flags :: u8
  pd_addr :: nat

record page_table_entry =
  pt_present :: bool
  pt_rw :: bool
  pt_user :: bool
  pt_global :: bool
  pt_flags :: u8
  pt_addr :: nat

definition no_pde :: page_directory_entry where
  "no_pde = \<lparr>pd_present = False, pd_rw = False, pd_user = False, pd_size = False, pd_global = False,
     pd_flags = 0, pd_addr = 0\<rparr>"

definition no_pte :: page_table_entry where
  "no_pte = \<lparr>pt_present = False, pt_rw = False, pt_user = False, pt_global = False, pt_flags = 0, pt_addr = 0\<rparr>"

section \<open>Physical pages\<close>

text \<open>
  \<open>phys_dir\<close>: the first \<open>1024\<close> entries are large pages, the others are small pages by their number.  An
  entry is \<open>0\<close> for an unused page, \<open>-1\<close> for the kernel's, \<open>-2\<close> for an unavailable one, and otherwise the
  number of user mappings, a 16-bit integer.
\<close>

type_synonym phys_dir = "nat \<Rightarrow> int"

definition PHYS_DIR_KERNEL :: int where "PHYS_DIR_KERNEL = -1"
definition PHYS_DIR_UNAVAIL :: int where "PHYS_DIR_UNAVAIL = -2"

text \<open>The inner loops count with 16 bits: past \<open>65535\<close> they go on at \<open>0\<close>.\<close>

partial_function (option) all_free :: "(nat \<Rightarrow> bool) \<Rightarrow> u16 \<Rightarrow> nat \<Rightarrow> bool option" where
  "all_free used i lim =
     (if unat i < lim then if used (unat i) then Some False else all_free used (i + 1) lim
      else Some True)"

fun first_page :: "(nat \<Rightarrow> bool option) \<Rightarrow> nat list \<Rightarrow> nat option option" where
  "first_page ok [] = Some None"
| "first_page ok (i # is) = do { b \<leftarrow> ok i; if b then Some (Some i) else first_page ok is }"

definition page_free :: "u32 \<Rightarrow> phys_dir \<Rightarrow> nat \<Rightarrow> bool option" where
  "page_free flags pd i =
     (if pd i \<noteq> 0 then Some False
      else if gfp_has flags GFP_LARGE then
        all_free (\<lambda>k. pd k \<noteq> 0) (word_of_nat (i * 1024)) ((i + 1) * 1024)
      else Some (pd (i div 1024) = 0))"

definition start_idx :: "u32 \<Rightarrow> nat" where "start_idx flags = (if gfp_has flags GFP_LARGE then 0 else 1024)"
definition end_idx :: "u32 \<Rightarrow> nat" where "end_idx flags = (if gfp_has flags GFP_LARGE then 1024 else 1048576)"

text \<open>The address of the page, \<open>0\<close> if there is none.\<close>

definition alloc_phys_mem :: "u32 \<Rightarrow> phys_dir \<Rightarrow> (u32 \<times> phys_dir) option" where
  "alloc_phys_mem flags pd = do {
     r \<leftarrow> first_page (page_free flags pd) [start_idx flags..<end_idx flags];
     Some (case r of
       None \<Rightarrow> (0, pd)
     | Some i \<Rightarrow> (word_of_nat (i * page_size flags),
         pd(i := if gfp_has flags GFP_USER then 1 else PHYS_DIR_KERNEL))) }"

text \<open>Consecutive small pages for the kernel.\<close>

definition mark_kernel :: "nat \<Rightarrow> nat \<Rightarrow> phys_dir \<Rightarrow> phys_dir" where
  "mark_kernel i num pd = (\<lambda>k. if i \<le> k \<and> k < i + num then PHYS_DIR_KERNEL else pd k)"

definition alloc_phys_mem_consecutive :: "nat \<Rightarrow> u32 \<Rightarrow> phys_dir \<Rightarrow> (u32 \<times> phys_dir) option" where
  "alloc_phys_mem_consecutive num flags pd =
     (if gfp_has flags GFP_LARGE \<or> gfp_has flags GFP_USER then Some (0, pd)
      else do {
        r \<leftarrow> first_page (\<lambda>i. all_free (\<lambda>k. pd (k div 1024) \<noteq> 0 \<or> pd k \<noteq> 0) (word_of_nat i) (i + num))
          [start_idx flags..<end_idx flags];
        Some (case r of
          None \<Rightarrow> (0, pd)
        | Some i \<Rightarrow> (word_of_nat (i * page_size flags), mark_kernel i num pd)) })"

definition get_phys_dir_entry :: "u32 \<Rightarrow> u32 \<Rightarrow> nat" where
  "get_phys_dir_entry addr flags = unat addr div page_size flags"

definition free_phys_mem :: "u32 \<Rightarrow> u32 \<Rightarrow> phys_dir \<Rightarrow> phys_dir option" where
  "free_phys_mem addr flags pd =
     (let i = get_phys_dir_entry addr flags in
      if pd i = 0 \<or> pd i = PHYS_DIR_UNAVAIL then None
      else if pd i = PHYS_DIR_KERNEL then
        (if gfp_has flags GFP_USER then None else Some (pd(i := 0)))
      else if pd i > 0 then
        (if \<not> gfp_has flags GFP_USER then None else Some (pd(i := pd i - 1)))
      else None)"

definition use_phys_mem :: "u32 \<Rightarrow> u32 \<Rightarrow> phys_dir \<Rightarrow> phys_dir option" where
  "use_phys_mem addr flags pd =
     (let i = get_phys_dir_entry addr flags in
      if pd i \<le> 0 \<or> \<not> gfp_has flags GFP_USER then None
      else Some (pd(i := wrap16 (pd i + 1))))"

section \<open>The allocator of physical pages\<close>

text \<open>A page in use is neither free nor unavailable.\<close>

definition in_use :: "int \<Rightarrow> bool" where
  "in_use v \<longleftrightarrow> v \<noteq> 0 \<and> v \<noteq> PHYS_DIR_UNAVAIL"

text \<open>No memory is in use twice: as a small page and as part of a large one.\<close>

definition phys_excl :: "phys_dir \<Rightarrow> bool" where
  "phys_excl pd \<longleftrightarrow> (\<forall>k. 1024 \<le> k \<and> k < 1048576 \<longrightarrow> \<not> (in_use (pd k) \<and> in_use (pd (k div 1024))))"

lemma all_free_spec:
  assumes "used 0"
  shows "\<exists>b. all_free used i lim = Some b \<and>
    (b \<longrightarrow> lim < 65536 \<and> (\<forall>k. unat i \<le> k \<and> k < lim \<longrightarrow> \<not> used k))"
proof (induction "65536 - unat i" arbitrary: i rule: less_induct)
  case less
  have lt: "unat i < 65536" by (rule unat_lt_size16)
  show ?case
  proof (cases "unat i < lim \<and> \<not> used (unat i)")
    case go: True
    show ?thesis
    proof (cases "unat i = 65535")
      case True
      then have "i = - 1" by (intro word_unat_eq_iff [THEN iffD2]) (simp add: unsigned_minus_1_eq_mask mask_eq_exp_minus_1)
      then have "i + 1 = 0" by simp
      moreover have "all_free used 0 lim = Some False" using go assms by (subst all_free.simps) simp
      ultimately have "all_free used i lim = Some False" using go by (subst all_free.simps) simp
      then show ?thesis by (intro exI [of _ False]) simp
    next
      case False
      then have s: "unat (i + 1) = Suc (unat i)" using lt by (intro unat_suc_small) simp
      then obtain b where b: "all_free used (i + 1) lim = Some b"
        "b \<longrightarrow> lim < 65536 \<and> (\<forall>k. unat (i + 1) \<le> k \<and> k < lim \<longrightarrow> \<not> used k)"
        using less.hyps [of "i + 1"] lt by fastforce
      have "\<not> used k" if "b" "unat i \<le> k" "k < lim" for k
        using b(2) s go that by (cases "k = unat i") auto
      moreover have "all_free used i lim = Some b" using b(1) go by (subst all_free.simps) simp
      ultimately show ?thesis using b(2) by blast
    qed
  next
    case False
    then have "all_free used i lim = Some (\<not> unat i < lim)" by (subst all_free.simps) auto
    with lt show ?thesis by auto
  qed
qed

lemma first_page_Some:
  assumes "first_page ok is = Some r"
  shows "case r of None \<Rightarrow> True | Some i \<Rightarrow> i \<in> set is \<and> ok i = Some True"
  using assms
proof (induction "is")
  case (Cons i "is")
  then obtain b where "ok i = Some b" by (auto split: bind_splits)
  with Cons show ?case by (cases b) (auto split: option.splits)
qed simp

lemma first_page_total:
  assumes "\<And>i. i \<in> set is \<Longrightarrow> ok i \<noteq> None"
  shows "first_page ok is \<noteq> None"
  using assms by (induction "is") (force split: bind_splits)+

text \<open>The first page that is free.\<close>

lemma first_page_first:
  assumes "lo \<le> k" and "k < hi" and "ok k = Some True" and "\<And>i. lo \<le> i \<Longrightarrow> i < k \<Longrightarrow> ok i = Some False"
  shows "first_page ok [lo..<hi] = Some (Some k)"
  using assms
proof (induction "k - lo" arbitrary: lo)
  case 0
  then show ?case by (simp add: upt_rec [of lo hi])
next
  case (Suc n)
  then have "ok lo = Some False" "first_page ok [Suc lo..<hi] = Some (Some k)" by simp_all
  with Suc.hyps(2) Suc.prems show ?case by (simp add: upt_rec [of lo hi])
qed

lemma alloc_phys_mem_first:
  assumes "start_idx flags \<le> k" and "k < end_idx flags" and "page_free flags pd k = Some True"
    and "\<And>i. start_idx flags \<le> i \<Longrightarrow> i < k \<Longrightarrow> page_free flags pd i = Some False"
  shows "alloc_phys_mem flags pd = Some (word_of_nat (k * page_size flags),
    pd(k := if gfp_has flags GFP_USER then 1 else PHYS_DIR_KERNEL))"
  unfolding alloc_phys_mem_def using first_page_first [of "start_idx flags" k "end_idx flags" "page_free flags pd"] assms by simp

lemma page_free_total: "pd 0 \<noteq> 0 \<Longrightarrow> page_free flags pd i \<noteq> None"
  using all_free_spec [of "\<lambda>k. pd k \<noteq> 0" "word_of_nat (i * 1024)" "(i + 1) * 1024"]
  by (auto simp: page_free_def)

text \<open>A large page that is found: its number is below 63, as the end of its small pages must have 16 bits.\<close>

lemma page_free_large:
  assumes "pd 0 \<noteq> 0" and "gfp_has flags GFP_LARGE" and "page_free flags pd i = Some True"
  shows "pd i = 0 \<and> i < 63 \<and> (\<forall>k. i * 1024 \<le> k \<and> k < (i + 1) * 1024 \<longrightarrow> pd k = 0)"
proof -
  from assms have z: "pd i = 0"
    and f: "all_free (\<lambda>k. pd k \<noteq> 0) (word_of_nat (i * 1024)) ((i + 1) * 1024) = Some True"
    by (auto simp: page_free_def split: if_splits)
  from f all_free_spec [of "\<lambda>k. pd k \<noteq> 0" "word_of_nat (i * 1024)" "(i + 1) * 1024", OF assms(1)]
  have l: "(i + 1) * 1024 < 65536"
    and a: "\<And>k. unat (word_of_nat (i * 1024) :: u16) \<le> k \<Longrightarrow> k < (i + 1) * 1024 \<Longrightarrow> pd k = 0"
    by auto
  from l have "unat (word_of_nat (i * 1024) :: u16) = i * 1024"
    by (simp add: unat_of_nat del: of_nat_mult)
  with z l a show ?thesis by auto
qed

lemma alloc_phys_mem_cases:
  assumes "alloc_phys_mem flags pd = Some (a, pd1)"
  shows "a = 0 \<and> pd1 = pd \<or> (\<exists>i. page_free flags pd i = Some True \<and> a = word_of_nat (i * page_size flags) \<and>
    (if gfp_has flags GFP_LARGE then i < 1024 else 1024 \<le> i \<and> i < 1048576) \<and>
    pd1 = pd(i := if gfp_has flags GFP_USER then 1 else PHYS_DIR_KERNEL))"
proof -
  from assms obtain r where
    r: "first_page (page_free flags pd) [start_idx flags..<end_idx flags] = Some r"
    and e: "(a, pd1) = (case r of None \<Rightarrow> (0, pd)
      | Some i \<Rightarrow> (word_of_nat (i * page_size flags), pd(i := if gfp_has flags GFP_USER then 1 else PHYS_DIR_KERNEL)))"
    unfolding alloc_phys_mem_def by (auto simp: bind_eq_Some_conv)
  show ?thesis
  proof (cases r)
    case None
    with e show ?thesis by simp
  next
    case (Some i)
    have "i \<in> set [start_idx flags..<end_idx flags]" "page_free flags pd i = Some True"
      using first_page_Some [OF r] Some by simp_all
    moreover from this(1) have "if gfp_has flags GFP_LARGE then i < 1024 else 1024 \<le> i \<and> i < 1048576"
      by (auto simp: start_idx_def end_idx_def split: if_splits)
    ultimately show ?thesis using e Some by auto
  qed
qed

text \<open>C20: With the first large page taken, as the kernel's pages always are, the search for a physical page
  returns, and a page it finds is a free one that overlaps no page in use: the allocator never has the
  same memory in use twice.  Of the large pages only those below number 63 can be found, as the 16-bit
  index of the search wraps: memory from 252 MB on is never used for large pages.\<close>

theorem alloc_phys_mem_excl:
  assumes "phys_excl pd" and "pd 0 \<noteq> 0"
  shows "\<exists>a pd1. alloc_phys_mem flags pd = Some (a, pd1) \<and> phys_excl pd1 \<and>
    (a = 0 \<and> pd1 = pd \<or> (\<exists>i. a = word_of_nat (i * page_size flags) \<and> pd i = 0 \<and>
      (gfp_has flags GFP_LARGE \<longrightarrow> i < 63) \<and> pd1 = pd(i := if gfp_has flags GFP_USER then 1 else PHYS_DIR_KERNEL)))"
proof -
  have "first_page (page_free flags pd) [start_idx flags..<end_idx flags] \<noteq> None"
    by (intro first_page_total page_free_total assms(2))
  then have "alloc_phys_mem flags pd \<noteq> None" by (auto simp: alloc_phys_mem_def)
  then obtain a pd1 where al: "alloc_phys_mem flags pd = Some (a, pd1)" by force
  from alloc_phys_mem_cases [OF al] show ?thesis
  proof (elim disjE exE conjE)
    assume "a = 0" "pd1 = pd"
    with al assms(1) show ?thesis by auto
  next
    fix i
    assume i: "page_free flags pd i = Some True" "a = word_of_nat (i * page_size flags)"
      "if gfp_has flags GFP_LARGE then i < 1024 else 1024 \<le> i \<and> i < 1048576"
      "pd1 = pd(i := if gfp_has flags GFP_USER then 1 else PHYS_DIR_KERNEL)"
    have "pd i = 0 \<and> (gfp_has flags GFP_LARGE \<longrightarrow> i < 63) \<and> phys_excl pd1"
    proof (cases "gfp_has flags GFP_LARGE")
      case True
      with page_free_large [OF assms(2) True i(1)] assms(1) i(4) show ?thesis
        by (auto simp: phys_excl_def in_use_def)
    next
      case False
      with i assms(1) show ?thesis
        by (auto simp: phys_excl_def in_use_def page_free_def split: if_splits)
    qed
    with al i show ?thesis by blast
  qed
qed

definition sample_phys :: phys_dir where
  "sample_phys = (\<lambda>i. if i < 3 then PHYS_DIR_KERNEL else 0)"

lemma sample_phys_ok: "phys_excl sample_phys" "sample_phys 0 \<noteq> 0"
  by (auto simp: phys_excl_def sample_phys_def in_use_def PHYS_DIR_KERNEL_def)

lemma alloc_phys_mem_excl_witness:
  "\<exists>a pd1. alloc_phys_mem GFP_USER sample_phys = Some (a, pd1) \<and> phys_excl pd1"
  using alloc_phys_mem_excl [OF sample_phys_ok, of GFP_USER] by blast

lemma mark_kernel_frame [frame_simps]: "k < i \<or> i + num \<le> k \<Longrightarrow> mark_kernel i num pd k = pd k"
  by (auto simp: mark_kernel_def)

text \<open>A use and a release of a page cancel, up to the 32767 mappings the count has room for.\<close>

lemma use_then_free:
  assumes "use_phys_mem a flags pd = Some pd1" and "pd (get_phys_dir_entry a flags) < 32767"
  shows "free_phys_mem a flags pd1 = Some pd"
  using assms by (auto simp: use_phys_mem_def free_phys_mem_def Let_def wrap16_def PHYS_DIR_UNAVAIL_def
      PHYS_DIR_KERNEL_def split: if_splits)

section \<open>Page tables\<close>

text \<open>
  The state: the physical pages; \<open>heap_tables\<close>, by page number; the directories and user page tables by
  the kernel-heap address they are at; the contents of user pages, by page number; the address of the
  current directory.
\<close>

record mmst =
  mm_phys :: phys_dir
  mm_heap :: "nat \<Rightarrow> page_table_entry"
  mm_dir :: "ptr \<Rightarrow> nat \<Rightarrow> page_directory_entry"
  mm_tab :: "ptr \<Rightarrow> nat \<Rightarrow> page_table_entry"
  mm_mem :: "nat \<Rightarrow> u8 list"
  mm_cur :: ptr

definition KHEAP_ADDR :: u32 where "KHEAP_ADDR = 0xC0400000"
definition KHEAP_ADDR_IDX :: nat where "KHEAP_ADDR_IDX = 0xC0400"
definition NUM_KHEAP_PAGES :: nat where "NUM_KHEAP_PAGES = 261120"

abbreviation set_phys :: "phys_dir \<Rightarrow> mmst \<Rightarrow> mmst" where
  "set_phys pd st \<equiv> st\<lparr>mm_phys := pd\<rparr>"

abbreviation set_heap :: "nat \<Rightarrow> page_table_entry \<Rightarrow> mmst \<Rightarrow> mmst" where
  "set_heap i e st \<equiv> st\<lparr>mm_heap := (mm_heap st)(i := e)\<rparr>"

abbreviation set_pde :: "ptr \<Rightarrow> nat \<Rightarrow> page_directory_entry \<Rightarrow> mmst \<Rightarrow> mmst" where
  "set_pde d i e st \<equiv> st\<lparr>mm_dir := (mm_dir st)(d := (mm_dir st d)(i := e))\<rparr>"

abbreviation set_pte :: "ptr \<Rightarrow> nat \<Rightarrow> page_table_entry \<Rightarrow> mmst \<Rightarrow> mmst" where
  "set_pte t i e st \<equiv> st\<lparr>mm_tab := (mm_tab st)(t := (mm_tab st t)(i := e))\<rparr>"

definition kheap_virtual2phys :: "ptr \<Rightarrow> mmst \<Rightarrow> u32 option" where
  "kheap_virtual2phys virt st =
     (if virt < KHEAP_ADDR then None
      else (let e = mm_heap st (PAGE_IDX virt) in
        if \<not> pt_present e then None
        else Some (PAGE_IDX_ADDR (pt_addr e) + word_of_nat (unat virt mod 4096))))"

definition find_userspace_page_table :: "page_directory_entry \<Rightarrow> mmst \<Rightarrow> ptr option" where
  "find_userspace_page_table de st =
     map_option PAGE_IDX_ADDR (List.find (\<lambda>i. pt_present (mm_heap st i) \<and> pt_addr (mm_heap st i) = pd_addr de)
       [KHEAP_ADDR_IDX..<KHEAP_ADDR_IDX + NUM_KHEAP_PAGES])"

text \<open>\<open>free_one_page\<close>: the entry is cleared and, if it named a page other than page 0, the page is freed.\<close>

definition free_frame :: "nat \<Rightarrow> u32 \<Rightarrow> mmst \<Rightarrow> mmst option" where
  "free_frame frame flags st =
     (if PAGE_IDX_ADDR frame = 0 then Some st
      else do { pd \<leftarrow> free_phys_mem (PAGE_IDX_ADDR frame) flags (mm_phys st); Some (set_phys pd st) })"

definition free_one_page :: "u32 \<Rightarrow> u32 \<Rightarrow> mmst \<Rightarrow> mmst option" where
  "free_one_page page flags st =
     (if gfp_has flags GFP_USER then
        (let de = mm_dir st (mm_cur st) (PAGE_DIR_IDX page) in
         if pd_present de \<and> pd_user de then
           if gfp_has flags GFP_LARGE \<and> pd_size de then
             free_frame (pd_addr de) flags (set_pde (mm_cur st) (PAGE_DIR_IDX page) no_pde st)
           else if \<not> pd_size de then do {
             table \<leftarrow> find_userspace_page_table de st;
             let te = mm_tab st table (PAGE_TABLE_IDX page);
             if pt_present te \<and> pt_user te then
               free_frame (pt_addr te) flags (set_pte table (PAGE_TABLE_IDX page) no_pte st)
             else Some st }
           else Some st
         else Some st)
      else if gfp_has flags GFP_LARGE then Some st
      else if page \<ge> KHEAP_ADDR then
        (let te = mm_heap st (PAGE_IDX page) in
         if pt_present te \<and> \<not> pt_user te then free_frame (pt_addr te) flags (set_heap (PAGE_IDX page) no_pte st)
         else Some st)
      else Some st)"

text \<open>Iterating a step of the machine over a list.\<close>

fun iterate :: "('a \<Rightarrow> 's \<Rightarrow> 's option) \<Rightarrow> 'a list \<Rightarrow> 's \<Rightarrow> 's option" where
  "iterate f [] st = Some st"
| "iterate f (x # xs) st = do { st1 \<leftarrow> f x st; iterate f xs st1 }"

definition free_pages :: "u32 \<Rightarrow> nat \<Rightarrow> u32 \<Rightarrow> mmst \<Rightarrow> mmst option" where
  "free_pages page num flags st =
     iterate (\<lambda>i. free_one_page (page + word_of_nat (page_size flags * i)) flags) [0..<num] st"

text \<open>
  The mapping loop of \<open>request_pages\<close>: one physical page per entry; \<open>put\<close> stores it.  The result says
  how many were mapped and whether all were.
\<close>

fun map_pages :: "u32 \<Rightarrow> (nat \<Rightarrow> nat \<Rightarrow> mmst \<Rightarrow> mmst) \<Rightarrow> nat \<Rightarrow> nat list \<Rightarrow> mmst \<Rightarrow> (bool \<times> nat \<times> mmst) option" where
  "map_pages flags put n [] st = Some (True, n, st)"
| "map_pages flags put n (off # offs) st = do {
     (a, pd) \<leftarrow> alloc_phys_mem flags (mm_phys st);
     if a = 0 then Some (False, n, set_phys pd st)
     else map_pages flags put (n + 1) offs (put off (PAGE_IDX a) (set_phys pd st)) }"

definition user_pde :: "u32 \<Rightarrow> nat \<Rightarrow> page_directory_entry" where
  "user_pde flags frame = \<lparr>pd_present = True, pd_rw = (\<not> gfp_has flags GFP_RO), pd_user = True, pd_size = True,
     pd_global = False, pd_flags = 0, pd_addr = frame\<rparr>"

definition user_pte :: "u32 \<Rightarrow> nat \<Rightarrow> page_table_entry" where
  "user_pte flags frame = \<lparr>pt_present = True, pt_rw = (\<not> gfp_has flags GFP_RO), pt_user = True,
     pt_global = False, pt_flags = 0, pt_addr = frame\<rparr>"

definition kernel_pte :: "u32 \<Rightarrow> nat \<Rightarrow> page_table_entry" where
  "kernel_pte flags frame = \<lparr>pt_present = True, pt_rw = (\<not> gfp_has flags GFP_RO), pt_user = False,
     pt_global = True, pt_flags = 0, pt_addr = frame\<rparr>"

text \<open>After the loop: the page, or, undoing what was mapped, \<open>NULL\<close>.\<close>

definition finish_map :: "u32 \<Rightarrow> u32 \<Rightarrow> bool \<times> nat \<times> mmst \<Rightarrow> (u32 \<times> mmst) option" where
  "finish_map page flags = (\<lambda>(ok, n, st).
     if ok then Some (page, st) else do { st1 \<leftarrow> free_pages page n flags st; Some (0, st1) })"

text \<open>The kernel's small pages, the part that page tables themselves are made of.\<close>

definition request_kernel_pages :: "u32 \<Rightarrow> nat \<Rightarrow> u32 \<Rightarrow> mmst \<Rightarrow> (u32 \<times> mmst) option" where
  "request_kernel_pages page num flags st =
     (if page < KHEAP_ADDR then Some (0, st)
      else if \<exists>off \<in> set [0..<num]. pt_present (mm_heap st (PAGE_IDX page + off)) then Some (0, st)
      else if gfp_has flags GFP_CONS then do {
        (a, pd) \<leftarrow> alloc_phys_mem_consecutive num flags (mm_phys st);
        let st1 = set_phys pd st;
        if a = 0 then finish_map page flags (False, num, st1)
        else Some (page, st1\<lparr>mm_heap := (\<lambda>i. if PAGE_IDX page \<le> i \<and> i < PAGE_IDX page + num
          then kernel_pte flags (PAGE_IDX (a + word_of_nat ((i - PAGE_IDX page) * 4096))) else mm_heap st1 i)\<rparr>) }
      else do {
        r \<leftarrow> map_pages flags (\<lambda>off frame. set_heap (PAGE_IDX page + off) (kernel_pte flags frame)) 0 [0..<num] st;
        finish_map page flags r })"

text \<open>The sanity checks shared by all requests.\<close>

definition request_valid :: "u32 \<Rightarrow> nat \<Rightarrow> u32 \<Rightarrow> bool" where
  "request_valid page num flags \<longleftrightarrow> unat page mod page_size flags = 0 \<and>
     (if gfp_has flags GFP_LARGE then num \<le> 1024
      else PAGE_DIR_IDX page = PAGE_DIR_IDX (page + word_of_nat (num * 4096)))"

text \<open>\<open>alloc_pages\<close> for the kernel, aligned to \<open>2^align\<close> pages: the first address for which the request succeeds.\<close>

fun first_request :: "(u32 \<Rightarrow> mmst \<Rightarrow> (u32 \<times> mmst) option) \<Rightarrow> u32 list \<Rightarrow> mmst \<Rightarrow> (u32 \<times> mmst) option" where
  "first_request req [] st = Some (0, st)"
| "first_request req (a # as) st = do {
     (p, st1) \<leftarrow> req a st;
     if p \<noteq> 0 then Some (p, st1) else first_request req as st1 }"

definition kheap_addrs :: "nat \<Rightarrow> nat \<Rightarrow> u32 list" where
  "kheap_addrs num align_num = map (\<lambda>k. word_of_nat ((KHEAP_ADDR_IDX + k * align_num) * 4096))
     [0..<(NUM_KHEAP_PAGES - num) div align_num + 1]"

definition alloc_kernel_pages :: "nat \<Rightarrow> nat \<Rightarrow> u32 \<Rightarrow> mmst \<Rightarrow> (u32 \<times> mmst) option" where
  "alloc_kernel_pages num align flags st =
     (if 2 ^ align > (1024::nat) then Some (0, st)
      else if KHEAP_ADDR_IDX mod 2 ^ align \<noteq> 0 then Some (0, st)
      else first_request (\<lambda>a st. if request_valid a num flags then request_kernel_pages a num flags st else Some (0, st))
        (kheap_addrs num (2 ^ align)) st)"

text \<open>A page table for a directory entry, on a fresh page of the kernel heap.\<close>

definition mk_user_table :: "ptr \<Rightarrow> nat \<Rightarrow> mmst \<Rightarrow> (ptr \<times> mmst) option" where
  "mk_user_table dir i st = do {
     (table, st1) \<leftarrow> alloc_kernel_pages 1 0 0 st;
     if table = 0 then Some (0, st1)
     else Some (table, set_pde dir i \<lparr>pd_present = True, pd_rw = True, pd_user = True, pd_size = False,
         pd_global = False, pd_flags = 0, pd_addr = pt_addr (mm_heap st1 (PAGE_IDX table))\<rparr>
       (st1\<lparr>mm_tab := (mm_tab st1)(table := (\<lambda>_. no_pte))\<rparr>)) }"

text \<open>Large and small pages for the current user space.\<close>

definition request_user_large :: "u32 \<Rightarrow> nat \<Rightarrow> u32 \<Rightarrow> mmst \<Rightarrow> (u32 \<times> mmst) option" where
  "request_user_large page num flags st =
     (if \<exists>off \<in> set [0..<num]. pd_present (mm_dir st (mm_cur st) (PAGE_DIR_IDX page + off)) then Some (0, st)
      else do {
        r \<leftarrow> map_pages flags (\<lambda>off frame. set_pde (mm_cur st) (PAGE_DIR_IDX page + off) (user_pde flags frame)) 0 [0..<num] st;
        finish_map page flags r })"

definition request_user_small :: "u32 \<Rightarrow> nat \<Rightarrow> u32 \<Rightarrow> mmst \<Rightarrow> (u32 \<times> mmst) option" where
  "request_user_small page num flags st =
     (let de = mm_dir st (mm_cur st) (PAGE_DIR_IDX page);
          fill = (\<lambda>table st. do {
            r \<leftarrow> map_pages flags (\<lambda>off frame. set_pte table (PAGE_TABLE_IDX page + off) (user_pte flags frame)) 0 [0..<num] st;
            finish_map page flags r }) in
      if pd_present de then
        (if \<not> pd_user de then Some (0, st)
         else do {
           table \<leftarrow> find_userspace_page_table de st;
           if \<exists>off \<in> set [0..<num]. pt_present (mm_tab st table (PAGE_TABLE_IDX page + off)) then Some (0, st)
           else fill table st })
      else do {
        (table, st1) \<leftarrow> mk_user_table (mm_cur st) (PAGE_DIR_IDX page) st;
        if table = 0 then Some (0, st1) else fill table st1 })"

text \<open>The small page an address is on, as the processor translates it in a user space.\<close>

definition virt_frame :: "ptr \<Rightarrow> u32 \<Rightarrow> mmst \<Rightarrow> nat option" where
  "virt_frame dir a st =
     (let de = mm_dir st dir (PAGE_DIR_IDX a) in
      if \<not> pd_present de then None
      else if pd_size de then Some (pd_addr de + PAGE_TABLE_IDX a)
      else do {
        table \<leftarrow> find_userspace_page_table de st;
        let te = mm_tab st table (PAGE_TABLE_IDX a);
        if pt_present te then Some (pt_addr te) else None })"

definition zero_page :: "u8 list" where "zero_page = replicate 4096 0"

definition clear_page :: "u32 \<Rightarrow> mmst \<Rightarrow> mmst option" where
  "clear_page a st = do {
     f \<leftarrow> virt_frame (mm_cur st) a st;
     Some (st\<lparr>mm_mem := (mm_mem st)(f := zero_page)\<rparr>) }"

text \<open>User pages are cleared.\<close>

definition clear_user :: "nat \<Rightarrow> u32 \<Rightarrow> u32 \<times> mmst \<Rightarrow> (u32 \<times> mmst) option" where
  "clear_user num flags = (\<lambda>(p, st).
     if p = 0 then Some (0, st)
     else do {
       st1 \<leftarrow> iterate (\<lambda>k. clear_page (p + word_of_nat (k * 4096))) [0..<num * page_size flags div 4096] st;
       Some (p, st1) })"

definition request_pages :: "u32 \<Rightarrow> nat \<Rightarrow> u32 \<Rightarrow> mmst \<Rightarrow> (u32 \<times> mmst) option" where
  "request_pages page num flags st =
     (if \<not> request_valid page num flags then Some (0, st)
      else if gfp_has flags GFP_USER then do {
        r \<leftarrow> (if gfp_has flags GFP_LARGE then request_user_large page num flags st else request_user_small page num flags st);
        clear_user num flags r }
      else if gfp_has flags GFP_LARGE then Some (0, st)
      else request_kernel_pages page num flags st)"

text \<open>\<open>alloc_pages\<close>, for at most as many pages as a table has entries (every call asks for at most four).\<close>

definition alloc_pages :: "nat \<Rightarrow> nat \<Rightarrow> u32 \<Rightarrow> mmst \<Rightarrow> (u32 \<times> mmst) option" where
  "alloc_pages num align flags st =
     (if 2 ^ align > (1024::nat) then Some (0, st)
      else if gfp_has flags GFP_USER then
        (let starts = map (\<lambda>k. k * 2 ^ align) [0..<(1024 - num) div 2 ^ align + 1] in
         first_request (\<lambda>a. request_pages a num flags)
           (if gfp_has flags GFP_LARGE then map (\<lambda>s. word_of_nat (s * 4194304)) starts
            else concat (map (\<lambda>b. map (\<lambda>s. word_of_nat (b * 4194304 + s * 4096)) starts) [3..<1024])) st)
      else if gfp_has flags GFP_LARGE then Some (0, st)
      else alloc_kernel_pages num align flags st)"

section \<open>Kernel pages\<close>

lemma iterate_inv:
  assumes "\<And>x s s1. \<lbrakk>x \<in> set xs; P s; f x s = Some s1\<rbrakk> \<Longrightarrow> P s1" and "P st" and "iterate f xs st = Some st1"
  shows "P st1"
  using assms by (induction xs arbitrary: st) (auto simp: bind_eq_Some_conv)

lemma iterate_append: "iterate f (xs @ ys) st = do { st1 \<leftarrow> iterate f xs st; iterate f ys st1 }"
  by (induction xs arbitrary: st) (auto split: bind_splits)

text \<open>An invariant that counts the passes of a loop.\<close>

lemma iterate_upto:
  assumes "iterate f [0..<n] st = Some st1" and "P 0 st"
    and "\<And>k s s1. \<lbrakk>k < n; P k s; f k s = Some s1\<rbrakk> \<Longrightarrow> P (Suc k) s1"
  shows "P n st1"
  using assms
proof (induction n arbitrary: st1)
  case (Suc n)
  from Suc.prems(1) obtain s where s: "iterate f [0..<n] st = Some s" "f n s = Some st1"
    by (auto simp: iterate_append bind_eq_Some_conv split: if_splits)
  have "P n s" using Suc.IH [OF s(1) Suc.prems(2)] Suc.prems(3) by simp
  with Suc.prems(3) s(2) show ?case by blast
qed simp

lemma iterate_total:
  assumes "P 0 st" and "\<And>k s. \<lbrakk>k < n; P k s\<rbrakk> \<Longrightarrow> \<exists>s1. f k s = Some s1 \<and> P (Suc k) s1"
  shows "\<exists>st1. iterate f [0..<n] st = Some st1 \<and> P n st1"
  using assms
proof (induction n)
  case (Suc n)
  then obtain s where "iterate f [0..<n] st = Some s" "P n s" by fastforce
  moreover from Suc.prems(2) [OF _ this(2)] obtain s1 where "f n s = Some s1" "P (Suc n) s1" by blast
  ultimately show ?case by (simp add: iterate_append)
qed simp

text \<open>The pages of the kernel heap are the kernel's and no two addresses share one.\<close>

definition kheap_range :: "nat \<Rightarrow> bool" where
  "kheap_range i \<longleftrightarrow> KHEAP_ADDR_IDX \<le> i \<and> i < KHEAP_ADDR_IDX + NUM_KHEAP_PAGES"

definition heap_ok :: "mmst \<Rightarrow> bool" where
  "heap_ok st \<longleftrightarrow>
     (\<forall>i. kheap_range i \<and> pt_present (mm_heap st i) \<longrightarrow> mm_phys st (pt_addr (mm_heap st i)) = PHYS_DIR_KERNEL) \<and>
     (\<forall>i j. kheap_range i \<and> kheap_range j \<and> pt_present (mm_heap st i) \<and> pt_present (mm_heap st j) \<and>
        pt_addr (mm_heap st i) = pt_addr (mm_heap st j) \<longrightarrow> i = j)"

lemma PAGE_IDX_ADDR_inverse: "i < 1048576 \<Longrightarrow> PAGE_IDX (PAGE_IDX_ADDR i) = i"
  by (simp add: PAGE_IDX_def PAGE_IDX_ADDR_def unat_of_nat del: of_nat_mult)

lemma kheap_range_lt: "kheap_range i \<Longrightarrow> i < 1048576"
  by (simp add: kheap_range_def KHEAP_ADDR_IDX_def NUM_KHEAP_PAGES_def)

lemma kheap_addr_nonzero: "kheap_range i \<Longrightarrow> PAGE_IDX_ADDR i \<noteq> 0"
  using PAGE_IDX_ADDR_inverse [of i] kheap_range_lt [of i]
  by (auto simp: kheap_range_def KHEAP_ADDR_IDX_def PAGE_IDX_def)

lemma find_SomeD: "List.find P xs = Some x \<Longrightarrow> P x \<and> x \<in> set xs"
  by (induction xs) (auto split: if_splits)

lemma find_table_eq:
  assumes "heap_ok st" and "kheap_range i" and "pt_present (mm_heap st i)" and "pt_addr (mm_heap st i) = pd_addr de"
  shows "find_userspace_page_table de st = Some (PAGE_IDX_ADDR i)"
proof -
  let ?P = "\<lambda>k. pt_present (mm_heap st k) \<and> pt_addr (mm_heap st k) = pd_addr de"
  let ?is = "[KHEAP_ADDR_IDX..<KHEAP_ADDR_IDX + NUM_KHEAP_PAGES]"
  have "List.find ?P ?is \<noteq> None" using assms(2-4) by (auto simp: find_None_iff kheap_range_def)
  then obtain k where k: "List.find ?P ?is = Some k" by blast
  have "?P k" "kheap_range k" using find_SomeD [OF k] by (simp_all add: kheap_range_def)
  with assms have "k = i" unfolding heap_ok_def by metis
  with k show ?thesis by (simp add: find_userspace_page_table_def)
qed

lemma find_tableE:
  assumes "find_userspace_page_table de st = Some t"
  obtains i where "kheap_range i" and "pt_present (mm_heap st i)" and "pt_addr (mm_heap st i) = pd_addr de"
    and "t = PAGE_IDX_ADDR i"
proof -
  from assms obtain i where i: "List.find (\<lambda>i. pt_present (mm_heap st i) \<and> pt_addr (mm_heap st i) = pd_addr de)
      [KHEAP_ADDR_IDX..<KHEAP_ADDR_IDX + NUM_KHEAP_PAGES] = Some i" "t = PAGE_IDX_ADDR i"
    by (auto simp: find_userspace_page_table_def)
  from find_SomeD [OF i(1)] i(2) show thesis by (intro that [of i]) (simp_all add: kheap_range_def)
qed

text \<open>One page for the kernel: nothing, or a free page at an unused address of the heap.\<close>

definition kernel_page_at :: "nat \<Rightarrow> nat \<Rightarrow> mmst \<Rightarrow> mmst" where
  "kernel_page_at i f st = set_heap i (kernel_pte 0 f) (set_phys ((mm_phys st)(f := PHYS_DIR_KERNEL)) st)"

lemma gfp_zero [simp]: "\<not> gfp_has 0 bits"
  by (simp add: gfp_has_def)

lemma request_kernel_pages_1:
  "request_kernel_pages a 1 0 st =
     (if a < KHEAP_ADDR \<or> pt_present (mm_heap st (PAGE_IDX a)) then Some (0, st)
      else do {
        r \<leftarrow> map_pages 0 (\<lambda>off frame. set_heap (PAGE_IDX a + off) (kernel_pte 0 frame)) 0 [0] st;
        finish_map a 0 r })"
proof -
  have "[0..<1] = [0::nat]" by simp
  then show ?thesis unfolding request_kernel_pages_def by (simp only: gfp_zero if_False set_simps) simp
qed

lemma request_one_kernel_page:
  assumes "request_kernel_pages a 1 0 st = Some (p, st1)"
  shows "p = 0 \<and> st1 = st \<or>
    (\<exists>f. p = a \<and> \<not> pt_present (mm_heap st (PAGE_IDX a)) \<and> mm_phys st f = 0 \<and> 1024 \<le> f \<and> f < 1048576 \<and>
      st1 = kernel_page_at (PAGE_IDX a) f st)"
proof (cases "a < KHEAP_ADDR \<or> pt_present (mm_heap st (PAGE_IDX a))")
  case True
  with assms have "p = 0 \<and> st1 = st" by (auto simp only: request_kernel_pages_1 if_True option.inject prod.inject)
  then show ?thesis by simp
next
  case False
  with assms obtain r where r: "map_pages 0 (\<lambda>off frame. set_heap (PAGE_IDX a + off) (kernel_pte 0 frame)) 0 [0] st = Some r"
    and fin: "finish_map a 0 r = Some (p, st1)"
    by (auto simp only: request_kernel_pages_1 bind_eq_Some_conv if_False)
  from r obtain b pd where b: "alloc_phys_mem 0 (mm_phys st) = Some (b, pd)"
    and r': "r = (if b = 0 then (False, 0, set_phys pd st)
      else (True, 1, set_heap (PAGE_IDX a) (kernel_pte 0 (PAGE_IDX b)) (set_phys pd st)))"
    by (auto simp: bind_eq_Some_conv split: if_splits)
  show ?thesis
  proof (cases "b = 0")
    case True
    with alloc_phys_mem_cases [OF b] have "pd = mm_phys st"
      by (auto simp: PAGE_IDX_ADDR_def page_size_def dest!: arg_cong [where f = PAGE_IDX]
          simp: PAGE_IDX_ADDR_inverse [unfolded PAGE_IDX_ADDR_def] simp del: of_nat_mult) (simp add: PAGE_IDX_def)
    with True r' fin show ?thesis by (simp add: finish_map_def free_pages_def)
  next
    case False
    from alloc_phys_mem_cases [OF b] False obtain f where f: "page_free 0 (mm_phys st) f = Some True"
      "b = PAGE_IDX_ADDR f" "1024 \<le> f" "f < 1048576" "pd = (mm_phys st)(f := PHYS_DIR_KERNEL)"
      by (auto simp: PAGE_IDX_ADDR_def page_size_def)
    from f(1) have "mm_phys st f = 0" by (auto simp: page_free_def split: if_splits)
    with False f r' fin \<open>\<not> (a < KHEAP_ADDR \<or> _)\<close> show ?thesis
      by (auto simp: finish_map_def kernel_page_at_def PAGE_IDX_ADDR_inverse)
  qed
qed

lemma first_request_cases:
  assumes "first_request req as st = Some (p, st1)"
    and "\<And>a s s1. \<lbrakk>a \<in> set as; req a s = Some (0, s1)\<rbrakk> \<Longrightarrow> s1 = s"
  shows "p = 0 \<and> st1 = st \<or> p \<noteq> 0 \<and> (\<exists>a \<in> set as. req a st = Some (p, st1))"
  using assms
proof (induction "as" arbitrary: st)
  case (Cons a "as")
  then obtain q s1 where q: "req a st = Some (q, s1)" by (auto simp: bind_eq_Some_conv)
  show ?case
  proof (cases "q = 0")
    case True
    with Cons.prems(2) [of a st s1] q have "s1 = st" by simp
    with Cons q True show ?thesis by auto
  qed (use Cons q in auto)
qed simp

lemma kheap_addrs_memD:
  assumes "a \<in> set (kheap_addrs 1 1)"
  obtains i where "kheap_range i" and "a = PAGE_IDX_ADDR i"
proof -
  have n: "(NUM_KHEAP_PAGES - 1) div 1 + 1 = NUM_KHEAP_PAGES" by (simp add: NUM_KHEAP_PAGES_def)
  from assms obtain k where k: "k < NUM_KHEAP_PAGES" "a = word_of_nat ((KHEAP_ADDR_IDX + k * 1) * 4096)"
    unfolding kheap_addrs_def n set_map set_upt by auto
  show thesis by (rule that [of "KHEAP_ADDR_IDX + k"]) (use k in \<open>simp_all add: kheap_range_def PAGE_IDX_ADDR_def\<close>)
qed

lemma alloc_kernel_page_cases:
  assumes "alloc_kernel_pages 1 0 0 st = Some (p, st1)"
  shows "p = 0 \<and> st1 = st \<or>
    (\<exists>i f. kheap_range i \<and> p = PAGE_IDX_ADDR i \<and> \<not> pt_present (mm_heap st i) \<and> mm_phys st f = 0 \<and>
      1024 \<le> f \<and> f < 1048576 \<and> st1 = kernel_page_at i f st)"
proof -
  let ?req = "\<lambda>a st. if request_valid a 1 0 then request_kernel_pages a 1 0 st else Some (0, st)"
  have keep: "s1 = s" if "a \<in> set (kheap_addrs 1 1)" "?req a s = Some (0, s1)" for a s s1
  proof (cases "request_valid a 1 0")
    case True
    from that(1) obtain i where i: "kheap_range i" "a = PAGE_IDX_ADDR i" by (rule kheap_addrs_memD)
    with True that request_one_kernel_page [of a s 0 s1] kheap_addr_nonzero [of i] show ?thesis by auto
  qed (use that in simp)
  have "first_request ?req (kheap_addrs 1 1) st = Some (p, st1)"
    using assms by (simp add: alloc_kernel_pages_def del: One_nat_def)
  then have "p = 0 \<and> st1 = st \<or> p \<noteq> 0 \<and> (\<exists>a \<in> set (kheap_addrs 1 1). ?req a st = Some (p, st1))"
    by (rule first_request_cases) (rule keep)
  then show ?thesis
  proof (elim disjE conjE bexE)
    fix a assume a: "p \<noteq> 0" "a \<in> set (kheap_addrs 1 1)" "?req a st = Some (p, st1)"
    from a(2) obtain i where i: "kheap_range i" "a = PAGE_IDX_ADDR i" by (rule kheap_addrs_memD)
    from a have "request_kernel_pages a 1 0 st = Some (p, st1)" by (auto split: if_splits)
    from request_one_kernel_page [OF this] a(1) i show ?thesis
      using PAGE_IDX_ADDR_inverse [OF kheap_range_lt [OF i(1)]] by auto
  qed auto
qed

lemma kernel_page_first:
  assumes "\<not> pt_present (mm_heap st KHEAP_ADDR_IDX)" and "alloc_phys_mem 0 (mm_phys st) = Some (PAGE_IDX_ADDR f, pd)"
    and "0 < f" and "f < 1048576"
  shows "alloc_kernel_pages 1 0 0 st = Some (KHEAP_ADDR, set_heap KHEAP_ADDR_IDX (kernel_pte 0 f) (set_phys pd st))"
proof -
  have k: "PAGE_IDX KHEAP_ADDR = KHEAP_ADDR_IDX" "KHEAP_ADDR \<noteq> 0"
    by (simp_all add: PAGE_IDX_def KHEAP_ADDR_def KHEAP_ADDR_IDX_def)
  have "PAGE_IDX_ADDR f \<noteq> 0" using PAGE_IDX_ADDR_inverse [OF assms(4)] assms(3) by (auto simp: PAGE_IDX_def)
  with assms k have "request_kernel_pages KHEAP_ADDR 1 0 st
      = Some (KHEAP_ADDR, set_heap KHEAP_ADDR_IDX (kernel_pte 0 f) (set_phys pd st))"
    by (simp add: request_kernel_pages_1 finish_map_def PAGE_IDX_ADDR_inverse del: One_nat_def)
  moreover have "request_valid KHEAP_ADDR 1 0"
    by (simp add: request_valid_def KHEAP_ADDR_def page_size_def PAGE_DIR_IDX_def)
  moreover have "kheap_addrs 1 1 = KHEAP_ADDR # map (\<lambda>k. word_of_nat ((KHEAP_ADDR_IDX + k * 1) * 4096)) [1..<NUM_KHEAP_PAGES]"
    by (simp add: kheap_addrs_def NUM_KHEAP_PAGES_def KHEAP_ADDR_IDX_def KHEAP_ADDR_def upt_rec [of 0])
  ultimately show ?thesis using k by (simp add: alloc_kernel_pages_def del: One_nat_def)
qed

lemma heap_ok_kernel_page:
  assumes "heap_ok st" and "mm_phys st f = 0"
  shows "heap_ok (kernel_page_at i f st)"
proof -
  have "pt_addr (mm_heap st k) \<noteq> f" if "kheap_range k" "pt_present (mm_heap st k)" for k
    using assms that by (auto simp: heap_ok_def PHYS_DIR_KERNEL_def)
  moreover have "mm_heap (kernel_page_at i f st) = (mm_heap st)(i := kernel_pte 0 f)"
    "mm_phys (kernel_page_at i f st) = (mm_phys st)(f := PHYS_DIR_KERNEL)"
    "pt_addr (kernel_pte 0 f) = f"
    by (simp_all add: kernel_page_at_def kernel_pte_def)
  ultimately show ?thesis using assms(1) unfolding heap_ok_def by (metis fun_upd_apply)
qed

section \<open>Program break\<close>

text \<open>The page numbers of the break are cut to 16 bits.\<close>

definition BRK_PAGE_IDX :: "u32 \<Rightarrow> u16" where
  "BRK_PAGE_IDX addr = word_of_nat (PAGE_IDX (addr - 1) + 1)"

definition do_brk :: "u32 \<Rightarrow> u32 \<Rightarrow> mmst \<Rightarrow> (int \<times> u32 \<times> mmst) option" where
  "do_brk addr brk st =
     (if addr = 0 then Some (s32 brk, brk, st)
      else (let new = unat (BRK_PAGE_IDX addr); cur = unat (BRK_PAGE_IDX brk) in
        if new > cur then do {
          (p, st1) \<leftarrow> request_pages (PAGE_IDX_ADDR cur) (new - cur) GFP_USER st;
          Some (if p = 0 then (- ENOMEM, brk, st1) else (s32 addr, addr, st1)) }
        else if addr < brk then do {
          st1 \<leftarrow> free_pages (PAGE_IDX_ADDR new) (cur - new) GFP_USER st;
          Some (s32 addr, addr, st1) }
        else Some (s32 addr, addr, st)))"

text \<open>
  Page numbers that differ by \<open>65536\<close> are one to \<open>do_brk\<close>: a break that is raised by 256 MB is accepted and
  nothing is mapped.
\<close>

lemma BRK_PAGE_IDX_wrap:
  assumes "unat brk + 0x10000000 < 4294967296" and "brk \<noteq> 0"
  shows "BRK_PAGE_IDX (brk + 0x10000000) = BRK_PAGE_IDX brk"
proof -
  have b: "unat (brk - 1) = unat brk - 1" using assms(2) by (rule unat_minus_one)
  have "unat (brk + 0x10000000 - 1) = unat (brk - 1 + 0x10000000)" by (simp add: algebra_simps)
  also have "\<dots> = unat (brk - 1) + 0x10000000" using assms(1) b by (subst unat_add_small) simp_all
  finally have "PAGE_IDX (brk + 0x10000000 - 1) = PAGE_IDX (brk - 1) + 65536"
    by (simp add: PAGE_IDX_def)
  then show ?thesis
    by (simp add: BRK_PAGE_IDX_def)
qed

lemma do_brk_wraps:
  assumes "unat brk + 0x10000000 < 4294967296" and "brk \<noteq> 0"
  shows "do_brk (brk + 0x10000000) brk st = Some (s32 (brk + 0x10000000), brk + 0x10000000, st)"
proof -
  have "unat (brk + 0x10000000) = unat brk + 0x10000000" using assms(1) by (subst unat_add_small) simp_all
  then have "\<not> brk + 0x10000000 < brk" "brk + 0x10000000 \<noteq> 0" by (auto simp: word_less_nat_alt)
  then show ?thesis by (simp add: do_brk_def BRK_PAGE_IDX_wrap [OF assms])
qed

end
