(* ===== verification/Cow.thy ===== *)
theory Cow
  imports Paging
begin

text \<open>
  The rest of \<open>mm/paging.c\<close>: cloning an address space for copy on write, the write fault that takes the
  private copy, freeing an address space, and the checks the system calls make of user pointers.
\<close>

section \<open>Cloning an address space\<close>

definition cow_pte :: "page_table_entry \<Rightarrow> page_table_entry" where
  "cow_pte te = (if pt_rw te \<and> pt_flags te AND PAGE_SHARED = 0
     then te\<lparr>pt_rw := False, pt_flags := pt_flags te OR PAGE_COW_RO\<rparr> else te)"

definition cow_pde :: "page_directory_entry \<Rightarrow> page_directory_entry" where
  "cow_pde de = (if pd_rw de \<and> pd_flags de AND PAGE_SHARED = 0
     then de\<lparr>pd_rw := False, pd_flags := pd_flags de OR PAGE_COW_RO\<rparr> else de)"

text \<open>One entry of a page table; the table of the clone (\<open>0\<close>: none yet) is made when it is first needed.\<close>

definition clone_table_entry :: "ptr \<Rightarrow> nat \<Rightarrow> ptr \<Rightarrow> nat \<Rightarrow> ptr \<times> mmst \<Rightarrow> (ptr \<times> mmst) option" where
  "clone_table_entry dst i src_table j = (\<lambda>(dst_table, st).
     if \<not> pt_present (mm_tab st src_table j) then Some (dst_table, st)
     else do {
       (table, st1) \<leftarrow> (if dst_table = 0 then mk_user_table dst i st else Some (dst_table, st));
       if table = 0 then None
       else do {
         let te = cow_pte (mm_tab st1 src_table j);
         pd \<leftarrow> use_phys_mem (PAGE_IDX_ADDR (pt_addr te)) GFP_USER (mm_phys st1);
         Some (table, set_pte src_table j te (set_pte table j te (set_phys pd st1))) } })"

definition clone_entry :: "ptr \<Rightarrow> ptr \<Rightarrow> nat \<Rightarrow> mmst \<Rightarrow> mmst option" where
  "clone_entry src dst i st =
     (let de = mm_dir st src i in
      if \<not> pd_present de then Some (set_pde dst i no_pde st)
      else if \<not> pd_user de then Some (set_pde dst i de st)
      else if pd_size de then do {
        pd \<leftarrow> use_phys_mem (PAGE_IDX_ADDR (pd_addr de)) (GFP_USER OR GFP_LARGE) (mm_phys st);
        Some (set_pde src i (cow_pde de) (set_pde dst i (cow_pde de) (set_phys pd st))) }
      else do {
        src_table \<leftarrow> find_userspace_page_table de st;
        (_, st1) \<leftarrow> iterate (clone_table_entry dst i src_table) [0..<1024] (0, set_pde dst i no_pde st);
        Some st1 })"

definition clone_directory :: "ptr \<Rightarrow> mmst \<Rightarrow> (ptr \<times> mmst) option" where
  "clone_directory src st = do {
     (dst, st1) \<leftarrow> alloc_pages 1 0 0 st;
     if dst = 0 then None
     else do {
       st2 \<leftarrow> iterate (clone_entry src dst) [0..<1024] st1;
       Some (dst, st2) } }"

text \<open>\<open>init\<close> is the address of \<open>init_page_directory\<close>, the kernel's own directory.\<close>

definition new_directory :: "ptr \<Rightarrow> mmst \<Rightarrow> (ptr \<times> mmst) option" where
  "new_directory init st = clone_directory init st"

section \<open>The private copy\<close>

text \<open>\<open>memcpy\<close> of whole pages between two addresses of the current user space.\<close>

definition copy_page :: "u32 \<Rightarrow> u32 \<Rightarrow> mmst \<Rightarrow> mmst option" where
  "copy_page to fro st = do {
     t \<leftarrow> virt_frame (mm_cur st) to st;
     f \<leftarrow> virt_frame (mm_cur st) fro st;
     Some (st\<lparr>mm_mem := (mm_mem st)(t := mm_mem st f)\<rparr>) }"

definition copy_pages :: "u32 \<Rightarrow> u32 \<Rightarrow> u32 \<Rightarrow> mmst \<Rightarrow> mmst option" where
  "copy_pages to fro flags st =
     iterate (\<lambda>k. copy_page (to + word_of_nat (k * 4096)) (fro + word_of_nat (k * 4096)))
       [0..<page_size flags div 4096] st"

definition page_base :: "u32 \<Rightarrow> u32 \<Rightarrow> u32" where
  "page_base flags a = a - word_of_nat (unat a mod page_size flags)"

text \<open>
  What \<open>_clone_cow\<close> does once the entry is writable again: \<open>put\<close> stores a new page in it, \<open>old\<close> is its
  present one.
\<close>

definition cow_copy :: "u32 \<Rightarrow> (nat \<Rightarrow> mmst \<Rightarrow> mmst) \<Rightarrow> nat \<Rightarrow> u32 \<Rightarrow> mmst \<Rightarrow> (bool \<times> mmst) option" where
  "cow_copy flags put old a st =
     (if mm_phys st (get_phys_dir_entry (PAGE_IDX_ADDR old) flags) > 1 then do {
        (physaddr, pd) \<leftarrow> alloc_phys_mem flags (mm_phys st);
        if physaddr = 0 then Some (False, set_phys pd st)
        else do {
          (tempmem, st1) \<leftarrow> alloc_pages 1 0 flags (set_phys pd st);
          if tempmem = 0 then None
          else do {
            st2 \<leftarrow> copy_pages tempmem (page_base flags a) flags st1;
            st3 \<leftarrow> copy_pages (page_base flags a) tempmem flags (put (PAGE_IDX physaddr) st2);
            pd1 \<leftarrow> free_phys_mem (PAGE_IDX_ADDR old) flags (mm_phys st3);
            st4 \<leftarrow> free_pages tempmem 1 flags (set_phys pd1 st3);
            Some (True, st4) } } }
      else Some (True, st))"

definition clone_cow_in :: "ptr \<Rightarrow> u32 \<Rightarrow> mmst \<Rightarrow> (bool \<times> mmst) option" where
  "clone_cow_in dir a st =
     (let de = mm_dir st dir (PAGE_DIR_IDX a) in
      if \<not> pd_present de \<or> \<not> pd_user de then Some (False, st)
      else if pd_size de then
        (if pd_rw de \<or> pd_flags de AND PAGE_COW_RO = 0 then Some (False, st)
         else cow_copy (GFP_USER OR GFP_LARGE)
           (\<lambda>f st. set_pde dir (PAGE_DIR_IDX a) (mm_dir st dir (PAGE_DIR_IDX a)\<lparr>pd_addr := f\<rparr>) st) (pd_addr de) a
           (set_pde dir (PAGE_DIR_IDX a) (de\<lparr>pd_rw := True, pd_flags := pd_flags de AND NOT PAGE_COW_RO\<rparr>) st))
      else do {
        table \<leftarrow> find_userspace_page_table de st;
        let te = mm_tab st table (PAGE_TABLE_IDX a);
        if \<not> pt_present te \<or> \<not> pt_user te then Some (False, st)
        else if pt_rw te \<or> pt_flags te AND PAGE_COW_RO = 0 then Some (False, st)
        else cow_copy GFP_USER
          (\<lambda>f st. set_pte table (PAGE_TABLE_IDX a) (mm_tab st table (PAGE_TABLE_IDX a)\<lparr>pt_addr := f\<rparr>) st) (pt_addr te) a
          (set_pte table (PAGE_TABLE_IDX a) (te\<lparr>pt_rw := True, pt_flags := pt_flags te AND NOT PAGE_COW_RO\<rparr>) st) })"

definition clone_cow :: "u32 \<Rightarrow> mmst \<Rightarrow> (bool \<times> mmst) option" where
  "clone_cow a st = clone_cow_in (mm_cur st) a st"

section \<open>Freeing an address space\<close>

definition switch_directory :: "ptr \<Rightarrow> mmst \<Rightarrow> mmst" where
  "switch_directory dir st = st\<lparr>mm_cur := dir\<rparr>"

definition free_table_entry :: "ptr \<Rightarrow> nat \<Rightarrow> mmst \<Rightarrow> mmst option" where
  "free_table_entry table j st =
     (let te = mm_tab st table j in
      if pt_present te then do {
        pd \<leftarrow> free_phys_mem (PAGE_IDX_ADDR (pt_addr te)) GFP_USER (mm_phys st);
        Some (set_phys pd st) }
      else Some st)"

definition free_dir_entry :: "ptr \<Rightarrow> nat \<Rightarrow> mmst \<Rightarrow> mmst option" where
  "free_dir_entry dir i st =
     (let de = mm_dir st dir i in
      if \<not> pd_present de \<or> \<not> pd_user de then Some st
      else if pd_size de then do {
        pd \<leftarrow> free_phys_mem (PAGE_IDX_ADDR (pd_addr de)) (GFP_USER OR GFP_LARGE) (mm_phys st);
        Some (set_phys pd st) }
      else do {
        table \<leftarrow> find_userspace_page_table de st;
        st1 \<leftarrow> iterate (free_table_entry table) [0..<1024] st;
        free_pages table 1 0 st1 })"

definition free_directory :: "ptr \<Rightarrow> ptr \<Rightarrow> mmst \<Rightarrow> mmst option" where
  "free_directory init dir st = do {
     st1 \<leftarrow> iterate (free_dir_entry dir) [0..<1024] (switch_directory dir st);
     free_pages dir 1 0 (switch_directory (if dir = mm_cur st then init else mm_cur st) st1) }"

section \<open>Checks of user pointers\<close>

definition addr_is_safe :: "ptr \<Rightarrow> u32 \<Rightarrow> bool \<Rightarrow> mmst \<Rightarrow> (bool \<times> mmst) option" where
  "addr_is_safe dir a write st =
     (let de = mm_dir st dir (PAGE_DIR_IDX a) in
      if \<not> pd_present de \<or> \<not> pd_user de then Some (False, st)
      else if pd_size de then Some (\<not> (write \<and> \<not> pd_rw de), st)
      else do {
        table \<leftarrow> find_userspace_page_table de st;
        if \<not> pt_present (mm_tab st table (PAGE_TABLE_IDX a)) then Some (False, st)
        else if write \<and> \<not> pd_rw de then clone_cow_in dir a st
        else Some (True, st) })"

text \<open>How many bytes a check at \<open>a\<close> speaks for: up to the end of the page, and of the buffer.\<close>

definition nbytes_cancheck :: "u32 \<Rightarrow> u32 \<Rightarrow> u32" where
  "nbytes_cancheck a nbytes =
     (let c = ucast (((a div 4096 + 1) * 4096) - a) :: u16 in if ucast c > nbytes then nbytes else ucast c)"

lemma nbytes_cancheck_nat:
  "unat (nbytes_cancheck a n) = min (4096 - unat a mod 4096) (unat n)"
proof -
  define m where "m = 4096 - unat a mod 4096"
  have m: "0 < m" "m \<le> 4096" by (simp_all add: m_def)
  have "((a div 4096 + 1) * 4096) - a = word_of_nat m"
  proof -
    define q r :: u32 where "q = word_of_nat (unat a div 4096)" and "r = word_of_nat (unat a mod 4096)"
    have "a = word_of_nat (unat a div 4096 * 4096 + unat a mod 4096)" by simp
    then have a: "a = q * 4096 + r" unfolding q_def r_def by (metis of_nat_add of_nat_mult of_nat_numeral)
    have d: "a div 4096 = q" by (simp add: word_arith_nat_div q_def)
    have "word_of_nat m = 4096 - r"
      unfolding m_def r_def by (simp add: of_nat_diff less_imp_le)
    moreover have "((q + 1) * 4096) - (q * 4096 + r) = 4096 - r" by (simp add: algebra_simps)
    ultimately show ?thesis using a d by simp
  qed
  moreover have u: "unat (word_of_nat m :: u32) = m"
    using m by (simp add: unat_of_nat)
  moreover have "ucast (ucast (word_of_nat m :: u32) :: u16) = (word_of_nat m :: u32)"
  proof (rule word_unat_eq_iff [THEN iffD2])
    have "take_bit 16 m = m" using m by (simp add: take_bit_nat_eq_self)
    with m show "unat (ucast (ucast (word_of_nat m :: u32) :: u16) :: u32) = unat (word_of_nat m :: u32)"
      by (simp add: unsigned_ucast_eq unsigned_take_bit_eq u)
  qed
  ultimately show ?thesis
    unfolding nbytes_cancheck_def Let_def m_def [symmetric]
    by (auto simp: word_less_nat_alt)
qed

lemma nbytes_cancheck_pos: "n \<noteq> 0 \<Longrightarrow> 0 < unat (nbytes_cancheck a n)"
  by (simp add: nbytes_cancheck_nat unsigned_eq_0_iff flip: neq0_conv)

function safe_buf_loop :: "ptr \<Rightarrow> u32 \<Rightarrow> u32 \<Rightarrow> bool \<Rightarrow> u32 \<Rightarrow> mmst \<Rightarrow> (u32 \<times> mmst) option" where
  "safe_buf_loop dir a nbytes write ret st =
     (if nbytes = 0 then Some (ret, st)
      else do {
        (ok, st1) \<leftarrow> addr_is_safe dir a write st;
        let c = nbytes_cancheck a nbytes;
        if ok then safe_buf_loop dir (a + c) (nbytes - c) write (ret + c) st1 else Some (ret, st1) })"
  by pat_completeness auto

termination
proof (relation "measure (\<lambda>(dir, a, nbytes, write, ret, st). unat nbytes)", goal_cases)
  case (2 dir a nbytes wr ret st x ok st1 c)
  then have "unat c \<le> unat nbytes" "0 < unat c"
    using nbytes_cancheck_pos [of nbytes a] by (simp_all add: nbytes_cancheck_nat)
  then show ?case by (simp add: unat_sub_le word_le_nat_alt)
qed simp

declare safe_buf_loop.simps [simp del]

definition safe_buf :: "u32 \<Rightarrow> u32 \<Rightarrow> bool \<Rightarrow> mmst \<Rightarrow> (u32 \<times> mmst) option" where
  "safe_buf buf nbytes write st = safe_buf_loop (mm_cur st) buf nbytes write 0 st"

text \<open>
  \<open>safe_arr_null_term\<close>: the entries of the array before the one that is all zero, or before the first
  unsafe byte.  An entry's check tells whether it was all zero, or \<open>None\<close> where a byte is unsafe.
\<close>

definition read_user :: "u32 \<Rightarrow> mmst \<Rightarrow> u8 option" where
  "read_user a st = do { f \<leftarrow> virt_frame (mm_cur st) a st; Some (mm_mem st f ! (unat a mod 4096)) }"

fun check_entry :: "ptr \<Rightarrow> bool \<Rightarrow> nat \<Rightarrow> u32 \<Rightarrow> bool \<Rightarrow> mmst \<Rightarrow> (bool option \<times> u32 \<times> mmst) option" where
  "check_entry dir write 0 a zero st = Some (Some zero, a, st)"
| "check_entry dir write (Suc n) a zero st = do {
     (ok, st1) \<leftarrow> addr_is_safe dir a write st;
     if \<not> ok then Some (None, a, st1)
     else do {
       c \<leftarrow> read_user a st1;
       check_entry dir write n (a + 1) (zero \<and> c = 0) st1 } }"

partial_function (option) safe_arr_loop :: "ptr \<Rightarrow> u32 \<Rightarrow> bool \<Rightarrow> u32 \<Rightarrow> u32 \<Rightarrow> mmst \<Rightarrow> (u32 \<times> mmst) option" where
  "safe_arr_loop dir entry_size write a ret st = do {
     (r, a1, st1) \<leftarrow> check_entry dir write (unat entry_size) a True st;
     if r = Some False then safe_arr_loop dir entry_size write a1 (ret + 1) st1 else Some (ret, st1) }"

definition safe_arr_null_term :: "u32 \<Rightarrow> u32 \<Rightarrow> bool \<Rightarrow> mmst \<Rightarrow> (u32 \<times> mmst) option" where
  "safe_arr_null_term buf entry_size write st =
     (if entry_size = 1 then safe_buf buf (- 1) write st
      else safe_arr_loop (mm_cur st) entry_size write buf 0 st)"

section \<open>A clone is isolated\<close>

text \<open>
  A mapping is isolated when it cannot be written through, unless it is meant to be shared.  \<open>dir_iso\<close>
  says so of everything a directory entry maps.
\<close>

definition pte_iso :: "page_table_entry \<Rightarrow> bool" where
  "pte_iso te \<longleftrightarrow> (pt_present te \<and> pt_rw te \<longrightarrow> pt_flags te AND PAGE_SHARED \<noteq> 0)"

definition tab_iso :: "mmst \<Rightarrow> ptr \<Rightarrow> bool" where
  "tab_iso st t \<longleftrightarrow> (\<forall>j < 1024. pte_iso (mm_tab st t j))"

definition dir_iso :: "mmst \<Rightarrow> ptr \<Rightarrow> nat \<Rightarrow> bool" where
  "dir_iso st d i \<longleftrightarrow>
     (let de = mm_dir st d i in pd_present de \<and> pd_user de \<longrightarrow>
       (if pd_size de then pd_rw de \<longrightarrow> pd_flags de AND PAGE_SHARED \<noteq> 0
        else \<exists>t. find_userspace_page_table de st = Some t \<and> tab_iso st t))"

text \<open>What every step of a clone keeps: the kernel heap only grows, and isolated entries stay so.\<close>

definition clone_ext :: "mmst \<Rightarrow> mmst \<Rightarrow> bool" where
  "clone_ext st st1 \<longleftrightarrow> heap_ok st1 \<and>
     (\<forall>i. pt_present (mm_heap st i) \<longrightarrow> mm_heap st1 i = mm_heap st i) \<and>
     (\<forall>t j. pte_iso (mm_tab st t j) \<longrightarrow> pte_iso (mm_tab st1 t j))"

lemma clone_ext_trans: "clone_ext a b \<Longrightarrow> clone_ext b c \<Longrightarrow> clone_ext a c"
  unfolding clone_ext_def by metis

lemma clone_ext_refl: "heap_ok st \<Longrightarrow> clone_ext st st"
  by (simp add: clone_ext_def)

lemma clone_ext_heap: "clone_ext st st1 \<Longrightarrow> heap_ok st1"
  by (simp add: clone_ext_def)

lemma clone_ext_find:
  assumes "clone_ext st st1" and "find_userspace_page_table de st = Some t"
  shows "find_userspace_page_table de st1 = Some t"
  using assms(2)
proof (rule find_tableE)
  fix i
  assume i: "kheap_range i" "pt_present (mm_heap st i)" "pt_addr (mm_heap st i) = pd_addr de" "t = PAGE_IDX_ADDR i"
  with assms(1) have "mm_heap st1 i = mm_heap st i" by (simp add: clone_ext_def)
  with i find_table_eq [OF clone_ext_heap [OF assms(1)], of i de] show ?thesis by simp
qed

lemma clone_ext_tab: "clone_ext st st1 \<Longrightarrow> tab_iso st t \<Longrightarrow> tab_iso st1 t"
  by (simp add: clone_ext_def tab_iso_def)

lemma clone_ext_dir:
  assumes "clone_ext st st1" and "mm_dir st1 d i = mm_dir st d i" and "dir_iso st d i"
  shows "dir_iso st1 d i"
  using assms clone_ext_find [OF assms(1)] clone_ext_tab [OF assms(1)]
  unfolding dir_iso_def Let_def by (metis (no_types, lifting))

lemma pte_iso_cow: "pte_iso (cow_pte te)"
  by (simp add: pte_iso_def cow_pte_def)

lemma pte_iso_none: "pte_iso no_pte"
  by (simp add: pte_iso_def no_pte_def)

lemma use_phys_mem_heap_ok:
  assumes "use_phys_mem a flags (mm_phys st) = Some pd" and "heap_ok st"
  shows "heap_ok (set_phys pd st)"
proof -
  have "mm_phys st k = PHYS_DIR_KERNEL \<Longrightarrow> pd k = PHYS_DIR_KERNEL" for k
    using assms(1) by (auto simp: use_phys_mem_def Let_def PHYS_DIR_KERNEL_def split: if_splits)
  with assms(2) show ?thesis by (simp add: heap_ok_def)
qed

text \<open>A table for the clone: fresh, empty, and the one its directory entry leads to.\<close>

definition table_pde :: "nat \<Rightarrow> page_directory_entry" where
  "table_pde frame = \<lparr>pd_present = True, pd_rw = True, pd_user = True, pd_size = False, pd_global = False,
     pd_flags = 0, pd_addr = frame\<rparr>"

lemma mk_user_table_cases:
  assumes "mk_user_table dir i st = Some (table, st1)" and "heap_ok st" and "table \<noteq> 0"
  shows "clone_ext st st1 \<and> (\<exists>k f. kheap_range k \<and> \<not> pt_present (mm_heap st k) \<and> table = PAGE_IDX_ADDR k \<and>
      find_userspace_page_table (table_pde f) st1 = Some table \<and>
      mm_dir st1 = (mm_dir st)(dir := (mm_dir st dir)(i := table_pde f)) \<and>
      mm_tab st1 = (mm_tab st)(table := (\<lambda>_. no_pte)) \<and>
      mm_phys st f = 0 \<and> 1024 \<le> f \<and> mm_phys st1 = (mm_phys st)(f := PHYS_DIR_KERNEL) \<and>
      mm_heap st1 = (mm_heap st)(k := kernel_pte 0 f) \<and> mm_mem st1 = mm_mem st \<and> mm_cur st1 = mm_cur st)"
proof -
  from assms(1,3) obtain s where al: "alloc_kernel_pages 1 0 0 st = Some (table, s)"
    and st1: "st1 = set_pde dir i (table_pde (pt_addr (mm_heap s (PAGE_IDX table)))) (s\<lparr>mm_tab := (mm_tab s)(table := (\<lambda>_. no_pte))\<rparr>)"
    by (auto simp: mk_user_table_def table_pde_def bind_eq_Some_conv split: if_splits)
  from alloc_kernel_page_cases [OF al] assms(3) obtain k f where k: "kheap_range k" "table = PAGE_IDX_ADDR k"
    "\<not> pt_present (mm_heap st k)" "mm_phys st f = 0" "1024 \<le> f" "s = kernel_page_at k f st"
    by blast
  have ok: "heap_ok s" using heap_ok_kernel_page [OF assms(2) k(4)] k(6) by simp
  have hk: "mm_heap s k = kernel_pte 0 f" by (simp add: k(6) kernel_page_at_def)
  have ok1: "heap_ok st1" using ok by (simp add: heap_ok_def st1)
  have "find_userspace_page_table (table_pde f) st1 = Some table"
    using find_table_eq [OF ok1 k(1), of "table_pde f"] hk k(2) by (simp add: st1 kernel_pte_def table_pde_def)
  moreover have "clone_ext st st1"
    using ok1 k(3) by (auto simp: clone_ext_def st1 k(6) kernel_page_at_def pte_iso_none)
  moreover have "PAGE_IDX table = k" using k(1,2) by (simp add: PAGE_IDX_ADDR_inverse kheap_range_lt)
  ultimately show ?thesis using k hk by (auto simp: st1 kernel_page_at_def kernel_pte_def)
qed

text \<open>What the loop over a table keeps, with \<open>k\<close> entries done; \<open>st\<close> is the state it starts in.\<close>

definition clone_table_inv :: "ptr \<Rightarrow> nat \<Rightarrow> ptr \<Rightarrow> mmst \<Rightarrow> nat \<Rightarrow> ptr \<times> mmst \<Rightarrow> bool" where
  "clone_table_inv dst i src_table st k = (\<lambda>(table, s).
     clone_ext st s \<and> (\<forall>j < k. pte_iso (mm_tab s src_table j)) \<and>
     (\<forall>d l. (d, l) \<noteq> (dst, i) \<longrightarrow> mm_dir s d l = mm_dir st d l) \<and>
     (if table = 0 then mm_dir s dst i = no_pde
      else \<exists>f. mm_dir s dst i = table_pde f \<and> find_userspace_page_table (table_pde f) s = Some table \<and> tab_iso s table))"

lemma clone_table_entry_inv:
  assumes "clone_table_inv dst i src_table st k (table, s)"
    and step: "clone_table_entry dst i src_table k (table, s) = Some (table1, s1)"
  shows "clone_table_inv dst i src_table st (Suc k) (table1, s1)"
proof (cases "pt_present (mm_tab s src_table k)")
  case False
  then have "pte_iso (mm_tab s src_table k)" by (simp add: pte_iso_def)
  with assms False show ?thesis by (auto simp: clone_table_inv_def clone_table_entry_def less_Suc_eq)
next
  case True
  from assms(1) have ok: "heap_ok s" by (auto simp: clone_table_inv_def clone_ext_def)
  from step True obtain s2 pd where
    mk: "(if table = 0 then mk_user_table dst i s else Some (table, s)) = Some (table1, s2)" and nz: "table1 \<noteq> 0"
    and use: "use_phys_mem (PAGE_IDX_ADDR (pt_addr (cow_pte (mm_tab s2 src_table k)))) GFP_USER (mm_phys s2) = Some pd"
    and s1: "s1 = set_pte src_table k (cow_pte (mm_tab s2 src_table k))
      (set_pte table1 k (cow_pte (mm_tab s2 src_table k)) (set_phys pd s2))"
    by (auto simp: clone_table_entry_def bind_eq_Some_conv Let_def split: if_splits)
  have s2: "clone_table_inv dst i src_table st k (table1, s2)"
  proof (cases "table = 0")
    case False
    with mk assms(1) show ?thesis by simp
  next
    case z: True
    with mk have mk': "mk_user_table dst i s = Some (table1, s2)" by simp
    from mk_user_table_cases [OF mk' ok nz] obtain f where e: "clone_ext s s2"
      "find_userspace_page_table (table_pde f) s2 = Some table1"
      "mm_dir s2 = (mm_dir s)(dst := (mm_dir s dst)(i := table_pde f))"
      "mm_tab s2 = (mm_tab s)(table1 := (\<lambda>_. no_pte))" by blast
    from e(4) have "tab_iso s2 table1" by (simp add: tab_iso_def pte_iso_none)
    moreover from assms(1) have i: "clone_ext st s" "\<forall>j < k. pte_iso (mm_tab s src_table j)"
      "\<forall>d l. (d, l) \<noteq> (dst, i) \<longrightarrow> mm_dir s d l = mm_dir st d l" by (simp_all add: clone_table_inv_def)
    moreover have "\<forall>j < k. pte_iso (mm_tab s2 src_table j)" using i(2) e(1) by (simp add: clone_ext_def)
    moreover have "\<forall>d l. (d, l) \<noteq> (dst, i) \<longrightarrow> mm_dir s2 d l = mm_dir st d l" using i(3) by (simp add: e(3))
    moreover have "mm_dir s2 dst i = table_pde f" by (simp add: e(3))
    ultimately show ?thesis using e(1,2) nz clone_ext_trans [of st s s2]
      by (simp add: clone_table_inv_def) blast
  qed
  from s2 nz obtain f where e2: "clone_ext st s2" and it2: "\<forall>j < k. pte_iso (mm_tab s2 src_table j)"
    and d2: "\<forall>d l. (d, l) \<noteq> (dst, i) \<longrightarrow> mm_dir s2 d l = mm_dir st d l" and f: "mm_dir s2 dst i = table_pde f"
      "find_userspace_page_table (table_pde f) s2 = Some table1" "tab_iso s2 table1"
    unfolding clone_table_inv_def prod.case by (metis (no_types, lifting))
  have "heap_ok s1" using use_phys_mem_heap_ok [OF use clone_ext_heap [OF e2]] by (simp add: s1 heap_ok_def)
  moreover have "mm_heap s1 = mm_heap s2" by (simp add: s1)
  moreover have keep: "pte_iso (mm_tab s1 t j)" if "pte_iso (mm_tab s2 t j)" for t j
    using that by (auto simp: s1 pte_iso_cow)
  ultimately have e1: "clone_ext s2 s1" by (simp add: clone_ext_def)
  have d: "mm_dir s1 = mm_dir s2" and it: "pte_iso (mm_tab s1 src_table k)" by (simp_all add: s1 pte_iso_cow)
  have "\<forall>j < Suc k. pte_iso (mm_tab s1 src_table j)" using it it2 keep by (auto simp: less_Suc_eq)
  moreover have "find_userspace_page_table (table_pde f) s1 = Some table1" "tab_iso s1 table1"
    by (rule clone_ext_find [OF e1 f(2)], rule clone_ext_tab [OF e1 f(3)])
  ultimately show ?thesis using d2 f(1) nz clone_ext_trans [OF e2 e1]
    unfolding clone_table_inv_def prod.case d by auto
qed

lemma cow_pde_iso: "pd_rw (cow_pde de) \<Longrightarrow> pd_flags (cow_pde de) AND PAGE_SHARED \<noteq> 0"
  by (auto simp: cow_pde_def split: if_splits)

lemma clone_entry_small:
  assumes ok: "heap_ok st" and "src \<noteq> dst"
    and de: "pd_present (mm_dir st src i)" "pd_user (mm_dir st src i)" "\<not> pd_size (mm_dir st src i)"
    and step: "clone_entry src dst i st = Some st1"
  shows "clone_ext st st1 \<and> dir_iso st1 src i \<and> dir_iso st1 dst i \<and>
    (\<forall>d l. (d, l) \<noteq> (dst, i) \<longrightarrow> mm_dir st1 d l = mm_dir st d l)"
proof -
  let ?s0 = "set_pde dst i no_pde st"
  from step de obtain src_table table where src_table: "find_userspace_page_table (mm_dir st src i) st = Some src_table"
    and it: "iterate (clone_table_entry dst i src_table) [0..<1024] (0, ?s0) = Some (table, st1)"
    by (auto simp: clone_entry_def bind_eq_Some_conv Let_def)
  have ok0: "heap_ok ?s0" using ok by (simp add: heap_ok_def)
  have "clone_table_inv dst i src_table ?s0 1024 (table, st1)"
  proof (rule iterate_upto [OF it])
    show "clone_table_inv dst i src_table ?s0 0 (0, ?s0)"
      using clone_ext_refl [OF ok0] by (simp add: clone_table_inv_def)
  next
    fix k s s1
    assume "clone_table_inv dst i src_table ?s0 k s" "clone_table_entry dst i src_table k s = Some s1"
    then show "clone_table_inv dst i src_table ?s0 (Suc k) s1"
      using clone_table_entry_inv [of dst i src_table ?s0 k "fst s" "snd s" "fst s1" "snd s1"] by simp
  qed
  then have e0: "clone_ext ?s0 st1" and iso: "tab_iso st1 src_table"
    and d: "\<forall>d l. (d, l) \<noteq> (dst, i) \<longrightarrow> mm_dir st1 d l = mm_dir ?s0 d l"
    and dst: "if table = 0 then mm_dir st1 dst i = no_pde
      else \<exists>f. mm_dir st1 dst i = table_pde f \<and> find_userspace_page_table (table_pde f) st1 = Some table \<and> tab_iso st1 table"
    unfolding clone_table_inv_def prod.case by (auto simp: tab_iso_def [of st1 src_table])
  from e0 have e: "clone_ext st st1" by (simp add: clone_ext_def)
  moreover have d': "\<forall>d l. (d, l) \<noteq> (dst, i) \<longrightarrow> mm_dir st1 d l = mm_dir st d l" using d by auto
  moreover have "dir_iso st1 src i"
    using d' \<open>src \<noteq> dst\<close> clone_ext_find [OF e src_table] iso de(3) by (simp add: dir_iso_def Let_def)
  moreover have "dir_iso st1 dst i"
    using dst by (auto simp: dir_iso_def Let_def table_pde_def no_pde_def split: if_splits)
  ultimately show ?thesis by blast
qed

lemma clone_entry_iso:
  assumes ok: "heap_ok st" and "src \<noteq> dst" and step: "clone_entry src dst i st = Some st1"
  shows "clone_ext st st1 \<and> dir_iso st1 src i \<and> dir_iso st1 dst i \<and>
    (\<forall>d l. l \<noteq> i \<longrightarrow> mm_dir st1 d l = mm_dir st d l)"
proof -
  let ?de = "mm_dir st src i"
  consider "\<not> pd_present ?de" | "pd_present ?de" "\<not> pd_user ?de" | "pd_present ?de" "pd_user ?de" "pd_size ?de"
    | "pd_present ?de" "pd_user ?de" "\<not> pd_size ?de" by blast
  then show ?thesis
  proof cases
    case 1
    with step have "st1 = set_pde dst i no_pde st" by (simp add: clone_entry_def)
    with 1 ok \<open>src \<noteq> dst\<close> show ?thesis by (auto simp: clone_ext_def heap_ok_def dir_iso_def no_pde_def)
  next
    case 2
    with step have "st1 = set_pde dst i ?de st" by (simp add: clone_entry_def)
    with 2 ok \<open>src \<noteq> dst\<close> show ?thesis by (auto simp: clone_ext_def heap_ok_def dir_iso_def)
  next
    case 3
    with step obtain pd where use: "use_phys_mem (PAGE_IDX_ADDR (pd_addr ?de)) (GFP_USER OR GFP_LARGE) (mm_phys st) = Some pd"
      and st1: "st1 = set_pde src i (cow_pde ?de) (set_pde dst i (cow_pde ?de) (set_phys pd st))"
      by (auto simp: clone_entry_def bind_eq_Some_conv Let_def)
    have "heap_ok st1" using use_phys_mem_heap_ok [OF use ok] by (simp add: st1 heap_ok_def)
    then have "clone_ext st st1" by (simp add: clone_ext_def st1)
    moreover have "pd_size (cow_pde ?de)" using 3(3) by (simp add: cow_pde_def)
    ultimately show ?thesis using cow_pde_iso [of ?de] \<open>src \<noteq> dst\<close>
      by (simp add: st1 dir_iso_def Let_def)
  next
    case 4
    from clone_entry_small [OF ok \<open>src \<noteq> dst\<close> 4 step] show ?thesis by blast
  qed
qed

text \<open>C21: Cloning an address space isolates it: afterwards neither the clone nor the original has a user page
  it can write through, in any large page or any page table, but the pages marked as shared.\<close>

theorem clone_isolated:
  assumes "heap_ok st" and "src < KHEAP_ADDR \<or> pt_present (mm_heap st (PAGE_IDX src))"
    and "clone_directory src st = Some (dst, st1)"
  shows "dst \<noteq> src \<and> heap_ok st1 \<and> (\<forall>i < 1024. dir_iso st1 src i \<and> dir_iso st1 dst i)"
proof -
  from assms(3) obtain s where al: "alloc_pages 1 0 0 st = Some (dst, s)" and nz: "dst \<noteq> 0"
    and it: "iterate (clone_entry src dst) [0..<1024] s = Some st1"
    by (auto simp: clone_directory_def bind_eq_Some_conv split: if_splits)
  from al have "alloc_kernel_pages 1 0 0 st = Some (dst, s)" by (simp add: alloc_pages_def)
  from alloc_kernel_page_cases [OF this] nz obtain k f where k: "kheap_range k" "dst = PAGE_IDX_ADDR k"
    "\<not> pt_present (mm_heap st k)" "mm_phys st f = 0" "s = kernel_page_at k f st" by blast
  have "PAGE_IDX dst = k" using k(1,2) by (simp add: PAGE_IDX_ADDR_inverse kheap_range_lt)
  then have "KHEAP_ADDR \<le> dst"
    using k(1) unfolding word_le_nat_alt
    by (auto simp: PAGE_IDX_def kheap_range_def KHEAP_ADDR_IDX_def KHEAP_ADDR_def)
  with assms(2) k(3) \<open>PAGE_IDX dst = k\<close> have ne: "src \<noteq> dst" by auto
  have ok: "heap_ok s" using heap_ok_kernel_page [OF assms(1) k(4)] k(5) by simp
  have "heap_ok st1 \<and> (\<forall>i < 1024. dir_iso st1 src i \<and> dir_iso st1 dst i)"
  proof (rule iterate_upto [OF it])
    show "heap_ok s \<and> (\<forall>i < 0. dir_iso s src i \<and> dir_iso s dst i)" using ok by simp
  next
    fix k a b
    assume a: "heap_ok a \<and> (\<forall>i < k. dir_iso a src i \<and> dir_iso a dst i)" "clone_entry src dst k a = Some b"
    from clone_entry_iso [OF _ ne a(2)] a(1) have b: "clone_ext a b" "dir_iso b src k" "dir_iso b dst k"
      "\<And>d l. l \<noteq> k \<Longrightarrow> mm_dir b d l = mm_dir a d l" by blast+
    have "dir_iso b src i \<and> dir_iso b dst i" if "i < k" for i
      using a(1) b(4) [of i] that clone_ext_dir [OF b(1)] by simp
    with b show "heap_ok b \<and> (\<forall>i < Suc k. dir_iso b src i \<and> dir_iso b dst i)"
      by (auto simp: less_Suc_eq clone_ext_heap)
  qed
  with ne show ?thesis by auto
qed

text \<open>A directory at \<open>0x402000\<close> with a kernel page and a large user page, and nothing on the heap.\<close>

definition sample_dir :: "nat \<Rightarrow> page_directory_entry" where
  "sample_dir = (\<lambda>_. no_pde)(1 := user_pde 0 1024\<lparr>pd_user := False\<rparr>, 3 := user_pde 0 5120)"

definition sample_mm :: mmst where
  "sample_mm = \<lparr>mm_phys = sample_phys(5 := 1), mm_heap = (\<lambda>_. no_pte), mm_dir = (\<lambda>_. sample_dir),
     mm_tab = (\<lambda>_ _. no_pte), mm_mem = (\<lambda>_. zero_page), mm_cur = 0x402000\<rparr>"

lemma sample_mm_ok: "heap_ok sample_mm"
  by (simp add: heap_ok_def sample_mm_def no_pte_def)

lemma sample_mm_alloc:
  "alloc_pages 1 0 0 sample_mm = Some (KHEAP_ADDR, kernel_page_at KHEAP_ADDR_IDX 3072 sample_mm)"
proof -
  have "alloc_phys_mem 0 (mm_phys sample_mm) = Some (word_of_nat (3072 * page_size 0),
      (mm_phys sample_mm)(3072 := if gfp_has 0 GFP_USER then 1 else PHYS_DIR_KERNEL))"
  proof (rule alloc_phys_mem_first)
    fix i :: nat
    assume "start_idx 0 \<le> i" "i < 3072"
    then have "i div 1024 < 3" "1024 \<le> i" by (simp_all add: start_idx_def less_mult_imp_div_less)
    then show "page_free 0 (mm_phys sample_mm) i = Some False"
      by (simp add: page_free_def sample_mm_def sample_phys_def PHYS_DIR_KERNEL_def)
  qed (simp_all add: start_idx_def end_idx_def page_free_def sample_mm_def sample_phys_def)
  then have "alloc_phys_mem 0 (mm_phys sample_mm) = Some (PAGE_IDX_ADDR 3072, (mm_phys sample_mm)(3072 := PHYS_DIR_KERNEL))"
    by (simp add: PAGE_IDX_ADDR_def page_size_def)
  moreover have "\<not> pt_present (mm_heap sample_mm KHEAP_ADDR_IDX)" by (simp add: sample_mm_def no_pte_def)
  ultimately show ?thesis
    by (simp add: alloc_pages_def kernel_page_first kernel_page_at_def del: One_nat_def)
qed

lemma sample_mm_clone: "\<exists>st1. clone_directory 0x402000 sample_mm = Some (KHEAP_ADDR, st1)"
proof -
  let ?s = "kernel_page_at KHEAP_ADDR_IDX 3072 sample_mm"
  let ?P = "\<lambda>k (s :: mmst). (\<forall>i \<ge> k. mm_dir s 0x402000 i = sample_dir i) \<and> mm_phys s 5 = (if k \<le> 3 then 1 else 2)"
  have "\<exists>st1. iterate (clone_entry 0x402000 KHEAP_ADDR) [0..<1024] ?s = Some st1 \<and> ?P 1024 st1"
  proof (rule iterate_total)
    show "?P 0 ?s" by (simp add: kernel_page_at_def sample_mm_def)
  next
    fix k and s :: mmst
    assume P: "?P k s"
    have ne: "(KHEAP_ADDR :: u32) \<noteq> 0x402000" by (simp add: KHEAP_ADDR_def)
    have ix: "get_phys_dir_entry (PAGE_IDX_ADDR 5120) (GFP_USER OR GFP_LARGE) = 5" "gfp_has (GFP_USER OR GFP_LARGE) GFP_USER"
      by (simp_all add: get_phys_dir_entry_def page_size_def gfp_has_def GFP_USER_def GFP_LARGE_def PAGE_IDX_ADDR_def)
    consider "k = 1" | "k = 3" | "k \<noteq> 1" "k \<noteq> 3" by blast
    then show "\<exists>s1. clone_entry 0x402000 KHEAP_ADDR k s = Some s1 \<and> ?P (Suc k) s1"
    proof cases
      case 1
      with P ne show ?thesis by (simp add: clone_entry_def sample_dir_def user_pde_def Let_def)
    next
      case 2
      with P ne ix show ?thesis
        by (simp add: clone_entry_def sample_dir_def user_pde_def Let_def use_phys_mem_def wrap16_def)
    next
      case 3
      with P have "mm_dir s 0x402000 k = no_pde" by (simp add: sample_dir_def)
      with 3 P ne show ?thesis by (auto simp: clone_entry_def no_pde_def)
    qed
  qed
  then show ?thesis
    by (auto simp: clone_directory_def sample_mm_alloc KHEAP_ADDR_def simp del: One_nat_def)
qed

lemma clone_isolated_witness:
  "\<exists>st1. clone_directory 0x402000 sample_mm = Some (KHEAP_ADDR, st1) \<and> dir_iso st1 0x402000 3 \<and> dir_iso st1 KHEAP_ADDR 3"
proof -
  from sample_mm_clone obtain st1 where c: "clone_directory 0x402000 sample_mm = Some (KHEAP_ADDR, st1)" ..
  have "(0x402000 :: u32) < KHEAP_ADDR \<or> pt_present (mm_heap sample_mm (PAGE_IDX 0x402000))"
    by (simp add: KHEAP_ADDR_def)
  from clone_isolated [OF sample_mm_ok this c] c show ?thesis by auto
qed

section \<open>Checks of user buffers\<close>

text \<open>What \<open>addr_is_safe\<close> decides when the directory entries of page tables are writable, as the kernel makes them.\<close>

definition user_dir_ok :: "mmst \<Rightarrow> ptr \<Rightarrow> bool" where
  "user_dir_ok st dir \<longleftrightarrow> (\<forall>i. let de = mm_dir st dir i in
     pd_present de \<and> pd_user de \<and> \<not> pd_size de \<longrightarrow> pd_rw de \<and> find_userspace_page_table de st \<noteq> None)"

definition byte_safe :: "mmst \<Rightarrow> ptr \<Rightarrow> bool \<Rightarrow> u32 \<Rightarrow> bool" where
  "byte_safe st dir write a \<longleftrightarrow>
     (let de = mm_dir st dir (PAGE_DIR_IDX a) in pd_present de \<and> pd_user de \<and>
       (if pd_size de then write \<longrightarrow> pd_rw de
        else \<exists>t. find_userspace_page_table de st = Some t \<and> pt_present (mm_tab st t (PAGE_TABLE_IDX a))))"

lemma addr_is_safe_eq:
  assumes "user_dir_ok st dir"
  shows "addr_is_safe dir a write st = Some (byte_safe st dir write a, st)"
proof -
  let ?de = "mm_dir st dir (PAGE_DIR_IDX a)"
  from assms have "pd_present ?de \<and> pd_user ?de \<and> \<not> pd_size ?de \<longrightarrow> pd_rw ?de \<and> find_userspace_page_table ?de st \<noteq> None"
    unfolding user_dir_ok_def Let_def by blast
  then show ?thesis by (auto simp: addr_is_safe_def byte_safe_def Let_def)
qed

lemma page_unat_add:
  fixes a :: u32
  assumes "k < 4096 - unat a mod 4096"
  shows "unat (a + word_of_nat k) = unat a + k"
proof -
  have "unat a div 4096 < 1048576" using unat_lt_size32 [of a] by (simp add: less_mult_imp_div_less)
  moreover have "unat a = unat a div 4096 * 4096 + unat a mod 4096" by simp
  ultimately have "unat a + k < 4294967296" using assms by linarith
  then show ?thesis by (simp add: unat_word_ariths unat_of_nat)
qed

lemma byte_safe_page:
  assumes "k < 4096 - unat a mod 4096"
  shows "byte_safe st dir write (a + word_of_nat k) = byte_safe st dir write a"
proof -
  have d: "(unat a + k) div 4096 = unat a div 4096"
  proof -
    have "unat a + k = (unat a mod 4096 + k) + unat a div 4096 * 4096" by simp
    then have "(unat a + k) div 4096 = ((unat a mod 4096 + k) + unat a div 4096 * 4096) div 4096" by simp
    also have "\<dots> = unat a div 4096 + (unat a mod 4096 + k) div 4096" by (rule div_mult_self1) simp
    finally show ?thesis using assms by simp
  qed
  have i: "x div 4194304 = x div 4096 div 1024" for x :: nat by (simp flip: div_mult2_eq)
  show ?thesis
    unfolding byte_safe_def PAGE_DIR_IDX_def PAGE_TABLE_IDX_def page_unat_add [OF assms] i d by simp
qed

lemma safe_buf_loop_spec:
  assumes "user_dir_ok st dir"
  shows "\<exists>m. safe_buf_loop dir a n write ret st = Some (ret + m, st) \<and> unat m \<le> unat n \<and>
    (\<forall>k < unat m. byte_safe st dir write (a + word_of_nat k)) \<and>
    (unat m < unat n \<longrightarrow> \<not> byte_safe st dir write (a + m))"
proof (induction "unat n" arbitrary: a n ret rule: less_induct)
  case less
  show ?case
  proof (cases "n = 0 \<or> \<not> byte_safe st dir write a")
    case True
    then have "safe_buf_loop dir a n write ret st = Some (ret, st)"
      by (subst safe_buf_loop.simps) (auto simp: addr_is_safe_eq [OF assms])
    with True show ?thesis by (intro exI [of _ 0]) auto
  next
    case False
    define c where "c = nbytes_cancheck a n"
    have c: "unat c = min (4096 - unat a mod 4096) (unat n)" "0 < unat c"
      using nbytes_cancheck_pos [of n a] False by (simp_all only: c_def nbytes_cancheck_nat) simp
    then have nc: "unat (n - c) = unat n - unat c" by (simp add: unat_sub_le word_le_nat_alt)
    with c False obtain m where m: "safe_buf_loop dir (a + c) (n - c) write (ret + c) st = Some (ret + c + m, st)"
      "unat m \<le> unat (n - c)" "\<forall>k < unat m. byte_safe st dir write (a + c + word_of_nat k)"
      "unat m < unat (n - c) \<longrightarrow> \<not> byte_safe st dir write (a + c + m)"
      using less.hyps [of "n - c" "a + c" "ret + c"] by auto
    have cn: "unat c \<le> unat n" using c by simp
    with m(2) nc unat_lt_size32 [of n] have "unat c + unat m < 4294967296" by linarith
    then have s: "unat (c + m) = unat c + unat m" by (intro unat_add_small) simp
    have "safe_buf_loop dir a n write ret st = Some (ret + (c + m), st)"
      using False m(1) by (subst safe_buf_loop.simps) (simp add: addr_is_safe_eq [OF assms] Let_def ac_simps flip: c_def)
    moreover have "byte_safe st dir write (a + word_of_nat k)" if "k < unat (c + m)" for k
    proof (cases "k < unat c")
      case True
      with c False show ?thesis by (simp add: byte_safe_page)
    next
      case ge: False
      then have "a + word_of_nat k = a + c + word_of_nat (k - unat c)" by (simp add: of_nat_diff)
      moreover have "k - unat c < unat m" using that s ge by linarith
      ultimately show ?thesis using m(3) by metis
    qed
    moreover have "unat (c + m) < unat n \<longrightarrow> \<not> byte_safe st dir write (a + (c + m))"
      using m(4) nc s cn by (simp add: ac_simps)
    ultimately show ?thesis using s nc m(2) cn by (intro exI [of _ "c + m"]) simp
  qed
qed

text \<open>C22: \<open>safe_buf\<close> returns, changes nothing and answers the length of the longest prefix of the buffer of
  which every byte is mapped for the user: all bytes it counts are safe, and if it counts fewer than asked
  the next one is not.\<close>

theorem safe_buf_longest:
  assumes "user_dir_ok st (mm_cur st)"
  shows "\<exists>m. safe_buf buf n write st = Some (m, st) \<and> unat m \<le> unat n \<and>
    (\<forall>k < unat m. byte_safe st (mm_cur st) write (buf + word_of_nat k)) \<and>
    (unat m < unat n \<longrightarrow> \<not> byte_safe st (mm_cur st) write (buf + m))"
  using safe_buf_loop_spec [OF assms, of buf n "write" 0] by (simp add: safe_buf_def)

lemma sample_mm_dir_ok: "user_dir_ok sample_mm (mm_cur sample_mm)"
  by (simp add: user_dir_ok_def sample_mm_def sample_dir_def user_pde_def no_pde_def Let_def)

lemma safe_buf_longest_witness:
  "\<exists>m. safe_buf 0xC00000 8192 True sample_mm = Some (m, sample_mm) \<and> unat m \<le> 8192"
  using safe_buf_longest [OF sample_mm_dir_ok, of "0xC00000" 8192 True] by auto

text \<open>
  A page that is mapped read-only, as after a clone: \<open>addr_is_safe\<close> looks at the directory entry's bit, not
  at the page's, so the private copy is not taken, and the kernel goes on to write to the page itself.
\<close>

definition cow_page :: "mmst \<Rightarrow> ptr \<Rightarrow> u32 \<Rightarrow> bool" where
  "cow_page st dir a \<longleftrightarrow>
     (let de = mm_dir st dir (PAGE_DIR_IDX a) in pd_present de \<and> pd_user de \<and> \<not> pd_size de \<and>
       (\<exists>t. find_userspace_page_table de st = Some t \<and>
         (let te = mm_tab st t (PAGE_TABLE_IDX a) in pt_present te \<and> pt_user te \<and> \<not> pt_rw te \<and>
           pt_flags te AND PAGE_COW_RO \<noteq> 0)))"

text \<open>The check of a buffer a system call will write to accepts a copy-on-write page, and accepts it as it
  is: the mapping stays shared and read-only, and no private copy is taken.  The write then goes to the memory
  the other process reads.\<close>

theorem safe_write_keeps_sharing:
  assumes "user_dir_ok st (mm_cur st)" and "cow_page st (mm_cur st) a" and "n \<le> 4096 - unat a mod 4096"
  shows "safe_buf a (word_of_nat n) True st = Some (word_of_nat n, st)"
proof -
  have s: "byte_safe st (mm_cur st) True a"
    using assms(2) by (auto simp: cow_page_def byte_safe_def Let_def)
  have n: "unat (word_of_nat n :: u32) = n" using assms(3) by (simp add: unat_of_nat)
  obtain m where m: "safe_buf_loop (mm_cur st) a (word_of_nat n) True 0 st = Some (0 + m, st)" "unat m \<le> n"
    "unat m < n \<longrightarrow> \<not> byte_safe st (mm_cur st) True (a + m)"
    using safe_buf_loop_spec [OF assms(1), of a "word_of_nat n" True 0] n by auto
  have "\<not> unat m < n"
  proof
    assume l: "unat m < n"
    with assms(3) have "byte_safe st (mm_cur st) True (a + word_of_nat (unat m)) = byte_safe st (mm_cur st) True a"
      by (intro byte_safe_page) simp
    with l m(3) s show False by simp
  qed
  with m n have "m = word_of_nat n" by (simp add: word_unat_eq_iff)
  with m show ?thesis by (simp add: safe_buf_def)
qed

definition sample_cow :: mmst where
  "sample_cow = sample_mm\<lparr>mm_heap := (\<lambda>_. no_pte)(KHEAP_ADDR_IDX := kernel_pte 0 3072),
     mm_phys := (mm_phys sample_mm)(3072 := PHYS_DIR_KERNEL, 3073 := 2),
     mm_dir := (\<lambda>_. (\<lambda>_. no_pde)(4 := table_pde 3072)),
     mm_tab := (\<lambda>_ _. no_pte)(KHEAP_ADDR := (\<lambda>_. no_pte)(0 := cow_pte (user_pte 0 3073)))\<rparr>"

lemma sample_cow_find: "find_userspace_page_table (table_pde 3072) sample_cow = Some KHEAP_ADDR"
proof -
  have "heap_ok sample_cow" by (simp add: heap_ok_def sample_cow_def no_pte_def kernel_pte_def)
  moreover have "kheap_range KHEAP_ADDR_IDX" by (simp add: kheap_range_def NUM_KHEAP_PAGES_def)
  moreover have "PAGE_IDX_ADDR KHEAP_ADDR_IDX = KHEAP_ADDR" by (simp add: PAGE_IDX_ADDR_def KHEAP_ADDR_IDX_def KHEAP_ADDR_def)
  ultimately show ?thesis
    using find_table_eq [of sample_cow KHEAP_ADDR_IDX "table_pde 3072"]
    by (simp add: sample_cow_def kernel_pte_def table_pde_def)
qed

lemma sample_cow_ok: "user_dir_ok sample_cow (mm_cur sample_cow)" "cow_page sample_cow (mm_cur sample_cow) 0x1000000"
proof -
  have d: "mm_dir sample_cow p = (\<lambda>_. no_pde)(4 := table_pde 3072)" for p by (simp add: sample_cow_def)
  show "user_dir_ok sample_cow (mm_cur sample_cow)"
    unfolding user_dir_ok_def d by (simp add: sample_cow_find Let_def no_pde_def) (simp add: table_pde_def)
  have "mm_tab sample_cow KHEAP_ADDR 0 = cow_pte (user_pte 0 3073)" by (simp add: sample_cow_def)
  moreover have "pd_present (table_pde f)" "pd_user (table_pde f)" "\<not> pd_size (table_pde f)" for f by (simp_all add: table_pde_def)
  ultimately show "cow_page sample_cow (mm_cur sample_cow) 0x1000000"
    unfolding cow_page_def d
    by (simp add: PAGE_DIR_IDX_def PAGE_TABLE_IDX_def sample_cow_find Let_def cow_pte_def user_pte_def PAGE_SHARED_def PAGE_COW_RO_def)
qed

lemma safe_write_keeps_sharing_witness:
  "safe_buf 0x1000000 100 True sample_cow = Some (100, sample_cow)"
  using safe_write_keeps_sharing [OF sample_cow_ok, of 100] by simp

section \<open>The write fault\<close>

text \<open>
  What a write fault does to the faulting page, \<open>table\<close> being its table: the last user of a page just
  becomes its owner; without memory for the copy the fault fails, but the entry stays writable, so the next
  write goes to the shared page.
\<close>

lemma cow_pageE:
  assumes "cow_page st dir a"
  obtains t where "find_userspace_page_table (mm_dir st dir (PAGE_DIR_IDX a)) st = Some t"
    and "pt_present (mm_tab st t (PAGE_TABLE_IDX a))" and "pt_user (mm_tab st t (PAGE_TABLE_IDX a))"
    and "\<not> pt_rw (mm_tab st t (PAGE_TABLE_IDX a))" and "pt_flags (mm_tab st t (PAGE_TABLE_IDX a)) AND PAGE_COW_RO \<noteq> 0"
    and "pd_present (mm_dir st dir (PAGE_DIR_IDX a))" and "pd_user (mm_dir st dir (PAGE_DIR_IDX a))"
    and "\<not> pd_size (mm_dir st dir (PAGE_DIR_IDX a))"
  using assms by (auto simp: cow_page_def Let_def)

lemmas clone_cow_simps = clone_cow_def clone_cow_in_def cow_copy_def Let_def

definition own_pte :: "page_table_entry \<Rightarrow> page_table_entry" where
  "own_pte te = te\<lparr>pt_rw := True, pt_flags := pt_flags te AND NOT PAGE_COW_RO\<rparr>"

lemma clone_cow_last_user:
  assumes "cow_page st (mm_cur st) a" and "find_userspace_page_table (mm_dir st (mm_cur st) (PAGE_DIR_IDX a)) st = Some t"
    and "mm_phys st (get_phys_dir_entry (PAGE_IDX_ADDR (pt_addr (mm_tab st t (PAGE_TABLE_IDX a)))) GFP_USER) \<le> 1"
  shows "clone_cow a st = Some (True, set_pte t (PAGE_TABLE_IDX a) (own_pte (mm_tab st t (PAGE_TABLE_IDX a))) st)"
proof (rule cow_pageE [OF assms(1)])
  fix t'
  assume c: "find_userspace_page_table (mm_dir st (mm_cur st) (PAGE_DIR_IDX a)) st = Some t'"
    "pt_present (mm_tab st t' (PAGE_TABLE_IDX a))" "pt_user (mm_tab st t' (PAGE_TABLE_IDX a))"
    "\<not> pt_rw (mm_tab st t' (PAGE_TABLE_IDX a))" "pt_flags (mm_tab st t' (PAGE_TABLE_IDX a)) AND PAGE_COW_RO \<noteq> 0"
    "pd_present (mm_dir st (mm_cur st) (PAGE_DIR_IDX a))" "pd_user (mm_dir st (mm_cur st) (PAGE_DIR_IDX a))"
    "\<not> pd_size (mm_dir st (mm_cur st) (PAGE_DIR_IDX a))"
  with assms(2) have "t' = t" by simp
  with c assms show ?thesis by (simp add: clone_cow_simps own_pte_def)
qed

lemma clone_cow_no_memory:
  assumes "cow_page st (mm_cur st) a" and "find_userspace_page_table (mm_dir st (mm_cur st) (PAGE_DIR_IDX a)) st = Some t"
    and "mm_phys st (get_phys_dir_entry (PAGE_IDX_ADDR (pt_addr (mm_tab st t (PAGE_TABLE_IDX a)))) GFP_USER) > 1"
    and "alloc_phys_mem GFP_USER (mm_phys st) = Some (0, mm_phys st)"
  shows "clone_cow a st = Some (False, set_pte t (PAGE_TABLE_IDX a) (own_pte (mm_tab st t (PAGE_TABLE_IDX a))) st)"
proof (rule cow_pageE [OF assms(1)])
  fix t'
  assume c: "find_userspace_page_table (mm_dir st (mm_cur st) (PAGE_DIR_IDX a)) st = Some t'"
    "pt_present (mm_tab st t' (PAGE_TABLE_IDX a))" "pt_user (mm_tab st t' (PAGE_TABLE_IDX a))"
    "\<not> pt_rw (mm_tab st t' (PAGE_TABLE_IDX a))" "pt_flags (mm_tab st t' (PAGE_TABLE_IDX a)) AND PAGE_COW_RO \<noteq> 0"
    "pd_present (mm_dir st (mm_cur st) (PAGE_DIR_IDX a))" "pd_user (mm_dir st (mm_cur st) (PAGE_DIR_IDX a))"
    "\<not> pd_size (mm_dir st (mm_cur st) (PAGE_DIR_IDX a))"
  with assms(2) have "t' = t" by simp
  with c assms show ?thesis by (simp add: clone_cow_simps own_pte_def)
qed

end
