(* ===== verification/TtyDev.thy ===== *)
theory TtyDev
  imports Terminal
begin

text \<open>
  The terminals of \<open>char/tty.c\<close> as devices: which exist and who holds them, which is in the foreground,
  where the screen of each is, the programs that have it mapped, and the requests of \<open>ioctl\<close>.
\<close>

section \<open>The terminals\<close>

definition MKDEV :: "u32 \<Rightarrow> u32 \<Rightarrow> u32" where
  "MKDEV ma mi = push_bit 8 ma OR mi"

definition TTY_MAJOR :: u32 where "TTY_MAJOR = 4"
definition TTY_CURRENT :: u32 where "TTY_CURRENT = MKDEV 5 0"
definition TTY_CONSOLE :: u32 where "TTY_CONSOLE = MKDEV 5 1"
definition O_NOCTTY :: u32 where "O_NOCTTY = 0x100"

definition vga_mem :: ptr where "vga_mem = 0xB8000"

record vidmaps_entry =
  vm_task :: ptr
  vm_table :: ptr

text \<open>
  The terminals by address, with \<open>video_mem\<close> and \<open>vidmaps\<close> of each; the list \<open>ttys\<close>, the foreground, the
  address of \<open>early_console\<close>; the allocated pages of video memory with their contents, the adapter's at
  \<open>vga_mem\<close> among them; and the page that an entry of a user's page table maps.  The contents of a
  terminal's screen are those of its page: \<open>tt_video\<close> is filled in where a terminal is written to.
\<close>

record ttyst =
  y_ttys :: "ptr \<rightharpoonup> tty"
  y_video :: "ptr \<Rightarrow> ptr"
  y_vidmaps :: "ptr \<Rightarrow> vidmaps_entry list"
  y_list :: "ptr list"
  y_foreground :: ptr
  y_early :: ptr
  y_pages :: "ptr \<rightharpoonup> (nat \<Rightarrow> u8)"
  y_maps :: "ptr \<rightharpoonup> ptr"
  y_kst :: kst

text \<open>
  What the allocators answer to one switch of the foreground: the page, with what is in it, and the
  address for a terminal that has to be made, the page that saves the screen, and the first free page of
  user memory with its table entry.  \<open>None\<close> is out of memory; whether \<open>kmalloc\<close> succeeds is in \<open>k_answers\<close>.
\<close>

type_synonym page = "(ptr \<times> (nat \<Rightarrow> u8)) option"

record grants =
  sp_page :: page
  sp_tty :: ptr
  sp_save :: page
  sp_user :: "(ptr \<times> ptr) option"

definition on_tty :: "ptr \<Rightarrow> (tty \<times> kst \<Rightarrow> ('a \<times> tty \<times> kst) option) \<Rightarrow> ttyst \<Rightarrow> ('a \<times> ttyst) option" where
  "on_tty p f y = do {
     t \<leftarrow> y_ttys y p;
     bytes \<leftarrow> y_pages y (y_video y p);
     (r, t1, st1) \<leftarrow> f (t\<lparr>tt_video := bytes\<rparr>, y_kst y);
     Some (r, y\<lparr>y_ttys := (y_ttys y)(p \<mapsto> t1\<lparr>tt_video := tt_video t\<rparr>),
       y_pages := (y_pages y)(y_video y p \<mapsto> tt_video t1), y_kst := st1\<rparr>) }"

definition tty_write :: "ptr \<Rightarrow> u8 list \<Rightarrow> ttyst \<Rightarrow> (int \<times> ttyst) option" where
  "tty_write p buf = on_tty p (\<lambda>(t, st). do { (n, t1) \<leftarrow> raw_tty_write buf t; Some (n, t1, st) })"

section \<open>Getting and putting a terminal\<close>

fun find_tty :: "(ptr \<rightharpoonup> tty) \<Rightarrow> u32 \<Rightarrow> ptr list \<Rightarrow> ptr option" where
  "find_tty ttys dev [] = Some 0"
| "find_tty ttys dev (p # ps) = do {
     t \<leftarrow> ttys p;
     if tt_device t = dev then Some p else find_tty ttys dev ps }"

definition new_tty :: "u32 \<Rightarrow> tty" where
  "new_tty dev =
     \<lparr>tt_refcount = 1, tt_device = dev, tt_task = 0, tt_video = (\<lambda>_. 0),
      tt_termios = \<lparr>iflag = 0, oflag = OPOST, cflag = 0,
        lflag = ECHO OR ECHOE OR ECHOCTL OR ICANON OR ISIG, line = 0,
        cc = (replicate 19 0)[VINTR := 3, VERASE := 8]\<rparr>,
      tt_ansi = \<lparr>ad_end = 0, ad_buffer = replicate 16 0\<rparr>,
      tt_x = 0, tt_y = 0, tt_color = WHITE_ON_BLACK,
      tt_mouse_shown = False, tt_mouse_x = 0, tt_mouse_y = 0,
      tt_start = 0, tt_end = 0, tt_buffer = replicate TTY_BUFFER_SIZE 0\<rparr>"

definition clear_sequence :: "u8 list" where
  "clear_sequence = [27, 0x5B, 0x32, 0x4A]"

text \<open>A terminal that is not in the list is made.  One whose list node cannot be allocated is used all the same.\<close>

definition make_tty :: "u32 \<Rightarrow> page \<Rightarrow> ptr \<Rightarrow> ttyst \<Rightarrow> ((int + ptr) \<times> ttyst) option" where
  "make_tty dev new p y =
     (case new of None \<Rightarrow> Some (Inl (- ENOMEM), y)
      | Some (pg, bytes) \<Rightarrow>
          (let (ok, st1) = k_kmalloc (y_kst y) in
           if \<not> ok then Some (Inl (- ENOMEM), y\<lparr>y_kst := st1\<rparr>)
           else (let (node, st2) = k_kmalloc st1 in do {
             (_, y1) \<leftarrow> tty_write p clear_sequence
               (y\<lparr>y_ttys := (y_ttys y)(p \<mapsto> new_tty dev), y_video := (y_video y)(p := pg),
                  y_vidmaps := (y_vidmaps y)(p := []), y_pages := (y_pages y)(pg \<mapsto> bytes),
                  y_list := (if node then y_list y @ [p] else y_list y),
                  y_kst := st2\<lparr>k_ttys := (k_ttys st2)(p \<mapsto> 0)\<rparr>\<rparr>);
             Some (Inr p, y1) })))"

definition hold_tty :: "ptr \<Rightarrow> ttyst \<Rightarrow> ttyst option" where
  "hold_tty p y = do {
     t \<leftarrow> y_ttys y p;
     Some (y\<lparr>y_ttys := (y_ttys y)(p \<mapsto> t\<lparr>tt_refcount := tt_refcount t + 1\<rparr>)\<rparr>) }"

text \<open>The session of the current task, \<open>0\<close> if it has none, and its controlling terminal.\<close>

definition current_session :: "ttyst \<Rightarrow> ptr option" where
  "current_session y = do { x \<leftarrow> current_task (y_kst y); Some (t_session x) }"

definition current_tty :: "ttyst \<Rightarrow> ptr option" where
  "current_tty y = do {
     s \<leftarrow> current_session y;
     if s = 0 then Some 0 else do { se \<leftarrow> k_sessions (y_kst y) s; Some (se_tty se) } }"

definition tty_get :: "u32 \<Rightarrow> page \<Rightarrow> ptr \<Rightarrow> ttyst \<Rightarrow> ((int + ptr) \<times> ttyst) option" where
  "tty_get dev new p y =
     (if dev = TTY_CURRENT then do {
        q \<leftarrow> current_tty y;
        if q = 0 then Some (Inl (- ENXIO), y) else do { y1 \<leftarrow> hold_tty q y; Some (Inr q, y1) } }
      else (let dev1 = (if dev = TTY_CONSOLE then MKDEV TTY_MAJOR 0 else dev) in do {
        q \<leftarrow> find_tty (y_ttys y) dev1 (y_list y);
        if q \<noteq> 0 then do { y1 \<leftarrow> hold_tty q y; Some (Inr q, y1) } else make_tty dev1 new p y }))"

definition drop_tty :: "ptr \<Rightarrow> ttyst \<Rightarrow> ttyst" where
  "drop_tty p y = y\<lparr>y_pages := (y_pages y)(y_video y p := None), y_list := removeAll p (y_list y),
     y_ttys := (y_ttys y)(p := None), y_kst := (y_kst y)\<lparr>k_ttys := (k_ttys (y_kst y))(p := None)\<rparr>\<rparr>"

definition tty_put :: "ptr \<Rightarrow> ttyst \<Rightarrow> ttyst option" where
  "tty_put p y = do {
     t \<leftarrow> y_ttys y p;
     if tt_refcount t - 1 \<noteq> 0
     then Some (y\<lparr>y_ttys := (y_ttys y)(p \<mapsto> t\<lparr>tt_refcount := tt_refcount t - 1\<rparr>)\<rparr>)
     else Some (drop_tty p y) }"

text \<open>To the state of tasks, giving a terminal back does nothing but that the terminal may go.\<close>

lemma tty_put_kst: "tty_put p y = Some y1 \<Longrightarrow> \<exists>tt. y_kst y1 = (y_kst y)\<lparr>k_ttys := tt\<rparr>"
proof -
  assume "tty_put p y = Some y1"
  then have "y_kst y1 = (y_kst y)\<lparr>k_ttys := k_ttys (y_kst y)\<rparr> \<or> y_kst y1 = (y_kst y)\<lparr>k_ttys := (k_ttys (y_kst y))(p := None)\<rparr>"
    by (auto simp: tty_put_def drop_tty_def bind_eq_Some_conv split: if_splits)
  then show ?thesis by blast
qed

section \<open>Files\<close>

text \<open>Opening a terminal: its address goes to \<open>vendor\<close>.  It may become the controlling terminal of the session.\<close>

definition take_tty :: "u32 \<Rightarrow> ptr \<Rightarrow> ttyst \<Rightarrow> ttyst option" where
  "take_tty flags q y = do {
     x \<leftarrow> current_task (y_kst y);
     let s = t_session x;
     if s = 0 then Some y
     else do {
       se \<leftarrow> k_sessions (y_kst y) s;
       owner \<leftarrow> k_ttys (y_kst y) q;
       if se_tty se = 0 \<and> owner = 0 \<and> se_sid se = ucast (t_pid x) \<and> flags AND O_NOCTTY = 0
       then do {
         y1 \<leftarrow> hold_tty q y;
         Some (y1\<lparr>y_kst := (y_kst y1)\<lparr>k_sessions := (k_sessions (y_kst y1))(s \<mapsto> se\<lparr>se_tty := q\<rparr>),
           k_ttys := (k_ttys (y_kst y1))(q \<mapsto> s)\<rparr>\<rparr>) }
       else Some y } }"

definition tty_open :: "u32 \<Rightarrow> u32 \<Rightarrow> page \<Rightarrow> ptr \<Rightarrow> ttyst \<Rightarrow> (int \<times> ptr \<times> ttyst) option" where
  "tty_open rdev flags new p y = do {
     (r, y1) \<leftarrow> tty_get rdev new p y;
     (case r of
       Inl e \<Rightarrow> Some (e, 0, y1)
     | Inr q \<Rightarrow> do { y2 \<leftarrow> take_tty flags q y1; Some (0, q, y2) }) }"

definition tty_release :: "ptr \<Rightarrow> ttyst \<Rightarrow> ttyst option" where
  "tty_release vendor = tty_put vendor"

section \<open>Requests\<close>

definition TCGETS :: u32 where "TCGETS = 0x5401"
definition TCSETS :: u32 where "TCSETS = 0x5402"
definition TCSETSW :: u32 where "TCSETSW = 0x5403"
definition TCSETSF :: u32 where "TCSETSF = 0x5404"
definition TIOCGPGRP :: u32 where "TIOCGPGRP = 0x540F"
definition TIOCSPGRP :: u32 where "TIOCSPGRP = 0x5410"
definition TIOCGWINSZ :: u32 where "TIOCGWINSZ = 0x5413"
definition TIOCGSID :: u32 where "TIOCGSID = 0x5429"

record winsize =
  ws_row :: u16
  ws_col :: u16
  ws_xpixel :: u16
  ws_ypixel :: u16

text \<open>What a request stores through \<open>arg\<close>.\<close>

datatype ioctl_out = NoOut | TermiosOut termios | WordOut u32 | WinsizeOut winsize

text \<open>The session that terminal and task share, or \<open>0\<close>.\<close>

definition shared_session :: "ptr \<Rightarrow> ttyst \<Rightarrow> ptr option" where
  "shared_session p y = do {
     s \<leftarrow> k_ttys (y_kst y) p;
     c \<leftarrow> current_session y;
     Some (if s = c then s else 0) }"

definition set_pgrp :: "ptr \<Rightarrow> u32 \<Rightarrow> ttyst \<Rightarrow> (int \<times> ttyst) option" where
  "set_pgrp s pgid y = do {
     r \<leftarrow> get_task_from_pid (ucast pgid) (y_kst y);
     (case r of
       Inl _ \<Rightarrow> Some (- EINVAL, y)
     | Inr leader \<Rightarrow> do {
         l \<leftarrow> k_objs (y_kst y) leader;
         se \<leftarrow> k_sessions (y_kst y) s;
         if t_session l \<noteq> s then Some (- EPERM, y)
         else Some (0, y\<lparr>y_kst := (y_kst y)\<lparr>k_sessions :=
           (k_sessions (y_kst y))(s \<mapsto> se\<lparr>se_foreground_pgid := pgid\<rparr>)\<rparr>\<rparr>) }) }"

text \<open>
  \<open>fits\<close> is whether \<open>arg\<close> is the kernel's or the whole of it passes \<open>safe_buf\<close>; \<open>new\<close> and \<open>pgid\<close> are what
  it points to.
\<close>

definition tty_ioctl ::
  "ptr \<Rightarrow> u32 \<Rightarrow> bool \<Rightarrow> termios \<Rightarrow> u32 \<Rightarrow> ttyst \<Rightarrow> (int \<times> ioctl_out \<times> ttyst) option" where
  "tty_ioctl p request fits new pgid y = do {
     t \<leftarrow> y_ttys y p;
     s \<leftarrow> shared_session p y;
     if request = TCGETS then
       Some (if fits then (0, TermiosOut (tt_termios t), y) else (- EFAULT, NoOut, y))
     else if request = TCSETS \<or> request = TCSETSW \<or> request = TCSETSF then
       Some (if fits then (0, NoOut, y\<lparr>y_ttys := (y_ttys y)(p \<mapsto> t\<lparr>tt_termios := new\<rparr>)\<rparr>) else (- EFAULT, NoOut, y))
     else if request = TIOCGPGRP then
       (if s = 0 then Some (- ENOTTY, NoOut, y)
        else if \<not> fits then Some (- EFAULT, NoOut, y)
        else do { se \<leftarrow> k_sessions (y_kst y) s; Some (0, WordOut (se_foreground_pgid se), y) })
     else if request = TIOCSPGRP then
       (if s = 0 then Some (- ENOTTY, NoOut, y)
        else if \<not> fits then Some (- EFAULT, NoOut, y)
        else do { (r, y1) \<leftarrow> set_pgrp s pgid y; Some (r, NoOut, y1) })
     else if request = TIOCGSID then
       (if s = 0 then Some (- ENOTTY, NoOut, y)
        else if \<not> fits then Some (- EFAULT, NoOut, y)
        else do { se \<leftarrow> k_sessions (y_kst y) s; Some (0, WordOut (se_sid se), y) })
     else if request = TIOCGWINSZ then
       Some (if fits then (0, WinsizeOut \<lparr>ws_row = word_of_nat NUM_ROWS, ws_col = word_of_nat NUM_COLS,
           ws_xpixel = 0, ws_ypixel = 0\<rparr>, y) else (- EFAULT, NoOut, y))
     else Some (- ENOTTY, NoOut, y) }"

section \<open>The mapped screen\<close>

text \<open>
  \<open>remap_to_user\<close> makes a user page show \<open>src\<close>: the page of \<open>*dest\<close>, or the first free one when it is \<open>NULL\<close>,
  whose address then goes through \<open>newmap_addr\<close>.  \<open>user\<close> is what its search finds.
\<close>

definition remap_to_user ::
  "ptr \<Rightarrow> ptr \<Rightarrow> (ptr \<times> ptr) option \<Rightarrow> bool \<Rightarrow> ttyst \<Rightarrow> (ptr option \<times> ptr \<times> ttyst) option" where
  "remap_to_user src dest user newmap y =
     (if dest = 0 then
        (case user of None \<Rightarrow> Some (None, 0, y)
         | Some (addr, table) \<Rightarrow>
             if newmap then Some (Some addr, table, y\<lparr>y_maps := (y_maps y)(table \<mapsto> src)\<rparr>) else None)
      else Some (None, dest, y\<lparr>y_maps := (y_maps y)(dest \<mapsto> src)\<rparr>))"

fun remap_all :: "ptr \<Rightarrow> (ptr \<times> ptr) option \<Rightarrow> vidmaps_entry list \<Rightarrow> ttyst \<Rightarrow> ttyst option" where
  "remap_all src user [] y = Some y"
| "remap_all src user (v # vs) y = do {
     (_, _, y1) \<leftarrow> remap_to_user src (vm_table v) user False y;
     remap_all src user vs y1 }"

text \<open>\<open>screen\<close> is the word at \<open>screen_start\<close> before the call; the result has the one after it.\<close>

definition sys_vidmap :: "bool \<Rightarrow> ptr \<Rightarrow> (ptr \<times> ptr) option \<Rightarrow> ttyst \<Rightarrow> (int \<times> ptr \<times> ttyst) option" where
  "sys_vidmap fits screen user y =
     (if \<not> fits then Some (- EFAULT, screen, y)
      else do {
        q \<leftarrow> current_tty y;
        if q = 0 then Some (- EBADF, screen, y)
        else (let (ok, st1) = k_kmalloc (y_kst y); y1 = y\<lparr>y_kst := st1\<rparr> in
          if \<not> ok then Some (- ENOMEM, screen, y1)
          else do {
            (new, table, y2) \<leftarrow> remap_to_user (y_video y1 q) 0 user True y1;
            let screen1 = (case new of None \<Rightarrow> screen | Some addr \<Rightarrow> addr);
            if screen1 = 0 then Some (- ENOMEM, screen1, y2)
            else (let (node, st2) = k_kmalloc (y_kst y2) in
              Some (0, screen1, y2\<lparr>y_kst := st2, y_vidmaps := (if node then
                (y_vidmaps y2)(q := y_vidmaps y2 q @ [\<lparr>vm_task = k_current st2, vm_table = table\<rparr>])
                else y_vidmaps y2)\<rparr>)) }) })"

fun unmap_all :: "vidmaps_entry list \<Rightarrow> ttyst \<Rightarrow> ttyst option" where
  "unmap_all [] y = Some y"
| "unmap_all (v # vs) y =
     (if vm_table v = 0 then None else unmap_all vs (y\<lparr>y_maps := (y_maps y)(vm_table v := None)\<rparr>))"

definition exit_vidmap_cb :: "ttyst \<Rightarrow> ttyst option" where
  "exit_vidmap_cb y = do {
     q \<leftarrow> current_tty y;
     if q = 0 then Some y
     else (let (mine, others) = partition (\<lambda>v. vm_task v = k_current (y_kst y)) (y_vidmaps y q) in
       unmap_all mine (y\<lparr>y_vidmaps := (y_vidmaps y)(q := others)\<rparr>)) }"

section \<open>The foreground\<close>

text \<open>The page that saves the screen is not checked: without memory the copy goes through \<open>NULL\<close>.\<close>

definition save_foreground :: "grants \<Rightarrow> ttyst \<Rightarrow> ttyst option" where
  "save_foreground sp y =
     (let f = y_foreground y in
      if f = 0 \<or> f = y_early y then Some y
      else do {
        (pg, _) \<leftarrow> sp_save sp;
        screen \<leftarrow> y_pages y vga_mem;
        y1 \<leftarrow> remap_all pg (sp_user sp) (y_vidmaps y f)
          (y\<lparr>y_pages := (y_pages y)(pg \<mapsto> screen), y_video := (y_video y)(f := pg)\<rparr>);
        tty_put f y1 })"

definition show_tty :: "grants \<Rightarrow> ptr \<Rightarrow> ttyst \<Rightarrow> ttyst option" where
  "show_tty sp q y = do {
     bytes \<leftarrow> y_pages y (y_video y q);
     remap_all vga_mem (sp_user sp) (y_vidmaps y q)
       (y\<lparr>y_foreground := q, y_pages := (y_pages y)(vga_mem \<mapsto> bytes, y_video y q := None),
          y_video := (y_video y)(q := vga_mem)\<rparr>) }"

definition tty_switch_foreground :: "u32 \<Rightarrow> grants \<Rightarrow> ttyst \<Rightarrow> ttyst option" where
  "tty_switch_foreground dev sp y = do {
     (r, y1) \<leftarrow> tty_get dev (sp_page sp) (sp_tty sp) y;
     (case r of
       Inl _ \<Rightarrow> Some y1
     | Inr q \<Rightarrow>
         if q = y_foreground y1 then tty_put q y1
         else do { y2 \<leftarrow> save_foreground sp y1; show_tty sp q y2 }) }"

section \<open>Every terminal has a screen of its own\<close>

definition live :: "ttyst \<Rightarrow> ptr \<Rightarrow> bool" where
  "live y p \<longleftrightarrow> y_ttys y p \<noteq> None \<and> p \<noteq> y_early y"

definition contents :: "ttyst \<Rightarrow> ptr \<Rightarrow> (nat \<Rightarrow> u8) option" where
  "contents y p = y_pages y (y_video y p)"

text \<open>The foreground's screen is the adapter's memory, every other terminal has an allocated page.\<close>

definition ttys_ok :: "ttyst \<Rightarrow> bool" where
  "ttys_ok y \<longleftrightarrow>
     (\<forall>p \<in> set (y_list y). live y p \<and> p \<noteq> 0) \<and>
     y_foreground y \<noteq> 0 \<and> (y_foreground y = y_early y \<or> live y (y_foreground y)) \<and>
     y_video y (y_foreground y) = vga_mem \<and> y_pages y vga_mem \<noteq> None \<and>
     (\<forall>p. live y p \<longrightarrow> contents y p \<noteq> None \<and> tt_refcount (the (y_ttys y p)) \<ge> 1) \<and>
     (\<forall>p. live y p \<longrightarrow> p \<noteq> y_foreground y \<longrightarrow> y_video y p \<noteq> vga_mem) \<and>
     (\<forall>p q. live y p \<longrightarrow> live y q \<longrightarrow> y_video y p = y_video y q \<longrightarrow> p = q)"

text \<open>A program that has a terminal mapped sees its screen.\<close>

definition vidmaps_ok :: "ttyst \<Rightarrow> bool" where
  "vidmaps_ok y \<longleftrightarrow>
     (\<forall>p. live y p \<longrightarrow> (\<forall>v \<in> set (y_vidmaps y p). vm_table v \<noteq> 0 \<and> y_maps y (vm_table v) = Some (y_video y p)))"

text \<open>What a terminal's own screen, or its absence, is after an operation that writes to none.\<close>

definition screens_kept :: "ttyst \<Rightarrow> ttyst \<Rightarrow> bool" where
  "screens_kept y y1 \<longleftrightarrow> y_early y1 = y_early y \<and> (\<forall>p. live y p \<longrightarrow> live y1 p \<longrightarrow> contents y1 p = contents y p)"

definition page_addrs :: "page \<Rightarrow> ptr set" where
  "page_addrs pg = (case pg of None \<Rightarrow> {} | Some (a, _) \<Rightarrow> {a})"

text \<open>The allocators give out what is not in use.\<close>

definition fresh_tty :: "page \<Rightarrow> ptr \<Rightarrow> ttyst \<Rightarrow> bool" where
  "fresh_tty new p y \<longleftrightarrow> p \<noteq> 0 \<and> p \<noteq> y_early y \<and> y_ttys y p = None \<and> (\<forall>a \<in> page_addrs new. y_pages y a = None)"

definition grants_ok :: "grants \<Rightarrow> ttyst \<Rightarrow> bool" where
  "grants_ok sp y \<longleftrightarrow> fresh_tty (sp_page sp) (sp_tty sp) y \<and>
     (\<forall>a \<in> page_addrs (sp_save sp). y_pages y a = None \<and> a \<notin> page_addrs (sp_page sp))"

lemma ansi_zeros: "replicate 16 (0 :: u8) = [0, 0, 0, 0, 0, 0, 0, 0, 0, 0, 0, 0, 0, 0, 0, 0]"
  by (simp add: numeral_eq_Suc)

lemma erase_all:
  assumes "tt_ansi t = \<lparr>ad_end = 3, ad_buffer = 27 # 0x5B # 0x32 # zs\<rparr>"
  shows "erase_display t = clear_cells 0 VGA_CHARS (t\<lparr>tt_x := 0, tt_y := 0\<rparr>)"
  using assms by (simp add: erase_display_def decode_ansi_def decode_ansi_type_def ansi_arg_def is_digit_def)

lemma clear_all: "clear_cells 0 VGA_CHARS t \<noteq> None"
  by (simp add: clear_cells_def VGA_CHARS_def NUM_COLS_def NUM_ROWS_def)

lemma clear_new:
  "\<exists>t1. write_chars clear_sequence ((new_tty dev)\<lparr>tt_video := bytes\<rparr>) = Some t1 \<and>
     tt_device t1 = dev \<and> tt_refcount t1 = 1"
proof -
  let ?t = "(new_tty dev)\<lparr>tt_video := bytes\<rparr>"
  let ?ad = "\<lparr>ad_end = 3, ad_buffer = 27 # 0x5B # 0x32 # [0, 0, 0, 0, 0, 0, 0, 0, 0, 0, 0, 0, 0]\<rparr>"
  let ?t3 = "?t\<lparr>tt_ansi := ?ad\<rparr>"
  have "write_chars clear_sequence ?t = write_chars [0x4A] ?t3"
    by (simp add: clear_sequence_def new_tty_def ansi_zeros write_char_def write_plain_def is_cc_def VERASE_def VINTR_def
        add_ansi_def is_ansi_byte_def is_digit_def numeral_3_eq_3)
  also have "\<dots> = map_option end_ansi (erase_display ?t3)"
    by (simp add: write_char_def is_ansi_byte_def is_digit_def run_ansi_def decode_ansi_type_def map_option_case
        split: option.split)
  also have "\<dots> = map_option end_ansi (clear_cells 0 VGA_CHARS (?t3\<lparr>tt_x := 0, tt_y := 0\<rparr>))"
    by (subst erase_all) simp_all
  finally show ?thesis
    by (simp add: clear_cells_def VGA_CHARS_def NUM_COLS_def NUM_ROWS_def end_ansi_def new_tty_def)
qed

section \<open>Getting and putting\<close>

lemma find_tty_spec:
  assumes "\<forall>p \<in> set ps. ttys p \<noteq> None \<and> p \<noteq> 0"
  shows "\<exists>q. find_tty ttys dev ps = Some q \<and> (q \<noteq> 0 \<longrightarrow> q \<in> set ps \<and> tt_device (the (ttys q)) = dev)"
  using assms
proof (induction ps)
  case (Cons p ps)
  then obtain t where "ttys p = Some t" by auto
  with Cons show ?case by (cases "tt_device t = dev") auto
qed simp

lemma ttys_okD:
  assumes "ttys_ok y"
  shows "p \<in> set (y_list y) \<Longrightarrow> live y p \<and> p \<noteq> 0"
    and "y_foreground y \<noteq> 0"
    and "y_foreground y = y_early y \<or> live y (y_foreground y)"
    and "y_video y (y_foreground y) = vga_mem"
    and "\<exists>img. y_pages y vga_mem = Some img"
    and "live y p \<Longrightarrow> \<exists>img. contents y p = Some img"
    and "live y p \<Longrightarrow> tt_refcount (the (y_ttys y p)) \<ge> 1"
    and "live y p \<Longrightarrow> p \<noteq> y_foreground y \<Longrightarrow> y_video y p \<noteq> vga_mem"
    and "live y p \<Longrightarrow> live y q \<Longrightarrow> y_video y p = y_video y q \<Longrightarrow> p = q"
  using assms unfolding ttys_ok_def by blast+

lemma ttys_okI:
  assumes "\<And>p. p \<in> set (y_list y) \<Longrightarrow> live y p \<and> p \<noteq> 0"
    and "y_foreground y \<noteq> 0"
    and "y_foreground y = y_early y \<or> live y (y_foreground y)"
    and "y_video y (y_foreground y) = vga_mem"
    and "y_pages y vga_mem \<noteq> None"
    and "\<And>p. live y p \<Longrightarrow> contents y p \<noteq> None"
    and "\<And>p. live y p \<Longrightarrow> tt_refcount (the (y_ttys y p)) \<ge> 1"
    and "\<And>p. live y p \<Longrightarrow> p \<noteq> y_foreground y \<Longrightarrow> y_video y p \<noteq> vga_mem"
    and "\<And>p q. live y p \<Longrightarrow> live y q \<Longrightarrow> y_video y p = y_video y q \<Longrightarrow> p = q"
  shows "ttys_ok y"
  using assms unfolding ttys_ok_def by blast

text \<open>A change of a terminal that keeps a reference to it, and of the kernel's state, touches no screen.\<close>

lemma same_screens:
  fixes st :: kst
  assumes "ttys_ok y" and "live y q" and "tt_refcount t \<ge> 1"
  defines "y1 \<equiv> y\<lparr>y_ttys := (y_ttys y)(q \<mapsto> t), y_kst := st\<rparr>"
  shows "ttys_ok y1" and "screens_kept y y1" and "vidmaps_ok y \<Longrightarrow> vidmaps_ok y1" and "live y1 p \<longleftrightarrow> live y p"
proof -
  have l: "live y1 p \<longleftrightarrow> live y p" for p using assms(2) by (auto simp: live_def y1_def)
  have c: "contents y1 p = contents y p" for p by (simp add: contents_def y1_def)
  have r: "tt_refcount (the (y_ttys y1 p)) \<ge> 1" if "live y p" for p
    using ttys_okD(7) [OF assms(1) that] assms(3) by (cases "p = q") (simp_all add: y1_def)
  show "live y1 p \<longleftrightarrow> live y p" by (rule l)
  show "screens_kept y y1" by (simp add: screens_kept_def c) (simp add: y1_def)
  show "ttys_ok y1"
    by (rule ttys_okI) (use ttys_okD [OF assms(1)] r in \<open>simp_all add: l c\<close>, simp_all add: y1_def)
  show "vidmaps_ok y1" if "vidmaps_ok y" using that unfolding vidmaps_ok_def l by (simp add: y1_def)
qed

lemma hold_tty_eq:
  assumes "y_ttys y q = Some t"
  shows "hold_tty q y = Some (y\<lparr>y_ttys := (y_ttys y)(q \<mapsto> t\<lparr>tt_refcount := tt_refcount t + 1\<rparr>)\<rparr>)"
  using assms by (simp add: hold_tty_def)

lemma make_tty_eq:
  assumes "fresh_tty (Some (pg, bytes)) p y"
  shows "(\<exists>st. make_tty dev (Some (pg, bytes)) p y = Some (Inl (- ENOMEM), y\<lparr>y_kst := st\<rparr>)) \<or>
    (\<exists>(t :: tty) (img :: nat \<Rightarrow> u8) st ps. make_tty dev (Some (pg, bytes)) p y = Some (Inr p, y\<lparr>y_ttys := (y_ttys y)(p \<mapsto> t),
      y_video := (y_video y)(p := pg), y_vidmaps := (y_vidmaps y)(p := []), y_pages := (y_pages y)(pg \<mapsto> img),
      y_list := ps, y_kst := st\<rparr>) \<and> set ps \<subseteq> insert p (set (y_list y)) \<and> tt_device t = dev \<and> tt_refcount t = 1)"
proof -
  obtain ok st1 where k1: "k_kmalloc (y_kst y) = (ok, st1)" by force
  obtain node st2 where k2: "k_kmalloc st1 = (node, st2)" by force
  from clear_new [of bytes dev] obtain t1 where
    t1: "write_chars clear_sequence ((new_tty dev)\<lparr>tt_video := bytes\<rparr>) = Some t1" "tt_device t1 = dev" "tt_refcount t1 = 1"
    by blast
  show ?thesis
  proof (cases ok)
    case False
    then show ?thesis using k1 by (auto simp: make_tty_def)
  next
    case True
    then have m: "make_tty dev (Some (pg, bytes)) p y = Some (Inr p, y\<lparr>y_ttys := (y_ttys y)(p \<mapsto> t1\<lparr>tt_video := tt_video (new_tty dev)\<rparr>),
      y_video := (y_video y)(p := pg), y_vidmaps := (y_vidmaps y)(p := []), y_pages := (y_pages y)(pg \<mapsto> tt_video t1),
      y_list := (if node then y_list y @ [p] else y_list y), y_kst := st2\<lparr>k_ttys := (k_ttys st2)(p \<mapsto> 0)\<rparr>\<rparr>)"
      using k1 k2 t1(1) by (simp add: make_tty_def tty_write_def on_tty_def raw_tty_write_def)
    show ?thesis by (rule disjI2, intro exI conjI, rule m) (auto simp: t1)
  qed
qed

text \<open>What \<open>tty_get\<close> gives: a terminal that is held, with every screen as it was.\<close>

definition got :: "ttyst \<Rightarrow> u32 \<Rightarrow> page \<Rightarrow> ptr \<Rightarrow> ttyst \<Rightarrow> bool" where
  "got y dev new q y1 \<longleftrightarrow> ttys_ok y1 \<and> vidmaps_ok y1 \<and> screens_kept y y1 \<and>
     y_foreground y1 = y_foreground y \<and> (\<forall>p. live y p \<longrightarrow> live y1 p) \<and> live y1 q \<and> q \<noteq> 0 \<and>
     (q = y_foreground y \<longrightarrow> tt_refcount (the (y_ttys y1 q)) \<ge> 2) \<and> tt_device (the (y_ttys y1 q)) = dev \<and>
     (\<forall>a. y_pages y1 a \<noteq> None \<longrightarrow> y_pages y a \<noteq> None \<or> a \<in> page_addrs new)"

lemma make_tty_ok:
  assumes "ttys_ok y" and "vidmaps_ok y" and "fresh_tty new p y"
  shows "\<exists>r y1. make_tty dev new p y = Some (r, y1) \<and>
    (case r of Inl e \<Rightarrow> \<exists>st. y1 = y\<lparr>y_kst := st\<rparr> | Inr q \<Rightarrow> got y dev new q y1)"
proof (cases new)
  case None
  then show ?thesis by (simp add: make_tty_def) (metis ttyst.surjective ttyst.update_convs(9))
next
  case (Some pb)
  obtain pg bytes where pb: "pb = (pg, bytes)" by force
  from make_tty_eq [OF assms(3) [unfolded Some pb], of dev]
  show ?thesis
  proof (elim disjE exE conjE)
    fix st
    assume "make_tty dev (Some (pg, bytes)) p y = Some (Inl (- ENOMEM), y\<lparr>y_kst := st\<rparr>)"
    then show ?thesis unfolding Some pb by (intro exI conjI) (assumption, auto)
  next
    fix t :: tty and img :: "nat \<Rightarrow> u8" and st ps
    let ?y = "y\<lparr>y_ttys := (y_ttys y)(p \<mapsto> t), y_video := (y_video y)(p := pg), y_vidmaps := (y_vidmaps y)(p := []),
      y_pages := (y_pages y)(pg \<mapsto> img), y_list := ps, y_kst := st\<rparr>"
    assume m: "make_tty dev (Some (pg, bytes)) p y = Some (Inr p, ?y)"
      and ps: "set ps \<subseteq> insert p (set (y_list y))" and t: "tt_device t = dev" "tt_refcount t = 1"
    have p: "p \<noteq> 0" "p \<noteq> y_early y" "y_ttys y p = None" "y_pages y pg = None"
      using assms(3) Some pb by (simp_all add: fresh_tty_def page_addrs_def)
    note ok = ttys_okD [OF assms(1)]
    have l: "live ?y a \<longleftrightarrow> live y a \<or> a = p" for a using p by (auto simp: live_def)
    have lp: "live y a \<Longrightarrow> a \<noteq> p \<and> y_video y a \<noteq> pg" for a
      using ok(6) [of a] p by (auto simp: live_def contents_def)
    have c: "contents ?y a = (if a = p then Some img else contents y a)" if "live ?y a" for a
      using that lp [of a] l [of a] by (auto simp: contents_def)
    have fg: "p \<noteq> y_foreground y" "pg \<noteq> vga_mem" using ok(3,5) p by (auto simp: live_def)
    have "ttys_ok ?y"
    proof (rule ttys_okI)
      show "tt_refcount (the (y_ttys ?y a)) \<ge> 1" if "live ?y a" for a
        using that ok(7) [of a] l [of a] t lp [of a] by (cases "a = p") simp_all
      show "contents ?y a \<noteq> None" if "live ?y a" for a
        using that ok(6) [of a] l [of a] c [of a] by (cases "a = p") auto
      show "a = b" if "live ?y a" "live ?y b" "y_video ?y a = y_video ?y b" for a b
        using that l [of a] l [of b] lp [of a] lp [of b] ok(9) [of a b] by (auto split: if_splits)
      show "y_video ?y a \<noteq> vga_mem" if "live ?y a" "a \<noteq> y_foreground ?y" for a
        using that l [of a] ok(8) [of a] fg by auto
      show "live ?y a \<and> a \<noteq> 0" if "a \<in> set (y_list ?y)" for a
        using that ps ok(1) [of a] l [of a] p by auto
    qed (use ok(2-5) fg l in auto)
    moreover have "vidmaps_ok ?y" using assms(2) lp unfolding vidmaps_ok_def l by auto
    moreover have "screens_kept y ?y" using c l lp by (auto simp: screens_kept_def)
    ultimately have "got y dev new p ?y" using l fg t p by (auto simp: got_def Some pb page_addrs_def)
    then show ?thesis using m unfolding Some pb by (intro exI conjI) (assumption, simp)
  qed
qed

lemma tty_get_ok:
  assumes "ttys_ok y" and "vidmaps_ok y" and "fresh_tty new p y" and "dev \<noteq> TTY_CURRENT"
  shows "\<exists>r y1. tty_get dev new p y = Some (r, y1) \<and> (case r of Inl e \<Rightarrow> \<exists>st. y1 = y\<lparr>y_kst := st\<rparr>
    | Inr q \<Rightarrow> got y (if dev = TTY_CONSOLE then MKDEV TTY_MAJOR 0 else dev) new q y1)"
proof -
  let ?d = "if dev = TTY_CONSOLE then MKDEV TTY_MAJOR 0 else dev"
  note ok = ttys_okD [OF assms(1)]
  have "\<forall>p \<in> set (y_list y). y_ttys y p \<noteq> None \<and> p \<noteq> 0" using ok(1) by (simp add: live_def)
  from find_tty_spec [OF this, of ?d] obtain q where
    q: "find_tty (y_ttys y) ?d (y_list y) = Some q" "q \<noteq> 0 \<Longrightarrow> q \<in> set (y_list y) \<and> tt_device (the (y_ttys y q)) = ?d"
    by blast
  show ?thesis
  proof (cases "q = 0")
    case True
    with make_tty_ok [OF assms(1-3), of ?d] q(1) assms(4) show ?thesis by (simp add: tty_get_def Let_def)
  next
    case False
    with q(2) ok(1) have lq: "live y q" "tt_device (the (y_ttys y q)) = ?d" by blast+
    then obtain t where t: "y_ttys y q = Some t" by (auto simp: live_def)
    with ok(7) [OF lq(1)] have rc: "tt_refcount t \<ge> 1" by simp
    let ?t = "t\<lparr>tt_refcount := tt_refcount t + 1\<rparr>"
    let ?y = "y\<lparr>y_ttys := (y_ttys y)(q \<mapsto> ?t)\<rparr>"
    have y: "?y = y\<lparr>y_ttys := (y_ttys y)(q \<mapsto> ?t), y_kst := y_kst y\<rparr>" by simp
    have "1 \<le> tt_refcount ?t" using rc by simp
    note s = same_screens [OF assms(1) lq(1) this, of "y_kst y", folded y]
    have "got y ?d new q ?y" unfolding got_def using s(1,2) s(3) [OF assms(2)] s(4) lq t rc False by simp
    moreover have "tty_get dev new p y = Some (Inr q, ?y)"
      using assms(4) q(1) False hold_tty_eq [OF t] by (simp add: tty_get_def Let_def)
    ultimately show ?thesis by (intro exI conjI) (assumption, simp)
  qed
qed

section \<open>Switching\<close>

lemma vidmaps_okD:
  assumes "vidmaps_ok y" and "live y p" and "v \<in> set (y_vidmaps y p)"
  shows "vm_table v \<noteq> 0" and "y_maps y (vm_table v) = Some (y_video y p)"
  using assms unfolding vidmaps_ok_def by blast+

lemma remap_all_eq:
  assumes "\<forall>v \<in> set vs. vm_table v \<noteq> 0"
  shows "remap_all src user vs y =
    Some (y\<lparr>y_maps := (\<lambda>t. if t \<in> vm_table ` set vs then Some src else y_maps y t)\<rparr>)"
  using assms
proof (induction vs arbitrary: y)
  case (Cons v vs)
  then show ?case by (auto simp: remap_to_user_def intro!: ttyst.equality)
qed simp

text \<open>The state between the two halves: the foreground's contents are saved, nothing is shown yet.\<close>

lemma save_foreground_eq:
  assumes "vidmaps_ok y" and "ttys_ok y" and "live y (y_foreground y)" and "sp_save sp = Some (pg, b)"
  defines "f \<equiv> y_foreground y"
  shows "\<exists>t img. y_ttys y f = Some t \<and> y_pages y vga_mem = Some img \<and> save_foreground sp y =
    tty_put f (y\<lparr>y_pages := (y_pages y)(pg \<mapsto> img), y_video := (y_video y)(f := pg),
      y_maps := (\<lambda>a. if a \<in> vm_table ` set (y_vidmaps y f) then Some pg else y_maps y a)\<rparr>)"
proof -
  note ok = ttys_okD [OF assms(2)]
  obtain img where img: "y_pages y vga_mem = Some img" using ok(5) by blast
  obtain t where t: "y_ttys y f = Some t" using assms(3) by (auto simp: live_def f_def)
  have "\<forall>v \<in> set (y_vidmaps y f). vm_table v \<noteq> 0" using assms(1,3) by (simp add: vidmaps_ok_def f_def)
  note r = remap_all_eq [OF this]
  have "save_foreground sp y = do {
      y1 \<leftarrow> remap_all pg (sp_user sp) (y_vidmaps y f) (y\<lparr>y_pages := (y_pages y)(pg \<mapsto> img), y_video := (y_video y)(f := pg)\<rparr>);
      tty_put f y1 }"
    using assms(3,4) ok(2) img by (simp add: save_foreground_def Let_def f_def live_def)
  then show ?thesis using img t r by (intro exI conjI) (assumption, assumption, simp add: r cong: if_cong)
qed

text \<open>In between no terminal is on the adapter.\<close>

definition own_pages :: "ttyst \<Rightarrow> bool" where
  "own_pages y \<longleftrightarrow> (\<forall>p \<in> set (y_list y). live y p \<and> p \<noteq> 0) \<and> y_pages y vga_mem \<noteq> None \<and>
     (\<forall>p. live y p \<longrightarrow> contents y p \<noteq> None \<and> tt_refcount (the (y_ttys y p)) \<ge> 1 \<and> y_video y p \<noteq> vga_mem) \<and>
     (\<forall>p q. live y p \<longrightarrow> live y q \<longrightarrow> y_video y p = y_video y q \<longrightarrow> p = q)"

lemma own_pagesD:
  assumes "own_pages y"
  shows "p \<in> set (y_list y) \<Longrightarrow> live y p \<and> p \<noteq> 0" and "y_pages y vga_mem \<noteq> None"
    and "live y p \<Longrightarrow> contents y p \<noteq> None" and "live y p \<Longrightarrow> tt_refcount (the (y_ttys y p)) \<ge> 1"
    and "live y p \<Longrightarrow> y_video y p \<noteq> vga_mem"
    and "live y p \<Longrightarrow> live y q \<Longrightarrow> y_video y p = y_video y q \<Longrightarrow> p = q"
  using assms unfolding own_pages_def by blast+

lemma own_pagesI:
  assumes "\<And>p. p \<in> set (y_list y) \<Longrightarrow> live y p \<and> p \<noteq> 0" and "y_pages y vga_mem \<noteq> None"
    and "\<And>p. live y p \<Longrightarrow> contents y p \<noteq> None" and "\<And>p. live y p \<Longrightarrow> tt_refcount (the (y_ttys y p)) \<ge> 1"
    and "\<And>p. live y p \<Longrightarrow> y_video y p \<noteq> vga_mem"
    and "\<And>p q. live y p \<Longrightarrow> live y q \<Longrightarrow> y_video y p = y_video y q \<Longrightarrow> p = q"
  shows "own_pages y"
  using assms unfolding own_pages_def by blast

text \<open>What is left after a reference to \<open>f\<close> has gone.\<close>

definition without :: "ttyst \<Rightarrow> ptr \<Rightarrow> ttyst \<Rightarrow> bool" where
  "without y f y1 \<longleftrightarrow> screens_kept y y1 \<and> (\<forall>p. live y1 p \<longrightarrow> live y p) \<and>
     (\<forall>p. p \<noteq> f \<longrightarrow> y_ttys y1 p = y_ttys y p)"

lemma put_own:
  assumes "own_pages y" and "live y f" and "vidmaps_ok y"
  shows "\<exists>y1. tty_put f y = Some y1 \<and> own_pages y1 \<and> vidmaps_ok y1 \<and> without y f y1"
proof -
  note ok = own_pagesD [OF assms(1)]
  obtain t where t: "y_ttys y f = Some t" using assms(2) by (auto simp: live_def)
  show ?thesis
  proof (cases "tt_refcount t = 1")
    case True
    let ?y = "drop_tty f y"
    have l: "live ?y p \<longleftrightarrow> live y p \<and> p \<noteq> f" for p by (simp add: live_def drop_tty_def)
    have c: "contents ?y p = contents y p" if "live ?y p" for p
      using that l [of p] ok(6) [OF _ assms(2)] by (auto simp: contents_def drop_tty_def)
    have "own_pages ?y"
    proof (rule own_pagesI)
      show "contents ?y p \<noteq> None" if "live ?y p" for p using that l [of p] c [OF that] ok(3) by simp
      show "tt_refcount (the (y_ttys ?y p)) \<ge> 1" if "live ?y p" for p
        using that l [of p] ok(4) [of p] by (simp add: drop_tty_def)
      show "y_pages ?y vga_mem \<noteq> None" using ok(2) ok(5) [OF assms(2)] by (simp add: drop_tty_def)
      show "live ?y p \<and> p \<noteq> 0" if "p \<in> set (y_list ?y)" for p using that ok(1) [of p] l [of p] by (simp add: drop_tty_def)
      show "y_video ?y p \<noteq> vga_mem" if "live ?y p" for p using that l [of p] ok(5) [of p] by (simp add: drop_tty_def)
      show "p = q" if "live ?y p" "live ?y q" "y_video ?y p = y_video ?y q" for p q
        using that l [of p] l [of q] ok(6) [of p q] by (simp add: drop_tty_def)
    qed
    moreover have "vidmaps_ok ?y" using assms(3) unfolding vidmaps_ok_def l by (auto simp: drop_tty_def)
    moreover have "without y f ?y"
      using l c by (simp add: without_def screens_kept_def) (simp add: drop_tty_def)
    ultimately show ?thesis using t True by (simp add: tty_put_def)
  next
    case False
    let ?y = "y\<lparr>y_ttys := (y_ttys y)(f \<mapsto> t\<lparr>tt_refcount := tt_refcount t - 1\<rparr>)\<rparr>"
    have l: "live ?y p \<longleftrightarrow> live y p" for p using assms(2) by (auto simp: live_def)
    have c: "contents ?y p = contents y p" for p by (simp add: contents_def)
    have r: "tt_refcount (the (y_ttys ?y p)) \<ge> 1" if "live y p" for p
      using ok(4) [OF that] t False by (cases "p = f") simp_all
    have "own_pages ?y" by (rule own_pagesI) (use ok r in \<open>simp_all add: l c\<close>)
    moreover have "vidmaps_ok ?y" using assms(3) unfolding vidmaps_ok_def l by simp
    moreover have "without y f ?y" using l c by (simp add: without_def screens_kept_def)
    ultimately show ?thesis using t False by (simp add: tty_put_def)
  qed
qed

lemma save_foreground_ok:
  assumes "vidmaps_ok y" and "ttys_ok y" and "sp_save sp = Some (pg, b)" and "y_pages y pg = None"
  shows "\<exists>y1. save_foreground sp y = Some y1 \<and> own_pages y1 \<and> vidmaps_ok y1 \<and> without y (y_foreground y) y1"
proof (cases "y_foreground y = y_early y")
  case True
  then have "own_pages y" using ttys_okD [OF assms(2)] by (intro own_pagesI) (auto simp: live_def)
  with True assms(1) show ?thesis by (simp add: save_foreground_def Let_def without_def screens_kept_def)
next
  case False
  let ?f = "y_foreground y"
  note ok = ttys_okD [OF assms(2)]
  from False ok(3) have lf: "live y ?f" by blast
  from save_foreground_eq [OF assms(1,2) lf assms(3)] obtain t img where
    t: "y_ttys y ?f = Some t" and img: "y_pages y vga_mem = Some img" and
    s: "save_foreground sp y = tty_put ?f (y\<lparr>y_pages := (y_pages y)(pg \<mapsto> img), y_video := (y_video y)(?f := pg),
      y_maps := (\<lambda>a. if a \<in> vm_table ` set (y_vidmaps y ?f) then Some pg else y_maps y a)\<rparr>)" (is "_ = tty_put _ ?y")
    by blast
  have l: "live ?y p \<longleftrightarrow> live y p" for p by (simp add: live_def)
  have v: "live y p \<Longrightarrow> y_video y p \<noteq> pg" for p using ok(6) [of p] assms(4) by (auto simp: contents_def)
  have c: "contents ?y p = contents y p" if "live y p" for p
    using v [OF that] ok(4) img by (auto simp: contents_def)
  have ng: "pg \<noteq> vga_mem" using ok(5) assms(4) by auto
  have "own_pages ?y"
  proof (rule own_pagesI)
    show "contents ?y p \<noteq> None" if "live ?y p" for p using that l [of p] c [of p] ok(6) [of p] by auto
    show "y_video ?y p \<noteq> vga_mem" if "live ?y p" for p using that l [of p] ok(8) [of p] ng by auto
    show "p = q" if "live ?y p" "live ?y q" "y_video ?y p = y_video ?y q" for p q
      using that l [of p] l [of q] ok(9) [of p q] v [of p] v [of q] by (auto split: if_splits)
  qed (use ok l in \<open>auto simp: img\<close>)
  moreover have "vidmaps_ok ?y"
  proof -
    have "t \<notin> vm_table ` set (y_vidmaps y ?f)"
      if "live y p" "p \<noteq> ?f" "v \<in> set (y_vidmaps y p)" "t = vm_table v" for p v t
    proof
      assume "t \<in> vm_table ` set (y_vidmaps y ?f)"
      then have "y_maps y t = Some (y_video y ?f)" using vidmaps_okD(2) [OF assms(1) lf] by auto
      moreover have "y_maps y t = Some (y_video y p)" using vidmaps_okD(2) [OF assms(1) that(1,3)] that(4) by simp
      ultimately show False using ok(9) [OF that(1) lf] that(2) by simp
    qed
    then show ?thesis using assms(1) unfolding vidmaps_ok_def l by auto
  qed
  ultimately obtain y1 where y1: "tty_put ?f ?y = Some y1" "own_pages y1" "vidmaps_ok y1" "without ?y ?f y1"
    using put_own [of ?y ?f] l lf by blast
  have "without y ?f y1" using y1(4) l c unfolding without_def screens_kept_def by simp
  with y1 s show ?thesis by auto
qed

lemma show_tty_ok:
  assumes "own_pages y" and "vidmaps_ok y" and "live y q" and "q \<noteq> 0"
  shows "\<exists>y1. show_tty sp q y = Some y1 \<and> ttys_ok y1 \<and> vidmaps_ok y1 \<and> screens_kept y y1 \<and>
    y_foreground y1 = q \<and> y_ttys y1 = y_ttys y \<and> y_early y1 = y_early y"
proof -
  note ok = own_pagesD [OF assms(1)]
  from ok(3) [OF assms(3)] obtain img where img: "y_pages y (y_video y q) = Some img" by (auto simp: contents_def)
  have "\<forall>v \<in> set (y_vidmaps y q). vm_table v \<noteq> 0" using vidmaps_okD(1) [OF assms(2,3)] by blast
  note r = remap_all_eq [OF this]
  let ?y = "y\<lparr>y_foreground := q, y_pages := (y_pages y)(vga_mem \<mapsto> img, y_video y q := None),
    y_video := (y_video y)(q := vga_mem),
    y_maps := (\<lambda>a. if a \<in> vm_table ` set (y_vidmaps y q) then Some vga_mem else y_maps y a)\<rparr>"
  have l: "live ?y p \<longleftrightarrow> live y p" for p by (simp add: live_def)
  have c: "contents ?y p = contents y p" if "live y p" for p
    using ok(5) [OF that] ok(6) [OF that assms(3)] ok(5) [OF assms(3)] img by (auto simp: contents_def)
  have "ttys_ok ?y"
  proof (rule ttys_okI)
    show "contents ?y p \<noteq> None" if "live ?y p" for p using that l [of p] c [of p] ok(3) [of p] by simp
    show "tt_refcount (the (y_ttys ?y p)) \<ge> 1" if "live ?y p" for p using that l [of p] ok(4) [of p] by simp
    show "y_video ?y p \<noteq> vga_mem" if "live ?y p" "p \<noteq> y_foreground ?y" for p
      using that l [of p] ok(5) [of p] by simp
    show "p = p'" if "live ?y p" "live ?y p'" "y_video ?y p = y_video ?y p'" for p p'
      using that l [of p] l [of p'] ok(5) [of p] ok(5) [of p'] ok(6) [of p p'] by (auto split: if_splits)
    show "live ?y p \<and> p \<noteq> 0" if "p \<in> set (y_list ?y)" for p using that ok(1) [of p] l [of p] by simp
    show "y_pages ?y vga_mem \<noteq> None" using ok(5) [OF assms(3)] by simp
  qed (use assms(3,4) l in simp_all)
  moreover have "vidmaps_ok ?y"
  proof -
    have "vm_table v \<notin> vm_table ` set (y_vidmaps y q)" if "live y p" "p \<noteq> q" "v \<in> set (y_vidmaps y p)" for p v
      using vidmaps_okD(2) [OF assms(2) that(1,3)] vidmaps_okD(2) [OF assms(2,3)] ok(6) [OF that(1) assms(3)] that(2)
      by fastforce
    then show ?thesis using assms(2) unfolding vidmaps_ok_def l by auto
  qed
  moreover have "screens_kept y ?y" using c l by (simp add: screens_kept_def)
  moreover have "show_tty sp q y = Some ?y" using img r by (simp add: show_tty_def cong: if_cong)
  ultimately show ?thesis by (intro exI conjI) (assumption | simp)+
qed

text \<open>When a terminal can be had: it is in the list, or there is memory for its screen and its record.\<close>

definition tty_device :: "u32 \<Rightarrow> u32" where
  "tty_device dev = (if dev = TTY_CONSOLE then MKDEV TTY_MAJOR 0 else dev)"

definition tty_available :: "u32 \<Rightarrow> grants \<Rightarrow> ttyst \<Rightarrow> bool" where
  "tty_available dev sp y \<longleftrightarrow> (\<exists>p \<in> set (y_list y). tt_device (the (y_ttys y p)) = tty_device dev) \<or>
     sp_page sp \<noteq> None \<and> fst (k_kmalloc (y_kst y))"

lemma find_tty_found:
  "find_tty ttys dev ps = Some q \<Longrightarrow> \<forall>p \<in> set ps. ttys p \<noteq> None \<and> p \<noteq> 0 \<Longrightarrow>
    q \<noteq> 0 \<longleftrightarrow> (\<exists>p \<in> set ps. tt_device (the (ttys p)) = dev)"
proof (induction ps)
  case (Cons p ps)
  then obtain t where "ttys p = Some t" by auto
  with Cons show ?case by (auto split: if_splits)
qed simp

lemma tty_get_available:
  assumes "tty_get dev (sp_page sp) (sp_tty sp) y = Some (r, y1)" and "dev \<noteq> TTY_CURRENT" and "ttys_ok y"
  shows "tty_available dev sp y \<longleftrightarrow> (\<exists>q. r = Inr q)"
proof -
  from assms(1,2) obtain q where q: "find_tty (y_ttys y) (tty_device dev) (y_list y) = Some q"
    and r: "(if q \<noteq> 0 then do { y1 \<leftarrow> hold_tty q y; Some (Inr q, y1) }
      else make_tty (tty_device dev) (sp_page sp) (sp_tty sp) y) = Some (r, y1)"
    unfolding tty_get_def Let_def tty_device_def [symmetric] by (auto simp: bind_eq_Some_conv)
  have "\<forall>p \<in> set (y_list y). y_ttys y p \<noteq> None \<and> p \<noteq> 0" using assms(3) by (auto simp: ttys_ok_def live_def)
  note f = find_tty_found [OF q this]
  show ?thesis
  proof (cases "q = 0")
    case False
    with f r show ?thesis by (auto simp: tty_available_def bind_eq_Some_conv)
  next
    case True
    then have m: "make_tty (tty_device dev) (sp_page sp) (sp_tty sp) y = Some (r, y1)" using r by simp
    have "(\<exists>q. r = Inr q) \<longleftrightarrow> sp_page sp \<noteq> None \<and> fst (k_kmalloc (y_kst y))"
      using m by (auto simp: make_tty_def Let_def bind_eq_Some_conv split: option.splits prod.splits if_splits)
    with f True show ?thesis by (auto simp: tty_available_def)
  qed
qed

lemma tty_switch_foreground_ok:
  assumes "ttys_ok y" and "vidmaps_ok y" and "grants_ok sp y" and "sp_save sp \<noteq> None" and "dev \<noteq> TTY_CURRENT"
  shows "\<exists>y1. tty_switch_foreground dev sp y = Some y1 \<and> ttys_ok y1 \<and> vidmaps_ok y1 \<and> screens_kept y y1 \<and>
    (if tty_available dev sp y
     then live y1 (y_foreground y1) \<and> tt_device (the (y_ttys y1 (y_foreground y1))) = tty_device dev
     else \<exists>st. y1 = y\<lparr>y_kst := st\<rparr>)"
proof -
  have fr: "fresh_tty (sp_page sp) (sp_tty sp) y" using assms(3) by (simp add: grants_ok_def)
  obtain pg b where sv: "sp_save sp = Some (pg, b)" using assms(4) by auto
  from tty_get_ok [OF assms(1,2) fr assms(5)] obtain r y1 where
    g: "tty_get dev (sp_page sp) (sp_tty sp) y = Some (r, y1)" and
    res: "case r of Inl e \<Rightarrow> \<exists>st. y1 = y\<lparr>y_kst := st\<rparr>
      | Inr q \<Rightarrow> got y (if dev = TTY_CONSOLE then MKDEV TTY_MAJOR 0 else dev) (sp_page sp) q y1" by blast
  note av = tty_get_available [OF g assms(5,1)]
  show ?thesis
  proof (cases r)
    case (Inl e)
    with res obtain st where y1: "y1 = y\<lparr>y_kst := st\<rparr>" by auto
    have l: "live y1 = live y" "contents y1 = contents y" by (auto simp: y1 live_def contents_def)
    have "ttys_ok y1" using assms(1) unfolding ttys_ok_def l by (simp add: y1)
    moreover have "vidmaps_ok y1" using assms(2) unfolding vidmaps_ok_def l by (simp add: y1)
    moreover have "screens_kept y y1" unfolding screens_kept_def l by (simp add: y1)
    ultimately show ?thesis using g Inl y1 av by (auto simp: tty_switch_foreground_def)
  next
    case (Inr q)
    with av have a: "tty_available dev sp y" by simp
    from Inr res have got: "ttys_ok y1" "vidmaps_ok y1" "screens_kept y y1" "y_foreground y1 = y_foreground y"
        "\<forall>p. live y p \<longrightarrow> live y1 p" "live y1 q" "q \<noteq> 0" "q = y_foreground y \<longrightarrow> tt_refcount (the (y_ttys y1 q)) \<ge> 2"
        "tt_device (the (y_ttys y1 q)) = tty_device dev"
        "\<forall>a. y_pages y1 a \<noteq> None \<longrightarrow> y_pages y a \<noteq> None \<or> a \<in> page_addrs (sp_page sp)"
      unfolding got_def tty_device_def by auto
    show ?thesis
    proof (cases "q = y_foreground y1")
      case True
      obtain t where t: "y_ttys y1 q = Some t" using got(6) by (auto simp: live_def)
      with got(8) True got(4) have rc: "tt_refcount t \<ge> 2" by simp
      let ?t = "t\<lparr>tt_refcount := tt_refcount t - 1\<rparr>"
      let ?y = "y1\<lparr>y_ttys := (y_ttys y1)(q \<mapsto> ?t)\<rparr>"
      have y: "?y = y1\<lparr>y_ttys := (y_ttys y1)(q \<mapsto> ?t), y_kst := y_kst y1\<rparr>" by simp
      have "1 \<le> tt_refcount ?t" using rc by simp
      note s = same_screens [OF got(1,6) this, of "y_kst y1", folded y]
      have "tty_switch_foreground dev sp y = Some ?y" using g Inr True t rc by (simp add: tty_switch_foreground_def tty_put_def)
      moreover have "screens_kept y ?y" using got(3,5) s(2) s(4) by (simp add: screens_kept_def)
      ultimately show ?thesis using s(1) s(3) [OF got(2)] s(4) got(6,9) True t a by simp
    next
      case False
      have "y_pages y1 pg = None" using got(10) assms(3) sv by (force simp: grants_ok_def page_addrs_def)
      from save_foreground_ok [OF got(2,1) sv this] obtain y2 where
        y2: "save_foreground sp y1 = Some y2" "own_pages y2" "vidmaps_ok y2" "without y1 (y_foreground y1) y2" by blast
      from y2(4) have w: "y_early y2 = y_early y1" "screens_kept y1 y2" "\<And>p. live y2 p \<Longrightarrow> live y1 p"
        "\<And>p. p \<noteq> y_foreground y1 \<Longrightarrow> y_ttys y2 p = y_ttys y1 p"
        unfolding without_def screens_kept_def by blast+
      from w(4) [OF False] have q2: "y_ttys y2 q = y_ttys y1 q" "live y2 q" using got(6) w(1) by (simp_all add: live_def)
      from show_tty_ok [OF y2(2,3) q2(2) got(7)] obtain y3 where
        y3: "show_tty sp q y2 = Some y3" "ttys_ok y3" "vidmaps_ok y3" "screens_kept y2 y3" "y_foreground y3 = q"
          "y_ttys y3 = y_ttys y2" "y_early y3 = y_early y2" by blast
      have l3: "live y3 p \<longleftrightarrow> live y2 p" for p using y3(6,7) by (simp add: live_def)
      have "screens_kept y y3" using got(3,5) w(2,3) y3(4) l3 unfolding screens_kept_def by simp
      moreover have "tty_switch_foreground dev sp y = Some y3"
        using g Inr False y2(1) y3(1) by (simp add: tty_switch_foreground_def)
      ultimately show ?thesis using y3(2,3,5,6) q2 l3 got(9) a by simp
    qed
  qed
qed

section \<open>Mapping the screen\<close>

lemma sys_vidmap_maps:
  assumes "ttys_ok y" and "vidmaps_ok y" and "current_tty y = Some q" and "live y q" and "q \<noteq> 0"
    and "k_answers (y_kst y) = []" and "addr \<noteq> 0" and "table \<noteq> 0" and "y_maps y table = None"
  shows "\<exists>y1. sys_vidmap True screen (Some (addr, table)) y = Some (0, addr, y1) \<and> vidmaps_ok y1 \<and>
    y_maps y1 table = Some (y_video y q)"
proof -
  obtain st1 st2 where k: "k_kmalloc (y_kst y) = (True, st1)" "k_kmalloc st1 = (True, st2)"
    using assms(6) by (auto simp: k_kmalloc_def)
  let ?y = "y\<lparr>y_kst := st2, y_maps := (y_maps y)(table \<mapsto> y_video y q),
    y_vidmaps := (y_vidmaps y)(q := y_vidmaps y q @ [\<lparr>vm_task = k_current st2, vm_table = table\<rparr>])\<rparr>"
  have l: "live ?y p \<longleftrightarrow> live y p" for p by (simp add: live_def)
  have t: "vm_table v \<noteq> table" if "live y p" "v \<in> set (y_vidmaps y p)" for p v
    using vidmaps_okD(2) [OF assms(2) that] assms(9) by auto
  have "vidmaps_ok ?y" using assms(2,8) t unfolding vidmaps_ok_def l by auto
  moreover have "sys_vidmap True screen (Some (addr, table)) y = Some (0, addr, ?y)"
    by (simp add: sys_vidmap_def remap_to_user_def assms(3,5,7) k)
  ultimately show ?thesis by (intro exI conjI) (assumption | simp)+
qed

text \<open>
  Out of user memory the call looks at the word it did not write: it succeeds if that was not zero, and the
  next switch then writes through \<open>NULL\<close> as soon as there is memory.
\<close>

lemma vidmap_without_memory:
  assumes "current_tty y = Some q" and "q \<noteq> 0" and "k_answers (y_kst y) = []" and "screen \<noteq> 0"
  shows "\<exists>y1. sys_vidmap True screen None y = Some (0, screen, y1) \<and>
    \<lparr>vm_task = k_current (y_kst y), vm_table = 0\<rparr> \<in> set (y_vidmaps y1 q)"
  using assms by (simp add: sys_vidmap_def remap_to_user_def k_kmalloc_def)

lemma remap_missing_table: "remap_all src (Some m) (\<lparr>vm_task = a, vm_table = 0\<rparr> # vs) y = None"
  by (cases m) (simp add: remap_to_user_def)

lemma save_without_memory:
  assumes "y_foreground y \<noteq> 0" and "y_foreground y \<noteq> y_early y" and "sp_save sp = None"
  shows "save_foreground sp y = None"
  using assms by (simp add: save_foreground_def)

section \<open>Writing to a terminal\<close>

text \<open>Neither writing nor typing changes who holds a terminal.\<close>

definition same_dev :: "tty \<Rightarrow> tty \<Rightarrow> bool" where
  "same_dev t t1 \<longleftrightarrow> tt_refcount t1 = tt_refcount t \<and> tt_device t1 = tt_device t"

lemma same_dev_refl [simp]: "same_dev t t"
  by (simp add: same_dev_def)

lemma same_dev_trans: "same_dev a b \<Longrightarrow> same_dev b c \<Longrightarrow> same_dev a c"
  by (simp add: same_dev_def)

lemma same_dev_left: "same_dev a b \<Longrightarrow> same_dev a c \<longleftrightarrow> same_dev b c"
  by (simp add: same_dev_def)

lemma same_dev_wrap: "same_dev t (wrap_cursor t)"
proof (induction t rule: wrap_cursor.induct)
  case (1 t)
  then show ?case by (subst wrap_cursor.simps) (auto simp: same_dev_def)
qed

lemma same_dev_scroll: "same_dev t (scroll_cursor t)"
proof (induction t rule: scroll_cursor.induct)
  case (1 t)
  then show ?case by (subst scroll_cursor.simps) (auto simp: same_dev_def scroll_once_def)
qed

lemma same_dev_fixscroll: "same_dev t (tty_fixscroll t)"
  unfolding tty_fixscroll_def by (rule same_dev_trans [OF same_dev_wrap same_dev_scroll])

lemma same_dev_cells:
  "put_cell i c a t = Some t1 \<Longrightarrow> same_dev t t1" "clear_cells lo hi t = Some t1 \<Longrightarrow> same_dev t t1"
  by (auto simp: put_cell_def clear_cells_def same_dev_def split: if_splits)

lemma same_dev_glyph:
  assumes "put_glyph c t = Some t1"
  shows "same_dev t t1"
proof -
  let ?f = "tty_fixscroll t"
  from assms obtain t2 where "put_cell (cursor_cell ?f) c (tt_color ?f) ?f = Some t2" "t1 = t2\<lparr>tt_x := tt_x t2 + 1\<rparr>"
    by (auto simp: put_glyph_def Let_def bind_eq_Some_conv)
  with same_dev_cells(1) same_dev_fixscroll [of t] show ?thesis by (simp add: same_dev_def)
qed

lemma same_dev_erase:
  assumes "erase_char t = Some t1"
  shows "same_dev t t1"
proof -
  let ?f = "step_left (tty_fixscroll t)"
  have "same_dev t ?f" using same_dev_fixscroll [of t] by (simp add: step_left_def same_dev_def)
  then show ?thesis using assms same_dev_cells(1) [of _ _ _ ?f] same_dev_trans
    by (auto simp: erase_char_def Let_def split: if_splits)
qed

lemma same_dev_line: "same_dev t (new_line t)"
  using same_dev_fixscroll unfolding new_line_def Let_def by (simp add: same_dev_def)

lemma same_dev_add: "same_dev t (add_ansi c t)" "same_dev t (end_ansi t)"
  by (simp_all add: add_ansi_def end_ansi_def same_dev_def)

lemma same_dev_plain: "write_plain c t = Some t1 \<Longrightarrow> same_dev t t1"
  using same_dev_glyph [of _ t t1] same_dev_erase [of t t1] same_dev_line [of t] same_dev_add(1) [of t]
  by (auto simp: write_plain_def split: if_splits) (simp_all add: same_dev_def)

lemma same_dev_move:
  assumes "move_by f t = Some t1" and "\<And>a t. same_dev t (f a t)"
  shows "same_dev t t1"
  using assms by (auto simp: move_by_def bind_eq_Some_conv)

lemma same_dev_display: "erase_display t = Some t1 \<Longrightarrow> same_dev t t1"
  using same_dev_cells(2) [of _ _ t t1] same_dev_cells(2) [of _ _ "t\<lparr>tt_x := 0, tt_y := 0\<rparr>" t1]
  by (auto simp: erase_display_def bind_eq_Some_conv same_dev_def split: if_splits)

lemma same_dev_place: "do { (a, b) \<leftarrow> m; Some (t\<lparr>tt_y := f a, tt_x := g b\<rparr>) } = Some t1 \<Longrightarrow> same_dev t t1"
  by (auto simp: bind_eq_Some_conv same_dev_def)

lemma same_dev_color: "do { (a, b) \<leftarrow> m; Some (t\<lparr>tt_color := f a b\<rparr>) } = Some t1 \<Longrightarrow> same_dev t t1"
  by (auto simp: bind_eq_Some_conv same_dev_def)

lemma same_dev_axis:
  "move_by (\<lambda>a t. t\<lparr>tt_x := f a t\<rparr>) t = Some t1 \<Longrightarrow> same_dev t t1"
  "move_by (\<lambda>a t. t\<lparr>tt_y := f a t\<rparr>) t = Some t1 \<Longrightarrow> same_dev t t1"
  by (erule same_dev_move, simp add: same_dev_def)+

lemma same_dev_ansi:
  assumes "run_ansi c t = Some t1"
  shows "same_dev t t1"
  using assms unfolding run_ansi_def
  by (auto split: if_splits
      dest: same_dev_place same_dev_color same_dev_axis same_dev_display)

lemma same_dev_char: "write_char c t = Some t1 \<Longrightarrow> same_dev t t1"
  by (auto simp: write_char_def bind_eq_Some_conv dest!: same_dev_plain same_dev_ansi split: if_splits)
    (simp_all add: same_dev_def add_ansi_def end_ansi_def)

lemma same_dev_chars: "write_chars cs t = Some t1 \<Longrightarrow> same_dev t t1"
proof (induction cs arbitrary: t)
  case (Cons c cs)
  then show ?case using same_dev_char same_dev_trans by (auto simp: bind_eq_Some_conv) blast
qed simp

lemma same_dev_write: "raw_tty_write cs t = Some (n, t1) \<Longrightarrow> same_dev t t1"
  using same_dev_chars by (auto simp: raw_tty_write_def bind_eq_Some_conv)

lemma same_dev_puts: "tty_foreground_puts cs t = Some t1 \<Longrightarrow> same_dev t t1"
  using same_dev_write by (auto simp: tty_foreground_puts_def bind_eq_Some_conv)

lemma on_tty_ok:
  assumes "ttys_ok y" and "vidmaps_ok y" and "live y p" and r: "on_tty p f y = Some (r, y1)"
    and f: "\<And>t st r t1 st1. f (t, st) = Some (r, t1, st1) \<Longrightarrow> same_dev t t1"
  shows "ttys_ok y1 \<and> vidmaps_ok y1 \<and> y_foreground y1 = y_foreground y \<and> y_early y1 = y_early y \<and>
    (\<forall>q. live y1 q \<longleftrightarrow> live y q) \<and> (\<forall>q. live y q \<longrightarrow> q \<noteq> p \<longrightarrow> contents y1 q = contents y q)"
proof -
  note ok = ttys_okD [OF assms(1)]
  from r obtain t bytes t1 st1 where t: "y_ttys y p = Some t" and b: "y_pages y (y_video y p) = Some bytes"
    and r1: "f (t\<lparr>tt_video := bytes\<rparr>, y_kst y) = Some (r, t1, st1)"
    and y1: "y1 = y\<lparr>y_ttys := (y_ttys y)(p \<mapsto> t1\<lparr>tt_video := tt_video t\<rparr>),
       y_pages := (y_pages y)(y_video y p \<mapsto> tt_video t1), y_kst := st1\<rparr>"
    by (auto simp: on_tty_def bind_eq_Some_conv)
  have rc: "tt_refcount t1 = tt_refcount t" using f [OF r1] by (simp add: same_dev_def)
  have l: "live y1 q \<longleftrightarrow> live y q" for q using t by (simp add: y1 live_def)
  have c: "contents y1 q = contents y q" if "live y q" "q \<noteq> p" for q
    using ok(9) [OF that(1) assms(3)] that(2) by (auto simp: contents_def y1)
  have "ttys_ok y1"
  proof (rule ttys_okI)
    show "contents y1 q \<noteq> None" if "live y1 q" for q
      using that l [of q] c [of q] ok(6) [of q] by (cases "q = p") (auto simp: contents_def y1)
    show "tt_refcount (the (y_ttys y1 q)) \<ge> 1" if "live y1 q" for q
      using that l [of q] ok(7) [of q] t rc by (cases "q = p") (simp_all add: y1)
    show "live y1 q \<and> q \<noteq> 0" if "q \<in> set (y_list y1)" for q using that ok(1) [of q] l [of q] by (simp add: y1)
    show "y_video y1 q \<noteq> vga_mem" if "live y1 q" "q \<noteq> y_foreground y1" for q
      using that l [of q] ok(8) [of q] by (simp add: y1)
    show "a = b" if "live y1 a" "live y1 b" "y_video y1 a = y_video y1 b" for a b
      using that l [of a] l [of b] ok(9) [of a b] by (simp add: y1)
    show "y_pages y1 vga_mem \<noteq> None" using ok(5) by (auto simp: y1)
    show "y_foreground y1 = y_early y1 \<or> live y1 (y_foreground y1)" using ok(3) l by (simp add: y1)
  qed (use ok(2,4) in \<open>simp_all add: y1\<close>)
  moreover have "vidmaps_ok y1" using assms(2) unfolding vidmaps_ok_def l by (simp add: y1)
  ultimately show ?thesis using l c by (simp add: y1)
qed

lemma tty_write_ok:
  assumes "ttys_ok y" and "vidmaps_ok y" and "live y p" and "tty_write p buf y = Some (n, y1)"
  shows "ttys_ok y1 \<and> vidmaps_ok y1 \<and> y_foreground y1 = y_foreground y \<and> y_early y1 = y_early y \<and>
    (\<forall>q. live y1 q \<longleftrightarrow> live y q) \<and> (\<forall>q. live y q \<longrightarrow> q \<noteq> p \<longrightarrow> contents y1 q = contents y q)"
  using assms(1-3) assms(4) [unfolded tty_write_def]
  by (rule on_tty_ok) (auto simp: bind_eq_Some_conv intro: same_dev_write)

text \<open>A reference that is not the foreground's is given back.\<close>

lemma tty_put_ok:
  assumes "ttys_ok y" and "vidmaps_ok y" and "live y p" and "p \<noteq> y_foreground y \<or> tt_refcount (the (y_ttys y p)) \<ge> 2"
  shows "\<exists>y1. tty_put p y = Some y1 \<and> ttys_ok y1 \<and> vidmaps_ok y1 \<and> screens_kept y y1"
proof -
  note ok = ttys_okD [OF assms(1)]
  obtain t where t: "y_ttys y p = Some t" using assms(3) by (auto simp: live_def)
  show ?thesis
  proof (cases "tt_refcount t = 1")
    case False
    let ?t = "t\<lparr>tt_refcount := tt_refcount t - 1\<rparr>"
    let ?y = "y\<lparr>y_ttys := (y_ttys y)(p \<mapsto> ?t)\<rparr>"
    have y: "?y = y\<lparr>y_ttys := (y_ttys y)(p \<mapsto> ?t), y_kst := y_kst y\<rparr>" by simp
    have "1 \<le> tt_refcount ?t" using ok(7) [OF assms(3)] t False by simp
    note s = same_screens [OF assms(1,3) this, of "y_kst y", folded y]
    show ?thesis using t False s(1,2) s(3) [OF assms(2)] by (simp add: tty_put_def)
  next
    case True
    let ?y = "drop_tty p y"
    have np: "p \<noteq> y_foreground y" using assms(4) True t by auto
    have l: "live ?y q \<longleftrightarrow> live y q \<and> q \<noteq> p" for q by (simp add: live_def drop_tty_def)
    have c: "contents ?y q = contents y q" if "live ?y q" for q
      using that l [of q] ok(9) [OF _ assms(3)] by (auto simp: contents_def drop_tty_def)
    have "ttys_ok ?y"
    proof (rule ttys_okI)
      show "contents ?y q \<noteq> None" if "live ?y q" for q using that l [of q] c [OF that] ok(6) [of q] by simp
      show "tt_refcount (the (y_ttys ?y q)) \<ge> 1" if "live ?y q" for q
        using that l [of q] ok(7) [of q] by (simp add: drop_tty_def)
      show "live ?y q \<and> q \<noteq> 0" if "q \<in> set (y_list ?y)" for q using that ok(1) [of q] l [of q] by (simp add: drop_tty_def)
      show "y_video ?y q \<noteq> vga_mem" if "live ?y q" "q \<noteq> y_foreground ?y" for q
        using that l [of q] ok(8) [of q] by (simp add: drop_tty_def)
      show "a = b" if "live ?y a" "live ?y b" "y_video ?y a = y_video ?y b" for a b
        using that l [of a] l [of b] ok(9) [of a b] by (simp add: drop_tty_def)
      show "y_pages ?y vga_mem \<noteq> None" using ok(5) ok(8) [OF assms(3) np] by (simp add: drop_tty_def)
      show "y_foreground ?y = y_early ?y \<or> live ?y (y_foreground ?y)"
        using ok(3) l [of "y_foreground y"] np by (simp add: drop_tty_def)
    qed (use ok(2,4) in \<open>simp_all add: drop_tty_def\<close>)
    moreover have "vidmaps_ok ?y" using assms(2) unfolding vidmaps_ok_def l by (auto simp: drop_tty_def)
    moreover have "screens_kept y ?y" using l c by (simp add: screens_kept_def) (simp add: drop_tty_def)
    ultimately show ?thesis using t True by (simp add: tty_put_def)
  qed
qed

section \<open>The screens of a run\<close>

text \<open>C34: Switching the foreground never faults when there is memory for the saved screen.  If the terminal asked
  for exists, or there is memory to make it, it is in the foreground afterwards, and the adapter shows its screen;
  if not, nothing changes.  In either case every terminal that still exists has exactly the screen contents it had,
  no two terminals share a page, and every program that has a terminal mapped sees that terminal's screen.\<close>

theorem switch_keeps_screens:
  assumes "ttys_ok y" and "vidmaps_ok y" and "grants_ok sp y" and "sp_save sp \<noteq> None" and "dev \<noteq> TTY_CURRENT"
  shows "\<exists>y1. tty_switch_foreground dev sp y = Some y1 \<and> ttys_ok y1 \<and> vidmaps_ok y1 \<and> screens_kept y y1 \<and>
    (if tty_available dev sp y
     then live y1 (y_foreground y1) \<and> tt_device (the (y_ttys y1 (y_foreground y1))) = tty_device dev \<and>
       y_pages y1 vga_mem = contents y1 (y_foreground y1)
     else \<exists>st. y1 = y\<lparr>y_kst := st\<rparr>)"
proof -
  have "y_pages y1 vga_mem = contents y1 (y_foreground y1)" if "ttys_ok y1" for y1
    using that by (simp add: ttys_ok_def contents_def)
  then show ?thesis using tty_switch_foreground_ok [OF assms] by fastforce
qed

text \<open>Two terminals: the one at \<open>64\<close> is in the foreground and mapped by a program, the other has a page.\<close>

definition sample_ttys :: ttyst where
  "sample_ttys = \<lparr>y_ttys = [64 \<mapsto> new_tty (MKDEV TTY_MAJOR 1), 128 \<mapsto> new_tty (MKDEV TTY_MAJOR 2)],
     y_video = (\<lambda>_. 0)(32 := vga_mem, 64 := vga_mem, 128 := 0x5000),
     y_vidmaps = (\<lambda>_. [])(64 := [\<lparr>vm_task = 16, vm_table = 0x700\<rparr>]),
     y_list = [64, 128], y_foreground = 64, y_early = 32,
     y_pages = [vga_mem \<mapsto> (\<lambda>_. 7), 0x5000 \<mapsto> (\<lambda>_. 9)], y_maps = [0x700 \<mapsto> vga_mem], y_kst = sample_kst\<rparr>"

definition sample_grants :: grants where
  "sample_grants = \<lparr>sp_page = Some (0x6000, \<lambda>_. 0), sp_tty = 192, sp_save = Some (0x8000, \<lambda>_. 0), sp_user = None\<rparr>"

lemma sample_live: "live sample_ttys p \<longleftrightarrow> p = 64 \<or> p = 128"
  by (simp add: live_def sample_ttys_def)

lemma sample_ttys_ok: "ttys_ok sample_ttys"
  unfolding ttys_ok_def sample_live contents_def by (auto simp: sample_ttys_def vga_mem_def new_tty_def)

lemma sample_vidmaps_ok: "vidmaps_ok sample_ttys"
  unfolding vidmaps_ok_def sample_live by (auto simp: sample_ttys_def)

lemma sample_grants_ok: "grants_ok sample_grants sample_ttys"
  by (simp add: grants_ok_def fresh_tty_def page_addrs_def sample_grants_def sample_ttys_def vga_mem_def)

lemma switch_keeps_screens_witness:
  "\<exists>y1. tty_switch_foreground (MKDEV TTY_MAJOR 2) sample_grants sample_ttys = Some y1 \<and>
     tt_device (the (y_ttys y1 (y_foreground y1))) = MKDEV TTY_MAJOR 2 \<and>
     (live y1 64 \<longrightarrow> contents y1 64 = Some (\<lambda>_. 7)) \<and> (live y1 128 \<longrightarrow> contents y1 128 = Some (\<lambda>_. 9))"
proof -
  have "sp_save sample_grants \<noteq> None" by (simp add: sample_grants_def)
  moreover have "MKDEV TTY_MAJOR 2 \<noteq> TTY_CURRENT" by (simp add: MKDEV_def TTY_MAJOR_def TTY_CURRENT_def)
  ultimately obtain y1 where y1: "tty_switch_foreground (MKDEV TTY_MAJOR 2) sample_grants sample_ttys = Some y1"
    "screens_kept sample_ttys y1" "if tty_available (MKDEV TTY_MAJOR 2) sample_grants sample_ttys
     then live y1 (y_foreground y1) \<and> tt_device (the (y_ttys y1 (y_foreground y1))) = tty_device (MKDEV TTY_MAJOR 2) \<and>
       y_pages y1 vga_mem = contents y1 (y_foreground y1)
     else \<exists>st. y1 = sample_ttys\<lparr>y_kst := st\<rparr>"
    using switch_keeps_screens [OF sample_ttys_ok sample_vidmaps_ok sample_grants_ok] by blast
  have dev: "tty_device (MKDEV TTY_MAJOR 2) = MKDEV TTY_MAJOR 2"
    by (simp add: tty_device_def MKDEV_def TTY_MAJOR_def TTY_CONSOLE_def)
  have "tty_available (MKDEV TTY_MAJOR 2) sample_grants sample_ttys"
    unfolding tty_available_def dev by (simp add: sample_ttys_def new_tty_def)
  moreover have "contents sample_ttys 64 = Some (\<lambda>_. 7)" "contents sample_ttys 128 = Some (\<lambda>_. 9)"
    by (simp_all add: contents_def sample_ttys_def vga_mem_def)
  ultimately show ?thesis using y1 dev sample_live unfolding screens_kept_def by simp
qed

end
