(* ===== verification/Keyboard.thy ===== *)
theory Keyboard
  imports TtyDev
begin

text \<open>
  The keyboard of \<open>drivers/keyboard.c\<close>: from the codes of the controller to the terminal in the foreground.
\<close>

section \<open>The map of the codes\<close>

text \<open>
  The initialiser of \<open>scancode_map\<close> in the order of the source: where an index is given twice the later
  value is the one that stays.  The codes from \<open>0x80\<close> on hold what a key gives with Shift.
\<close>

definition scancode_init :: "(nat \<times> nat) list" where
  "scancode_init = [
    (30, 97), (158, 65), (48, 98), (176, 66), (46, 99), (174, 67), (32, 100),
    (160, 68), (18, 101), (146, 69), (33, 102), (161, 70), (34, 103), (162, 71),
    (35, 104), (163, 72), (23, 105), (151, 73), (36, 106), (164, 74), (37, 107),
    (165, 75), (38, 108), (166, 76), (50, 109), (178, 77), (49, 110), (177, 78),
    (24, 111), (152, 79), (25, 112), (153, 80), (16, 113), (144, 81), (19, 114),
    (147, 82), (31, 115), (159, 83), (20, 116), (148, 84), (22, 117), (150, 85),
    (47, 118), (175, 86), (17, 119), (145, 87), (45, 120), (173, 88), (21, 121),
    (149, 89), (44, 122), (172, 90), (11, 48), (139, 41), (2, 49), (130, 33),
    (3, 50), (131, 64), (4, 51), (132, 35), (5, 52), (133, 36), (6, 53),
    (134, 37), (7, 54), (135, 94), (8, 55), (136, 38), (9, 56), (137, 42),
    (10, 57), (138, 40), (41, 96), (169, 126), (12, 45), (140, 95), (13, 61),
    (141, 43), (43, 92), (171, 124), (57, 32), (185, 32), (15, 9), (143, 9),
    (28, 10), (156, 10), (26, 91), (154, 123), (27, 93), (155, 125), (39, 59),
    (167, 58), (40, 39), (168, 34), (51, 44), (179, 60), (52, 46), (180, 62),
    (53, 47), (181, 63), (14, 8), (142, 8), (91, 255), (219, 255), (92, 255),
    (220, 255), (93, 255), (221, 255), (1, 27), (129, 27), (59, 129), (187, 129),
    (60, 130), (188, 130), (61, 131), (189, 131), (62, 132), (190, 132), (63, 133),
    (191, 133), (64, 134), (192, 134), (65, 135), (193, 135), (66, 136), (194, 136),
    (67, 137), (195, 137), (68, 138), (196, 138), (87, 139), (215, 139), (88, 140),
    (216, 140), (82, 146), (210, 146), (71, 176), (151, 176), (73, 149), (201, 149),
    (83, 147), (211, 147), (79, 177), (207, 177), (81, 150), (209, 150), (72, 170),
    (200, 170), (75, 173), (203, 173), (80, 171), (208, 171), (77, 172), (205, 172)]"

definition init_value :: "nat \<Rightarrow> (nat \<times> nat) list \<Rightarrow> nat" where
  "init_value c es = foldl (\<lambda>r (i, v). if i = c then v else r) 0 es"

definition scancode_map :: "u8 \<Rightarrow> u8" where
  "scancode_map c = word_of_nat (init_value (unat c) scancode_init)"

definition is_lower :: "u8 \<Rightarrow> bool" where
  "is_lower c \<longleftrightarrow> 0x61 \<le> c \<and> c \<le> 0x7A"

definition scancode_fixup_caps :: "u8 \<Rightarrow> bool \<Rightarrow> bool \<Rightarrow> u8" where
  "scancode_fixup_caps c shift caps =
     (let m1 = (if shift \<and> \<not> is_lower (scancode_map c) then scancode_map (c OR 0x80) else scancode_map c) in
      if shift \<noteq> caps \<and> is_lower m1 then scancode_map (c OR 0x80) else m1)"

section \<open>The handler\<close>

record keyboard =
  has_shift :: bool
  has_ctrl :: bool
  has_alt :: bool
  has_caps :: bool

text \<open>A character for the terminal in the foreground; the early console takes none.\<close>

definition foreground_key :: "u8 \<Rightarrow> bool \<Rightarrow> bool \<Rightarrow> ttyst \<Rightarrow> ttyst option" where
  "foreground_key c ctrl alt y =
     (let f = y_foreground y in
      if f = y_early y then Some y
      else do {
        (_, y1) \<leftarrow> on_tty f (\<lambda>(t, st). do {
          (t1, st1) \<leftarrow> tty_foreground_keyboard f c ctrl alt (t, st); Some ((), t1, st1) }) y;
        Some y1 })"

fun foreground_keys :: "u8 list \<Rightarrow> ttyst \<Rightarrow> ttyst option" where
  "foreground_keys [] y = Some y"
| "foreground_keys (c # cs) y = do { y1 \<leftarrow> foreground_key c False False y; foreground_keys cs y1 }"

definition DO_F1 :: u8 where "DO_F1 = 0x81"
definition DO_F12 :: u8 where "DO_F12 = 0x8C"
definition DO_HOME :: u8 where "DO_HOME = 0xB0"
definition DO_END :: u8 where "DO_END = 0xB1"

text \<open>Keys with a function of their own; the result says whether \<open>m\<close> was one.\<close>

definition do_function :: "u8 \<Rightarrow> keyboard \<Rightarrow> grants \<Rightarrow> ttyst \<Rightarrow> (bool \<times> ttyst) option" where
  "do_function m k sp y =
     (if \<not> has_ctrl k \<and> has_alt k \<and> DO_F1 \<le> m \<and> m \<le> DO_F12 then do {
        y1 \<leftarrow> tty_switch_foreground (MKDEV TTY_MAJOR (ucast m - ucast DO_F1 + 1)) sp y;
        Some (True, y1) }
      else if \<not> has_ctrl k \<and> has_alt k \<and> m = 0x63 then do {
        y1 \<leftarrow> tty_switch_foreground TTY_CONSOLE sp y;
        Some (True, y1) }
      else if \<not> has_ctrl k \<and> \<not> has_alt k then
        (if 0x90 \<le> m \<and> m \<le> 0x99 then do {
           y1 \<leftarrow> foreground_keys [27, 0x5B, 0x30 + m - 0x90, 0x7E] y; Some (True, y1) }
         else if 0xAA \<le> m \<and> m \<le> 0xAD then do {
           y1 \<leftarrow> foreground_keys [27, 0x5B, 0x41 + m - 0xAA] y; Some (True, y1) }
         else if m = DO_HOME then do { y1 \<leftarrow> foreground_keys [27, 0x5B, 0x48] y; Some (True, y1) }
         else if m = DO_END then do { y1 \<leftarrow> foreground_keys [27, 0x5B, 0x46] y; Some (True, y1) }
         else Some (False, y))
      else Some (False, y))"

definition CAPS :: u8 where "CAPS = 0x3A"
definition LSHIFT :: u8 where "LSHIFT = 0x2A"
definition RSHIFT :: u8 where "RSHIFT = 0x36"
definition CTRL :: u8 where "CTRL = 0x1D"
definition ALT :: u8 where "ALT = 0x38"
definition MSB :: u8 where "MSB = 0x80"

definition press_key :: "u8 \<Rightarrow> grants \<Rightarrow> keyboard \<times> ttyst \<Rightarrow> (keyboard \<times> ttyst) option" where
  "press_key code sp = (\<lambda>(k, y).
     let m = scancode_map code in
     if m = 0 then Some (k, y)
     else do {
       (special, y1) \<leftarrow> do_function m k sp y;
       if \<not> special \<and> m < MSB
       then do {
         y2 \<leftarrow> foreground_key (scancode_fixup_caps code (has_shift k) (has_caps k)) (has_ctrl k) (has_alt k) y1;
         Some (k, y2) }
       else Some (k, y1) })"

definition handle_code :: "u8 \<Rightarrow> grants \<Rightarrow> keyboard \<times> ttyst \<Rightarrow> (keyboard \<times> ttyst) option" where
  "handle_code code sp = (\<lambda>(k, y).
     if code = 0 \<or> code = 0xE0 \<or> code = 0xE1 then Some (k, y)
     else if code = LSHIFT \<or> code = RSHIFT then Some (k\<lparr>has_shift := True\<rparr>, y)
     else if code = LSHIFT OR MSB \<or> code = RSHIFT OR MSB then Some (k\<lparr>has_shift := False\<rparr>, y)
     else if code = CTRL then Some (k\<lparr>has_ctrl := True\<rparr>, y)
     else if code = CTRL OR MSB then Some (k\<lparr>has_ctrl := False\<rparr>, y)
     else if code = ALT then Some (k\<lparr>has_alt := True\<rparr>, y)
     else if code = ALT OR MSB then Some (k\<lparr>has_alt := False\<rparr>, y)
     else if code = CAPS then Some (k\<lparr>has_caps := \<not> has_caps k\<rparr>, y)
     else if MSB \<le> code then Some (k, y)
     else press_key code sp (k, y))"

text \<open>One interrupt: the codes that the controller has, with the memory each finds.\<close>

fun keyboard_handler :: "(u8 \<times> grants) list \<Rightarrow> keyboard \<times> ttyst \<Rightarrow> (keyboard \<times> ttyst) option" where
  "keyboard_handler [] s = Some s"
| "keyboard_handler ((code, sp) # codes) s = do { s1 \<leftarrow> handle_code code sp s; keyboard_handler codes s1 }"

section \<open>Letters and Shift\<close>

text \<open>Every letter but \<open>i\<close>: the code of its capital is given again for the Home key, whose own is \<open>0xC7\<close>.\<close>

lemma capital_i: "scancode_map 0x17 = 0x69 \<and> scancode_map 0x97 = DO_HOME \<and> scancode_map 0xC7 = 0"
  by (simp add: scancode_map_def init_value_def scancode_init_def DO_HOME_def)

lemma letter_entries:
  "filter (\<lambda>(c, v). 97 \<le> v \<and> v \<le> 122 \<and> c < 128 \<and> c \<noteq> 23) scancode_init = [
    (30, 97), (48, 98), (46, 99), (32, 100), (18, 101), (33, 102), (34, 103), (35, 104), (36, 106),
    (37, 107), (38, 108), (50, 109), (49, 110), (24, 111), (25, 112), (16, 113), (19, 114), (31, 115),
    (20, 116), (22, 117), (47, 118), (17, 119), (45, 120), (21, 121), (44, 122)]"
  by (simp add: scancode_init_def)

lemma letters_shifted:
  "list_all (\<lambda>(c, v). init_value (c + 128) scancode_init = v - 32)
     (filter (\<lambda>(c, v). 97 \<le> v \<and> v \<le> 122 \<and> c < 128 \<and> c \<noteq> 23) scancode_init)"
  unfolding letter_entries by (simp add: init_value_def scancode_init_def)

lemma shifted_not_lower:
  "list_all (\<lambda>(c, v). v < 256 \<and> (128 \<le> c \<longrightarrow> \<not> (97 \<le> v \<and> v \<le> 122))) scancode_init"
  by (simp add: scancode_init_def)

lemma init_value_entry:
  assumes "init_value c es \<noteq> 0"
  shows "(c, init_value c es) \<in> set es"
proof -
  have "foldl (\<lambda>r (i, v). if i = c then v else r) r es = r \<or>
      (c, foldl (\<lambda>r (i, v). if i = c then v else r) r es) \<in> set es" for r
  proof (induction es arbitrary: r)
    case (Cons e es)
    obtain i v where e: "e = (i, v)" by force
    from Cons.IH [of v] Cons.IH [of r] show ?case by (auto simp: e)
  qed simp
  with assms show ?thesis unfolding init_value_def by (metis (lifting))
qed

lemma unat_scancode_map: "unat (scancode_map c) = init_value (unat c) scancode_init"
proof (cases "init_value (unat c) scancode_init = 0")
  case False
  from init_value_entry [OF this] shifted_not_lower have "init_value (unat c) scancode_init < 256"
    by (auto simp: list_all_iff)
  then show ?thesis by (simp add: scancode_map_def unat_of_nat)
qed (simp add: scancode_map_def)

lemma is_lower_unat: "is_lower c \<longleftrightarrow> 97 \<le> unat c \<and> unat c \<le> 122"
  by (simp add: is_lower_def word_le_nat_alt)

lemma or_msb:
  assumes "c < (0x80 :: u8)"
  shows "unat (c OR 0x80) = unat c + 128"
proof -
  have "unat c < 128" using assms by (simp add: word_less_nat_alt)
  then have "take_bit 7 (unat c) = unat c" by (simp add: take_bit_nat_eq_self)
  then have "unat c + push_bit 7 1 = unat c OR push_bit 7 1"
    by (metis disjunctive_add bit_push_bit_iff bit_take_bit_iff leD)
  then show ?thesis by (simp add: unsigned_or_eq push_bit_eq_mult)
qed

lemma is_lower_entry:
  assumes "is_lower (scancode_map c)"
  shows "c < 0x80" and "c \<noteq> 0x17 \<Longrightarrow> scancode_map (c OR 0x80) = scancode_map c - 32"
proof -
  let ?v = "init_value (unat c) scancode_init"
  have v: "97 \<le> ?v" "?v \<le> 122" using assms by (simp_all add: is_lower_unat unat_scancode_map)
  then have e: "(unat c, ?v) \<in> set scancode_init" by (intro init_value_entry) simp
  with shifted_not_lower v have c: "unat c < 128" by (fastforce simp: list_all_iff)
  then show c8: "c < 0x80" by (simp add: word_less_nat_alt)
  show "scancode_map (c OR 0x80) = scancode_map c - 32" if "c \<noteq> 0x17"
  proof -
    have "unat c \<noteq> 23" using that by (auto simp: word_unat_eq_iff)
    then have "init_value (unat c + 128) scancode_init = ?v - 32"
      using letters_shifted e v c by (auto simp: list_all_iff)
    then have "unat (scancode_map (c OR 0x80)) = unat (scancode_map c - 32)"
      using v by (simp add: unat_scancode_map or_msb [OF c8] unat_sub word_le_nat_alt)
    then show ?thesis by (simp only: word_unat_eq_iff)
  qed
qed

text \<open>C36: What a key gives: a letter its capital exactly if one of Shift and Caps Lock is on, any other key its
  second character exactly if Shift is; for every code of the map but that of \<open>i\<close>, whose capital is lost to
  the Home key.\<close>

theorem fixup_caps_spec:
  assumes "c < 0x80" and "c \<noteq> 0x17"
  shows "scancode_fixup_caps c shift caps =
    (if is_lower (scancode_map c) then (if shift \<noteq> caps then scancode_map c - 32 else scancode_map c)
     else if shift then scancode_map (c OR 0x80) else scancode_map c)"
proof -
  have "\<not> c OR 0x80 < 0x80" using or_msb [OF assms(1)] by (simp add: word_less_nat_alt)
  then have "\<not> is_lower (scancode_map (c OR 0x80))" using is_lower_entry(1) by blast
  then show ?thesis using is_lower_entry(2) [OF _ assms(2)] by (simp add: scancode_fixup_caps_def Let_def)
qed

lemma fixup_caps_spec_witness:
  "scancode_fixup_caps 0x1E True False = 0x41 \<and> scancode_fixup_caps 0x1E True True = 0x61"
proof -
  have "scancode_map 0x1E = 0x61" by (simp add: scancode_map_def init_value_def scancode_init_def)
  moreover have "(0x1E :: u8) < 0x80" "(0x1E :: u8) \<noteq> 0x17" by simp_all
  ultimately show ?thesis
    using fixup_caps_spec [of "0x1E" True False] fixup_caps_spec [of "0x1E" True True] by (simp add: is_lower_def)
qed

section \<open>Keys and terminals\<close>

lemma same_dev_buffer_key: "buffer_key c (t, st) = Some (t1, st1) \<Longrightarrow> same_dev t t1"
  by (auto simp: buffer_key_def bind_eq_Some_conv Let_def dest!: same_dev_puts split: if_splits)
    (simp_all add: same_dev_def)

lemma same_dev_plain_key: "plain_key p c (t, st) = Some (t1, st1) \<Longrightarrow> same_dev t t1"
  by (auto simp: plain_key_def bind_eq_Some_conv dest!: same_dev_puts same_dev_buffer_key split: if_splits)

lemma same_dev_keyboard: "tty_foreground_keyboard p c ctrl alt (t, st) = Some (t1, st1) \<Longrightarrow> same_dev t t1"
  by (auto simp: tty_foreground_keyboard_def Let_def dest!: same_dev_plain_key split: if_splits)

definition consoles_ok :: "ttyst \<Rightarrow> bool" where
  "consoles_ok y \<longleftrightarrow> ttys_ok y \<and> vidmaps_ok y"

lemma foreground_key_ok:
  assumes "consoles_ok y" and "foreground_key c ctrl alt y = Some y1"
  shows "consoles_ok y1"
proof (cases "y_foreground y = y_early y")
  case True
  with assms show ?thesis by (simp add: foreground_key_def)
next
  case False
  let ?f = "y_foreground y"
  let ?op = "\<lambda>(t, st). do { (t1, st1) \<leftarrow> tty_foreground_keyboard ?f c ctrl alt (t, st); Some ((), t1, st1) }"
  have ok: "ttys_ok y" "vidmaps_ok y" "live y ?f"
    using assms(1) ttys_okD(3) [of y] False by (auto simp: consoles_ok_def)
  from assms(2) False have "on_tty ?f ?op y = Some ((), y1)"
    by (auto simp: foreground_key_def Let_def bind_eq_Some_conv)
  from on_tty_ok [OF ok this] show ?thesis
    by (auto simp: consoles_ok_def bind_eq_Some_conv intro: same_dev_keyboard)
qed

lemma foreground_keys_ok: "foreground_keys cs y = Some y1 \<Longrightarrow> consoles_ok y \<Longrightarrow> consoles_ok y1"
  by (induction cs arbitrary: y) (auto simp: bind_eq_Some_conv dest: foreground_key_ok)

lemma switch_ok:
  assumes "consoles_ok y" and "grants_ok sp y" and "sp_save sp \<noteq> None" and "dev \<noteq> TTY_CURRENT"
    and "tty_switch_foreground dev sp y = Some y1"
  shows "consoles_ok y1"
  using tty_switch_foreground_ok [of y sp dev] assms by (auto simp: consoles_ok_def)

lemma function_device: "MKDEV TTY_MAJOR (ucast (m :: u8) - ucast DO_F1 + 1) \<noteq> TTY_CURRENT" if "DO_F1 \<le> m" "m \<le> DO_F12"
proof -
  have "unat m \<in> {129, 130, 131, 132, 133, 134, 135, 136, 137, 138, 139, 140}"
    using that unfolding DO_F1_def DO_F12_def word_le_nat_alt by simp arith
  then have "m \<in> {129, 130, 131, 132, 133, 134, 135, 136, 137, 138, 139, 140}"
    by (simp add: word_unat_eq_iff)
  then show ?thesis by (auto simp: MKDEV_def TTY_MAJOR_def TTY_CURRENT_def DO_F1_def)
qed

lemma console_not_current: "TTY_CONSOLE \<noteq> TTY_CURRENT"
  by (simp add: TTY_CURRENT_def TTY_CONSOLE_def MKDEV_def)

lemma do_function_ok:
  assumes "consoles_ok y" and "grants_ok sp y" and "sp_save sp \<noteq> None" and "do_function m k sp y = Some (b, y1)"
  shows "consoles_ok y1 \<and> (\<not> b \<longrightarrow> y1 = y)"
  using assms(4) switch_ok [OF assms(1-3)] switch_ok [OF assms(1-3) console_not_current] function_device foreground_keys_ok [OF _ assms(1)] assms(1)
  by (auto simp: do_function_def bind_eq_Some_conv console_not_current simp del: foreground_keys.simps split: if_splits)

lemma handle_code_ok:
  assumes "consoles_ok y" and "grants_ok sp y" and "sp_save sp \<noteq> None" and "handle_code c sp (k, y) = Some (k1, y1)"
  shows "consoles_ok y1"
proof -
  have "consoles_ok y2" if "press_key c sp (k, y) = Some (k2, y2)" for k2 y2
    using that do_function_ok [OF assms(1-3)] foreground_key_ok assms(1)
    by (auto simp: press_key_def Let_def bind_eq_Some_conv split: if_splits) blast+
  then show ?thesis using assms(1,4) by (auto simp: handle_code_def split: if_splits)
qed

section \<open>Runs\<close>

text \<open>
  The steps that touch the terminals, with the state of the keyboard: a code arrives, text is written, a
  terminal is opened by its device, and a reference other than the foreground's is given back.
\<close>

inductive console_step :: "keyboard \<times> ttyst \<Rightarrow> keyboard \<times> ttyst \<Rightarrow> bool" where
  Code: "grants_ok sp y \<Longrightarrow> sp_save sp \<noteq> None \<Longrightarrow> handle_code c sp (k, y) = Some s \<Longrightarrow> console_step (k, y) s"
| Write: "live y p \<Longrightarrow> tty_write p buf y = Some (n, y1) \<Longrightarrow> console_step (k, y) (k, y1)"
| Get: "fresh_tty new p y \<Longrightarrow> dev \<noteq> TTY_CURRENT \<Longrightarrow> tty_get dev new p y = Some (r, y1) \<Longrightarrow> console_step (k, y) (k, y1)"
| Put: "live y p \<Longrightarrow> p \<noteq> y_foreground y \<or> tt_refcount (the (y_ttys y p)) \<ge> 2 \<Longrightarrow> tty_put p y = Some y1 \<Longrightarrow>
    console_step (k, y) (k, y1)"

inductive console_run :: "keyboard \<times> ttyst \<Rightarrow> keyboard \<times> ttyst \<Rightarrow> bool" where
  Start: "console_run s s"
| Step: "console_run s s1 \<Longrightarrow> console_step s1 s2 \<Longrightarrow> console_run s s2"

inductive_cases console_stepE: "console_step (k, y) s"

lemma kst_ok: "consoles_ok y \<Longrightarrow> consoles_ok (y\<lparr>y_kst := st\<rparr>)"
  by (simp add: consoles_ok_def ttys_ok_def vidmaps_ok_def live_def contents_def)

lemma console_step_ok:
  assumes "console_step s s1" and "consoles_ok (snd s)"
  shows "consoles_ok (snd s1)"
  using assms
proof (induction rule: console_step.induct)
  case (Code sp y c k s)
  then show ?case using handle_code_ok [of y sp c k "fst s" "snd s"] by simp
next
  case (Write y p buf n y1 k)
  then show ?case using tty_write_ok [of y p buf n y1] by (simp add: consoles_ok_def)
next
  case (Get new p y dev r y1 k)
  then have "case r of Inl e \<Rightarrow> \<exists>st. y1 = y\<lparr>y_kst := st\<rparr>
      | Inr q \<Rightarrow> got y (if dev = TTY_CONSOLE then MKDEV TTY_MAJOR 0 else dev) new q y1"
    using tty_get_ok [of y new p dev] by (auto simp: consoles_ok_def)
  with Get.prems kst_ok [of y] show ?case by (auto simp: got_def consoles_ok_def split: sum.splits)
next
  case (Put y p y1 k)
  then show ?case using tty_put_ok [of y p] by (auto simp: consoles_ok_def)
qed

text \<open>C35: In every run of key presses, writes, opens and closes from a state where it holds: each terminal keeps an
  allocated page of its own, the terminal in the foreground (and no other) is on the adapter's memory, every
  terminal in the list is held by someone, and every program that has a terminal mapped is shown that terminal.\<close>

theorem consoles_stay_ok:
  assumes "console_run s s1" and "consoles_ok (snd s)"
  shows "consoles_ok (snd s1)"
  using assms by (induction rule: console_run.induct) (auto dest: console_step_ok)

definition no_keys :: keyboard where
  "no_keys = \<lparr>has_shift = False, has_ctrl = False, has_alt = False, has_caps = False\<rparr>"

lemma sample_steps:
  "console_step (no_keys, sample_ttys) (no_keys\<lparr>has_shift := True\<rparr>, sample_ttys)"
  "console_step (k, sample_ttys) (k, drop_tty 128 sample_ttys)"
proof -
  have "handle_code LSHIFT sample_grants (no_keys, sample_ttys) = Some (no_keys\<lparr>has_shift := True\<rparr>, sample_ttys)"
    by (simp add: handle_code_def LSHIFT_def)
  then show "console_step (no_keys, sample_ttys) (no_keys\<lparr>has_shift := True\<rparr>, sample_ttys)"
    using Code [OF sample_grants_ok] by (simp add: sample_grants_def)
  have "tty_put 128 sample_ttys = Some (drop_tty 128 sample_ttys)"
    by (simp add: tty_put_def sample_ttys_def new_tty_def)
  moreover have "(128 :: ptr) \<noteq> y_foreground sample_ttys" by (simp add: sample_ttys_def)
  ultimately show "console_step (k, sample_ttys) (k, drop_tty 128 sample_ttys)"
    using Put [of sample_ttys 128 "drop_tty 128 sample_ttys" k] sample_live by simp
qed

lemma consoles_stay_ok_witness:
  "consoles_ok (drop_tty 128 sample_ttys) \<and> y_ttys (drop_tty 128 sample_ttys) 128 = None"
proof -
  have "console_run (no_keys, sample_ttys) (no_keys\<lparr>has_shift := True\<rparr>, drop_tty 128 sample_ttys)"
    using Step [OF Step [OF Start sample_steps(1)] sample_steps(2)] .
  moreover have "consoles_ok (snd (no_keys, sample_ttys))"
    using sample_ttys_ok sample_vidmaps_ok by (simp add: consoles_ok_def)
  ultimately have "consoles_ok (snd (no_keys\<lparr>has_shift := True\<rparr>, drop_tty 128 sample_ttys))"
    by (rule consoles_stay_ok)
  then show ?thesis by (simp add: drop_tty_def)
qed

end
