(* ===== verification/Spec2Isabelle.thy ===== *)
theory Spec2Isabelle
  imports Exec Poll Ata Printf Ece391fs Mutex Lifecycle Cow Keyboard
begin

text \<open>
  A model of the kernel in \<open>src/src\<close>: a small Unix for a 32-bit PC with one processor, written in C.

  How the parts interact.  Every queue of the kernel is the doubly linked list of \<open>structure/list.c\<close>; descriptor
  tables and pending signals are growing arrays (\<open>structure/array.c\<close>); both take their nodes and blocks from the
  kernel heap.  A system call looks its descriptor up in the table of the task, checks the user's pointers against
  the page tables and calls an operation of the file, which belongs to a file system or a driver.  Opening a file
  resolves a path through the mount table and inodes.  Tasks give up the processor only in \<open>schedule\<close>; interrupt
  handlers (clock, keyboard, network) wake them.  Signals are delivered on the way back to user space: a handler runs
  on a frame the kernel pushes on the user's stack.  The clock interrupt drives the time since the start, sleeping
  tasks and the clock device.

  The theories, with the files of the source they translate:

  \<^item> \<open>Prelude\<close>: words, error numbers (\<open>errno.h\<close>), error pointers (\<open>err.h\<close>), outcomes of code that can fault, and
    the lemmas on words and lists the others share.
  \<^item> \<open>KList\<close>: \<open>structure/list.c\<close>, \<open>list.h\<close> on a heap of nodes, pointer by pointer; \<open>klist_rel\<close> relates a heap to
    the list it represents, and every operation refines one on lists.  The locales \<open>kqueue\<close> and \<open>kdeque\<close> are the
    interface, interpreted on the heap model.  Later theories work with the lists.
  \<^item> \<open>KArray\<close>: \<open>structure/array.c\<close>, \<open>lib/bsr.h\<close>; locale \<open>slot_table\<close>, interpreted on the array.
  \<^item> \<open>Strings\<close>: \<open>lib/string.c\<close>, \<open>lib/stdlib.c\<close> on a flat memory, with the aligned fast paths of the inline assembly.
  \<^item> \<open>Paths\<close>: \<open>vfs/path.c\<close>, \<open>vfs/mount.c\<close>.
  \<^item> \<open>Files\<close>: \<open>vfs/file.c\<close>, \<open>vfs/device.c\<close>, \<open>vfs/superblock.c\<close>; locale \<open>file_system\<close> says what opening by path
    relies on.
  \<^item> \<open>Ustar\<close>: \<open>fs/ustar.c\<close>, which is proved to keep the promises of \<open>file_system\<close>.
  \<^item> \<open>FdTable\<close>: \<open>vfs/filesyscall.c\<close>, \<open>vfs/readdir.c\<close>.
  \<^item> \<open>Sched\<close>: \<open>task/task.c\<close>, \<open>task/sched.c\<close>, \<open>task/session.c\<close>, process numbers; runs of the scheduler are an
    inductive step relation.
  \<^item> \<open>Signals\<close>: \<open>task/signal.c\<close>, \<open>task/userstack.c\<close>.  \<open>Mutex\<close>: \<open>mutex.c\<close>.  \<open>Lifecycle\<close>: \<open>task/exit.c\<close>, \<open>task/clone.c\<close>.
  \<^item> \<open>Paging\<close>, \<open>Cow\<close>: \<open>mm/paging.c\<close>, \<open>mm/brk.c\<close>.
  \<^item> \<open>Terminal\<close>: the emulator and the line discipline of \<open>char/tty.c\<close>.  \<open>TtyDev\<close>: its table of terminals, their
    devices, requests, switching and mapped screens.  \<open>Keyboard\<close>: \<open>drivers/keyboard.c\<close>.
  \<^item> \<open>Clock\<close>: \<open>time/sleep.c\<close>, \<open>time/clock.c\<close>, \<open>time/uptime.c\<close>, \<open>drivers/rtc.c\<close>, \<open>char/rtc.c\<close>.
  \<^item> \<open>Packet\<close>, \<open>Socket\<close>: \<open>net/\<close>, the headers and the paths of packets, then sockets.
  \<^item> \<open>Poll\<close>: \<open>vfs/poll.c\<close>; locale \<open>pollable\<close>, interpreted on terminals and sockets.
  \<^item> \<open>Ece391fs\<close>: \<open>fs/ece391fs.c\<close> on the memory disk of \<open>block/initrd.c\<close>.  \<open>Ata\<close>: \<open>block/ata.c\<close>.
  \<^item> \<open>Exec\<close>: \<open>task/exec.c\<close>, \<open>task/ece391exec_shim.c\<close>.
  \<^item> \<open>Printf\<close>: \<open>lib/stdio.c\<close>, \<open>printk.c\<close>.

  How the state is modelled.  Machine integers are words of their width; a C pointer is a 32-bit word and an object
  lives in a map from addresses.  A function that can return an error returns the negated error number in a sum or as
  the code's integer.  A result of \<open>None\<close> (or an outcome other than \<open>Done\<close>) is a behaviour the code has no defined
  result for: an access through a null, freed or wild pointer, a failed \<open>BUG\<close> or \<open>panic\<close>, or a loop that does not
  end.  Code that waits is cut at the calls of \<open>schedule\<close>: one definition per round of its loop.  Allocation is part
  of the state or an argument (answers of \<open>kmalloc\<close>, addresses it returns), so every failure path is modelled.
  Function pointers of file systems and drivers are arguments.

  Bounds and fuel.  No definition takes fuel.  Loops are structural or carry a termination proof (the distance to the
  end of a buffer, the bytes still to be read, the sectors left); a loop that may not end is a
  \<open>partial_function (option)\<close>, and the theorems then show that it returns.  Loops of a driver over what the hardware
  answers recurse over the list of answers, and end in \<open>None\<close> where the code would wait for ever.

  What the lemmas show.  Lists, arrays and strings implement their abstract counterparts; paths are normalised,
  printed and parsed back; reference counts of inodes, mounts and open files stay balanced through opening, closing
  and duplicating; process numbers stay distinct; woken tasks run; signal frames round-trip; a mutex is exclusive;
  address spaces are isolated after cloning; the check of user buffers is exact; text appears on the screen, switching
  terminals loses none of it, and a typed line reaches its reader as it was edited; the calendar formula counts days,
  time goes forward and no sleep is too short; a datagram that is sent arrives; reading a file or a disk gives its
  bytes, however they are spread over blocks and caches; polling returns what it took; formatting returns exactly when
  the text fits; a program that is started finds its segments, arguments and environment.  Some theorems show where the code fails: the manifest lists these findings with their lines.

  Not modelled: assembly entry points and descriptor tables, port input and output of the drivers (what the hardware
  answers is an argument where the logic around it is modelled), the heap of \<open>liballoc\<close> (vendored), start-up code,
  the debugging shell and the tests.  \<open>schedule\<close> switches between tasks at once: interrupts that arrive between two
  statements of a system call are modelled as steps between its rounds.
\<close>

end
